(* ===== verification/Circuit_Breaker.thy ===== *)
theory Circuit_Breaker
  imports Prelude
begin

section \<open>The circuit breaker\<close>

text \<open>
  Models \<^verbatim>\<open>catcher-http/src/resilience/circuit_breaker.rs\<close> and the breaker's configuration
  in \<^verbatim>\<open>catcher-core/src/types/resilience.rs\<close>.  \<open>before_request\<close>, \<open>on_success\<close> and
  \<open>on_failure\<close> hold the state mutex from entry to exit, so each is one atomic step; \<open>reset\<close> is
  four stores; the clock (\<open>now_millis\<close>) is an argument.  A history is a list of calls.
\<close>

subsection \<open>State and configuration\<close>

datatype cb_state = Closed | Open | HalfOpen

record circuit_breaker_config =
  failure_threshold :: u32
  success_threshold :: u32
  reset_timeout_ms :: u64
  half_open_max_requests :: u32

definition default_circuit_breaker_config :: circuit_breaker_config where
  "default_circuit_breaker_config =
     \<lparr>failure_threshold = 5, success_threshold = 2, reset_timeout_ms = 30000,
      half_open_max_requests = 5\<rparr>"

record circuit_breaker =
  cb_config :: circuit_breaker_config
  cb_st :: cb_state
  failure_count :: u32
  success_count :: u32
  opened_at_ms :: u64
  half_open_requests :: u32

definition cb_new :: "circuit_breaker_config \<Rightarrow> circuit_breaker" where
  "cb_new cfg =
     \<lparr>cb_config = cfg, cb_st = Closed, failure_count = 0, success_count = 0,
      opened_at_ms = 0, half_open_requests = 0\<rparr>"

subsection \<open>Operations\<close>

text \<open>\<open>before_request\<close> returns whether the request is admitted (\<open>Ok\<close>); the other
  outcome is \<open>Err CircuitBreakerOpen\<close>.  The subtraction \<open>now - opened_at\<close> wraps.\<close>

definition before_request :: "u64 \<Rightarrow> circuit_breaker \<Rightarrow> bool \<times> circuit_breaker" where
  "before_request now_ms cb =
     (case cb_st cb of
        Closed \<Rightarrow> (True, cb)
      | Open \<Rightarrow>
          (if reset_timeout_ms (cb_config cb) \<le> now_ms - opened_at_ms cb
           then (True, cb\<lparr>cb_st := HalfOpen, half_open_requests := 0, success_count := 0\<rparr>)
           else (False, cb))
      | HalfOpen \<Rightarrow>
          (let count = half_open_requests cb;
               cb' = cb\<lparr>half_open_requests := count + 1\<rparr>
           in if half_open_max_requests (cb_config cb) \<le> count then (False, cb') else (True, cb')))"

definition on_success :: "circuit_breaker \<Rightarrow> circuit_breaker" where
  "on_success cb =
     (case cb_st cb of
        Closed \<Rightarrow> cb\<lparr>failure_count := 0\<rparr>
      | HalfOpen \<Rightarrow>
          (let count = success_count cb + 1
           in if success_threshold (cb_config cb) \<le> count
              then cb\<lparr>cb_st := Closed, failure_count := 0, success_count := 0\<rparr>
              else cb\<lparr>success_count := count\<rparr>)
      | Open \<Rightarrow> cb)"

definition on_failure :: "u64 \<Rightarrow> circuit_breaker \<Rightarrow> circuit_breaker" where
  "on_failure now_ms cb =
     (case cb_st cb of
        Closed \<Rightarrow>
          (let count = failure_count cb + 1
           in if failure_threshold (cb_config cb) \<le> count
              then cb\<lparr>failure_count := count, cb_st := Open, opened_at_ms := now_ms\<rparr>
              else cb\<lparr>failure_count := count\<rparr>)
      | HalfOpen \<Rightarrow> cb\<lparr>cb_st := Open, opened_at_ms := now_ms, success_count := 0\<rparr>
      | Open \<Rightarrow> cb)"

text \<open>
  \<open>reset\<close> holds the state's lock only while it writes the state; the counters are three stores after
  it.  \<open>cb_reset\<close> is the reset nothing comes between; \<^verbatim>\<open>Transport_Races\<close> interleaves its stores.
\<close>

datatype reset_store = StoreState | StoreFailures | StoreSuccesses | StoreProbes

fun cb_store :: "reset_store \<Rightarrow> circuit_breaker \<Rightarrow> circuit_breaker" where
  "cb_store StoreState cb = cb\<lparr>cb_st := Closed\<rparr>"
| "cb_store StoreFailures cb = cb\<lparr>failure_count := 0\<rparr>"
| "cb_store StoreSuccesses cb = cb\<lparr>success_count := 0\<rparr>"
| "cb_store StoreProbes cb = cb\<lparr>half_open_requests := 0\<rparr>"

definition reset_stores :: "reset_store list" where
  "reset_stores = [StoreState, StoreFailures, StoreSuccesses, StoreProbes]"

definition cb_reset :: "circuit_breaker \<Rightarrow> circuit_breaker" where
  "cb_reset cb = fold cb_store reset_stores cb"

lemma cb_reset_eq:
  "cb_reset cb =
     cb\<lparr>cb_st := Closed, failure_count := 0, success_count := 0, half_open_requests := 0\<rparr>"
  by (simp add: cb_reset_def reset_stores_def)

text \<open>A call on the breaker, with the clock value it reads, and a history of calls.\<close>

datatype cb_call = Before u64 | Success | Failure u64 | Reset

fun cb_step :: "cb_call \<Rightarrow> circuit_breaker \<Rightarrow> circuit_breaker" where
  "cb_step (Before t) cb = snd (before_request t cb)"
| "cb_step Success cb = on_success cb"
| "cb_step (Failure t) cb = on_failure t cb"
| "cb_step Reset cb = cb_reset cb"

fun cb_run :: "cb_call list \<Rightarrow> circuit_breaker \<Rightarrow> circuit_breaker" where
  "cb_run [] cb = cb"
| "cb_run (c # cs) cb = cb_run cs (cb_step c cb)"

text \<open>How many requests a history admits.\<close>

fun admitted :: "cb_call list \<Rightarrow> circuit_breaker \<Rightarrow> nat" where
  "admitted [] cb = 0"
| "admitted (c # cs) cb =
     (case c of Before t \<Rightarrow> (if fst (before_request t cb) then 1 else 0) | _ \<Rightarrow> 0)
     + admitted cs (cb_step c cb)"

lemmas cb_ops = before_request_def on_success_def on_failure_def cb_reset_eq Let_def

lemma cb_run_append: "cb_run (xs @ ys) cb = cb_run ys (cb_run xs cb)"
  by (induction xs arbitrary: cb) auto

lemma cb_step_config [simp]: "cb_config (cb_step c cb) = cb_config cb"
  by (cases c) (auto simp: cb_ops split: cb_state.splits)

lemma cb_run_config [simp]: "cb_config (cb_run cs cb) = cb_config cb"
  by (induction cs arbitrary: cb) auto


lemma admitted_append: "admitted (xs @ ys) cb = admitted xs cb + admitted ys (cb_run xs cb)"
  by (induction xs arbitrary: cb) auto

subsection \<open>The invariant\<close>

text \<open>
  While closed, the failure counter is below the threshold (or 0 where the threshold is 0);
  while half-open the same holds of the success counter.  So neither counter wraps.
\<close>

definition cb_inv :: "circuit_breaker \<Rightarrow> bool" where
  "cb_inv cb \<longleftrightarrow>
     (cb_st cb = Closed \<longrightarrow>
        failure_count cb = 0 \<or> failure_count cb < failure_threshold (cb_config cb)) \<and>
     (cb_st cb = HalfOpen \<longrightarrow>
        success_count cb = 0 \<or> success_count cb < success_threshold (cb_config cb))"

lemma cb_inv_new: "cb_inv (cb_new cfg)"
  by (simp add: cb_inv_def cb_new_def)

lemma cb_inv_step: "cb_inv cb \<Longrightarrow> cb_inv (cb_step c cb)"
  by (cases c) (auto simp: cb_inv_def cb_ops split: cb_state.splits)

lemma cb_inv_run: "cb_inv cb \<Longrightarrow> cb_inv (cb_run cs cb)"
  by (induction cs arbitrary: cb) (auto simp: cb_inv_step)

lemma failure_count_step:
  assumes "cb_inv cb" and "cb_st cb = Closed"
  shows "unat (failure_count cb + 1) = Suc (unat (failure_count cb))"
proof (cases "failure_count cb = 0")
  case False
  with assms show ?thesis by (auto simp: cb_inv_def intro: unat_plus_one_less)
qed simp

lemma success_count_step:
  assumes "cb_inv cb" and "cb_st cb = HalfOpen"
  shows "unat (success_count cb + 1) = Suc (unat (success_count cb))"
proof (cases "success_count cb = 0")
  case False
  with assms show ?thesis by (auto simp: cb_inv_def intro: unat_plus_one_less)
qed simp

subsection \<open>Closed: tripping\<close>

text \<open>\<open>opens cs cb\<close>: the breaker is open after some non-empty prefix of the history.\<close>

fun opens :: "cb_call list \<Rightarrow> circuit_breaker \<Rightarrow> bool" where
  "opens [] cb = False"
| "opens (c # cs) cb = (cb_st (cb_step c cb) = Open \<or> opens cs (cb_step c cb))"

fun clears :: "cb_call \<Rightarrow> bool" where
  "clears Success = True"
| "clears Reset = True"
| "clears (Before _) = False"
| "clears (Failure _) = False"

fun is_failure :: "cb_call \<Rightarrow> bool" where
  "is_failure (Failure _) = True"
| "is_failure _ = False"

fun failure_streak :: "nat \<Rightarrow> nat \<Rightarrow> cb_call list \<Rightarrow> bool" where
  "failure_streak k n [] = False"
| "failure_streak k n (c # cs) =
     (if is_failure c then k \<le> Suc n \<or> failure_streak k (Suc n) cs
      else failure_streak k (if clears c then 0 else n) cs)"

lemma opens_iff_streak:
  assumes "cb_inv cb" and "cb_st cb = Closed"
  shows "opens cs cb \<longleftrightarrow>
    failure_streak (unat (failure_threshold (cb_config cb))) (unat (failure_count cb)) cs"
  using assms
proof (induction cs arbitrary: cb)
  case Nil
  then show ?case by simp
next
  case (Cons c cs)
  have inv: "cb_inv (cb_step c cb)" by (rule cb_inv_step) (rule Cons.prems)
  show ?case
  proof (cases "cb_st (cb_step c cb) = Closed")
    case True
    have "opens cs (cb_step c cb) \<longleftrightarrow>
      failure_streak (unat (failure_threshold (cb_config cb)))
        (unat (failure_count (cb_step c cb))) cs"
      using Cons.IH [OF inv True] by simp
    with True Cons.prems failure_count_step [OF Cons.prems] show ?thesis
      by (cases c) (auto simp: cb_ops word_le_nat_alt split: if_splits)
  next
    case False
    with Cons.prems failure_count_step [OF Cons.prems] show ?thesis
      by (cases c) (auto simp: cb_ops word_le_nat_alt split: if_splits)
  qed
qed

text \<open>
  The declarative form: a stretch \<open>mid\<close> of the history with no call that clears the counter and
  at least \<open>k\<close> failures in it (at least one, so that a threshold of 0 behaves as 1).
\<close>

definition streak :: "nat \<Rightarrow> nat \<Rightarrow> cb_call list \<Rightarrow> bool" where
  "streak k n mid \<longleftrightarrow>
     (\<forall>c \<in> set mid. \<not> clears c) \<and>
     0 < length (filter is_failure mid) \<and> k \<le> n + length (filter is_failure mid)"

definition streak_first :: "nat \<Rightarrow> nat \<Rightarrow> cb_call list \<Rightarrow> bool" where
  "streak_first k n cs \<longleftrightarrow> (\<exists>mid post. cs = mid @ post \<and> streak k n mid)"

definition streak_any :: "nat \<Rightarrow> cb_call list \<Rightarrow> bool" where
  "streak_any k cs \<longleftrightarrow> (\<exists>pre mid post. cs = pre @ mid @ post \<and> streak k 0 mid)"

lemma streak_first_Nil [simp]: "\<not> streak_first k n []"
  by (simp add: streak_first_def streak_def)

lemma streak_first_failure:
  assumes "is_failure c"
  shows "streak_first k n (c # cs) \<longleftrightarrow> k \<le> Suc n \<or> streak_first k (Suc n) cs"
proof
  assume "streak_first k n (c # cs)"
  then obtain mid post where eq: "c # cs = mid @ post" and st: "streak k n mid"
    by (auto simp: streak_first_def)
  from st obtain mid' where mid: "mid = c # mid'"
    using eq by (cases mid) (auto simp: streak_def)
  show "k \<le> Suc n \<or> streak_first k (Suc n) cs"
  proof (cases "filter is_failure mid' = []")
    case True
    with st mid assms show ?thesis by (auto simp: streak_def)
  next
    case False
    with st mid assms have "streak k (Suc n) mid'" by (auto simp: streak_def)
    with eq mid show ?thesis by (auto simp: streak_first_def)
  qed
next
  assume "k \<le> Suc n \<or> streak_first k (Suc n) cs"
  then show "streak_first k n (c # cs)"
  proof
    assume "k \<le> Suc n"
    with assms have "streak k n [c]" by (cases c) (auto simp: streak_def)
    then show ?thesis unfolding streak_first_def by (metis append_Cons append_Nil)
  next
    assume "streak_first k (Suc n) cs"
    then obtain mid post where "cs = mid @ post" and "streak k (Suc n) mid"
      by (auto simp: streak_first_def)
    moreover from this(2) assms have "streak k n (c # mid)"
      by (cases c) (auto simp: streak_def)
    ultimately show ?thesis unfolding streak_first_def by (metis append_Cons)
  qed
qed

lemma streak_first_other:
  assumes "\<not> is_failure c"
  shows "streak_first k n (c # cs) \<longleftrightarrow> \<not> clears c \<and> streak_first k n cs"
proof
  assume "streak_first k n (c # cs)"
  then obtain mid post where eq: "c # cs = mid @ post" and st: "streak k n mid"
    by (auto simp: streak_first_def)
  from st obtain mid' where mid: "mid = c # mid'"
    using eq by (cases mid) (auto simp: streak_def)
  with st assms have "\<not> clears c" and "streak k n mid'" by (auto simp: streak_def)
  with eq mid show "\<not> clears c \<and> streak_first k n cs" by (auto simp: streak_first_def)
next
  assume "\<not> clears c \<and> streak_first k n cs"
  then obtain mid post where "\<not> clears c" and "cs = mid @ post" and "streak k n mid"
    by (auto simp: streak_first_def)
  moreover from this assms have "streak k n (c # mid)" by (auto simp: streak_def)
  ultimately show "streak_first k n (c # cs)"
    unfolding streak_first_def by (metis append_Cons)
qed

lemma streak_first_any: "streak_first k 0 cs \<Longrightarrow> streak_any k cs"
proof -
  assume "streak_first k 0 cs"
  then obtain mid post where "cs = [] @ mid @ post" and "streak k 0 mid"
    by (auto simp: streak_first_def)
  then show ?thesis unfolding streak_any_def by blast
qed

lemma streak_any_Cons: "streak_any k (c # cs) \<longleftrightarrow> streak_first k 0 (c # cs) \<or> streak_any k cs"
proof
  assume "streak_any k (c # cs)"
  then obtain pre mid post where eq: "c # cs = pre @ mid @ post" and st: "streak k 0 mid"
    by (auto simp: streak_any_def)
  show "streak_first k 0 (c # cs) \<or> streak_any k cs"
  proof (cases pre)
    case Nil
    with eq have "c # cs = mid @ post" by simp
    with st have "streak_first k 0 (c # cs)" unfolding streak_first_def by blast
    then show ?thesis ..
  next
    case (Cons x xs)
    with eq have "cs = xs @ mid @ post" by simp
    with st have "streak_any k cs" unfolding streak_any_def by blast
    then show ?thesis ..
  qed
next
  assume "streak_first k 0 (c # cs) \<or> streak_any k cs"
  then show "streak_any k (c # cs)"
  proof
    assume "streak_first k 0 (c # cs)"
    then show ?thesis by (rule streak_first_any)
  next
    assume "streak_any k cs"
    then obtain pre mid post where eq: "cs = pre @ mid @ post" and st: "streak k 0 mid"
      by (auto simp: streak_any_def)
    from eq have "c # cs = (c # pre) @ mid @ post" by simp
    with st show ?thesis unfolding streak_any_def by blast
  qed
qed

lemma streak_first_mono: "streak_first k m cs \<Longrightarrow> m \<le> n \<Longrightarrow> streak_first k n cs"
  unfolding streak_first_def streak_def by fastforce

lemma failure_streak_iff:
  "failure_streak k n cs \<longleftrightarrow> streak_first k n cs \<or> streak_any k cs"
proof (induction cs arbitrary: n)
  case Nil
  show ?case by (simp add: streak_any_def streak_def)
next
  case (Cons c cs)
  have any: "streak_first k 0 cs \<longrightarrow> streak_any k cs" using streak_first_any by blast
  show ?case
  proof (cases "is_failure c")
    case True
    have mono: "streak_first k (Suc 0) cs \<longrightarrow> streak_first k (Suc n) cs"
      using streak_first_mono [of k "Suc 0" cs "Suc n"] by simp
    have low: "k \<le> Suc 0 \<longrightarrow> k \<le> Suc n" by simp
    have "failure_streak k n (c # cs) \<longleftrightarrow>
        k \<le> Suc n \<or> streak_first k (Suc n) cs \<or> streak_any k cs"
      using True by (simp only: failure_streak.simps Cons.IH if_True)
    then show ?thesis
      using mono low True unfolding streak_any_Cons streak_first_failure [OF True] by blast
  next
    case False
    have "failure_streak k n (c # cs) \<longleftrightarrow>
        streak_first k (if clears c then 0 else n) cs \<or> streak_any k cs"
      using False by (simp only: failure_streak.simps Cons.IH if_False)
    then show ?thesis
      using any unfolding streak_any_Cons streak_first_other [OF False]
      by (cases "clears c") (simp_all only: if_True if_False simp_thms, blast+)
  qed
qed

lemma failure_streak_any: "failure_streak k 0 cs \<longleftrightarrow> streak_any k cs"
  using failure_streak_iff [of k 0 cs] streak_first_any [of k cs] by blast

subsection \<open>Open: rejecting, and the clock\<close>

definition cb_call_time :: "cb_call \<Rightarrow> u64 option" where
  "cb_call_time c = (case c of Before t \<Rightarrow> Some t | Failure t \<Rightarrow> Some t | _ \<Rightarrow> None)"

text \<open>\<open>within_open cb c\<close>: the call is no reset and reads a clock in the open period.\<close>

definition within_open :: "circuit_breaker \<Rightarrow> cb_call \<Rightarrow> bool" where
  "within_open cb c \<longleftrightarrow> c \<noteq> Reset \<and>
     (case c of Before t \<Rightarrow> unat (opened_at_ms cb) \<le> unat t \<and>
        unat t < unat (opened_at_ms cb) + unat (reset_timeout_ms (cb_config cb)) | _ \<Rightarrow> True)"

lemma elapsed_unat: "unat o' \<le> unat (t::u64) \<Longrightarrow> unat (t - o') = unat t - unat o'"
  by (simp add: unat_sub word_le_nat_alt)

lemma elapsed_wraps: "unat t < unat (o'::u64) \<Longrightarrow> unat (t - o') = 2 ^ 64 - (unat o' - unat t)"
  using unat_sub_if_size [of t o'] unsigned_less [of o'] by (auto simp: word_size)

lemma within_open_step:
  assumes "cb_st cb = Open" and "within_open cb c"
  shows "cb_step c cb = cb"
    and "admitted [c] cb = 0"
  using assms
  by (cases c; auto simp: cb_ops within_open_def word_le_nat_alt elapsed_unat)+

lemma open_run:
  assumes "cb_st cb = Open" and "\<forall>c \<in> set cs. within_open cb c"
  shows "cb_run cs cb = cb \<and> admitted cs cb = 0"
  using assms
proof (induction cs)
  case (Cons c cs)
  with within_open_step [of cb c] show ?case by auto
qed simp

subsection \<open>Half-open: probes\<close>

definition half_open_probes :: "u64 list \<Rightarrow> cb_call list" where
  "half_open_probes ts = map Before ts"

lemma half_open_run:
  assumes "cb_st cb = HalfOpen"
    and "unat (half_open_requests cb) + length ts < 2 ^ 32"
  shows "cb_st (cb_run (half_open_probes ts) cb) = HalfOpen \<and>
    unat (half_open_requests (cb_run (half_open_probes ts) cb))
      = unat (half_open_requests cb) + length ts \<and>
    admitted (half_open_probes ts) cb =
      min (length ts)
        (unat (half_open_max_requests (cb_config cb)) - unat (half_open_requests cb))"
  using assms
proof (induction ts arbitrary: cb)
  case Nil
  then show ?case by (simp add: half_open_probes_def)
next
  case (Cons t ts)
  define cb' where "cb' = snd (before_request t cb)"
  have st: "cb_st cb' = HalfOpen"
    using Cons.prems by (simp add: cb'_def cb_ops)
  have cnt: "unat (half_open_requests cb') = Suc (unat (half_open_requests cb))"
    using Cons.prems by (simp add: cb'_def cb_ops unat_plus_one)
  have adm: "fst (before_request t cb) \<longleftrightarrow>
      unat (half_open_requests cb) < unat (half_open_max_requests (cb_config cb))"
    using Cons.prems by (auto simp: cb_ops word_le_nat_alt)
  have cfg: "cb_config cb' = cb_config cb" using cb_step_config [of "Before t" cb] by (simp add: cb'_def)
  from Cons.IH [of cb'] st cnt Cons.prems cfg show ?case
    by (auto simp: half_open_probes_def adm simp flip: cb'_def)
qed

lemma half_open_success_run:
  assumes "cb_inv cb" and "cb_st cb = HalfOpen"
    and "unat (success_count cb) + n < unat (success_threshold (cb_config cb))"
  shows "cb_st (cb_run (replicate n Success) cb) = HalfOpen \<and>
    unat (success_count (cb_run (replicate n Success) cb)) = unat (success_count cb) + n"
  using assms
proof (induction n arbitrary: cb)
  case (Suc n)
  have sc: "unat (success_count cb + 1) = Suc (unat (success_count cb))"
    using Suc.prems by (intro success_count_step)
  then have "\<not> success_threshold (cb_config cb) \<le> success_count cb + 1"
    using Suc.prems by (simp add: word_le_nat_alt)
  then have step: "cb_st (on_success cb) = HalfOpen"
    "success_count (on_success cb) = success_count cb + 1"
    "cb_config (on_success cb) = cb_config cb"
    using Suc.prems by (simp_all add: cb_ops)
  have inv: "cb_inv (on_success cb)" using cb_inv_step [of cb Success] Suc.prems by simp
  from Suc.IH [of "on_success cb"] step sc Suc.prems inv show ?case by simp
qed simp

subsection \<open>Properties\<close>

lemma on_success_last:
  assumes "cb_inv cb" and "cb_st cb = HalfOpen"
    and "unat (success_threshold (cb_config cb)) \<le> Suc (unat (success_count cb))"
  shows "cb_st (on_success cb) = Closed \<and> failure_count (on_success cb) = 0"
  using assms success_count_step [OF assms(1,2)] by (simp add: cb_ops word_le_nat_alt)

lemma half_open_closes:
  assumes "cb_inv cb" and "cb_st cb = HalfOpen" and "success_count cb = 0"
  defines "k \<equiv> max 1 (unat (success_threshold (cb_config cb)))"
  shows "n < k \<Longrightarrow> cb_st (cb_run (replicate n Success) cb) = HalfOpen"
    and "cb_st (cb_run (replicate k Success) cb) = Closed \<and>
      failure_count (cb_run (replicate k Success) cb) = 0"
proof -
  show first: "cb_st (cb_run (replicate n Success) cb) = HalfOpen" if "n < k" for n
  proof (cases n)
    case (Suc m)
    with that have "n < unat (success_threshold (cb_config cb))" by (simp add: k_def)
    with half_open_success_run [of cb n] assms show ?thesis by simp
  qed (use assms in simp)
  define cb' where "cb' = cb_run (replicate (k - 1) Success) cb"
  have k: "replicate k Success = replicate (k - 1) Success @ [Success]"
  proof -
    have "k = Suc (k - 1)" by (simp add: k_def)
    then show ?thesis by (metis replicate_Suc replicate_append_same)
  qed
  have "cb_st cb' = HalfOpen" unfolding cb'_def by (rule first) (simp add: k_def)
  moreover have "cb_inv cb'" unfolding cb'_def using assms by (intro cb_inv_run)
  moreover have "unat (success_threshold (cb_config cb')) \<le> Suc (unat (success_count cb'))"
  proof (cases "success_threshold (cb_config cb) = 0")
    case True
    then show ?thesis by (simp add: cb'_def)
  next
    case False
    then have "0 < unat (success_threshold (cb_config cb))" by (simp add: unat_gt_0)
    with half_open_success_run [of cb "k - 1"] assms show ?thesis
      by (simp add: cb'_def k_def max_def split: if_splits)
  qed
  ultimately show "cb_st (cb_run (replicate k Success) cb) = Closed \<and>
      failure_count (cb_run (replicate k Success) cb) = 0"
    using on_success_last [of cb'] by (simp add: k cb_run_append cb'_def)
qed

lemma before_request_elapsed:
  assumes "cb_st cb = Open" and "reset_timeout_ms (cb_config cb) \<le> t - opened_at_ms cb"
  shows "before_request t cb =
    (True, cb\<lparr>cb_st := HalfOpen, half_open_requests := 0, success_count := 0\<rparr>)"
  using assms by (simp add: cb_ops)

text \<open>
  C1. From a new breaker, a history of calls opens it exactly when it has a stretch of
  \<open>failure_threshold\<close> failures (at least one) with no success and no reset in between.
\<close>

theorem breaker_trips_iff_streak:
  "opens cs (cb_new cfg) \<longleftrightarrow>
     (\<exists>pre mid post. cs = pre @ mid @ post \<and> streak (unat (failure_threshold cfg)) 0 mid)"
proof -
  have "opens cs (cb_new cfg) \<longleftrightarrow> failure_streak (unat (failure_threshold cfg)) 0 cs"
    using opens_iff_streak [OF cb_inv_new, of cfg cs] by (simp add: cb_new_def)
  then show ?thesis by (simp add: failure_streak_any streak_any_def)
qed

text \<open>
  An open breaker ignores every call made before its reset timeout has elapsed: no request
  is admitted and the state does not change, whatever successes and failures are reported.
\<close>

theorem open_period_rejects:
  assumes "cb_st cb = Open" and "list_all (within_open cb) cs"
  shows "cb_run cs cb = cb \<and> admitted cs cb = 0"
  using open_run [OF assms(1), of cs] assms(2) by (simp add: list_all_iff)

theorem open_period_rejects_witness:
  "cb_run [Before 120, Success, Failure 7, Before 199]
     (cb_new default_circuit_breaker_config\<lparr>cb_st := Open, opened_at_ms := 100\<rparr>)
   = cb_new default_circuit_breaker_config\<lparr>cb_st := Open, opened_at_ms := 100\<rparr>"
  by (rule open_period_rejects [THEN conjunct1])
    (simp_all add: within_open_def cb_new_def default_circuit_breaker_config_def)

text \<open>
  When the reset timeout has elapsed, the request that finds the breaker open is admitted
  and does not count as a probe: a run of further requests, with no outcome reported, is
  admitted up to \<open>half_open_max_requests\<close>, so the half-open period lets
  \<open>half_open_max_requests + 1\<close> requests through.
\<close>

theorem half_open_probe_budget:
  assumes "cb_st cb = Open" and "reset_timeout_ms (cb_config cb) \<le> t - opened_at_ms cb"
    and "length ts < 2 ^ 32"
  shows "admitted (Before t # half_open_probes ts) cb =
    Suc (min (length ts) (unat (half_open_max_requests (cb_config cb))))"
  using half_open_run [of "snd (before_request t cb)" ts] assms(3)
  by (simp add: before_request_elapsed [OF assms(1,2)])

theorem half_open_probe_budget_witness:
  "admitted (Before 200 # half_open_probes [201, 202, 203])
     (cb_new \<lparr>failure_threshold = 1, success_threshold = 2, reset_timeout_ms = 50,
              half_open_max_requests = 2\<rparr>\<lparr>cb_st := Open, opened_at_ms := 100\<rparr>) = 3"
  using half_open_probe_budget
    [of "cb_new \<lparr>failure_threshold = 1, success_threshold = 2, reset_timeout_ms = 50,
              half_open_max_requests = 2\<rparr>\<lparr>cb_st := Open, opened_at_ms := 100\<rparr>"
        200 "[201, 202, 203]"]
  by (simp add: cb_new_def)

text \<open>
  A half-open breaker that has used its probe budget rejects every request, at any later
  time: no timeout ends the half-open period, only a reported outcome or a reset does.
\<close>

theorem half_open_starves:
  assumes "cb_st cb = HalfOpen"
    and "half_open_max_requests (cb_config cb) \<le> half_open_requests cb"
    and "unat (half_open_requests cb) + length ts < 2 ^ 32"
  shows "admitted (half_open_probes ts) cb = 0 \<and>
    cb_st (cb_run (half_open_probes ts) cb) = HalfOpen"
  using half_open_run [OF assms(1,3)] assms(2) by (simp add: word_le_nat_alt)

theorem half_open_starves_witness:
  "admitted (half_open_probes [1000000, 2000000, 3000000])
     (cb_new default_circuit_breaker_config\<lparr>cb_st := HalfOpen, half_open_requests := 5\<rparr>) = 0"
  by (rule half_open_starves [THEN conjunct1])
    (simp_all add: cb_new_def default_circuit_breaker_config_def)

text \<open>
  Recovery: once the timeout has elapsed, one admitted request and then
  \<open>success_threshold\<close> successes (at least one) close an open breaker with a cleared failure
  counter, and no smaller number of successes does.
\<close>

theorem breaker_recovers:
  assumes "cb_st cb = Open" and "reset_timeout_ms (cb_config cb) \<le> t - opened_at_ms cb"
  defines "k \<equiv> max 1 (unat (success_threshold (cb_config cb)))"
  shows "cb_st (cb_run (Before t # replicate k Success) cb) = Closed \<and>
      failure_count (cb_run (Before t # replicate k Success) cb) = 0 \<and>
      (n < k \<longrightarrow> cb_st (cb_run (Before t # replicate n Success) cb) = HalfOpen)"
proof -
  define cb' where "cb' = snd (before_request t cb)"
  have "cb_st cb' = HalfOpen" "success_count cb' = 0" "cb_config cb' = cb_config cb" "cb_inv cb'"
    by (simp_all add: cb'_def before_request_elapsed [OF assms(1,2)] cb_inv_def)
  with half_open_closes(1) [of cb' n] half_open_closes(2) [of cb'] show ?thesis
    by (simp add: k_def flip: cb'_def)
qed

theorem breaker_recovers_witness:
  "cb_st (cb_run [Before 30100, Success, Success]
     (cb_new default_circuit_breaker_config\<lparr>cb_st := Open, opened_at_ms := 100\<rparr>)) = Closed"
proof -
  have two: "replicate 2 Success = [Success, Success]" by (simp add: numeral_2_eq_2)
  show ?thesis
    using breaker_recovers
      [of "cb_new default_circuit_breaker_config\<lparr>cb_st := Open, opened_at_ms := 100\<rparr>" 30100 0]
    by (simp add: cb_new_def default_circuit_breaker_config_def two)
qed

text \<open>
  The elapsed time is an unsigned difference of wall-clock readings: if the clock is set
  back below the opening time by no more than the type's range less the timeout, the difference
  wraps and the next request ends the open period early.
\<close>

theorem clock_step_back_half_opens:
  assumes "cb_st cb = Open" and "unat t < unat (opened_at_ms cb)"
    and "unat (opened_at_ms cb) - unat t + unat (reset_timeout_ms (cb_config cb)) \<le> 2 ^ 64"
  shows "fst (before_request t cb) \<and> cb_st (snd (before_request t cb)) = HalfOpen"
proof -
  have "reset_timeout_ms (cb_config cb) \<le> t - opened_at_ms cb"
    using assms(2,3) by (simp add: word_le_nat_alt elapsed_wraps)
  from before_request_elapsed [OF assms(1) this]
  show ?thesis by simp
qed

theorem clock_step_back_half_opens_witness:
  "fst (before_request 99
     (cb_new default_circuit_breaker_config\<lparr>cb_st := Open, opened_at_ms := 100\<rparr>))"
  by (rule clock_step_back_half_opens [THEN conjunct1])
    (simp_all add: cb_new_def default_circuit_breaker_config_def)

end
