(* ===== verification/Rust_Float.thy ===== *)
theory Rust_Float
  imports Prelude Complex_Main
begin

section \<open>IEEE 754 doubles as the program uses them\<close>

text \<open>
  \<open>f64\<close> arithmetic, for the delays, timeouts and rates of the program: a finite double is its
  rational value, an operation is the exact operation followed by rounding to the nearest
  53-bit value, ties to even, with gradual underflow at exponent \<open>- 1074\<close> and overflow at
  \<open>2 ^ 1024\<close>.  The sign of zero is not kept: no operation modelled here divides by a computed
  zero or prints one.  \<open>f64_powi\<close> is the binary-exponentiation loop that Rust's \<open>powi\<close> compiles
  to.  The lemmas give monotonicity of rounding and exactness on representable values.
\<close>

datatype f64 = NaN | Inf bool | Fin rat

subsection \<open>Rounding\<close>

definition round_half_even :: "rat \<Rightarrow> int" where
  "round_half_even x =
     (let f = \<lfloor>x\<rfloor>; d = x - of_int f
      in if d < 1 / 2 then f else if 1 / 2 < d then f + 1 else if even f then f else f + 1)"

fun bit_len :: "nat \<Rightarrow> nat" where
  "bit_len n = (if n = 0 then 0 else Suc (bit_len (n div 2)))"

declare bit_len.simps [simp del]

definition ilog2 :: "rat \<Rightarrow> int" where
  "ilog2 x =
     (case quotient_of x of (a, b) \<Rightarrow>
        let k = int (bit_len (nat a)) - int (bit_len (nat b))
        in if 2 powi k \<le> x then k else k - 1)"

definition ulp_exp :: "rat \<Rightarrow> int" where
  "ulp_exp x = max (ilog2 \<bar>x\<bar> - 52) (- 1074)"

definition rnd :: "rat \<Rightarrow> rat" where
  "rnd x =
     (if x = 0 then 0
      else let u = 2 powi (ulp_exp x) in of_int (round_half_even (x / u)) * u)"

definition f64_round :: "rat \<Rightarrow> f64" where
  "f64_round x =
     (let r = rnd x in if 2 ^ 1024 \<le> \<bar>r\<bar> then Inf (x < 0) else Fin r)"

subsection \<open>Operations\<close>

definition f64_of_nat :: "nat \<Rightarrow> f64" where
  "f64_of_nat n = f64_round (of_nat n)"

definition f64_of_u64 :: "u64 \<Rightarrow> f64" where
  "f64_of_u64 w = f64_of_nat (unat w)"

fun f64_neg :: "f64 \<Rightarrow> bool" where
  "f64_neg NaN = False"
| "f64_neg (Inf s) = s"
| "f64_neg (Fin r) = (r < 0)"

fun f64_mul :: "f64 \<Rightarrow> f64 \<Rightarrow> f64" where
  "f64_mul NaN y = NaN"
| "f64_mul x NaN = NaN"
| "f64_mul (Fin a) (Fin b) = f64_round (a * b)"
| "f64_mul x y =
     (if x = Fin 0 \<or> y = Fin 0 then NaN else Inf (f64_neg x \<noteq> f64_neg y))"

fun f64_add :: "f64 \<Rightarrow> f64 \<Rightarrow> f64" where
  "f64_add NaN y = NaN"
| "f64_add x NaN = NaN"
| "f64_add (Fin a) (Fin b) = f64_round (a + b)"
| "f64_add (Inf s) (Inf t) = (if s = t then Inf s else NaN)"
| "f64_add (Inf s) y = Inf s"
| "f64_add x (Inf t) = Inf t"

fun f64_minus :: "f64 \<Rightarrow> f64" where
  "f64_minus NaN = NaN"
| "f64_minus (Inf s) = Inf (\<not> s)"
| "f64_minus (Fin r) = Fin (- r)"

definition f64_sub :: "f64 \<Rightarrow> f64 \<Rightarrow> f64" where
  "f64_sub x y = f64_add x (f64_minus y)"

fun f64_div :: "f64 \<Rightarrow> f64 \<Rightarrow> f64" where
  "f64_div NaN y = NaN"
| "f64_div x NaN = NaN"
| "f64_div (Inf s) (Inf t) = NaN"
| "f64_div (Inf s) y = Inf (s \<noteq> f64_neg y)"
| "f64_div x (Inf t) = Fin 0"
| "f64_div (Fin a) (Fin b) =
     (if b = 0 then (if a = 0 then NaN else Inf (a < 0)) else f64_round (a / b))"

text \<open>\<open>f64::min\<close> and \<open>f64::max\<close>: a NaN argument is ignored.\<close>

fun f64_le :: "f64 \<Rightarrow> f64 \<Rightarrow> bool" where
  "f64_le NaN y = False"
| "f64_le x NaN = False"
| "f64_le (Inf s) y = (s \<or> y = Inf False)"
| "f64_le x (Inf t) = (\<not> t)"
| "f64_le (Fin a) (Fin b) = (a \<le> b)"

definition f64_min :: "f64 \<Rightarrow> f64 \<Rightarrow> f64" where
  "f64_min x y = (if x = NaN then y else if y = NaN then x else if f64_le x y then x else y)"

definition f64_max :: "f64 \<Rightarrow> f64 \<Rightarrow> f64" where
  "f64_max x y = (if x = NaN then y else if y = NaN then x else if f64_le x y then y else x)"

fun f64_ceil :: "f64 \<Rightarrow> f64" where
  "f64_ceil (Fin r) = Fin (of_int \<lceil>r\<rceil>)"
| "f64_ceil x = x"

text \<open>The saturating cast \<open>as u64\<close> (and \<open>as usize\<close> on a 64-bit target).\<close>

fun f64_to_nat :: "f64 \<Rightarrow> nat" where
  "f64_to_nat NaN = 0"
| "f64_to_nat (Inf s) = (if s then 0 else 2 ^ 64 - 1)"
| "f64_to_nat (Fin r) = min (nat \<lfloor>r\<rfloor>) (2 ^ 64 - 1)"

definition f64_to_u64 :: "f64 \<Rightarrow> u64" where
  "f64_to_u64 x = of_nat (f64_to_nat x)"

fun f64_powi_loop :: "f64 \<Rightarrow> nat \<Rightarrow> f64 \<Rightarrow> f64" where
  "f64_powi_loop a b r =
     (let r' = (if odd b then f64_mul r a else r)
      in if b div 2 = 0 then r' else f64_powi_loop (f64_mul a a) (b div 2) r')"

declare f64_powi_loop.simps [simp del]

definition f64_powi :: "f64 \<Rightarrow> int \<Rightarrow> f64" where
  "f64_powi a n =
     (let r = f64_powi_loop a (nat \<bar>n\<bar>) (Fin 1) in if n < 0 then f64_div (Fin 1) r else r)"

subsection \<open>Rounding to an integer\<close>

lemma round_half_even_of_int [simp]: "round_half_even (of_int n) = n"
  by (simp add: round_half_even_def)

lemma round_half_even_bounds: "\<lfloor>x\<rfloor> \<le> round_half_even x" "round_half_even x \<le> \<lfloor>x\<rfloor> + 1"
  by (simp_all add: round_half_even_def Let_def)

lemma round_half_even_mono:
  assumes "x \<le> y"
  shows "round_half_even x \<le> round_half_even y"
proof (cases "\<lfloor>x\<rfloor> = \<lfloor>y\<rfloor>")
  case True
  with assms show ?thesis by (auto simp: round_half_even_def Let_def)
next
  case False
  with floor_mono [OF assms] have "\<lfloor>x\<rfloor> + 1 \<le> \<lfloor>y\<rfloor>" by linarith
  then show ?thesis
    using round_half_even_bounds(2) [of x] round_half_even_bounds(1) [of y] by linarith
qed

lemma round_half_even_minus: "round_half_even (- x) = - round_half_even x"
proof (cases "x = of_int \<lfloor>x\<rfloor>")
  case True
  then show ?thesis by (metis of_int_minus round_half_even_of_int)
next
  case False
  then have less: "of_int \<lfloor>x\<rfloor> < x" by (metis of_int_floor_le order_le_less)
  have "\<lfloor>- x\<rfloor> = - \<lfloor>x\<rfloor> - 1"
  proof (rule floor_unique)
    show "of_int (- \<lfloor>x\<rfloor> - 1) \<le> - x" 
      using less_imp_le [OF floor_less_iff [THEN iffD1]] by (simp add: algebra_simps) linarith
    show "- x < of_int (- \<lfloor>x\<rfloor> - 1) + 1"
      using less by simp
  qed
  with less show ?thesis by (auto simp: round_half_even_def Let_def)
qed

subsection \<open>Rounding to 53 bits\<close>

lemma bit_len_bounds: "0 < n \<Longrightarrow> 2 ^ (bit_len n - 1) \<le> n \<and> n < 2 ^ bit_len n \<and> 0 < bit_len n"
proof (induction n rule: bit_len.induct)
  case (1 n)
  have step: "bit_len n = Suc (bit_len (n div 2))" using "1.prems" by (simp add: bit_len.simps)
  show ?case
  proof (cases "n div 2 = 0")
    case True
    with "1.prems" have "n = 1" by simp
    with step show ?thesis by (simp add: bit_len.simps)
  next
    case False
    then have IH: "2 ^ (bit_len (n div 2) - 1) \<le> n div 2" "n div 2 < 2 ^ bit_len (n div 2)"
      "0 < bit_len (n div 2)"
      using "1.IH" "1.prems" by auto
    have "2 * 2 ^ (bit_len (n div 2) - 1) = (2::nat) ^ bit_len (n div 2)"
      using IH(3) by (metis Suc_diff_1 power_Suc)
    then have "2 ^ bit_len (n div 2) \<le> n" using IH(1) by linarith
    moreover have "n < 2 * 2 ^ bit_len (n div 2)" using IH(2) by linarith
    ultimately show ?thesis using step by simp
  qed
qed

lemma powi2_pos [simp]: "0 < (2::rat) powi k"
  by (simp add: zero_less_power_int)

lemma powi2_add: "(2::rat) powi (j + k) = 2 powi j * 2 powi k"
  by (simp add: power_int_add)

lemma powi2_mono: "j \<le> k \<Longrightarrow> (2::rat) powi j \<le> 2 powi k"
  by (simp add: power_int_increasing)

lemma powi2_less_iff: "(2::rat) powi j < 2 powi k \<longleftrightarrow> j < k"
  
  using powi2_mono [of k j] power_int_strict_increasing [of j k "2::rat"] by (cases "j < k") auto

lemma ilog2_bounds:
  assumes "0 < x"
  shows "2 powi ilog2 x \<le> x \<and> x < 2 powi (ilog2 x + 1)"
proof -
  obtain a b where q: "quotient_of x = (a, b)" by (cases "quotient_of x")
  have b: "0 < b" using q by (rule quotient_of_denom_pos)
  have x: "x = of_int a / of_int b" using q by (rule quotient_of_div)
  with assms b have a: "0 < a" by (simp add: zero_less_divide_iff)
  define la lb where "la = int (bit_len (nat a))" and "lb = int (bit_len (nat b))"
  have bounds: "2 powi (int (bit_len n) - 1) \<le> (of_nat n :: rat) \<and> (of_nat n :: rat) < 2 powi int (bit_len n)"
    if "0 < n" for n :: nat
  proof -
    have "int (bit_len n) - 1 = int (bit_len n - 1)" using bit_len_bounds [OF that] by simp
    moreover have "(2::rat) ^ (bit_len n - 1) \<le> of_nat n" "(of_nat n::rat) < 2 ^ bit_len n"
      using bit_len_bounds [OF that] of_nat_le_iff [of "2 ^ (bit_len n - 1)" n, where 'a = rat]
        of_nat_less_iff [of n "2 ^ bit_len n", where 'a = rat] by simp_all
    ultimately show ?thesis by (simp only: power_int_of_nat)
  qed
  have A: "2 powi (la - 1) \<le> (of_int a :: rat)" "(of_int a :: rat) < 2 powi la"
    using bounds [of "nat a"] a by (simp_all add: la_def)
  have B: "2 powi (lb - 1) \<le> (of_int b :: rat)" "(of_int b :: rat) < 2 powi lb"
    using bounds [of "nat b"] b by (simp_all add: lb_def)
  have lower: "2 powi (la - lb - 1) \<le> x"
  proof -
    have "(2::rat) powi (la - lb - 1) * of_int b \<le> 2 powi (la - lb - 1) * 2 powi lb"
      using B(2) by (intro mult_left_mono) simp_all
    also have "\<dots> = 2 powi (la - 1)" by (simp flip: powi2_add)
    also have "\<dots> \<le> of_int a" by (rule A)
    finally show ?thesis using b by (simp add: x pos_le_divide_eq)
  qed
  have upper: "x < 2 powi (la - lb + 1)"
  proof -
    have "(of_int a :: rat) < 2 powi (la - lb + 1) * 2 powi (lb - 1)"
      using A(2) by (simp flip: powi2_add)
    also have "\<dots> \<le> 2 powi (la - lb + 1) * of_int b"
      using B(1) by (intro mult_left_mono) simp_all
    finally show ?thesis using b by (simp add: x pos_divide_less_eq)
  qed
  show ?thesis
    using lower upper by (auto simp: ilog2_def q Let_def la_def lb_def)
qed

lemma ilog2_unique:
  assumes "2 powi e \<le> x" and "x < 2 powi (e + 1)"
  shows "ilog2 x = e"
proof -
  have "0 < x" using assms(1) powi2_pos [of e] by linarith
  from ilog2_bounds [OF this] have "2 powi ilog2 x \<le> x" "x < 2 powi (ilog2 x + 1)" by auto
  with assms have "2 powi ilog2 x < (2::rat) powi (e + 1)" "(2::rat) powi e < 2 powi (ilog2 x + 1)"
    by linarith+
  then show ?thesis by (simp add: powi2_less_iff)
qed

lemma ilog2_mono: "0 < x \<Longrightarrow> x \<le> y \<Longrightarrow> ilog2 x \<le> ilog2 y"
proof -
  assume "0 < x" "x \<le> y"
  with ilog2_bounds [of x] ilog2_bounds [of y] have "(2::rat) powi ilog2 x < 2 powi (ilog2 y + 1)"
    by linarith
  then show ?thesis by (simp add: powi2_less_iff)
qed

lemma rnd_0 [simp]: "rnd 0 = 0"
  by (simp add: rnd_def)

lemma rnd_minus: "rnd (- x) = - rnd x"
  by (simp add: rnd_def ulp_exp_def Let_def round_half_even_minus)

text \<open>A multiple of the unit in the last place is not changed.\<close>

lemma rnd_multiple:
  assumes "x = of_int n * 2 powi j" and "ulp_exp x \<le> j"
  shows "rnd x = x"
proof (cases "x = 0")
  case False
  define e where "e = ulp_exp x"
  define d where "d = nat (j - e)"
  have "j = int d + e" using assms(2) by (simp add: d_def e_def)
  with assms(1) have x: "x = of_int (n * 2 ^ d) * 2 powi e" by (simp add: powi2_add)
  then have q: "x / 2 powi e = of_int (n * 2 ^ d)" by simp
  have "rnd x = of_int (round_half_even (x / 2 powi e)) * 2 powi e"
    using False by (simp add: rnd_def Let_def e_def)
  also have "\<dots> = x" by (simp only: q round_half_even_of_int flip: x)
  finally show ?thesis .
qed simp

lemma rnd_exact:
  assumes "\<bar>n\<bar> < 2 ^ 53" and "- 1074 \<le> j"
  shows "rnd (of_int n * 2 powi j) = of_int n * 2 powi j"
proof (cases "n = 0")
  case False
  define x :: rat where "x = of_int n * 2 powi j"
  have "\<bar>x\<bar> = of_int \<bar>n\<bar> * 2 powi j" by (simp add: x_def abs_mult)
  also have "\<dots> < 2 ^ 53 * 2 powi j"
    using assms(1) by (intro mult_strict_right_mono) (simp_all flip: of_int_abs)
  also have "\<dots> = 2 powi (53 + j)" by (simp add: powi2_add)
  finally have less: "\<bar>x\<bar> < 2 powi (53 + j)" .
  have "0 < \<bar>x\<bar>" using False by (simp add: x_def)
  from ilog2_bounds [OF this] less have "(2::rat) powi ilog2 \<bar>x\<bar> < 2 powi (53 + j)" by linarith
  then have "ulp_exp x \<le> j" using assms(2) by (simp add: ulp_exp_def powi2_less_iff)
  with rnd_multiple [of x n j] show ?thesis by (simp add: x_def)
qed simp

subsection \<open>Monotonicity\<close>

lemma rnd_nonneg: "0 \<le> x \<Longrightarrow> 0 \<le> rnd x"
  using round_half_even_mono [of 0 "x / 2 powi ulp_exp x"] round_half_even_of_int [of 0]
  by (simp add: rnd_def Let_def)

text \<open>A positive value rounds to at most the next power of two, and at least to its own.\<close>

lemma rnd_le_next_power:
  assumes "0 < x" and "- 1074 \<le> ilog2 x + 1"
  shows "rnd x \<le> 2 powi (ilog2 x + 1)"
proof -
  define q where "q = ulp_exp x"
  have q: "q \<le> ilog2 x + 1" using assms by (simp add: q_def ulp_exp_def)
  then obtain d where d: "ilog2 x + 1 = q + int d" by (metis zle_iff_zadd)
  have "x / 2 powi q \<le> of_int (2 ^ d)"
    using ilog2_bounds [OF assms(1)] by (simp add: pos_divide_le_eq d powi2_add mult.commute)
  from round_half_even_mono [OF this] have "round_half_even (x / 2 powi q) \<le> 2 ^ d"
    by (simp only: round_half_even_of_int)
  then have "(of_int (round_half_even (x / 2 powi q)) :: rat) \<le> of_int (2 ^ d)"
    by (simp only: of_int_le_iff)
  then have "of_int (round_half_even (x / 2 powi q)) * 2 powi q \<le> (2::rat) ^ d * 2 powi q"
    by (intro mult_right_mono) simp_all
  then show ?thesis using assms(1) by (simp add: rnd_def Let_def d powi2_add mult.commute flip: q_def)
qed

lemma rnd_ge_power:
  assumes "0 < x" and "- 1074 \<le> ilog2 x"
  shows "2 powi ilog2 x \<le> rnd x"
proof -
  define q where "q = ulp_exp x"
  have q: "q \<le> ilog2 x" using assms by (simp add: q_def ulp_exp_def)
  then obtain d where d: "ilog2 x = q + int d" by (metis zle_iff_zadd)
  have "of_int (2 ^ d) \<le> x / 2 powi q"
    using ilog2_bounds [OF assms(1)] by (simp add: pos_le_divide_eq d powi2_add mult.commute)
  from round_half_even_mono [OF this] have "2 ^ d \<le> round_half_even (x / 2 powi q)"
    by (simp only: round_half_even_of_int)
  then have "(of_int (2 ^ d) :: rat) \<le> of_int (round_half_even (x / 2 powi q))"
    by (simp only: of_int_le_iff)
  then have "(2::rat) ^ d * 2 powi q \<le> of_int (round_half_even (x / 2 powi q)) * 2 powi q"
    by (intro mult_right_mono) simp_all
  then show ?thesis using assms(1) by (simp add: rnd_def Let_def d powi2_add mult.commute flip: q_def)
qed

lemma rnd_mono_pos:
  assumes "0 < x" and "x \<le> y"
  shows "rnd x \<le> rnd y"
proof (cases "ulp_exp x = ulp_exp y")
  case True
  have "x / 2 powi ulp_exp y \<le> y / 2 powi ulp_exp y"
    using assms(2) by (simp add: divide_right_mono)
  from round_half_even_mono [OF this]
  have "(of_int (round_half_even (x / 2 powi ulp_exp y)) :: rat)
      \<le> of_int (round_half_even (y / 2 powi ulp_exp y))"
    by (simp only: of_int_le_iff)
  then show ?thesis using assms True by (simp add: rnd_def Let_def mult_right_mono)
next
  case False
  have "ilog2 x \<le> ilog2 y" by (rule ilog2_mono) (use assms in auto)
  with False assms have "ilog2 x + 1 \<le> ilog2 y" "- 1074 \<le> ilog2 y"
    by (auto simp: ulp_exp_def)
  have "rnd x \<le> 2 powi ilog2 y"
  proof (cases "- 1074 \<le> ilog2 x + 1")
    case True
    from rnd_le_next_power [OF assms(1) this] powi2_mono [OF \<open>ilog2 x + 1 \<le> ilog2 y\<close>]
    show ?thesis by linarith
  next
    case False
    then have "ulp_exp x = - 1074" using assms(1) by (simp add: ulp_exp_def)
    moreover have "x / 2 powi (- 1074) \<le> of_int 1"
      using ilog2_bounds [OF assms(1)] powi2_mono [of "ilog2 x + 1" "- 1074"] False
      by (simp add: pos_divide_le_eq)
    from round_half_even_mono [OF this] have "round_half_even (x / 2 powi (- 1074)) \<le> 1"
      by (simp only: round_half_even_of_int)
    then have "(of_int (round_half_even (x / 2 powi (- 1074))) :: rat) \<le> of_int 1"
      by (simp only: of_int_le_iff)
    ultimately have "rnd x \<le> 1 * 2 powi (- 1074)"
      using assms(1) unfolding rnd_def Let_def by (simp add: mult_right_mono)
    with powi2_mono [OF \<open>- 1074 \<le> ilog2 y\<close>] show ?thesis by linarith
  qed
  also have "\<dots> \<le> rnd y" by (rule rnd_ge_power) (use assms \<open>- 1074 \<le> ilog2 y\<close> in auto)
  finally show ?thesis .
qed

lemma rnd_mono: "x \<le> y \<Longrightarrow> rnd x \<le> rnd y"
proof -
  assume le: "x \<le> y"
  consider "0 < x" | "x \<le> 0" "0 \<le> y" | "y < 0" using le by linarith
  then show ?thesis
  proof cases
    case 1
    then show ?thesis using le by (rule rnd_mono_pos)
  next
    case 2
    then show ?thesis using rnd_nonneg [of y] rnd_nonneg [of "- x"] by (simp add: rnd_minus)
  next
    case 3
    then show ?thesis using rnd_mono_pos [of "- y" "- x"] le by (simp add: rnd_minus)
  qed
qed

lemma rnd_of_int: "\<bar>n\<bar> < 2 ^ 53 \<Longrightarrow> rnd (of_int n) = of_int n"
  using rnd_exact [of n 0] by simp

lemma rnd_of_nat: "n < 2 ^ 53 \<Longrightarrow> rnd (of_nat n) = of_nat n"
  using rnd_of_int [of "int n"] by simp

lemma f64_round_fin: "\<bar>rnd x\<bar> < 2 ^ 1024 \<Longrightarrow> f64_round x = Fin (rnd x)"
  by (simp add: f64_round_def Let_def)

lemma f64_of_nat_exact: "n < 2 ^ 53 \<Longrightarrow> f64_of_nat n = Fin (of_nat n)"
proof -
  assume n: "n < 2 ^ 53"
  then have "(of_nat n :: rat) < of_nat (2 ^ 53)" by (simp only: of_nat_less_iff)
  also have "\<dots> \<le> 2 ^ 1024" by simp
  finally show ?thesis using n by (simp add: f64_of_nat_def f64_round_fin rnd_of_nat)
qed

subsection \<open>Powers of two and casts\<close>

lemma f64_round_scaled:
  assumes "n < 2 ^ 53" and "n * 2 ^ k < 2 ^ 1024"
  shows "f64_round (of_nat n * 2 ^ k) = Fin (of_nat n * 2 ^ k)"
proof -
  have "rnd (of_nat n * 2 ^ k) = of_nat n * 2 ^ k"
    using rnd_exact [of "int n" "int k"] assms(1) by simp
  moreover have "\<bar>of_nat n * 2 ^ k :: rat\<bar> < 2 ^ 1024"
  proof -
    have "(of_nat (n * 2 ^ k) :: rat) < of_nat (2 ^ 1024)"
      using assms(2) by (simp only: of_nat_less_iff)
    then show ?thesis by (simp add: abs_mult)
  qed
  ultimately show ?thesis by (simp add: f64_round_fin)
qed

lemma f64_round_scaled_overflow:
  assumes "n < 2 ^ 53" and "2 ^ 1024 \<le> n * 2 ^ k"
  shows "f64_round (of_nat n * 2 ^ k) = Inf False"
proof -
  have "rnd (of_nat n * 2 ^ k) = of_nat n * 2 ^ k"
    using rnd_exact [of "int n" "int k"] assms(1) by simp
  moreover have "(of_nat (2 ^ 1024) :: rat) \<le> of_nat (n * 2 ^ k)"
    using assms(2) by (simp only: of_nat_le_iff)
  then have "(2::rat) ^ 1024 \<le> of_nat n * 2 ^ k" by simp
  moreover have "(0::rat) \<le> of_nat n * 2 ^ k" by simp
  ultimately show ?thesis by (simp only: f64_round_def Let_def abs_of_nonneg if_True not_less [symmetric]) auto
qed

text \<open>Powers of two as the code computes them: infinite from \<open>2 ^ 1024\<close> on.\<close>

definition pow2 :: "nat \<Rightarrow> f64" where
  "pow2 k = (if k \<le> 1023 then Fin (2 ^ k) else Inf False)"

lemma f64_round_pow2: "f64_round (2 ^ k) = pow2 k"
proof (cases "k \<le> 1023")
  case True
  then have "(2::nat) ^ k < 2 ^ 1024" by (intro power_strict_increasing) simp_all
  then show ?thesis using f64_round_scaled [of 1 k] True by (simp add: pow2_def)
next
  case False
  then have "(2::nat) ^ 1024 \<le> 1 * 2 ^ k" by (simp only: mult_1) (rule power_increasing, simp_all)
  then show ?thesis using f64_round_scaled_overflow [of 1 k] False by (simp add: pow2_def)
qed

lemma f64_mul_pow2_pow2: "f64_mul (pow2 i) (pow2 j) = pow2 (i + j)"
proof (cases "i \<le> 1023 \<and> j \<le> 1023")
  case True
  then show ?thesis by (simp add: pow2_def [of i] pow2_def [of j] f64_round_pow2 flip: power_add)
qed (auto simp: pow2_def)

lemma f64_powi_loop_pow2: "f64_powi_loop (pow2 i) b (pow2 j) = pow2 (j + i * b)"
proof (induction b arbitrary: i j rule: less_induct)
  case (less b)
  define j' where "j' = (if odd b then j + i else j)"
  have b: "b = 2 * (b div 2) + (if odd b then 1 else 0)" by presburger
  have ij: "j' + (i + i) * (b div 2) = j + i * b"
  proof -
    have "i * b = i * (2 * (b div 2) + (if odd b then 1 else 0))" using b by (rule arg_cong)
    then show ?thesis by (simp add: j'_def algebra_simps)
  qed
  have r: "(if odd b then f64_mul (pow2 j) (pow2 i) else pow2 j) = pow2 j'"
    by (simp add: j'_def f64_mul_pow2_pow2)
  show ?case
  proof (cases "b div 2 = 0")
    case True
    with r ij show ?thesis by (simp add: f64_powi_loop.simps [of _ b])
  next
    case False
    then have "f64_powi_loop (pow2 (i + i)) (b div 2) (pow2 j') = pow2 (j + i * b)"
      using less.IH [of "b div 2" "i + i" j'] by (simp only: ij)
    with False r show ?thesis
      by (simp add: f64_powi_loop.simps [of _ b] f64_mul_pow2_pow2)
  qed
qed

lemma f64_powi_2: "f64_powi (Fin 2) (int k) = pow2 k"
  using f64_powi_loop_pow2 [of 1 k 0] by (simp add: f64_powi_def pow2_def [of "Suc 0"] pow2_def [of 0])

text \<open>An integer times a power of two, cast back to \<open>u64\<close>, saturates and is otherwise exact.\<close>

lemma f64_to_nat_scaled:
  assumes "n < 2 ^ 53"
  shows "f64_to_nat (f64_mul (f64_of_nat n) (pow2 k)) = min (n * 2 ^ k) (2 ^ 64 - 1)"
proof -
  have n: "f64_of_nat n = Fin (of_nat n)" by (rule f64_of_nat_exact [OF assms])
  consider "n = 0" | "0 < n" "k \<le> 1023" "n * 2 ^ k < 2 ^ 1024" | "0 < n" "k \<le> 1023" "2 ^ 1024 \<le> n * 2 ^ k"
    | "0 < n" "1023 < k"
    by linarith
  then show ?thesis
  proof cases
    case 1
    then show ?thesis using f64_round_pow2 [of 0] n
      by (simp add: pow2_def f64_round_def rnd_def)
  next
    case 2
    have "f64_mul (Fin (of_nat n)) (pow2 k) = Fin (of_nat (n * 2 ^ k))"
      using f64_round_scaled [OF assms 2(3)] 2(2) by (simp add: pow2_def)
    then show ?thesis unfolding n by (simp only: f64_to_nat.simps floor_of_nat nat_int)
  next
    case 3
    have "f64_mul (Fin (of_nat n)) (pow2 k) = Inf False"
      using f64_round_scaled_overflow [OF assms 3(3)] 3(2) by (simp add: pow2_def)
    moreover have "(2::nat) ^ 64 \<le> 2 ^ 1024" by (rule power_increasing) simp_all
    ultimately show ?thesis unfolding n using 3(3) by (simp only: f64_to_nat.simps) auto
  next
    case 4
    have "(2::nat) ^ 64 \<le> 2 ^ k" using 4 by (intro power_increasing) simp_all
    also have "\<dots> \<le> n * 2 ^ k" using 4 by simp
    finally have "2 ^ 64 - 1 \<le> n * 2 ^ k" by linarith
    moreover have "f64_mul (Fin (of_nat n)) (pow2 k) = Inf False"
      using 4 by (simp add: pow2_def)
    ultimately show ?thesis unfolding n by simp
  qed
qed

lemma f64_to_nat_of_nat: "f64_to_nat (Fin (of_nat n)) = min n (2 ^ 64 - 1)"
  by simp

lemma f64_to_nat_less: "f64_to_nat x < 2 ^ 64"
  by (cases x) auto

lemma unat_f64_to_u64: "unat (f64_to_u64 x) = f64_to_nat x"
  using f64_to_nat_less [of x] by (simp add: f64_to_u64_def unat_of_nat take_bit_nat_eq_self_iff)

subsection \<open>Signs and sizes\<close>

lemma f64_round_small:
  assumes "\<bar>x\<bar> \<le> 2 ^ 60"
  shows "f64_round x = Fin (rnd x)"
proof -
  have p: "rnd (2 ^ 60) = 2 ^ 60" using rnd_exact [of 1 60] by simp
  have "rnd x \<le> 2 ^ 60" using rnd_mono [of x "2 ^ 60"] assms p by simp
  moreover have "- (2 ^ 60) \<le> rnd x"
    using rnd_mono [of "- (2 ^ 60)" x] assms p rnd_minus [of "2 ^ 60"] by simp
  ultimately have "\<bar>rnd x\<bar> \<le> 2 ^ 60" by linarith
  also have "(2::rat) ^ 60 < 2 ^ 1024" by (rule power_strict_increasing) simp_all
  finally show ?thesis by (rule f64_round_fin)
qed

lemma rnd_quarter: "rnd (1/4) = 1/4"
  using rnd_exact [of 1 "-2"] by (simp add: power_int_minus)

lemma rnd_half: "rnd (1/2) = 1/2"
  using rnd_exact [of 1 "-1"] by (simp add: power_int_minus)

text \<open>Not negative, or not a number.\<close>

fun f64_nonneg :: "f64 \<Rightarrow> bool" where
  "f64_nonneg NaN = True"
| "f64_nonneg (Inf s) = (\<not> s)"
| "f64_nonneg (Fin r) = (0 \<le> r)"

lemma f64_round_nonneg: "0 \<le> x \<Longrightarrow> f64_nonneg (f64_round x)"
  by (simp add: f64_round_def Let_def rnd_nonneg)

lemma f64_mul_nonneg: "f64_nonneg x \<Longrightarrow> f64_nonneg y \<Longrightarrow> f64_nonneg (f64_mul x y)"
  by (cases x; cases y) (auto simp: f64_round_nonneg)

lemma f64_powi_loop_nonneg:
  "f64_nonneg a \<Longrightarrow> f64_nonneg r \<Longrightarrow> f64_nonneg (f64_powi_loop a b r)"
proof (induction b arbitrary: a r rule: less_induct)
  case (less b)
  have "f64_nonneg (if odd b then f64_mul r a else r)"
    using less.prems by (simp add: f64_mul_nonneg)
  then show ?case using less.IH [of "b div 2" "f64_mul a a"] less.prems
    by (subst f64_powi_loop.simps) (auto simp: Let_def f64_mul_nonneg)
qed

end
