(* ===== verification/Rtt_Window.thy ===== *)
theory Rtt_Window
  imports Rust_Float "HOL-Library.Multiset"
begin

section \<open>Round-trip-time windows\<close>

text \<open>
  Three components keep a window of RTT samples and a lazily recomputed statistic of it:
  \<^verbatim>\<open>resilience/timeout.rs\<close>, \<^verbatim>\<open>ws/heartbeat.rs\<close> and
  \<^verbatim>\<open>observability/network_quality.rs\<close>.  Here are the parts they share in the source (the
  P90 index and the snapshot computation, repeated there word for word), and the interfaces
  that the three provide: \<open>sliding_window\<close> and \<open>cached_window\<close>, with the lemma that a cached
  read is never stale.
\<close>

subsection \<open>The P90 rank\<close>

text \<open>\<open>((len as f64) * 0.90).ceil() as usize - 1\<close>, then \<open>min(len - 1)\<close>.\<close>

definition p90_index :: "nat \<Rightarrow> nat" where
  "p90_index n =
     min (f64_to_nat (f64_ceil (f64_mul (f64_of_nat n) (f64_round (9 / 10)))) - 1) (n - 1)"

definition p90 :: "u64 list \<Rightarrow> u64" where
  "p90 xs = sort xs ! p90_index (length xs)"

lemma round_half_even_near:
  assumes "\<bar>y - of_int k\<bar> < 1 / 2"
  shows "round_half_even y = k"
proof (cases "of_int k \<le> y")
  case True
  have "\<lfloor>y\<rfloor> = k" by (intro floor_unique) (use assms True in linarith)+
  moreover have "y - of_int k < 1 / 2" using assms by linarith
  ultimately show ?thesis by (simp add: round_half_even_def)
next
  case False
  have "\<lfloor>y\<rfloor> = k - 1" by (intro floor_unique) (use assms False in \<open>simp; linarith\<close>)+
  moreover have "\<not> y - of_int (k - 1) < 1 / 2" and "1 / 2 < y - of_int (k - 1)"
    using assms by (simp_all only: of_int_diff of_int_1; linarith)+
  ultimately show ?thesis by (simp add: round_half_even_def)
qed

lemma rnd_near:
  assumes "ulp_exp x = q" and "x \<noteq> 0" and "\<bar>x - of_int k * 2 powi q\<bar> < 2 powi q / 2"
  shows "rnd x = of_int k * 2 powi q"
proof -
  have "x / 2 powi q - of_int k = (x - of_int k * 2 powi q) / 2 powi q"
    by (simp add: diff_divide_distrib)
  then have "\<bar>x / 2 powi q - of_int k\<bar> = \<bar>x - of_int k * 2 powi q\<bar> / 2 powi q"
    by (simp add: abs_divide)
  also have "\<dots> < 1 / 2" using assms(3) by (simp add: pos_divide_less_eq)
  finally have near: "\<bar>x / 2 powi q - of_int k\<bar> < 1 / 2" .
  then have "round_half_even (x / 2 powi q) = k" by (rule round_half_even_near)
  with assms show ?thesis by (simp add: rnd_def Let_def)
qed

definition nine_tenths :: rat where
  "nine_tenths = 8106479329266893 / 2 ^ 53"

lemma f64_nine_tenths: "f64_round (9 / 10) = Fin nine_tenths"
proof -
  have u: "(2::rat) powi (- 53) = 1 / 9007199254740992"
    by (simp add: power_int_def power_divide)
  have "ilog2 (9 / 10) = - 1" by (rule ilog2_unique) (simp_all add: power_int_minus)
  then have q: "ulp_exp (9 / 10) = - 53" by (simp add: ulp_exp_def)
  have "rnd (9 / 10) = of_int 8106479329266893 * 2 powi (- 53)"
  proof (rule rnd_near [OF q])
    show "(9 / 10 :: rat) \<noteq> 0" by simp
    show "\<bar>9 / 10 - of_int 8106479329266893 * 2 powi (- 53)\<bar> < (2::rat) powi (- 53) / 2"
      unfolding u by simp
  qed
  then have r: "rnd (9 / 10) = nine_tenths"
    by (simp only: u) (simp add: nine_tenths_def)
  have "nine_tenths \<le> 1" "0 \<le> nine_tenths" by (simp_all add: nine_tenths_def)
  moreover have "(1::rat) < 2 ^ 1024" by (rule one_less_power) simp_all
  ultimately have "\<bar>rnd (9 / 10)\<bar> < 2 ^ 1024" unfolding r by linarith
  from f64_round_fin [OF this] show ?thesis by (simp only: r)
qed

lemma nine_tenths_bounds: "9 / 10 \<le> nine_tenths" "nine_tenths \<le> 9 / 10 + 1 / (5 * 2 ^ 53)"
  by (simp_all add: nine_tenths_def)

definition ceil_9_10 :: "nat \<Rightarrow> nat" where
  "ceil_9_10 n = (9 * n + 9) div 10"

lemma ceil_9_10_bounds: "9 * n \<le> 10 * ceil_9_10 n" "10 * ceil_9_10 n \<le> 9 * n + 9"
  by (simp_all add: ceil_9_10_def)

lemma rnd_p90_lower:
  assumes "0 < n" and "n < 2 ^ 49"
  shows "of_nat (ceil_9_10 n) - 15 / 16 \<le> rnd (of_nat n * nine_tenths)"
proof -
  define m where "m = ceil_9_10 n"
  have m: "0 < m" "m < 2 ^ 49" "10 * m \<le> 9 * n + 9"
    using assms ceil_9_10_bounds [of n] by (auto simp: m_def)
  have eq: "of_nat m - 15 / 16 = (of_int (16 * int m - 15) * 2 powi (- 4) :: rat)"
    by (simp add: power_int_minus field_simps)
  have id: "rnd (of_nat m - 15 / 16) = of_nat m - 15 / 16"
    unfolding eq by (rule rnd_exact) (use m in auto)
  have "(of_nat (10 * m) :: rat) \<le> of_nat (9 * n + 9)" using m(3) by (simp only: of_nat_le_iff)
  then have "of_nat m - 15 / 16 \<le> (of_nat n * (9 / 10) :: rat)" by simp
  also have "\<dots> \<le> of_nat n * nine_tenths"
    using nine_tenths_bounds(1) by (intro mult_left_mono) simp_all
  finally have "rnd (of_nat m - 15 / 16) \<le> rnd (of_nat n * nine_tenths)" by (rule rnd_mono)
  then have "of_nat m - 15 / 16 \<le> rnd (of_nat n * nine_tenths)" by (simp only: id)
  then show ?thesis by (simp only: m_def)
qed

lemma rnd_p90_upper:
  assumes "0 < n" and "n < 2 ^ 49"
  shows "rnd (of_nat n * nine_tenths) \<le> of_nat (ceil_9_10 n)"
proof (cases "10 * ceil_9_10 n = 9 * n")
  case False
  define m where "m = ceil_9_10 n"
  have m: "m < 2 ^ 49" "9 * n + 1 \<le> 10 * m"
    using assms ceil_9_10_bounds [of n] False by (auto simp: m_def)
  have "of_nat n * nine_tenths \<le> (of_nat n * (9 / 10 + 1 / (5 * 2 ^ 53)) :: rat)"
    using nine_tenths_bounds(2) by (intro mult_left_mono) simp_all
  also have "\<dots> \<le> of_nat m"
  proof -
    have "(of_nat (9 * n + 1) :: rat) \<le> of_nat (10 * m)" using m(2) by (simp only: of_nat_le_iff)
    moreover have "(of_nat n :: rat) < of_nat (2 ^ 49)" using assms(2) by (simp only: of_nat_less_iff)
    ultimately show ?thesis by simp
  qed
  finally have "rnd (of_nat n * nine_tenths) \<le> rnd (of_nat m)" by (rule rnd_mono)
  with m(1) show ?thesis by (simp add: rnd_of_nat m_def)
next
  case True
  define m where "m = ceil_9_10 n"
  define x where "x = of_nat n * nine_tenths"
  define e where "e = ilog2 (of_nat m)"
  have m: "0 < m" "10 * m = 9 * n" using assms True by (auto simp: m_def)
  then have nm: "(of_nat n :: rat) = 10 / 9 * of_nat m"

  proof -
    have "(of_nat (10 * m) :: rat) = of_nat (9 * n)" using m(2) by (rule arg_cong)
    then show ?thesis by simp
  qed
  have pos: "(0::rat) < of_nat m" using m by simp
  have e: "2 powi e \<le> (of_nat m :: rat)" "(of_nat m :: rat) < 2 powi (e + 1)"
    using ilog2_bounds [OF pos] by (simp_all add: e_def)
  have e0: "0 \<le> e"
  proof -
    have "(1::rat) \<le> of_nat m" using m(1) by simp
    with e(2) have "(2::rat) powi 0 < 2 powi (e + 1)" by simp
    then show ?thesis by (simp only: powi2_less_iff)
  qed
  have x: "x = of_nat m + of_nat n * (nine_tenths - 9 / 10)"

  proof -
    have mn: "(of_nat m :: rat) = of_nat n * (9 / 10)" by (simp add: nm)
    show ?thesis by (simp only: x_def mn right_diff_distrib)
  qed
  have d: "0 \<le> of_nat n * (nine_tenths - 9 / 10)" "of_nat n * (nine_tenths - 9 / 10) < 2 powi (e - 52) / 2"
  proof -
    show "0 \<le> of_nat n * (nine_tenths - 9 / 10)" using nine_tenths_bounds(1) by simp
    have "of_nat n * (nine_tenths - 9 / 10) \<le> of_nat n * (1 / (5 * 2 ^ 53))"
      using nine_tenths_bounds(2) by (intro mult_left_mono) simp_all
    also have "\<dots> = of_nat m * (2 / (9 * 2 ^ 53))" by (simp add: nm)
    also have "\<dots> < 2 powi (e + 1) * (2 / (9 * 2 ^ 53))"
      using e(2) by (rule mult_strict_right_mono) simp
    also have "\<dots> \<le> 2 powi (e - 52) / 2"
      by (simp add: power_int_add power_int_diff)
    finally show "of_nat n * (nine_tenths - 9 / 10) < 2 powi (e - 52) / 2" .
  qed
  have "2 powi (e - 52) / 2 \<le> (1::rat) * 2 powi e"
    by (simp add: power_int_diff)
  have ex: "ilog2 x = e"
  proof (rule ilog2_unique)
    show "2 powi e \<le> x" using e(1) d(1) by (simp add: x)
    have "of_nat m + 1 \<le> (2::rat) powi (e + 1)"
    proof -
      have "int (nat (e + 1)) = e + 1" using e0 by simp
      then have p: "(2::rat) powi (e + 1) = of_nat (2 ^ nat (e + 1))"
        by (metis of_nat_numeral of_nat_power power_int_of_nat)
      with e(2) have "m < 2 ^ nat (e + 1)" by (simp only: of_nat_less_iff)
      then have "Suc m \<le> 2 ^ nat (e + 1)" by (rule Suc_leI)
      then have "(of_nat (Suc m) :: rat) \<le> of_nat (2 ^ nat (e + 1))" by (simp only: of_nat_le_iff)
      then show ?thesis unfolding p by (simp only: of_nat_Suc add.commute)
    qed
    moreover have "of_nat n * (nine_tenths - 9 / 10) < 1"
    proof -
      have "of_nat n * (nine_tenths - 9 / 10) \<le> of_nat n * (1 / (5 * 2 ^ 53))"
        using nine_tenths_bounds(2) by (intro mult_left_mono) simp_all
      also have "\<dots> < 1"
      proof -
        have "(of_nat n :: rat) < of_nat (2 ^ 49)" using assms(2) by (simp only: of_nat_less_iff)
        then show ?thesis by simp
      qed
      finally show ?thesis .
    qed
    ultimately show "x < 2 powi (e + 1)" by (simp add: x)
  qed
  have "0 < x" using pos d(1) by (simp add: x)
  then have q: "ulp_exp x = e - 52" using ex e0 by (simp add: ulp_exp_def)
  have e52: "e < 52"
  proof -
    have "(of_nat m :: rat) < of_nat (2 ^ 52)"
    proof -
      have "m < 2 ^ 52" using m(2) assms(2) by simp
      then show ?thesis by (simp only: of_nat_less_iff)
    qed
    then have "(2::rat) powi e < 2 powi 52" using e(1) by simp
    then show ?thesis by (simp only: powi2_less_iff)
  qed
  define k where "k = int m * 2 ^ nat (52 - e)"
  have "(2::rat) powi (e - 52) * 2 ^ nat (52 - e) = 1"
  proof -
    have "(2::rat) powi (e - 52) * 2 powi int (nat (52 - e)) = 2 powi 0"
      using e52 by (simp flip: powi2_add)
    then show ?thesis by (simp only: power_int_of_nat power_int_0_right)
  qed
  then have km: "of_int k * 2 powi (e - 52) = (of_nat m :: rat)"
    by (simp add: k_def algebra_simps)
  have "rnd x = of_int k * 2 powi (e - 52)"
    by (rule rnd_near [OF q]) (use \<open>0 < x\<close> d in \<open>simp_all add: km x\<close>)
  then show ?thesis by (simp add: km x_def m_def)
qed

lemma p90_index_eq:
  assumes "0 < n" and "n < 2 ^ 49"
  shows "p90_index n = ceil_9_10 n - 1"
proof -
  define r where "r = rnd (of_nat n * nine_tenths)"
  have low: "of_nat (ceil_9_10 n) - 15 / 16 \<le> r" and up: "r \<le> of_nat (ceil_9_10 n)"
    using rnd_p90_lower [OF assms] rnd_p90_upper [OF assms] by (simp_all add: r_def)
  have m: "0 < ceil_9_10 n" "ceil_9_10 n \<le> n" "ceil_9_10 n < 2 ^ 49"
    using assms ceil_9_10_bounds [of n] by auto
  then have "(1::rat) \<le> of_nat (ceil_9_10 n)" by simp
  then have "0 \<le> r" using low by linarith
  have "(of_nat (ceil_9_10 n) :: rat) < of_nat (2 ^ 49)" using m(3) by (simp only: of_nat_less_iff)
  then have "\<bar>r\<bar> < 2 ^ 49" using up \<open>0 \<le> r\<close> by simp
  then have "f64_mul (f64_of_nat n) (Fin nine_tenths) = Fin r"
    using assms(2) by (simp add: f64_of_nat_exact f64_round_fin r_def)
  moreover have "\<lceil>r\<rceil> = int (ceil_9_10 n)"
    by (rule ceiling_unique) (use low up in simp_all)
  ultimately show ?thesis
    using m by (simp add: p90_index_def f64_nine_tenths min_def)
qed

text \<open>
  What the rank means: the value at a sorted list's index \<open>i\<close> has more than \<open>i\<close> samples at or
  below it and at most \<open>i\<close> below it.
\<close>

lemma sort_nth_rank:
  fixes xs :: "'a::linorder list"
  assumes "i < length xs"
  defines "v \<equiv> sort xs ! i"
  shows "i < length (filter (\<lambda>x. x \<le> v) xs)" and "length (filter (\<lambda>x. x < v) xs) \<le> i"
proof -
  have len: "length (filter P xs) = length (filter P (sort xs))" for P :: "'a \<Rightarrow> bool"
  proof -
    have "mset (filter P xs) = mset (filter P (sort xs))" by simp
    then show ?thesis by (metis size_mset)
  qed
  have "set (take (Suc i) (sort xs)) \<subseteq> {x. x \<le> v}"
    using assms by (auto simp: in_set_conv_nth intro!: sorted_nth_mono)
  then have "filter (\<lambda>x. x \<le> v) (take (Suc i) (sort xs)) = take (Suc i) (sort xs)"
    by (auto simp: filter_id_conv)
  moreover have "length (filter (\<lambda>x. x \<le> v) (sort xs)) \<ge>
      length (filter (\<lambda>x. x \<le> v) (take (Suc i) (sort xs)))"
    by (metis append_take_drop_id filter_append length_append le_add1)
  ultimately show "i < length (filter (\<lambda>x. x \<le> v) xs)" using assms(1) by (simp add: len)
  have "set (drop i (sort xs)) \<subseteq> {x. \<not> x < v}"
  proof
    fix x assume "x \<in> set (drop i (sort xs))"
    then obtain j where "j < length xs - i" "x = sort xs ! (i + j)"
      using assms(1) by (auto simp: in_set_conv_nth)
    then show "x \<in> {x. \<not> x < v}" using sorted_nth_mono [of "sort xs" i "i + j"]
      by (simp add: v_def not_less)
  qed
  then have "filter (\<lambda>x. x < v) (drop i (sort xs)) = []" by (auto simp: filter_empty_conv)
  then have "filter (\<lambda>x. x < v) (sort xs) = filter (\<lambda>x. x < v) (take i (sort xs))"
    by (metis append_take_drop_id filter_append append_Nil2)
  then show "length (filter (\<lambda>x. x < v) xs) \<le> i"
    by (metis len length_filter_le length_take min.cobounded2 order_trans)
qed

lemma p90_rank:
  assumes "xs \<noteq> []" and "length xs < 2 ^ 49"
  shows "9 * length xs \<le> 10 * length (filter (\<lambda>x. x \<le> p90 xs) xs)"
    and "10 * length (filter (\<lambda>x. x < p90 xs) xs) < 9 * length xs"
proof -
  define i where "i = p90_index (length xs)"
  have n: "0 < length xs" using assms(1) by simp
  have i: "i = ceil_9_10 (length xs) - 1" using p90_index_eq [OF n assms(2)] by (simp add: i_def)
  have "i < length xs" using n ceil_9_10_bounds [of "length xs"] unfolding i by linarith
  note rank = sort_nth_rank [OF this]
  have v: "p90 xs = sort xs ! i" by (simp add: p90_def i_def)
  show "9 * length xs \<le> 10 * length (filter (\<lambda>x. x \<le> p90 xs) xs)"
    and "10 * length (filter (\<lambda>x. x < p90 xs) xs) < 9 * length xs"
    using n ceil_9_10_bounds [of "length xs"] rank i unfolding v by linarith+
qed

lemma p90_in_set: "xs \<noteq> [] \<Longrightarrow> p90 xs \<in> set xs"
proof -
  assume "xs \<noteq> []"
  then have "length xs - 1 < length (sort xs)" by (cases xs) simp_all
  then have "p90_index (length xs) < length (sort xs)" unfolding p90_index_def by linarith
  then have "sort xs ! p90_index (length xs) \<in> set (sort xs)" by (rule nth_mem)
  then show ?thesis by (simp add: p90_def)
qed

subsection \<open>Snapshots\<close>

record rtt_snapshot =
  avg_rtt_ms :: u64
  min_rtt_ms :: u64
  max_rtt_ms :: u64
  jitter_ms :: u64
  packet_loss_rate :: f64
  sample_count :: nat

definition default_rtt_snapshot :: rtt_snapshot where
  "default_rtt_snapshot =
     \<lparr>avg_rtt_ms = 0, min_rtt_ms = 0, max_rtt_ms = 0, jitter_ms = 0,
      packet_loss_rate = Fin 0, sample_count = 0\<rparr>"

text \<open>\<open>(v as i64 - avg as i64).unsigned_abs()\<close>: the difference wraps at 64 bits.\<close>

definition abs_diff_i64 :: "u64 \<Rightarrow> u64 \<Rightarrow> u64" where
  "abs_diff_i64 v avg = (let d = v - avg in if sint d < 0 then - d else d)"

definition snapshot_of :: "u64 list \<Rightarrow> rtt_snapshot" where
  "snapshot_of xs =
     (let sorted = sort xs;
          total = sum_list sorted;
          avg = total div of_nat (length sorted);
          jitter = (if 1 < length sorted
            then sum_list (map (\<lambda>v. abs_diff_i64 v avg) sorted) div of_nat (length sorted)
            else 0)
      in \<lparr>avg_rtt_ms = avg, min_rtt_ms = sorted ! 0, max_rtt_ms = sorted ! (length sorted - 1),
          jitter_ms = jitter, packet_loss_rate = Fin 0, sample_count = length sorted\<rparr>)"

subsection \<open>Interfaces\<close>

text \<open>The state-changing calls on a window: a sample is pushed, or the statistic is read.\<close>

datatype win_op = Push u64 | Read

fun pushes :: "win_op list \<Rightarrow> u64 list" where
  "pushes [] = []"
| "pushes (Push x # ops) = x # pushes ops"
| "pushes (Read # ops) = pushes ops"

fun win_run :: "('s \<Rightarrow> u64 \<Rightarrow> 's exec) \<Rightarrow> ('s \<Rightarrow> ('v \<times> 's) exec) \<Rightarrow> win_op list \<Rightarrow> 's \<Rightarrow> 's exec" where
  "win_run push read [] s = Done s"
| "win_run push read (Push x # ops) s =
     (case push s x of Panic \<Rightarrow> Panic | Done s' \<Rightarrow> win_run push read ops s')"
| "win_run push read (Read # ops) s =
     (case read s of Panic \<Rightarrow> Panic | Done (_, s') \<Rightarrow> win_run push read ops s')"

locale sliding_window =
  fixes push :: "'s \<Rightarrow> u64 \<Rightarrow> 's exec"
    and samples :: "'s \<Rightarrow> u64 list"
    and capacity :: "'s \<Rightarrow> nat"
    and inv :: "'s \<Rightarrow> bool"
  assumes capacity_pos: "inv s \<Longrightarrow> 0 < capacity s"
    and push_ok: "inv s \<Longrightarrow> \<exists>s'. push s x = Done s' \<and> inv s' \<and> capacity s' = capacity s \<and>
      samples s' = (if capacity s \<le> length (samples s) then tl (samples s) else samples s) @ [x]"
begin

lemma push_last_n:
  assumes "inv s" and "samples s = last_n (capacity s) hist" and "push s x = Done s'"
  shows "inv s' \<and> capacity s' = capacity s \<and> samples s' = last_n (capacity s) (hist @ [x])"
  using push_ok [OF assms(1), of x] assms capacity_pos [OF assms(1)]
  by (auto simp: last_n_snoc)

end

text \<open>A cached read returns the statistic of the current samples and changes only the cache.\<close>

locale cached_window = sliding_window push samples capacity inv
  for push :: "'s \<Rightarrow> u64 \<Rightarrow> 's exec" and samples capacity inv +
  fixes read :: "'s \<Rightarrow> ('v \<times> 's) exec"
    and stat :: "'s \<Rightarrow> u64 list \<Rightarrow> 'v"
  assumes push_stat: "inv s \<Longrightarrow> push s x = Done s' \<Longrightarrow> stat s' = stat s"
    and read_ok: "inv s \<Longrightarrow> \<exists>s'. read s = Done (stat s (samples s), s') \<and> inv s' \<and>
      capacity s' = capacity s \<and> stat s' = stat s \<and> samples s' = samples s"
begin

lemma run_last_n:
  assumes "inv s" and "samples s = last_n (capacity s) hist"
  shows "\<exists>s'. win_run push read ops s = Done s' \<and> inv s' \<and> capacity s' = capacity s \<and>
    stat s' = stat s \<and> samples s' = last_n (capacity s) (hist @ pushes ops)"
  using assms
proof (induction ops arbitrary: s hist)
  case Nil
  then show ?case by simp
next
  case (Cons op ops)
  show ?case
  proof (cases op)
    case (Push x)
    obtain s1 where s1: "push s x = Done s1" using push_ok [OF Cons.prems(1)] by blast
    from push_last_n [OF Cons.prems s1] push_stat [OF Cons.prems(1) s1]
      Cons.IH [of s1 "hist @ [x]"]
    show ?thesis by (simp add: Push s1)
  next
    case Read
    obtain s1 where "read s = Done (stat s (samples s), s1)" "inv s1" "capacity s1 = capacity s"
      "stat s1 = stat s" "samples s1 = samples s" using read_ok [OF Cons.prems(1)] by blast
    with Cons.IH [of s1 hist] Cons.prems(2) show ?thesis by (simp add: Read)
  qed
qed

lemma read_after_run:
  assumes "inv s" and "samples s = []"
  shows "\<exists>s' s''. win_run push read ops s = Done s' \<and>
    read s' = Done (stat s (last_n (capacity s) (pushes ops)), s'')"
proof -
  from run_last_n [OF assms(1), of "[]" ops] assms(2) obtain s' where
    s': "win_run push read ops s = Done s'" "inv s'" "stat s' = stat s"
      "samples s' = last_n (capacity s) (pushes ops)" by auto
  with read_ok [OF s'(2)] show ?thesis by force
qed

end

end
