(* ===== verification/Adaptive_Timeout.thy ===== *)
theory Adaptive_Timeout
  imports Rtt_Window
begin

section \<open>The adaptive timeout\<close>

text \<open>
  Models \<^verbatim>\<open>catcher-http/src/resilience/timeout.rs\<close>: a window of RTT samples, the lazily
  cached P90 and snapshot, and the clamped timeout.  The code panics when a sample is recorded
  with \<open>window_size = 0\<close> (\<open>Vec::remove(0)\<close> on an empty vector) and when \<open>clamp\<close> is called
  with \<open>min > max\<close>; both are \<open>Panic\<close> here.
\<close>

record adaptive_timeout =
  rtt_window :: "u64 list"
  window_size :: nat
  min_timeout_ms :: u64
  max_timeout_ms :: u64
  multiplier :: f64
  cached_p90 :: "u64 option"
  cached_snapshot :: "rtt_snapshot option"
  dirty :: bool

definition at_new :: "u64 \<Rightarrow> u64 \<Rightarrow> f64 \<Rightarrow> nat \<Rightarrow> adaptive_timeout" where
  "at_new mn mx m w =
     \<lparr>rtt_window = [], window_size = w, min_timeout_ms = mn, max_timeout_ms = mx,
      multiplier = m, cached_p90 = None, cached_snapshot = None, dirty = False\<rparr>"

definition at_record :: "adaptive_timeout \<Rightarrow> u64 \<Rightarrow> adaptive_timeout exec" where
  "at_record t rtt_ms =
     (if window_size t \<le> length (rtt_window t) \<and> rtt_window t = [] then Panic
      else
        let w = (if window_size t \<le> length (rtt_window t) then tl (rtt_window t) else rtt_window t)
        in Done (t\<lparr>rtt_window := w @ [rtt_ms], dirty := True\<rparr>))"

definition clamp_u64 :: "u64 \<Rightarrow> u64 \<Rightarrow> u64 \<Rightarrow> u64 exec" where
  "clamp_u64 lo hi x =
     (if lo \<le> hi then Done (if x < lo then lo else if hi < x then hi else x) else Panic)"

definition at_timeout_ms :: "adaptive_timeout \<Rightarrow> (u64 \<times> adaptive_timeout) exec" where
  "at_timeout_ms t =
     (if rtt_window t = [] then Done (min_timeout_ms t, t)
      else
        let t' = (if dirty t then t\<lparr>cached_p90 := Some (p90 (rtt_window t)), dirty := False\<rparr> else t);
            p = (case cached_p90 t' of Some v \<Rightarrow> v | None \<Rightarrow> min_timeout_ms t');
            timeout = f64_to_u64 (f64_mul (f64_of_u64 p) (multiplier t'))
        in (case clamp_u64 (min_timeout_ms t') (max_timeout_ms t') timeout of
              Panic \<Rightarrow> Panic | Done v \<Rightarrow> Done (v, t')))"

definition at_snapshot :: "adaptive_timeout \<Rightarrow> rtt_snapshot \<times> adaptive_timeout" where
  "at_snapshot t =
     (if rtt_window t = [] then (default_rtt_snapshot, t)
      else
        let t' = (if dirty t
                  then t\<lparr>cached_snapshot := Some (snapshot_of (rtt_window t)),
                         cached_p90 := Some (p90 (rtt_window t)), dirty := False\<rparr>
                  else t)
        in (case cached_snapshot t' of Some s \<Rightarrow> s | None \<Rightarrow> default_rtt_snapshot, t'))"

definition at_from_snapshot :: "rtt_snapshot \<Rightarrow> f64 \<Rightarrow> u64" where
  "at_from_snapshot s m = max (f64_to_u64 (f64_mul (f64_of_u64 (avg_rtt_ms s)) m)) 5000"

subsection \<open>The invariant and the interface\<close>

definition at_inv :: "adaptive_timeout \<Rightarrow> bool" where
  "at_inv t \<longleftrightarrow> 0 < window_size t \<and> min_timeout_ms t \<le> max_timeout_ms t \<and>
     (rtt_window t \<noteq> [] \<longrightarrow> \<not> dirty t \<longrightarrow> cached_p90 t = Some (p90 (rtt_window t)))"

definition at_stat :: "adaptive_timeout \<Rightarrow> u64 list \<Rightarrow> u64" where
  "at_stat t xs =
     (if xs = [] then min_timeout_ms t
      else max (min_timeout_ms t)
        (min (max_timeout_ms t) (f64_to_u64 (f64_mul (f64_of_u64 (p90 xs)) (multiplier t)))))"

lemma clamp_u64_Done: "lo \<le> hi \<Longrightarrow> clamp_u64 lo hi x = Done (max lo (min hi x))"
  by (auto simp: clamp_u64_def max_def min_def)

lemma at_inv_snapshot: "at_inv t \<Longrightarrow> at_inv (snd (at_snapshot t))"
  by (auto simp: at_inv_def at_snapshot_def Let_def)

interpretation at: cached_window at_record rtt_window window_size at_inv at_timeout_ms at_stat
proof
  fix s :: adaptive_timeout and s' :: adaptive_timeout and x :: u64
  assume inv: "at_inv s"
  then show "0 < window_size s" by (simp add: at_inv_def)
  show "\<exists>s'. at_record s x = Done s' \<and> at_inv s' \<and> window_size s' = window_size s \<and>
      rtt_window s' = (if window_size s \<le> length (rtt_window s) then tl (rtt_window s)
        else rtt_window s) @ [x]"
    using inv by (auto simp: at_record_def at_inv_def Let_def)
  show "at_stat s' = at_stat s" if "at_record s x = Done s'"
    using that by (auto simp: at_record_def at_stat_def Let_def fun_eq_iff split: if_splits)
  show "\<exists>s'. at_timeout_ms s = Done (at_stat s (rtt_window s), s') \<and> at_inv s' \<and>
      window_size s' = window_size s \<and> at_stat s' = at_stat s \<and> rtt_window s' = rtt_window s"
    using inv
    by (auto simp: at_timeout_ms_def at_inv_def at_stat_def Let_def clamp_u64_Done fun_eq_iff)
qed

lemma at_new_inv: "0 < w \<Longrightarrow> mn \<le> mx \<Longrightarrow> at_inv (at_new mn mx m w)"
  by (simp add: at_inv_def at_new_def)

lemma at_new_simps [simp]:
  "rtt_window (at_new mn mx m w) = []"
  "window_size (at_new mn mx m w) = w"
  "at_stat (at_new mn mx m w) [] = mn"
  by (simp_all add: at_new_def at_stat_def)

subsection \<open>Properties\<close>

text \<open>
  C16. A timeout is never stale: after any sequence of recorded samples and timeout reads, in any
  order, no call panics and the next timeout is the P90 of the last \<open>window_size\<close> samples times
  the multiplier, clamped (the minimum when there is no sample).
\<close>

theorem timeout_is_current:
  assumes "0 < w" and "mn \<le> mx"
  shows "\<exists>s s'. win_run at_record at_timeout_ms ops (at_new mn mx m w) = Done s \<and>
    at_timeout_ms s = Done (at_stat (at_new mn mx m w) (last_n w (pushes ops)), s')"
  using at.read_after_run [OF at_new_inv [OF assms], of m ops] by simp

theorem timeout_is_current_witness:
  "\<exists>s s'. win_run at_record at_timeout_ms [Push 100, Read, Push 200, Push 300]
      (at_new 100 5000 (Fin 2) 2) = Done s \<and>
    at_timeout_ms s = Done (at_stat (at_new 100 5000 (Fin 2) 2) [200, 300], s')"
  using timeout_is_current [of 2 100 5000 "[Push 100, Read, Push 200, Push 300]" "Fin 2"]
  by (simp add: last_n_def)

text \<open>
  The timeout lies between the configured bounds, whatever the multiplier (NaN and
  infinities included).
\<close>

theorem timeout_within_bounds:
  assumes "0 < window_size t" and "min_timeout_ms t \<le> max_timeout_ms t"
    and "at_timeout_ms t = Done (v, t')"
  shows "min_timeout_ms t \<le> v \<and> v \<le> max_timeout_ms t"
  using assms by (auto simp: at_timeout_ms_def clamp_u64_def Let_def
    split: if_splits exec.splits option.splits)

theorem timeout_within_bounds_witness:
  "(100::u64) \<le> 100 \<and> (100::u64) \<le> 5000"
  using timeout_within_bounds [of "at_new 100 5000 NaN 3" 100 "at_new 100 5000 NaN 3"]
  by (simp add: at_new_def at_timeout_ms_def)

lemma at_record_keeps_snapshot:
  "at_record t x = Done t' \<Longrightarrow> cached_snapshot t' = cached_snapshot t"
  by (auto simp: at_record_def Let_def split: if_splits)

lemma at_pushes_dirty:
  assumes "at_inv t" and "win_run at_record at_timeout_ms (map Push xs) t = Done t'" and "xs \<noteq> []"
  shows "dirty t' \<and> rtt_window t' \<noteq> [] \<and> cached_snapshot t' = cached_snapshot t \<and> at_inv t'"
  using assms
proof (induction xs arbitrary: t)
  case (Cons x xs)
  obtain t1 where t1: "at_record t x = Done t1" and inv: "at_inv t1"
    using at.push_ok [OF Cons.prems(1), of x] by blast
  have d: "dirty t1" "rtt_window t1 \<noteq> []" "cached_snapshot t1 = cached_snapshot t"
    using t1 by (auto simp: at_record_def Let_def split: if_splits)
  show ?case
  proof (cases "xs = []")
    case True
    with Cons.prems(2) t1 d inv show ?thesis by simp
  next
    case False
    with Cons.IH [OF inv] Cons.prems(2) t1 d show ?thesis by simp
  qed
qed simp

text \<open>
  The snapshot, unlike the timeout, can be stale: a timeout read clears the dirty flag without
  computing the snapshot, so after samples were recorded and a timeout was read, \<open>snapshot\<close>
  returns the default (no samples) on a window that is not empty.
\<close>

theorem snapshot_stale_after_timeout:
  assumes "0 < w" and "mn \<le> mx" and "xs \<noteq> []"
    and "win_run at_record at_timeout_ms (map Push xs @ [Read]) (at_new mn mx m w) = Done t"
  shows "rtt_window t \<noteq> [] \<and> fst (at_snapshot t) = default_rtt_snapshot"
proof -
  have app: "win_run at_record at_timeout_ms (map Push xs @ [Read]) s =
      (case win_run at_record at_timeout_ms (map Push xs) s of Panic \<Rightarrow> Panic
       | Done s' \<Rightarrow> win_run at_record at_timeout_ms [Read] s')" for s xs
    by (induction xs arbitrary: s) (auto split: exec.splits)
  obtain t1 where t1: "win_run at_record at_timeout_ms (map Push xs) (at_new mn mx m w) = Done t1"
    and rd: "win_run at_record at_timeout_ms [Read] t1 = Done t"
    using assms(4) by (auto simp: app split: exec.splits)
  have "dirty t1" "rtt_window t1 \<noteq> []" "cached_snapshot t1 = None" "at_inv t1"
    using at_pushes_dirty [OF at_new_inv [OF assms(1,2)] t1 assms(3)] by (simp_all add: at_new_def)
  with rd show ?thesis
    by (auto simp: at_timeout_ms_def at_snapshot_def Let_def split: exec.splits)
qed

theorem snapshot_stale_after_timeout_witness:
  "\<exists>t. win_run at_record at_timeout_ms [Push 120, Push 80, Read] (at_new 100 5000 (Fin 2) 10)
      = Done t \<and> fst (at_snapshot t) = default_rtt_snapshot"
proof -
  obtain t where "win_run at_record at_timeout_ms [Push 120, Push 80, Read]
      (at_new 100 5000 (Fin 2) 10) = Done t"
    using at.read_after_run [OF at_new_inv, of 10 100 5000 "Fin 2" "[Push 120, Push 80, Read]"] by auto
  with snapshot_stale_after_timeout [of 10 100 5000 "[120, 80]" "Fin 2" t] show ?thesis by auto
qed

end
