(* ===== verification/Core_Error.thy ===== *)
theory Core_Error
  imports Rust_Text Rust_Float
begin

section \<open>Errors and what crosses to JavaScript\<close>

text \<open>
  Models \<^verbatim>\<open>catcher-core/src/error.rs\<close> (the error type, its display text, its category) and
  \<^verbatim>\<open>catcher-napi-http/src/error.rs\<close> (the payload handed to JavaScript).  A payload is
  serialised as a JSON value; printing it as text is the work of \<open>serde_json\<close> and not modelled.
\<close>

datatype catcher_error =
    ConnectionTimeout u64
  | RequestTimeout u64
  | TlsError string
  | DnsError string string
  | ConnectionError string string
  | TransportError string
  | HttpError u16 string
  | WsHandshakeTimeout u64
  | WsDisconnected u16 string
  | WsAllEndpointsFailed nat
  | RetryExhausted u32 catcher_error
  | CircuitBreakerOpen
  | QueueTimeout u64
  | EncodeError string
  | DecodeError string
  | InvalidConfig string
  | SseTimeout u64
  | Internal string

datatype error_category = Retryable | NonRetryable

fun category :: "catcher_error \<Rightarrow> error_category" where
  "category (HttpError status _) = (if 500 \<le> status then Retryable else NonRetryable)"
| "category (RetryExhausted _ _) = NonRetryable"
| "category (EncodeError _) = NonRetryable"
| "category (DecodeError _) = NonRetryable"
| "category (InvalidConfig _) = NonRetryable"
| "category (Internal _) = NonRetryable"
| "category (QueueTimeout _) = NonRetryable"
| "category (SseTimeout _) = NonRetryable"
| "category _ = Retryable"

abbreviation show_word :: "'a::len word \<Rightarrow> string" where
  "show_word w \<equiv> dec (unat w)"

primrec display :: "catcher_error \<Rightarrow> string" where
  "display (ConnectionTimeout ms) = ''connection timeout after '' @ show_word ms @ ''ms''"
| "display (RequestTimeout ms) = ''request timeout after '' @ show_word ms @ ''ms''"
| "display (TlsError r) = ''TLS error: '' @ r"
| "display (DnsError h r) = ''DNS resolution failed for '' @ h @ '': '' @ r"
| "display (ConnectionError h r) = ''connection failed for '' @ h @ '': '' @ r"
| "display (TransportError r) = ''transport request failed: '' @ r"
| "display (HttpError st b) = ''HTTP error: status '' @ show_word st @ '', body: '' @ b"
| "display (WsHandshakeTimeout ms) = ''WS handshake timeout after '' @ show_word ms @ ''ms''"
| "display (WsDisconnected c r) = ''WS disconnected: code='' @ show_word c @ '', reason='' @ r"
| "display (WsAllEndpointsFailed n) = ''all WS endpoints failed ('' @ dec n @ '' attempted)''"
| "display (RetryExhausted n e) =
     ''retry exhausted after '' @ show_word n @ '' attempts: '' @ display e"
| "display CircuitBreakerOpen = ''circuit breaker is OPEN, request rejected''"
| "display (QueueTimeout ms) = ''queue timeout after '' @ show_word ms @ ''ms''"
| "display (EncodeError r) = ''msgpack encode error: '' @ r"
| "display (DecodeError r) = ''msgpack decode error: '' @ r"
| "display (InvalidConfig r) = ''invalid configuration: '' @ r"
| "display (SseTimeout ms) = ''SSE stream timeout after '' @ show_word ms @ ''ms''"
| "display (Internal r) = ''internal error: '' @ r"

subsection \<open>JSON values\<close>

datatype json =
    JNull
  | JBool bool
  | JNum int
  | JFloat f64
  | JStr string
  | JArr "json list"
  | JObj "(string \<times> json) list"

fun json_get :: "string \<Rightarrow> json \<Rightarrow> json option" where
  "json_get k (JObj fs) = map_of fs k"
| "json_get k _ = None"

text \<open>A field with \<open>skip_serializing_if = "Option::is_none"\<close>.\<close>

definition opt_field :: "string \<Rightarrow> ('a \<Rightarrow> json) \<Rightarrow> 'a option \<Rightarrow> (string \<times> json) list" where
  "opt_field k f x = (case x of None \<Rightarrow> [] | Some v \<Rightarrow> [(k, f v)])"

lemma opt_field_simps [simp]:
  "opt_field k f None = []"
  "opt_field k f (Some v) = [(k, f v)]"
  by (simp_all add: opt_field_def)

abbreviation JWord :: "'a::len word \<Rightarrow> json" where
  "JWord w \<equiv> JNum (uint w)"

subsection \<open>The native payload\<close>

datatype native_error_payload = NativeErrorPayload
  (nep_code: string) (nep_phase: string) (nep_retryable: bool) (nep_message: string)
  (nep_details: native_error_details)
and native_error_details = NativeErrorDetails
  (ned_status: "u16 option") (ned_body: "string option") (ned_timeout_ms: "u64 option")
  (ned_host: "string option") (ned_reason: "string option") (ned_attempts: "u32 option")
  (ned_last_error: "native_error_payload option")

abbreviation no_details :: native_error_details where
  "no_details \<equiv> NativeErrorDetails None None None None None None None"

abbreviation timeout_details :: "u64 \<Rightarrow> native_error_details" where
  "timeout_details ms \<equiv> NativeErrorDetails None None (Some ms) None None None None"

abbreviation reason_details :: "string \<Rightarrow> native_error_details" where
  "reason_details r \<equiv> NativeErrorDetails None None None None (Some r) None None"

primrec native_payload :: "catcher_error \<Rightarrow> native_error_payload" where
  "native_payload (ConnectionTimeout ms) = NativeErrorPayload ''CONNECTION_TIMEOUT'' ''connect''
     (category (ConnectionTimeout ms) = Retryable) (display (ConnectionTimeout ms))
     (timeout_details ms)"
| "native_payload (RequestTimeout ms) = NativeErrorPayload ''REQUEST_TIMEOUT'' ''request''
     (category (RequestTimeout ms) = Retryable) (display (RequestTimeout ms)) (timeout_details ms)"
| "native_payload (TlsError r) = NativeErrorPayload ''TLS_ERROR'' ''tls''
     (category (TlsError r) = Retryable) (display (TlsError r)) (reason_details r)"
| "native_payload (DnsError h r) = NativeErrorPayload ''DNS_ERROR'' ''dns''
     (category (DnsError h r) = Retryable) (display (DnsError h r))
     (NativeErrorDetails None None None (Some h) (Some r) None None)"
| "native_payload (ConnectionError h r) = NativeErrorPayload ''CONNECTION_ERROR'' ''connect''
     (category (ConnectionError h r) = Retryable) (display (ConnectionError h r))
     (NativeErrorDetails None None None (Some h) (Some r) None None)"
| "native_payload (TransportError r) = NativeErrorPayload ''TRANSPORT_ERROR'' ''request''
     (category (TransportError r) = Retryable) (display (TransportError r)) (reason_details r)"
| "native_payload (HttpError st b) = NativeErrorPayload ''HTTP_ERROR'' ''response''
     (category (HttpError st b) = Retryable) (display (HttpError st b))
     (NativeErrorDetails (Some st) (Some b) None None None None None)"
| "native_payload (WsHandshakeTimeout ms) =
     NativeErrorPayload ''WS_HANDSHAKE_TIMEOUT'' ''connect''
     (category (WsHandshakeTimeout ms) = Retryable) (display (WsHandshakeTimeout ms))
     (timeout_details ms)"
| "native_payload (WsDisconnected c r) = NativeErrorPayload ''WS_DISCONNECTED'' ''request''
     (category (WsDisconnected c r) = Retryable) (display (WsDisconnected c r))
     (NativeErrorDetails (Some c) None None None (Some r) None None)"
| "native_payload (WsAllEndpointsFailed n) =
     NativeErrorPayload ''WS_ALL_ENDPOINTS_FAILED'' ''connect''
     (category (WsAllEndpointsFailed n) = Retryable) (display (WsAllEndpointsFailed n))
     (NativeErrorDetails None None None None None
        (if n < 2 ^ 32 then Some (of_nat n) else None) None)"
| "native_payload (RetryExhausted n e) = NativeErrorPayload ''RETRY_EXHAUSTED'' ''request''
     (category (RetryExhausted n e) = Retryable) (display (RetryExhausted n e))
     (NativeErrorDetails None None None None None (Some n) (Some (native_payload e)))"
| "native_payload CircuitBreakerOpen = NativeErrorPayload ''CIRCUIT_BREAKER_OPEN'' ''request''
     (category CircuitBreakerOpen = Retryable) (display CircuitBreakerOpen) no_details"
| "native_payload (QueueTimeout ms) = NativeErrorPayload ''QUEUE_TIMEOUT'' ''queue''
     (category (QueueTimeout ms) = Retryable) (display (QueueTimeout ms)) (timeout_details ms)"
| "native_payload (EncodeError r) = NativeErrorPayload ''ENCODE_ERROR'' ''encode''
     (category (EncodeError r) = Retryable) (display (EncodeError r)) (reason_details r)"
| "native_payload (DecodeError r) = NativeErrorPayload ''DECODE_ERROR'' ''decode''
     (category (DecodeError r) = Retryable) (display (DecodeError r)) (reason_details r)"
| "native_payload (InvalidConfig r) = NativeErrorPayload ''INVALID_CONFIG'' ''config''
     (category (InvalidConfig r) = Retryable) (display (InvalidConfig r)) (reason_details r)"
| "native_payload (SseTimeout ms) = NativeErrorPayload ''SSE_TIMEOUT'' ''request''
     (category (SseTimeout ms) = Retryable) (display (SseTimeout ms)) (timeout_details ms)"
| "native_payload (Internal r) = NativeErrorPayload ''INTERNAL_ERROR'' ''internal''
     (category (Internal r) = Retryable) (display (Internal r)) (reason_details r)"

text \<open>The serialised form: camel-case keys, absent options left out.\<close>

primrec payload_json :: "native_error_payload \<Rightarrow> json" and details_json :: "native_error_details \<Rightarrow> json"
where
  "payload_json (NativeErrorPayload c p r m d) =
     JObj [(''code'', JStr c), (''phase'', JStr p), (''retryable'', JBool r),
           (''message'', JStr m), (''details'', details_json d)]"
| "details_json (NativeErrorDetails st b t h r a l) =
     JObj (opt_field ''status'' JWord st @ opt_field ''body'' JStr b @
           opt_field ''timeoutMs'' JWord t @ opt_field ''host'' JStr h @
           opt_field ''reason'' JStr r @ opt_field ''attempts'' JWord a @
           opt_field ''lastError'' id (map_option payload_json l))"

definition to_napi_error :: "catcher_error \<Rightarrow> string \<times> json" where
  "to_napi_error e = (''CATCHER_ERROR:'', payload_json (native_payload e))"

subsection \<open>Properties\<close>

lemma payload_json_inject:
  "payload_json (native_payload e) = payload_json (native_payload e') \<Longrightarrow> e = e'"
proof (induction e arbitrary: e')
  case (RetryExhausted n e)
  then show ?case by (cases e') (auto intro: unsigned_word_eqI)
next
  case (WsAllEndpointsFailed n)
  then show ?case by (cases e') (auto intro: unsigned_word_eqI)
qed (case_tac e'; auto intro: unsigned_word_eqI)+

text \<open>
  C22. Nothing is lost on the way to JavaScript: two errors with the same serialised payload are
  the same error, with its fields and, through \<open>RetryExhausted\<close>, its nested errors.
\<close>

theorem napi_error_lossless:
  "inj to_napi_error"
  by (rule injI) (simp add: to_napi_error_def payload_json_inject)

end
