(* ===== verification/Network_Quality.thy ===== *)
theory Network_Quality
  imports Rtt_Window Core_Error
begin

section \<open>Network quality\<close>

text \<open>
  Models \<^verbatim>\<open>catcher-http/src/observability/network_quality.rs\<close>, the levels of
  \<^verbatim>\<open>catcher-core/src/types/observability.rs\<close> and \<^verbatim>\<open>scheduler/concurrency.rs\<close>.  The HTTP
  client is not modelled: what one \<open>HEAD\<close> request returns (a status and the elapsed
  milliseconds, or a failure) is an argument of the measurement.
\<close>

datatype network_quality_level = Excellent | Good | Fair | Poor | Bad

text \<open>The derived \<open>Ord\<close>: the order of the variants.\<close>

primrec level_rank :: "network_quality_level \<Rightarrow> nat" where
  "level_rank Excellent = 0"
| "level_rank Good = 1"
| "level_rank Fair = 2"
| "level_rank Poor = 3"
| "level_rank Bad = 4"

instantiation network_quality_level :: linorder
begin

definition less_eq_network_quality_level :: "network_quality_level \<Rightarrow> network_quality_level \<Rightarrow> bool" where
  "less_eq_network_quality_level a b \<longleftrightarrow> level_rank a \<le> level_rank b"

definition less_network_quality_level :: "network_quality_level \<Rightarrow> network_quality_level \<Rightarrow> bool" where
  "less_network_quality_level a b \<longleftrightarrow> level_rank a < level_rank b"

instance
proof
  fix a b :: network_quality_level
  show "a \<le> b \<Longrightarrow> b \<le> a \<Longrightarrow> a = b"
    by (cases a; cases b) (simp_all add: less_eq_network_quality_level_def)
qed (auto simp: less_eq_network_quality_level_def less_network_quality_level_def)

end

lemmas level_order = less_eq_network_quality_level_def less_network_quality_level_def

datatype connection_type = Wifi | Cellular | Ethernet | Vpn | Unknown

record network_quality_result =
  nq_level :: network_quality_level
  nq_avg_rtt_ms :: u64
  nq_jitter_ms :: u64
  nq_packet_loss_rate :: f64
  nq_connection_type :: connection_type

subsection \<open>The evaluator\<close>

record evaluator =
  sliding_window :: "u64 list"
  nq_window_size :: nat
  connection_type :: connection_type
  nq_cached_snapshot :: "rtt_snapshot option"
  nq_dirty :: bool

definition nq_new :: "nat \<Rightarrow> evaluator" where
  "nq_new w =
     \<lparr>sliding_window = [], nq_window_size = w, connection_type = Unknown,
      nq_cached_snapshot = None, nq_dirty = False\<rparr>"

definition set_connection_type :: "connection_type \<Rightarrow> evaluator \<Rightarrow> evaluator" where
  "set_connection_type ct e = e\<lparr>connection_type := ct\<rparr>"

definition record_rtt :: "evaluator \<Rightarrow> u64 \<Rightarrow> evaluator exec" where
  "record_rtt e rtt_ms =
     (if nq_window_size e \<le> length (sliding_window e) \<and> sliding_window e = [] then Panic
      else
        let w = (if nq_window_size e \<le> length (sliding_window e) then tl (sliding_window e)
                 else sliding_window e)
        in Done (e\<lparr>sliding_window := w @ [rtt_ms], nq_dirty := True\<rparr>))"

text \<open>What one \<open>HEAD\<close> request gives: no response with an error text, or a status and the elapsed
  time.\<close>

datatype head_result = NoResponse string | Responded u16 u64

definition is_success_status :: "u16 \<Rightarrow> bool" where
  "is_success_status s \<longleftrightarrow> 200 \<le> s \<and> s < 300"

definition measure_http_rtt ::
  "string \<Rightarrow> string \<Rightarrow> head_result \<Rightarrow> evaluator \<Rightarrow> ((catcher_error + u64) \<times> evaluator) exec"
where
  "measure_http_rtt host path r e =
     (case r of
        NoResponse msg \<Rightarrow>
          Done (Err (Internal (''HEAD '' @ host @ path @ '': '' @ msg)), e)
      | Responded s rtt \<Rightarrow>
          (if is_success_status s \<or> s = 404
           then (case record_rtt e rtt of Panic \<Rightarrow> Panic | Done e' \<Rightarrow> Done (Ok rtt, e'))
           else Done (Err (HttpError s []), e)))"

definition nq_rtt_snapshot :: "evaluator \<Rightarrow> rtt_snapshot \<times> evaluator" where
  "nq_rtt_snapshot e =
     (if sliding_window e = [] then (default_rtt_snapshot, e)
      else
        let e' = (if nq_dirty e
                  then e\<lparr>nq_cached_snapshot := Some (snapshot_of (sliding_window e)),
                         nq_dirty := False\<rparr>
                  else e)
        in (case nq_cached_snapshot e' of Some s \<Rightarrow> s | None \<Rightarrow> default_rtt_snapshot, e'))"

definition classify_quality :: "rtt_snapshot \<Rightarrow> network_quality_level" where
  "classify_quality s =
     (if sample_count s = 0 then Bad
      else
        let r = avg_rtt_ms s; j = jitter_ms s
        in if r < 80 then Excellent
           else if r < 200 then Good
           else if r < 500 \<and> j < 150 then Fair
           else if r < 1000 then Poor
           else Bad)"

definition evaluate :: "evaluator \<Rightarrow> network_quality_result \<times> evaluator" where
  "evaluate e =
     (case nq_rtt_snapshot e of
        (s, e') \<Rightarrow>
          (\<lparr>nq_level = classify_quality s, nq_avg_rtt_ms = avg_rtt_ms s,
            nq_jitter_ms = jitter_ms s, nq_packet_loss_rate = packet_loss_rate s,
            nq_connection_type = connection_type e'\<rparr>, e'))"

fun concurrency_for_quality :: "network_quality_level \<Rightarrow> nat" where
  "concurrency_for_quality Excellent = 50"
| "concurrency_for_quality Good = 25"
| "concurrency_for_quality Fair = 10"
| "concurrency_for_quality Poor = 5"
| "concurrency_for_quality Bad = 2"

subsection \<open>The subscription loop\<close>

text \<open>
  One tick of \<open>QualitySubscription\<close>: measure; on success evaluate, and if the level differs
  from the previous one call back with it and the trend.  The event carries the JSON's fields.
\<close>

record quality_event =
  ev_level :: network_quality_level
  ev_previous :: "network_quality_level option"
  ev_trend :: string
  ev_avg_rtt_ms :: u64
  ev_jitter_ms :: u64
  ev_sample_count :: nat

record subscription =
  sub_evaluator :: evaluator
  previous_level :: "network_quality_level option"

definition sub_start :: subscription where
  "sub_start = \<lparr>sub_evaluator = nq_new 50, previous_level = None\<rparr>"

definition quality_tick ::
  "string \<Rightarrow> head_result \<Rightarrow> subscription \<Rightarrow> (quality_event option \<times> subscription) exec" where
  "quality_tick h r sub =
     (case measure_http_rtt h ''/'' r (sub_evaluator sub) of
        Panic \<Rightarrow> Panic
      | Done (Inl _, e) \<Rightarrow> Done (None, sub\<lparr>sub_evaluator := e\<rparr>)
      | Done (Inr _, e) \<Rightarrow>
          (case evaluate e of (result, e1) \<Rightarrow>
             let level = nq_level result
             in if previous_level sub \<noteq> Some level
                then
                  let trend = (case previous_level sub of
                        None \<Rightarrow> ''unknown''
                      | Some prev \<Rightarrow> if level < prev then ''improving''
                          else if prev < level then ''degrading'' else ''stable'')
                  in (case nq_rtt_snapshot e1 of (s, e2) \<Rightarrow>
                       Done (Some \<lparr>ev_level = level, ev_previous = previous_level sub,
                                   ev_trend = trend, ev_avg_rtt_ms = nq_avg_rtt_ms result,
                                   ev_jitter_ms = nq_jitter_ms result,
                                   ev_sample_count = sample_count s\<rparr>,
                             sub\<lparr>sub_evaluator := e2, previous_level := Some level\<rparr>))
                else Done (None, sub\<lparr>sub_evaluator := e1\<rparr>)))"

fun quality_run ::
  "string \<Rightarrow> head_result list \<Rightarrow> subscription \<Rightarrow> (quality_event list \<times> subscription) exec" where
  "quality_run h [] sub = Done ([], sub)"
| "quality_run h (r # rs) sub =
     (case quality_tick h r sub of
        Panic \<Rightarrow> Panic
      | Done (ev, sub') \<Rightarrow>
          (case quality_run h rs sub' of
             Panic \<Rightarrow> Panic
           | Done (evs, sub'') \<Rightarrow>
               Done ((case ev of None \<Rightarrow> evs | Some x \<Rightarrow> x # evs), sub'')))"

subsection \<open>The interface\<close>

definition nq_inv :: "evaluator \<Rightarrow> bool" where
  "nq_inv e \<longleftrightarrow> 0 < nq_window_size e \<and>
     (sliding_window e \<noteq> [] \<longrightarrow> \<not> nq_dirty e \<longrightarrow>
        nq_cached_snapshot e = Some (snapshot_of (sliding_window e)))"

definition nq_stat :: "evaluator \<Rightarrow> u64 list \<Rightarrow> rtt_snapshot" where
  "nq_stat e xs = (if xs = [] then default_rtt_snapshot else snapshot_of xs)"

interpretation nq: cached_window record_rtt sliding_window nq_window_size nq_inv
  "\<lambda>e. Done (nq_rtt_snapshot e)" nq_stat
proof
  fix s :: evaluator and s' :: evaluator and x :: u64
  assume inv: "nq_inv s"
  then show "0 < nq_window_size s" by (simp add: nq_inv_def)
  show "\<exists>s'. record_rtt s x = Done s' \<and> nq_inv s' \<and> nq_window_size s' = nq_window_size s \<and>
      sliding_window s' = (if nq_window_size s \<le> length (sliding_window s)
        then tl (sliding_window s) else sliding_window s) @ [x]"
    using inv by (auto simp: record_rtt_def nq_inv_def Let_def)
  show "nq_stat s' = nq_stat s" by (simp add: nq_stat_def fun_eq_iff)
  show "\<exists>s'. Done (nq_rtt_snapshot s) = Done (nq_stat s (sliding_window s), s') \<and> nq_inv s' \<and>
      nq_window_size s' = nq_window_size s \<and> nq_stat s' = nq_stat s \<and>
      sliding_window s' = sliding_window s"
    using inv by (auto simp: nq_rtt_snapshot_def nq_inv_def nq_stat_def Let_def fun_eq_iff)
qed

subsection \<open>The snapshot's numbers\<close>

lemma sum_list_map_sort:
  fixes f :: "'a::linorder \<Rightarrow> 'b::comm_monoid_add"
  shows "sum_list (map f (sort xs)) = sum_list (map f xs)"
  by (metis mset_map mset_sort sum_mset_sum_list)

lemma unat_abs_diff:
  assumes "unat v < 2 ^ 63" and "unat a < 2 ^ 63"
  shows "int (unat (abs_diff_i64 v a)) = \<bar>int (unat v) - int (unat a)\<bar>"
proof -
  have b: "uint v < 2 ^ 63" "uint a < 2 ^ 63"
    using assms by (simp_all only: uint_nat of_nat_less_numeral_power_cancel_iff)
  have small: "sint w = uint w" if "uint w < 2 ^ 63" for w :: u64
  proof -
    have "- (2 ^ 63) \<le> uint w" by (rule order_trans [OF _ uint_ge_0]) simp
    with that have "signed_take_bit 63 (uint w) = uint w" by (intro signed_take_bit_int_eq_self)
    then show ?thesis by (simp add: sint_uint)
  qed
  have d: "sint (v - a) = uint v - uint a"
  proof -
    have "- (2 ^ 63) \<le> uint v - uint a" "uint v - uint a < 2 ^ 63"
      using b uint_ge_0 [of v] uint_ge_0 [of a] by linarith+
    then have "signed_take_bit 63 (uint v - uint a) = uint v - uint a"
      by (intro signed_take_bit_int_eq_self)
    then show ?thesis by (simp add: sint_word_diff small [OF b(1)] small [OF b(2)])
  qed
  show ?thesis
  proof (cases "uint v < uint a")
    case True
    then have "uint (a - v) = uint a - uint v" by (intro uint_sub_lem [THEN iffD1]) simp
    with True d show ?thesis unfolding abs_diff_i64_def Let_def by (simp only: uint_nat) simp
  next
    case False
    then have "uint (v - a) = uint v - uint a" by (intro uint_sub_lem [THEN iffD1]) simp
    with False d show ?thesis unfolding abs_diff_i64_def Let_def by (simp only: uint_nat) simp
  qed
qed

lemma sum_abs_diff_le:
  "(\<Sum>v\<leftarrow>xs. nat \<bar>int (f v) - int (A::nat)\<bar>) \<le> (\<Sum>v\<leftarrow>xs. f v) + length xs * A"
  by (induction xs) auto

lemma avg_of:
  fixes xs :: "u64 list"
  assumes "sum_list (map unat xs) < 2 ^ 63" and "length xs < 2 ^ 64"
  shows "unat (sum_list xs div of_nat (length xs)) = sum_list (map unat xs) div length xs"
  using assms unat_sum_list [of xs]
  by (simp add: unat_div unat_of_nat take_bit_nat_eq_self_iff)

lemma unat_le_sum: "v \<in> set xs \<Longrightarrow> unat v \<le> sum_list (map unat xs)"
  by (induction xs) auto

lemma jitter_of:
  fixes xs :: "u64 list"
  assumes "sum_list (map unat xs) < 2 ^ 63" and "xs \<noteq> []" and "length xs < 2 ^ 64"
    and A: "unat a = sum_list (map unat xs) div length xs"
  shows "unat (sum_list (map (\<lambda>v. abs_diff_i64 v a) xs) div of_nat (length xs)) =
    (\<Sum>v\<leftarrow>xs. nat \<bar>int (unat v) - int (unat a)\<bar>) div length xs"
proof -
  have a: "unat a < 2 ^ 63" using assms(1) A div_le_dividend [of "sum_list (map unat xs)" "length xs"]
    by linarith
  have el: "unat (abs_diff_i64 v a) = nat \<bar>int (unat v) - int (unat a)\<bar>" if "v \<in> set xs" for v
    using unat_abs_diff [of v a] unat_le_sum [OF that] assms(1) a by linarith
  have eq: "map unat (map (\<lambda>v. abs_diff_i64 v a) xs) = map (\<lambda>v. nat \<bar>int (unat v) - int (unat a)\<bar>) xs"
    using el by simp
  have "length xs * unat a \<le> sum_list (map unat xs)" unfolding A by simp
  then have "sum_list (map unat (map (\<lambda>v. abs_diff_i64 v a) xs)) < 2 ^ 64"
  proof -
    have "(2::nat) ^ 64 = 2 * 2 ^ 63" by simp
    with \<open>length xs * unat a \<le> sum_list (map unat xs)\<close>
    show ?thesis using sum_abs_diff_le [of unat "unat a" xs] assms(1) unfolding eq by linarith
  qed
  then have "unat (sum_list (map (\<lambda>v. abs_diff_i64 v a) xs)) =
      (\<Sum>v\<leftarrow>xs. nat \<bar>int (unat v) - int (unat a)\<bar>)"
    using unat_sum_list [of "map (\<lambda>v. abs_diff_i64 v a) xs"] eq by (simp del: map_map)
  with assms(3) show ?thesis by (simp add: unat_div unat_of_nat take_bit_nat_eq_self_iff)
qed

lemma sort_ends:
  fixes xs :: "'a::linorder list"
  assumes "xs \<noteq> []"
  shows "sort xs ! 0 = Min (set xs)" and "sort xs ! (length xs - 1) = Max (set xs)"
proof -
  have n: "0 < length (sort xs)" using assms by simp
  have "sort xs ! 0 \<le> x" if "x \<in> set xs" for x
  proof -
    from that obtain i where "i < length (sort xs)" "x = sort xs ! i"
      by (metis in_set_conv_nth set_sort)
    then show ?thesis by (simp add: sorted_nth_mono)
  qed
  moreover have "sort xs ! 0 \<in> set xs" using nth_mem [OF n] by simp
  ultimately show "sort xs ! 0 = Min (set xs)" by (intro Min_eqI [symmetric]) auto
  have "x \<le> sort xs ! (length xs - 1)" if "x \<in> set xs" for x
  proof -
    from that obtain i where "i < length (sort xs)" "x = sort xs ! i"
      by (metis in_set_conv_nth set_sort)
    then show ?thesis using sorted_nth_mono [of "sort xs" i "length xs - 1"] by simp
  qed
  moreover have "sort xs ! (length xs - 1) \<in> set xs"
    using nth_mem [of "length xs - 1" "sort xs"] n by simp
  ultimately show "sort xs ! (length xs - 1) = Max (set xs)" by (intro Max_eqI [symmetric]) auto
qed

subsection \<open>Properties\<close>

text \<open>
  The snapshot of a non-empty window whose samples sum to less than \<open>2 ^ 63\<close> ms is exact: the
  floor of the mean, the extremes, the floor of the mean absolute deviation from that mean, and
  the number of samples.  No intermediate sum or signed cast overflows.
\<close>

theorem snapshot_is_exact:
  assumes "xs \<noteq> []" and "sum_list (map unat xs) < 2 ^ 63" and "length xs < 2 ^ 64"
  defines "A \<equiv> sum_list (map unat xs) div length xs"
  shows "unat (avg_rtt_ms (snapshot_of xs)) = A \<and>
    min_rtt_ms (snapshot_of xs) = Min (set xs) \<and> max_rtt_ms (snapshot_of xs) = Max (set xs) \<and>
    unat (jitter_ms (snapshot_of xs)) = (\<Sum>v\<leftarrow>xs. nat \<bar>int (unat v) - int A\<bar>) div length xs \<and>
    sample_count (snapshot_of xs) = length xs"
proof -
  have total: "sum_list (sort xs) = sum_list xs" using sum_list_map_sort [of "\<lambda>x. x" xs] by simp
  define a where "a = sum_list xs div of_nat (length xs)"
  have a: "unat a = A" unfolding a_def A_def by (rule avg_of) (use assms in auto)
  have jit: "unat (sum_list (map (\<lambda>v. abs_diff_i64 v a) xs) div of_nat (length xs)) =
      (\<Sum>v\<leftarrow>xs. nat \<bar>int (unat v) - int A\<bar>) div length xs"
    using jitter_of [OF assms(2,1,3), of a] a by (simp add: A_def)
  have one: "(\<Sum>v\<leftarrow>xs. nat \<bar>int (unat v) - int A\<bar>) = 0" if "\<not> 1 < length xs"
  proof -
    from that assms(1) obtain x where "xs = [x]" by (cases xs) auto
    then show ?thesis by (simp add: A_def)
  qed
  have j: "unat (jitter_ms (snapshot_of xs)) =
      (\<Sum>v\<leftarrow>xs. nat \<bar>int (unat v) - int A\<bar>) div length xs"
  proof (cases "1 < length xs")
    case True
    have "jitter_ms (snapshot_of xs) =
        sum_list (map (\<lambda>v. abs_diff_i64 v a) xs) div of_nat (length xs)"
      using True by (simp add: snapshot_of_def Let_def total sum_list_map_sort flip: a_def)
    then show ?thesis by (simp only: jit)
  next
    case False
    then have "jitter_ms (snapshot_of xs) = 0" by (simp add: snapshot_of_def Let_def)
    then show ?thesis by (simp only: one [OF False] div_0 unsigned_0)
  qed
  have rest: "avg_rtt_ms (snapshot_of xs) = a" "min_rtt_ms (snapshot_of xs) = Min (set xs)"
    "max_rtt_ms (snapshot_of xs) = Max (set xs)" "sample_count (snapshot_of xs) = length xs"
    using sort_ends [OF assms(1)]
    by (simp_all add: snapshot_of_def Let_def total flip: a_def)
  show ?thesis unfolding rest using a j by blast
qed

theorem snapshot_is_exact_witness:
  "unat (avg_rtt_ms (snapshot_of [100, 50, 180])) = 110 \<and>
   unat (jitter_ms (snapshot_of [100, 50, 180])) = 46"
  using snapshot_is_exact [of "[100, 50, 180]"] by simp

text \<open>
  Quality is monotone: with samples in both, a snapshot with an average RTT and a jitter no
  smaller is never classified better, and the suggested concurrency never grows with it.
\<close>

theorem quality_is_monotone:
  assumes "sample_count s \<noteq> 0" and "sample_count s' \<noteq> 0"
    and "avg_rtt_ms s \<le> avg_rtt_ms s'" and "jitter_ms s \<le> jitter_ms s'"
  shows "classify_quality s \<le> classify_quality s' \<and>
    concurrency_for_quality (classify_quality s') \<le> concurrency_for_quality (classify_quality s)"
  using assms by (auto simp: classify_quality_def level_order Let_def)

theorem quality_is_monotone_witness:
  "classify_quality \<lparr>avg_rtt_ms = 90, min_rtt_ms = 1, max_rtt_ms = 100, jitter_ms = 10,
     packet_loss_rate = Fin 0, sample_count = 3\<rparr> \<le>
   classify_quality \<lparr>avg_rtt_ms = 300, min_rtt_ms = 1, max_rtt_ms = 900, jitter_ms = 200,
     packet_loss_rate = Fin 0, sample_count = 3\<rparr>"
  using quality_is_monotone
    [of "\<lparr>avg_rtt_ms = 90, min_rtt_ms = 1, max_rtt_ms = 100, jitter_ms = 10,
          packet_loss_rate = Fin 0, sample_count = 3\<rparr>"
        "\<lparr>avg_rtt_ms = 300, min_rtt_ms = 1, max_rtt_ms = 900, jitter_ms = 200,
          packet_loss_rate = Fin 0, sample_count = 3\<rparr>"] by simp

text \<open>The trend between two levels, and a chain of change events from a previous level.\<close>

definition trend_between :: "network_quality_level option \<Rightarrow> network_quality_level \<Rightarrow> string" where
  "trend_between prev l =
     (case prev of None \<Rightarrow> ''unknown'' | Some p \<Rightarrow> if l < p then ''improving'' else ''degrading'')"

fun change_chain :: "network_quality_level option \<Rightarrow> quality_event list \<Rightarrow> bool" where
  "change_chain prev [] = True"
| "change_chain prev (e # es) =
     (prev \<noteq> Some (ev_level e) \<and> ev_previous e = prev \<and>
      ev_trend e = trend_between prev (ev_level e) \<and> change_chain (Some (ev_level e)) es)"

lemma nq_snapshot_window [simp]: "sliding_window (snd (nq_rtt_snapshot e)) = sliding_window e"
  by (simp add: nq_rtt_snapshot_def Let_def)

lemma level_rank_inj: "level_rank a = level_rank b \<longleftrightarrow> a = b"
  by (cases a; cases b) simp_all

lemma quality_tick_ok:
  assumes "nq_inv (sub_evaluator sub)"
  shows "\<exists>ev sub'. quality_tick h r sub = Done (ev, sub') \<and> nq_inv (sub_evaluator sub') \<and>
    (case ev of None \<Rightarrow> previous_level sub' = previous_level sub
     | Some x \<Rightarrow> previous_level sub' = Some (ev_level x) \<and> change_chain (previous_level sub) [x])"
proof -
  obtain m e where me: "measure_http_rtt h ''/'' r (sub_evaluator sub) = Done (m, e)" and inv: "nq_inv e"
  proof (cases r)
    case (NoResponse msg)
    with assms that show ?thesis by (simp add: measure_http_rtt_def)
  next
    case (Responded s rtt)
    obtain e' where "record_rtt (sub_evaluator sub) rtt = Done e'" "nq_inv e'"
      using nq.push_ok [OF assms, of rtt] by blast
    with Responded assms that show ?thesis
      by (cases "is_success_status s \<or> s = 404") (simp_all add: measure_http_rtt_def)
  qed
  have snap: "nq_inv (snd (nq_rtt_snapshot e'))" if "nq_inv e'" for e'
    using nq.read_ok [OF that] by auto
  have inv1: "nq_inv (snd (evaluate e))"
    using snap [OF inv] by (simp add: evaluate_def case_prod_unfold)
  from me inv inv1 snap [OF inv1] show ?thesis
    by (auto simp: quality_tick_def Let_def case_prod_unfold trend_between_def level_order
          level_rank_inj split: sum.splits option.splits)
qed

lemma quality_run_chain:
  assumes "nq_inv (sub_evaluator sub)"
  shows "\<exists>evs sub'. quality_run h rs sub = Done (evs, sub') \<and> change_chain (previous_level sub) evs"
  using assms
proof (induction rs arbitrary: sub)
  case (Cons r rs)
  from quality_tick_ok [OF Cons.prems, of h r] obtain ev sub1 where
    t: "quality_tick h r sub = Done (ev, sub1)" "nq_inv (sub_evaluator sub1)"
      "case ev of None \<Rightarrow> previous_level sub1 = previous_level sub
       | Some x \<Rightarrow> previous_level sub1 = Some (ev_level x) \<and> change_chain (previous_level sub) [x]"
    by blast
  from Cons.IH [OF t(2)] obtain evs sub2 where
    "quality_run h rs sub1 = Done (evs, sub2)" "change_chain (previous_level sub1) evs" by blast
  with t show ?case by (auto split: option.splits)
qed simp

text \<open>
  The quality subscription calls back only on changes of level: whatever the measurements
  return, the run does not panic, each event's level differs from the previous event's, carries
  it as the previous level, and its trend is "unknown" first and then "improving" or
  "degrading" (the "stable" branch is never taken).
\<close>

theorem subscription_reports_changes_only:
  "\<exists>evs sub. quality_run h rs sub_start = Done (evs, sub) \<and> change_chain None evs"
  using quality_run_chain [of sub_start h rs] by (simp add: sub_start_def nq_inv_def nq_new_def)

end
