(* ===== verification/Heartbeat.thy ===== *)
theory Heartbeat
  imports Rtt_Window
begin

section \<open>The WebSocket heartbeat\<close>

text \<open>
  Models \<^verbatim>\<open>catcher-ws/src/ws/heartbeat.rs\<close>, its configuration in \<^verbatim>\<open>types/ws.rs\<close> and the
  heartbeat state and tick of the connection loop in \<^verbatim>\<open>transport/ws_client.rs\<close>.  An
  \<open>Instant\<close> is a number of nanoseconds on the monotonic clock; the current one is an argument.
\<close>

record heartbeat_config =
  interval_ms :: u64
  adaptive :: bool
  pong_timeout_ms :: u64
  max_missed_pongs :: u32

definition default_heartbeat_config :: heartbeat_config where
  "default_heartbeat_config =
     \<lparr>interval_ms = 30000, adaptive = True, pong_timeout_ms = 10000, max_missed_pongs = 3\<rparr>"

record heartbeat_manager =
  hb_config :: heartbeat_config
  last_pong :: "nat option"
  missed_pongs :: u32
  rtt_samples :: "u64 list"
  max_samples :: nat
  hb_cached_p90 :: "u64 option"
  hb_dirty :: bool

definition hb_new :: "heartbeat_config \<Rightarrow> heartbeat_manager" where
  "hb_new c =
     \<lparr>hb_config = c, last_pong = None, missed_pongs = 0, rtt_samples = [], max_samples = 20,
      hb_cached_p90 = None, hb_dirty = False\<rparr>"

definition hb_on_pong :: "nat \<Rightarrow> heartbeat_manager \<Rightarrow> u64 \<Rightarrow> heartbeat_manager" where
  "hb_on_pong now h rtt_ms =
     (let w = (if max_samples h \<le> length (rtt_samples h) then tl (rtt_samples h)
               else rtt_samples h)
      in h\<lparr>last_pong := Some now, missed_pongs := 0, rtt_samples := w @ [rtt_ms], hb_dirty := True\<rparr>)"

text \<open>\<open>Instant::elapsed\<close> saturates at zero; milliseconds are cut to 64 bits.\<close>

definition elapsed_millis :: "nat \<Rightarrow> nat \<Rightarrow> u64" where
  "elapsed_millis now since = of_nat ((now - since) div 1000000)"

definition hb_is_timed_out :: "nat \<Rightarrow> heartbeat_manager \<Rightarrow> bool" where
  "hb_is_timed_out now h =
     (case last_pong h of
        Some l \<Rightarrow> pong_timeout_ms (hb_config h) < elapsed_millis now l
      | None \<Rightarrow> False)"

definition hb_on_missed_pong :: "heartbeat_manager \<Rightarrow> heartbeat_manager" where
  "hb_on_missed_pong h = h\<lparr>missed_pongs := missed_pongs h + 1\<rparr>"

definition hb_missed_exceeded :: "heartbeat_manager \<Rightarrow> bool" where
  "hb_missed_exceeded h \<longleftrightarrow> max_missed_pongs (hb_config h) \<le> missed_pongs h"

definition hb_p90_rtt :: "heartbeat_manager \<Rightarrow> u64 option \<times> heartbeat_manager" where
  "hb_p90_rtt h =
     (if rtt_samples h = [] then (None, h)
      else
        let h' = (if hb_dirty h
                  then h\<lparr>hb_cached_p90 := Some (p90 (rtt_samples h)), hb_dirty := False\<rparr> else h)
        in (hb_cached_p90 h', h'))"

definition hb_adaptive_interval :: "heartbeat_manager \<Rightarrow> u64 \<times> heartbeat_manager" where
  "hb_adaptive_interval h =
     (case hb_p90_rtt h of
        (Some v, h') \<Rightarrow> (max (saturating_mul v 2) (interval_ms (hb_config h')), h')
      | (None, h') \<Rightarrow> (interval_ms (hb_config h'), h'))"

definition hb_interval_ms :: "heartbeat_manager \<Rightarrow> u64 \<times> heartbeat_manager" where
  "hb_interval_ms h =
     (if adaptive (hb_config h) then hb_adaptive_interval h else (interval_ms (hb_config h), h))"

subsection \<open>The tick of the connection loop\<close>

record heartbeat_state =
  hb_mgr :: heartbeat_manager
  waiting_for_pong :: bool
  ping_sent_at :: "nat option"

datatype send_status = Sent | Failed | TimedOut

datatype tick_outcome = HbTimeout | PingSendTimeout | NextPing u64

definition hb_state_new :: "heartbeat_config \<Rightarrow> heartbeat_state" where
  "hb_state_new c = \<lparr>hb_mgr = hb_new c, waiting_for_pong = False, ping_sent_at = None\<rparr>"

text \<open>One tick: the clock is read once for the timeout check and once for the ping; the
  status of sending the ping frame is an argument.\<close>

definition hb_tick ::
  "nat \<Rightarrow> nat \<Rightarrow> send_status \<Rightarrow> heartbeat_state \<Rightarrow> tick_outcome \<times> heartbeat_state" where
  "hb_tick now now2 ping_status st =
     (if waiting_for_pong st \<and> hb_is_timed_out now (hb_mgr st) then (HbTimeout, st)
      else
        let m = (if waiting_for_pong st then hb_on_missed_pong (hb_mgr st) else hb_mgr st)
        in if waiting_for_pong st \<and> hb_missed_exceeded m then (HbTimeout, st\<lparr>hb_mgr := m\<rparr>)
           else
             let st' = st\<lparr>hb_mgr := m, waiting_for_pong := True, ping_sent_at := Some now2\<rparr>
             in if ping_status = TimedOut then (PingSendTimeout, st')
                else case hb_interval_ms m of
                  (next_ms, m') \<Rightarrow> (NextPing next_ms, st'\<lparr>hb_mgr := m'\<rparr>))"

definition hb_pong :: "nat \<Rightarrow> heartbeat_state \<Rightarrow> u64 \<times> heartbeat_state" where
  "hb_pong now st =
     (let rtt = (case ping_sent_at st of Some t \<Rightarrow> elapsed_millis now t | None \<Rightarrow> 0)
      in (rtt, \<lparr>hb_mgr = hb_on_pong now (hb_mgr st) rtt, waiting_for_pong = False,
                ping_sent_at = None\<rparr>))"

subsection \<open>The interface\<close>

definition hb_inv :: "heartbeat_manager \<Rightarrow> bool" where
  "hb_inv h \<longleftrightarrow> max_samples h = 20 \<and>
     (rtt_samples h \<noteq> [] \<longrightarrow> \<not> hb_dirty h \<longrightarrow> hb_cached_p90 h = Some (p90 (rtt_samples h)))"

definition hb_stat :: "heartbeat_manager \<Rightarrow> u64 list \<Rightarrow> u64" where
  "hb_stat h xs =
     (if adaptive (hb_config h) \<and> xs \<noteq> []
      then max (saturating_mul (p90 xs) 2) (interval_ms (hb_config h))
      else interval_ms (hb_config h))"

lemma hb_inv_new: "hb_inv (hb_new c)"
  by (simp add: hb_inv_def hb_new_def)

lemma hb_inv_missed [simp]: "hb_inv (hb_on_missed_pong h) = hb_inv h"
  by (simp add: hb_inv_def hb_on_missed_pong_def)

interpretation hb: cached_window "\<lambda>h x. Done (hb_on_pong now h x)" rtt_samples max_samples hb_inv
  "\<lambda>h. Done (hb_interval_ms h)" hb_stat
  for now
proof
  fix s :: heartbeat_manager and s' :: heartbeat_manager and x :: u64
  assume inv: "hb_inv s"
  then show "0 < max_samples s" by (simp add: hb_inv_def)
  show "\<exists>s'. Done (hb_on_pong now s x) = Done s' \<and> hb_inv s' \<and> max_samples s' = max_samples s \<and>
      rtt_samples s' = (if max_samples s \<le> length (rtt_samples s) then tl (rtt_samples s)
        else rtt_samples s) @ [x]"
    using inv by (simp add: hb_on_pong_def hb_inv_def Let_def)
  show "hb_stat s' = hb_stat s" if "Done (hb_on_pong now s x) = Done s'"
    using that by (auto simp: hb_on_pong_def hb_stat_def Let_def fun_eq_iff)
  show "\<exists>s'. Done (hb_interval_ms s) = Done (hb_stat s (rtt_samples s), s') \<and> hb_inv s' \<and>
      max_samples s' = max_samples s \<and> hb_stat s' = hb_stat s \<and> rtt_samples s' = rtt_samples s"
    using inv
    by (auto simp: hb_interval_ms_def hb_adaptive_interval_def hb_p90_rtt_def hb_inv_def
        hb_stat_def Let_def fun_eq_iff)
qed

lemma hb_interval_inv: "hb_inv h \<Longrightarrow> hb_inv (snd (hb_interval_ms h))"
  using hb.read_ok [of h] by auto

lemma hb_interval_frame [simp]:
  "missed_pongs (snd (hb_interval_ms h)) = missed_pongs h"
  "last_pong (snd (hb_interval_ms h)) = last_pong h"
  "hb_config (snd (hb_interval_ms h)) = hb_config h"
  by (auto simp: hb_interval_ms_def hb_adaptive_interval_def hb_p90_rtt_def Let_def
      split: option.splits)

lemma hb_missed_frame [simp]:
  "last_pong (hb_on_missed_pong h) = last_pong h"
  "hb_config (hb_on_missed_pong h) = hb_config h"
  "missed_pongs (hb_on_missed_pong h) = missed_pongs h + 1"
  by (simp_all add: hb_on_missed_pong_def)

subsection \<open>Ticks without a pong\<close>

fun hb_ticks :: "(nat \<times> nat) list \<Rightarrow> heartbeat_state \<Rightarrow> tick_outcome list \<times> heartbeat_state" where
  "hb_ticks [] st = ([], st)"
| "hb_ticks ((now, now2) # ts) st =
     (case hb_tick now now2 Sent st of
        (NextPing d, st') \<Rightarrow> (case hb_ticks ts st' of (outs, st'') \<Rightarrow> (NextPing d # outs, st''))
      | (out, st') \<Rightarrow> ([out], st'))"

lemma hb_tick_missed:
  assumes "last_pong (hb_mgr st) = None" and "waiting_for_pong st"
    and "missed_pongs (hb_mgr st) < max_missed_pongs (hb_config (hb_mgr st))"
    and "Suc (unat (missed_pongs (hb_mgr st))) < unat (max_missed_pongs (hb_config (hb_mgr st)))"
  shows "\<exists>d st'. hb_tick now now2 Sent st = (NextPing d, st') \<and> waiting_for_pong st' \<and>
    last_pong (hb_mgr st') = None \<and> hb_config (hb_mgr st') = hb_config (hb_mgr st) \<and>
    unat (missed_pongs (hb_mgr st')) = Suc (unat (missed_pongs (hb_mgr st)))"
proof -
  have inc: "unat (missed_pongs (hb_mgr st) + 1) = Suc (unat (missed_pongs (hb_mgr st)))"
    using assms(3) by (rule unat_plus_one_less)
  define m where "m = hb_on_missed_pong (hb_mgr st)"
  have "\<not> hb_missed_exceeded m"
    using assms(4) inc by (simp add: m_def hb_missed_exceeded_def word_le_nat_alt)
  moreover have "\<not> hb_is_timed_out now (hb_mgr st)" using assms(1) by (simp add: hb_is_timed_out_def)
  ultimately show ?thesis
    using assms inc by (simp add: hb_tick_def Let_def m_def case_prod_unfold)
qed

lemma hb_tick_last:
  assumes "last_pong (hb_mgr st) = None" and "waiting_for_pong st"
    and "missed_pongs (hb_mgr st) < max_missed_pongs (hb_config (hb_mgr st))"
    and "Suc (unat (missed_pongs (hb_mgr st))) = unat (max_missed_pongs (hb_config (hb_mgr st)))"
  shows "fst (hb_tick now now2 Sent st) = HbTimeout"
  using assms unat_plus_one_less [OF assms(3)]
  by (simp add: hb_tick_def hb_is_timed_out_def hb_missed_exceeded_def word_le_nat_alt Let_def)

lemma hb_ticks_waiting:
  assumes "last_pong (hb_mgr st) = None" and "waiting_for_pong st"
    and "unat (missed_pongs (hb_mgr st)) + length ts
      = unat (max_missed_pongs (hb_config (hb_mgr st)))"
    and "ts \<noteq> []"
  shows "\<exists>outs. fst (hb_ticks ts st) = outs @ [HbTimeout] \<and> length outs = length ts - 1 \<and>
    list_all (\<lambda>out. \<exists>d. out = NextPing d) outs"
  using assms
proof (induction ts arbitrary: st)
  case (Cons p ts)
  obtain now now2 where p: "p = (now, now2)" by (cases p)
  have less: "missed_pongs (hb_mgr st) < max_missed_pongs (hb_config (hb_mgr st))"
    using Cons.prems(3) by (simp add: word_less_nat_alt)
  show ?case
  proof (cases "ts = []")
    case True
    then have "fst (hb_tick now now2 Sent st) = HbTimeout"
      using hb_tick_last [OF Cons.prems(1,2) less] Cons.prems(3) by simp
    then show ?thesis using True by (cases "hb_tick now now2 Sent st") (simp add: p)
  next
    case False
    then have "Suc (unat (missed_pongs (hb_mgr st)))
        < unat (max_missed_pongs (hb_config (hb_mgr st)))"
      using Cons.prems(3) by (cases ts) simp_all
    from hb_tick_missed [OF Cons.prems(1,2) less this, of now now2] obtain d st' where
      st': "hb_tick now now2 Sent st = (NextPing d, st')" "waiting_for_pong st'"
        "last_pong (hb_mgr st') = None" "hb_config (hb_mgr st') = hb_config (hb_mgr st)"
        "unat (missed_pongs (hb_mgr st')) = Suc (unat (missed_pongs (hb_mgr st)))" by blast
    with Cons.prems(3) False Cons.IH [of st'] obtain outs where
      "fst (hb_ticks ts st') = outs @ [HbTimeout]" "length outs = length ts - 1"
      "list_all (\<lambda>out. \<exists>d. out = NextPing d) outs" by auto
    then show ?thesis using st' False
      by (intro exI [of _ "NextPing d # outs"]) (cases ts; auto simp: p split: prod.splits)
  qed
qed simp

subsection \<open>Properties\<close>

text \<open>
  The heartbeat interval is never stale: after any sequence of pongs and interval reads it is
  the larger of the configured interval and twice (saturating) the P90 of the last 20 RTTs, or
  just the configured interval when not adaptive or without samples.
\<close>

theorem heartbeat_interval_is_current:
  "\<exists>s s'. win_run (\<lambda>h x. Done (hb_on_pong now h x)) (\<lambda>h. Done (hb_interval_ms h)) ops (hb_new c)
      = Done s \<and> hb_interval_ms s = (hb_stat (hb_new c) (last_n 20 (pushes ops)), s')"
  using hb.read_after_run [OF hb_inv_new, of c now ops] by (simp add: hb_new_def)

text \<open>
  A peer that never answers: on a fresh connection whose pings are all sent, the first tick
  only sends a ping, each later tick counts one missed pong, and the connection is declared dead
  at tick \<open>max_missed_pongs + 1\<close>, not before.
\<close>

theorem silent_peer_detected:
  assumes "0 < max_missed_pongs c" and "length ts = Suc (unat (max_missed_pongs c))"
  shows "\<exists>outs. fst (hb_ticks ts (hb_state_new c)) = outs @ [HbTimeout] \<and>
    length outs = unat (max_missed_pongs c) \<and> list_all (\<lambda>out. \<exists>d. out = NextPing d) outs"
proof -
  obtain now now2 ts' where ts: "ts = (now, now2) # ts'"
    using assms(2) by (cases ts) auto
  obtain d m where dm: "hb_interval_ms (hb_new c) = (d, m)" by (cases "hb_interval_ms (hb_new c)")
  define st where "st = \<lparr>hb_mgr = m, waiting_for_pong = True, ping_sent_at = Some now2\<rparr>"
  have step: "hb_tick now now2 Sent (hb_state_new c) = (NextPing d, st)"
    by (simp add: hb_tick_def hb_state_new_def dm st_def)
  have m: "m = snd (hb_interval_ms (hb_new c))" using dm by simp
  have pos: "0 < unat (max_missed_pongs c)" using assms(1) by (simp add: word_less_nat_alt)
  have "\<exists>outs. fst (hb_ticks ts' st) = outs @ [HbTimeout] \<and> length outs = length ts' - 1 \<and>
      list_all (\<lambda>out. \<exists>d. out = NextPing d) outs"
  proof (rule hb_ticks_waiting)
    show "ts' \<noteq> []" using assms(2) pos ts by auto
  qed (use assms(2) ts in \<open>auto simp: st_def m hb_new_def\<close>)
  then obtain outs where "fst (hb_ticks ts' st) = outs @ [HbTimeout]"
    "length outs = length ts' - 1" "list_all (\<lambda>out. \<exists>d. out = NextPing d) outs" by blast
  then show ?thesis using assms(2) pos
    by (intro exI [of _ "NextPing d # outs"]) (auto simp: ts step split: prod.splits)
qed

theorem silent_peer_detected_witness:
  "\<exists>outs. fst (hb_ticks [(1, 1), (2, 2), (3, 3), (4, 4)] (hb_state_new default_heartbeat_config))
      = outs @ [HbTimeout] \<and> length outs = 3"
  using silent_peer_detected [of default_heartbeat_config "[(1, 1), (2, 2), (3, 3), (4, 4)]"]
  by (auto simp: default_heartbeat_config_def)

text \<open>
  Once a pong has been received, the count of missed pongs does not matter if ticks are
  further apart than the pong timeout (as with the default interval of 30 s and timeout of
  10 s): the first tick that still waits for a pong declares the connection dead.
\<close>

theorem one_missed_pong_suffices:
  assumes "waiting_for_pong st" and "last_pong (hb_mgr st) = Some l"
    and "(now - l) div 1000000 < 2 ^ 64"
    and "unat (pong_timeout_ms (hb_config (hb_mgr st))) < (now - l) div 1000000"
  shows "fst (hb_tick now now2 s st) = HbTimeout"
proof -
  have "unat (elapsed_millis now l) = (now - l) div 1000000"
    using assms(3) by (simp add: elapsed_millis_def unat_of_nat take_bit_nat_eq_self_iff)
  with assms show ?thesis
    by (simp add: hb_tick_def hb_is_timed_out_def word_less_nat_alt)
qed

theorem one_missed_pong_suffices_witness:
  "fst (hb_tick 60000000000 60000000000 Sent
     \<lparr>hb_mgr = hb_new default_heartbeat_config\<lparr>last_pong := Some 1000000\<rparr>,
      waiting_for_pong = True, ping_sent_at = Some 30000000000\<rparr>) = HbTimeout"
  by (rule one_missed_pong_suffices [where l = 1000000])
    (simp_all add: hb_new_def default_heartbeat_config_def)

end
