(* ===== verification/Reconnect.thy ===== *)
theory Reconnect
  imports Rust_Float
begin

section \<open>WebSocket reconnection\<close>

text \<open>
  Models \<^verbatim>\<open>catcher-ws/src/ws/reconnect.rs\<close> and the configuration and state types of
  \<^verbatim>\<open>catcher-ws/src/types/ws.rs\<close>: exponential backoff with a budget of attempts.
\<close>

datatype ws_state = WsDisconnectedState | WsConnecting | WsConnected | WsReconnecting

record reconnect_config =
  initial_delay_ms :: u64
  max_delay_ms :: u64
  backoff_multiplier :: f64
  max_attempts :: u32

definition default_reconnect_config :: reconnect_config where
  "default_reconnect_config =
     \<lparr>initial_delay_ms = 500, max_delay_ms = 30000, backoff_multiplier = Fin 2, max_attempts = 20\<rparr>"

record reconnect_manager =
  rc_config :: reconnect_config
  rc_state :: ws_state
  rc_attempt :: u32
  rc_delay :: u64

definition rc_new :: "reconnect_config \<Rightarrow> reconnect_manager" where
  "rc_new c = \<lparr>rc_config = c, rc_state = WsDisconnectedState, rc_attempt = 0, rc_delay = 0\<rparr>"

definition rc_on_connecting :: "reconnect_manager \<Rightarrow> reconnect_manager" where
  "rc_on_connecting m = m\<lparr>rc_state := WsConnecting\<rparr>"

text \<open>The backoff before attempt \<open>a\<close>, not clamped; the exponent is cast to \<open>i32\<close>.\<close>

definition raw_delay :: "reconnect_config \<Rightarrow> u32 \<Rightarrow> u64" where
  "raw_delay c a =
     (if a = 1 then initial_delay_ms c
      else f64_to_u64 (f64_mul (f64_of_u64 (initial_delay_ms c))
             (f64_powi (backoff_multiplier c) (sint (a - 1)))))"

definition rc_on_disconnect :: "reconnect_manager \<Rightarrow> u64 option \<times> reconnect_manager" where
  "rc_on_disconnect m =
     (let a = rc_attempt m + 1; c = rc_config m
      in if max_attempts c < a
         then (None, m\<lparr>rc_attempt := a, rc_state := WsDisconnectedState\<rparr>)
         else
           let d = raw_delay c a;
               d' = (if max_delay_ms c < d then max_delay_ms c else d)
           in (Some d', m\<lparr>rc_attempt := a, rc_state := WsReconnecting, rc_delay := d'\<rparr>))"

definition rc_on_connected :: "reconnect_manager \<Rightarrow> reconnect_manager" where
  "rc_on_connected m = m\<lparr>rc_state := WsConnected, rc_attempt := 0, rc_delay := 0\<rparr>"

definition rc_reset :: "reconnect_manager \<Rightarrow> reconnect_manager" where
  "rc_reset m = m\<lparr>rc_attempt := 0, rc_delay := 0\<rparr>"

definition rc_is_exhausted :: "reconnect_manager \<Rightarrow> bool" where
  "rc_is_exhausted m \<longleftrightarrow> rc_state m = WsDisconnectedState \<and> 0 < rc_attempt m"

subsection \<open>Runs\<close>

datatype rc_op = StartConnect | Disconnect | Connect | Reset

fun rc_step :: "rc_op \<Rightarrow> reconnect_manager \<Rightarrow> u64 option list \<times> reconnect_manager" where
  "rc_step StartConnect m = ([], rc_on_connecting m)"
| "rc_step Disconnect m = (case rc_on_disconnect m of (d, m') \<Rightarrow> ([d], m'))"
| "rc_step Connect m = ([], rc_on_connected m)"
| "rc_step Reset m = ([], rc_reset m)"

text \<open>The answers of \<open>on_disconnect\<close> along a sequence of operations.\<close>

fun rc_run :: "rc_op list \<Rightarrow> reconnect_manager \<Rightarrow> u64 option list \<times> reconnect_manager" where
  "rc_run [] m = ([], m)"
| "rc_run (x # xs) m =
     (case rc_step x m of (ds, m') \<Rightarrow> (case rc_run xs m' of (es, m'') \<Rightarrow> (ds @ es, m'')))"

text \<open>The specification: the \<open>k\<close>-th failure in a row waits \<open>delay k\<close> or is the last.\<close>

fun failures_in_a_row :: "nat \<Rightarrow> rc_op list \<Rightarrow> nat list" where
  "failures_in_a_row k [] = []"
| "failures_in_a_row k (Disconnect # xs) = Suc k # failures_in_a_row (Suc k) xs"
| "failures_in_a_row k (StartConnect # xs) = failures_in_a_row k xs"
| "failures_in_a_row k (x # xs) = failures_in_a_row 0 xs"

definition backoff_spec :: "reconnect_config \<Rightarrow> nat \<Rightarrow> nat option" where
  "backoff_spec c k =
     (if k \<le> unat (max_attempts c)
      then Some (min (unat (initial_delay_ms c) * 2 ^ (k - 1)) (unat (max_delay_ms c)))
      else None)"

lemma unat_min_word: "unat (if b < a then b else a) = min (unat a) (unat (b::'a::len word))"
  by (simp add: min_def word_less_nat_alt)

lemma raw_delay_spec:
  assumes "backoff_multiplier c = Fin 2" and "unat (initial_delay_ms c) < 2 ^ 53"
    and k: "unat a = Suc k" "k < 2 ^ 31"
  shows "unat (raw_delay c a) = min (unat (initial_delay_ms c) * 2 ^ k) (2 ^ 64 - 1)"
proof (cases "a = 1")
  case True
  then have "k = 0" using k(1) by simp
  moreover have "unat (initial_delay_ms c) \<le> 2 ^ 64 - 1" using assms(2) by simp
  ultimately show ?thesis using True by (simp add: raw_delay_def)
next
  case False
  have "1 \<le> a" using k(1) by (simp add: word_le_nat_alt)
  then have "unat (a - 1) = k" using k(1) by (simp add: unat_sub)
  then have u: "uint (a - 1) = int k" by (simp add: uint_nat)
  have "int k < 2 ^ 31" using k(2) by simp
  then have "signed_take_bit 31 (int k) = int k"
    by (intro signed_take_bit_int_eq_self) simp_all
  then have "sint (a - 1) = int k" by (simp add: sint_uint u)
  with False assms(1) show ?thesis
    using f64_to_nat_scaled [OF assms(2), of k]
    by (simp add: raw_delay_def unat_f64_to_u64 f64_powi_2 f64_of_u64_def)
qed

lemma rc_on_disconnect_spec:
  assumes "backoff_multiplier (rc_config m) = Fin 2"
    and "unat (initial_delay_ms (rc_config m)) < 2 ^ 53"
    and "unat (max_attempts (rc_config m)) < 2 ^ 31" and "unat (rc_attempt m) = k" and "k < 2 ^ 32 - 1"
  obtains d m' where "rc_on_disconnect m = (d, m')"
    and "map_option unat d = backoff_spec (rc_config m) (Suc k)"
    and "rc_config m' = rc_config m" and "unat (rc_attempt m') = Suc k"
proof
  define c where "c = rc_config m"
  have a: "unat (rc_attempt m + 1) = Suc k"
    using assms(4,5) unat_plus_one [of "rc_attempt m"] by simp
  obtain d m' where dm: "rc_on_disconnect m = (d, m')" by fastforce
  show "rc_on_disconnect m = (fst (rc_on_disconnect m), snd (rc_on_disconnect m))" by simp
  show "map_option unat (fst (rc_on_disconnect m)) = backoff_spec (rc_config m) (Suc k)"
  proof (cases "max_attempts c < rc_attempt m + 1")
    case True
    then have "\<not> Suc k \<le> unat (max_attempts c)" by (simp add: word_less_nat_alt a)
    with True show ?thesis by (simp add: rc_on_disconnect_def backoff_spec_def Let_def c_def)
  next
    case False
    then have le: "Suc k \<le> unat (max_attempts c)" by (simp add: word_less_nat_alt a)
    with assms(3) have "k < 2 ^ 31" by (simp add: c_def)
    from raw_delay_spec [of c, OF _ _ a this] assms
    have "unat (raw_delay c (rc_attempt m + 1)) = min (unat (initial_delay_ms c) * 2 ^ k) (2 ^ 64 - 1)"
      by (simp add: c_def)
    moreover have "unat (max_delay_ms c) \<le> 2 ^ 64 - 1"
      using unat_u64_less [of "max_delay_ms c"] by simp
    ultimately show ?thesis using False le
      by (simp add: rc_on_disconnect_def backoff_spec_def Let_def unat_min_word flip: c_def)
  qed
  show "rc_config (snd (rc_on_disconnect m)) = rc_config m"
    and "unat (rc_attempt (snd (rc_on_disconnect m))) = Suc k"
    by (simp_all add: rc_on_disconnect_def Let_def a)
qed

lemma rc_run_spec:
  assumes "backoff_multiplier (rc_config m) = Fin 2"
    and "unat (initial_delay_ms (rc_config m)) < 2 ^ 53"
    and "unat (max_attempts (rc_config m)) < 2 ^ 31"
    and "unat (rc_attempt m) = k" and "k + length ops < 2 ^ 32"
  shows "map (map_option unat) (fst (rc_run ops m)) =
    map (backoff_spec (rc_config m)) (failures_in_a_row k ops)"
  using assms
proof (induction ops arbitrary: m k)
  case (Cons x xs)
  show ?case
  proof (cases x)
    case Disconnect
    have k: "k < 2 ^ 32 - 1" using Cons.prems(5) by simp
    obtain d m' where s: "rc_on_disconnect m = (d, m')"
      "map_option unat d = backoff_spec (rc_config m) (Suc k)"
      "rc_config m' = rc_config m" "unat (rc_attempt m') = Suc k"
      using rc_on_disconnect_spec [OF Cons.prems(1-4) k] by blast
    from Cons.IH [of m' "Suc k"] Cons.prems s
    show ?thesis by (simp add: Disconnect case_prod_unfold)
  next
    case StartConnect
    with Cons.IH [of "rc_on_connecting m" k] Cons.prems
    show ?thesis by (simp add: rc_on_connecting_def case_prod_unfold)
  next
    case Connect
    with Cons.IH [of "rc_on_connected m" 0] Cons.prems
    show ?thesis by (simp add: rc_on_connected_def case_prod_unfold)
  next
    case Reset
    with Cons.IH [of "rc_reset m" 0] Cons.prems
    show ?thesis by (simp add: rc_reset_def case_prod_unfold)
  qed
qed simp

subsection \<open>Properties\<close>

text \<open>
  C11. With the default multiplier 2 the answers of \<open>on_disconnect\<close> are exact along every sequence
  of operations: the \<open>k\<close>-th failure in a row (since the last success or reset) waits
  \<open>min (initial * 2 ^ (k - 1)) max\<close> milliseconds if \<open>k\<close> is within the attempt budget and gives
  up otherwise.  No rounding of the floating-point power and no overflow shows.
\<close>

theorem reconnect_backoff_exact:
  assumes "backoff_multiplier c = Fin 2" and "unat (initial_delay_ms c) < 2 ^ 53"
    and "unat (max_attempts c) < 2 ^ 31" and "length ops < 2 ^ 32"
  shows "map (map_option unat) (fst (rc_run ops (rc_new c))) =
    map (backoff_spec c) (failures_in_a_row 0 ops)"
  using rc_run_spec [of "rc_new c" 0 ops] assms by (simp add: rc_new_def)

theorem reconnect_backoff_exact_witness:
  "map (map_option unat) (fst (rc_run [Disconnect, Disconnect, StartConnect, Disconnect, Connect,
      Disconnect] (rc_new (default_reconnect_config\<lparr>max_attempts := 2\<rparr>)))) =
    [Some 500, Some 1000, None, Some 500]"
  using reconnect_backoff_exact [of "default_reconnect_config\<lparr>max_attempts := 2\<rparr>"
      "[Disconnect, Disconnect, StartConnect, Disconnect, Connect, Disconnect]"]
  by (simp add: default_reconnect_config_def backoff_spec_def)

fun delay_within :: "u64 \<Rightarrow> u64 option \<Rightarrow> bool" where
  "delay_within b None = True"
| "delay_within b (Some v) = (v \<le> b)"

lemma rc_step_bounded:
  "rc_step x m = (ds, m') \<Longrightarrow> rc_config m' = rc_config m \<and>
     list_all (delay_within (max_delay_ms (rc_config m))) ds"
  by (cases x) (auto simp: rc_on_disconnect_def rc_on_connecting_def rc_on_connected_def
    rc_reset_def Let_def split: if_splits)

lemma rc_run_bounded:
  "list_all (delay_within (max_delay_ms (rc_config m)))
     (fst (rc_run ops m))"
proof (induction ops arbitrary: m)
  case (Cons x xs)
  obtain ds m' where s: "rc_step x m = (ds, m')" by fastforce
  from Cons.IH [of m'] rc_step_bounded [OF s] s show ?case by (simp add: case_prod_unfold)
qed simp

text \<open>
  Whatever the configured multiplier (NaN, negative and infinite included), no delay handed
  out along any sequence of operations exceeds \<open>max_delay_ms\<close>.
\<close>

theorem reconnect_delay_bounded:
  "list_all (delay_within (max_delay_ms c)) (fst (rc_run ops (rc_new c)))"
  using rc_run_bounded [of "rc_new c" ops] by (simp add: rc_new_def)

end
