(* ===== verification/Core_Types.thy ===== *)
theory Core_Types
  imports Core_Error Circuit_Breaker Heartbeat Reconnect
begin

section \<open>Configurations, requests and events\<close>

text \<open>
  The data the components exchange: \<^verbatim>\<open>catcher-core/src/types/\<close>, the HTTP types of
  \<^verbatim>\<open>catcher-http/src/types/http.rs\<close>, the DNS configuration of \<^verbatim>\<open>catcher-dns/src/lib.rs\<close> and the
  WebSocket types of \<^verbatim>\<open>catcher-ws/src/types/ws.rs\<close>, with their defaults.  Byte vectors are lists
  of bytes.  A \<open>HashMap\<close> of headers is the list of its entries in its iteration order, which the
  language leaves open; a configuration read from JSON has been filled in with the defaults.
\<close>

type_synonym header_map = "(string \<times> string) list"
type_synonym bytes = "u8 list"

subsection \<open>Priorities and scheduling\<close>

datatype priority = Critical | High | Normal | Low | Background

text \<open>The derived \<open>Ord\<close> compares the discriminants.\<close>

primrec priority_num :: "priority \<Rightarrow> nat" where
  "priority_num Critical = 1"
| "priority_num High = 2"
| "priority_num Normal = 5"
| "priority_num Low = 8"
| "priority_num Background = 10"

instantiation priority :: linorder
begin

definition less_eq_priority :: "priority \<Rightarrow> priority \<Rightarrow> bool" where
  "less_eq_priority a b \<longleftrightarrow> priority_num a \<le> priority_num b"

definition less_priority :: "priority \<Rightarrow> priority \<Rightarrow> bool" where
  "less_priority a b \<longleftrightarrow> priority_num a < priority_num b"

instance
proof
  fix a b :: priority
  show "a \<le> b \<Longrightarrow> b \<le> a \<Longrightarrow> a = b"
    by (cases a; cases b) (simp_all add: less_eq_priority_def)
qed (auto simp: less_eq_priority_def less_priority_def)

end

datatype concurrency_mode = FixedConcurrency nat | AdaptiveConcurrency

record queue_config =
  max_concurrency :: nat
  queue_capacity :: nat
  default_timeout_ms :: u64
  concurrency_mode :: concurrency_mode

definition default_queue_config :: queue_config where
  "default_queue_config =
     \<lparr>max_concurrency = 50, queue_capacity = 1024, default_timeout_ms = 30000,
      concurrency_mode = FixedConcurrency 50\<rparr>"

subsection \<open>Retries\<close>

datatype backoff_kind = Fixed | Exponential | DecorrelatedJitter

record retry_config =
  retry_max_attempts :: u32
  retry_backoff :: backoff_kind
  min_backoff_ms :: u64
  max_backoff_ms :: u64
  retry_jitter :: bool

definition default_retry_config :: retry_config where
  "default_retry_config =
     \<lparr>retry_max_attempts = 3, retry_backoff = Fixed, min_backoff_ms = 100,
      max_backoff_ms = 10000, retry_jitter = True\<rparr>"

subsection \<open>TLS, proxies, DNS\<close>

datatype tls_version = Tls1_0 | Tls1_1 | Tls1_2 | Tls1_3

record tls_config =
  reject_unauthorized :: bool
  ca_cert_pem :: "string option"
  ca_cert_path :: "string option"
  client_cert_pem :: "string option"
  client_cert_path :: "string option"
  client_key_pem :: "string option"
  client_key_path :: "string option"
  client_identity_pfx :: "bytes option"
  client_identity_password :: "string option"
  tls_sni_override :: "string option"
  min_tls_version :: "tls_version option"
  max_tls_version :: "tls_version option"
  pin_sha256 :: "string list option"

definition default_tls_config :: tls_config where
  "default_tls_config =
     \<lparr>reject_unauthorized = True, ca_cert_pem = None, ca_cert_path = None, client_cert_pem = None,
      client_cert_path = None, client_key_pem = None, client_key_path = None,
      client_identity_pfx = None, client_identity_password = None, tls_sni_override = None,
      min_tls_version = None, max_tls_version = None, pin_sha256 = None\<rparr>"

record proxy_auth =
  username :: string
  password :: string

datatype proxy_mode = Manual | Direct | System

record proxy_config =
  proxy_mode :: proxy_mode
  proxy_url :: "string option"
  proxy_auth :: "proxy_auth option"
  no_proxy :: "string list"

definition default_proxy_config :: proxy_config where
  "default_proxy_config = \<lparr>proxy_mode = Manual, proxy_url = None, proxy_auth = None, no_proxy = []\<rparr>"

text \<open>The address handed to the protocol library; a panic when there is none.\<close>

definition transport_url :: "proxy_config \<Rightarrow> string exec" where
  "transport_url p =
     (case proxy_url p of
        None \<Rightarrow> Panic
      | Some u \<Rightarrow>
          (case split_once ''://'' u of
             None \<Rightarrow> Done u
           | Some (scheme, rest) \<Rightarrow>
               if eq_ignore_ascii_case scheme ''socks5'' then Done (''socks5h://'' @ rest)
               else Done u))"

datatype dns_mode = CatcherDns | NativeDns

record dns_config =
  dns_mode :: dns_mode
  cache_size :: u64
  cache_ttl_secs :: u32
  negative_ttl_secs :: u32
  stale_ttl_secs :: u32
  stale_on_error :: bool
  nameservers :: "string list"
  host_mapping :: header_map
  fallback_to_default_nameservers :: bool

definition default_dns_config :: dns_config where
  "default_dns_config =
     \<lparr>dns_mode = CatcherDns, cache_size = 512, cache_ttl_secs = 300, negative_ttl_secs = 60,
      stale_ttl_secs = 3600, stale_on_error = True, nameservers = [], host_mapping = [],
      fallback_to_default_nameservers = False\<rparr>"

definition use_catcher_resolver :: "dns_config \<Rightarrow> bool" where
  "use_catcher_resolver c \<longleftrightarrow> dns_mode c = CatcherDns"

subsection \<open>HTTP\<close>

datatype http_method = GET | POST | PUT | DELETE | PATCH

record http_response =
  resp_status :: u16
  resp_headers :: header_map
  resp_body :: bytes
  resp_elapsed_ms :: u64

datatype stream_event =
    StreamHeaders u16 header_map
  | StreamChunk bytes
  | StreamDone
  | StreamError string

record pool_config =
  max_idle_per_host :: nat
  idle_timeout_secs :: u64
  keep_alive :: bool
  keep_alive_interval_secs :: u64

definition default_pool_config :: pool_config where
  "default_pool_config =
     \<lparr>max_idle_per_host = 10, idle_timeout_secs = 30, keep_alive = True,
      keep_alive_interval_secs = 20\<rparr>"

record redirect_config =
  redirect_follow :: bool
  max_redirects :: u32

definition default_redirect_config :: redirect_config where
  "default_redirect_config = \<lparr>redirect_follow = True, max_redirects = 5\<rparr>"

record http_client_config =
  base_url :: string
  connect_timeout_ms :: u64
  response_timeout_ms :: u64
  http_pool :: pool_config
  http_tls :: tls_config
  http_dns :: "dns_config option"
  http_retry :: "retry_config option"
  http_circuit_breaker :: "circuit_breaker_config option"
  http_max_concurrency :: u32
  default_headers :: header_map
  hostname_override :: "string option"
  http_proxy :: "proxy_config option"
  http_redirect :: "redirect_config option"
  http_auth :: "proxy_auth option"
  bearer_token :: "string option"
  http_msgpack :: bool

definition default_http_client_config :: http_client_config where
  "default_http_client_config =
     \<lparr>base_url = '''', connect_timeout_ms = 10000, response_timeout_ms = 30000,
      http_pool = default_pool_config, http_tls = default_tls_config, http_dns = None,
      http_retry = None, http_circuit_breaker = None, http_max_concurrency = 50,
      default_headers = [], hostname_override = None, http_proxy = None, http_redirect = None,
      http_auth = None, bearer_token = None, http_msgpack = False\<rparr>"

subsection \<open>Server-sent events\<close>

datatype sse_method = SseGet | SsePost

record sse_reconnect_config =
  sse_max_retries :: u32
  sse_initial_delay_ms :: u64
  sse_max_delay_ms :: u64
  sse_backoff_multiplier :: f64

definition default_sse_reconnect_config :: sse_reconnect_config where
  "default_sse_reconnect_config =
     \<lparr>sse_max_retries = 10, sse_initial_delay_ms = 1000, sse_max_delay_ms = 30000,
      sse_backoff_multiplier = Fin 2\<rparr>"

record sse_client_config =
  sse_url :: string
  sse_method :: sse_method
  sse_headers :: header_map
  sse_body :: "string option"
  sse_reconnect :: "sse_reconnect_config option"
  sse_timeout_ms :: u64
  sse_circuit_breaker :: "circuit_breaker_config option"

definition default_sse_client_config :: sse_client_config where
  "default_sse_client_config =
     \<lparr>sse_url = '''', sse_method = SseGet, sse_headers = [], sse_body = None,
      sse_reconnect = None, sse_timeout_ms = 30000, sse_circuit_breaker = None\<rparr>"

subsection \<open>WebSocket\<close>

datatype ws_event =
    EvConnected string u64
  | EvDisconnected u16 string
  | EvReconnecting u32 u64
  | EvMessage bytes bool
  | EvError string
  | EvHeartbeatRtt u64

text \<open>The JSON of the callback; the base64 encoder is a library's.\<close>

fun to_ffi_json :: "(bytes \<Rightarrow> string) \<Rightarrow> ws_event \<Rightarrow> json" where
  "to_ffi_json b64 (EvMessage d b) =
     JObj [(''type'', JStr ''Message''), (''data_base64'', JStr (b64 d)), (''is_binary'', JBool b)]"
| "to_ffi_json b64 (EvConnected u l) =
     JObj [(''type'', JStr ''Connected''), (''url'', JStr u), (''latency_ms'', JWord l)]"
| "to_ffi_json b64 (EvDisconnected c r) =
     JObj [(''type'', JStr ''Disconnected''), (''code'', JWord c), (''reason'', JStr r)]"
| "to_ffi_json b64 (EvReconnecting a d) =
     JObj [(''type'', JStr ''Reconnecting''), (''attempt'', JWord a), (''delay_ms'', JWord d)]"
| "to_ffi_json b64 (EvError m) = JObj [(''type'', JStr ''Error''), (''message'', JStr m)]"
| "to_ffi_json b64 (EvHeartbeatRtt r) =
     JObj [(''type'', JStr ''HeartbeatRtt''), (''rtt_ms'', JWord r)]"

datatype application_compression_algorithm = Gzip | Zstd

record application_compression_config =
  ac_enabled :: bool
  ac_algorithm :: application_compression_algorithm
  ac_threshold_bytes :: u32

definition default_application_compression_config :: application_compression_config where
  "default_application_compression_config =
     \<lparr>ac_enabled = True, ac_algorithm = Gzip, ac_threshold_bytes = 1024\<rparr>"

record ws_client_config =
  ws_urls :: "string list"
  ws_protocols :: "string list"
  ws_headers :: header_map
  per_message_deflate :: bool
  deflate_threshold_bytes :: u32
  application_compression :: "application_compression_config option"
  handshake_timeout_ms :: u64
  send_timeout_ms :: u64
  max_payload_bytes :: u64
  ws_reconnect :: "reconnect_config option"
  ws_heartbeat :: "heartbeat_config option"
  ws_tls :: tls_config
  ws_proxy :: "proxy_config option"
  race_count :: u32
  ws_msgpack :: bool
  ws_dns :: "dns_config option"

definition default_ws_client_config :: ws_client_config where
  "default_ws_client_config =
     \<lparr>ws_urls = [], ws_protocols = [], ws_headers = [], per_message_deflate = True,
      deflate_threshold_bytes = 1024, application_compression = None,
      handshake_timeout_ms = 15000, send_timeout_ms = 10000,
      max_payload_bytes = 64 * 1024 * 1024, ws_reconnect = None, ws_heartbeat = None,
      ws_tls = default_tls_config, ws_proxy = None, race_count = 1, ws_msgpack = False,
      ws_dns = None\<rparr>"

subsection \<open>Properties\<close>

text \<open>A proxy address that makes the protocol library resolve the target's name locally.\<close>

definition resolves_locally :: "string \<Rightarrow> bool" where
  "resolves_locally u =
     (case split_once ''://'' u of None \<Rightarrow> False | Some (s, _) \<Rightarrow> eq_ignore_ascii_case s ''socks5'')"

lemma transport_url_remote:
  assumes "transport_url p = Done v"
  shows "\<not> resolves_locally v"
proof -
  obtain u where u: "proxy_url p = Some u" using assms by (auto simp: transport_url_def split: option.splits)
  show ?thesis
  proof (cases "resolves_locally u")
    case False
    with assms u show ?thesis
      by (auto simp: transport_url_def resolves_locally_def split: option.splits if_splits)
  next
    case True
    with assms u obtain rest where v: "v = ''socks5h://'' @ rest"
      by (auto simp: transport_url_def resolves_locally_def split: option.splits)
    then have "split_once ''://'' v = Some (''socks5h'', rest)" by simp
    then show ?thesis by (simp add: resolves_locally_def eq_ignore_ascii_case_def)
  qed
qed

text \<open>
  The address handed to the protocol library never makes it resolve the target's name locally:
  a \<open>socks5\<close> scheme in any case becomes \<open>socks5h\<close> with the rest of the address unchanged, every
  other address is passed as it is, and the translation applied twice changes nothing more.
\<close>

theorem transport_url_remote_dns:
  assumes "proxy_url p = Some u"
  shows "\<exists>v. transport_url p = Done v \<and> \<not> resolves_locally v \<and>
    transport_url (p\<lparr>proxy_url := Some v\<rparr>) = Done v \<and>
    (if resolves_locally u then \<exists>s rest. u = s @ ''://'' @ rest \<and> v = ''socks5h://'' @ rest else v = u)"
proof (cases "resolves_locally u")
  case False
  then have "transport_url (p\<lparr>proxy_url := Some u\<rparr>) = Done u" "transport_url p = Done u"
    using assms by (auto simp: transport_url_def resolves_locally_def split: option.splits)
  with False show ?thesis by auto
next
  case True
  then obtain s rest where s: "split_once ''://'' u = Some (s, rest)" "eq_ignore_ascii_case s ''socks5''"
    by (auto simp: resolves_locally_def split: option.splits)
  define v where "v = ''socks5h://'' @ rest"
  have v: "split_once ''://'' v = Some (''socks5h'', rest)" by (simp add: v_def)
  have n: "\<not> eq_ignore_ascii_case ''socks5h'' ''socks5''" by (simp add: eq_ignore_ascii_case_def)
  have t: "transport_url p = Done v" using s assms by (simp add: transport_url_def v_def)
  moreover have "transport_url (p\<lparr>proxy_url := Some v\<rparr>) = Done v"
    using v n by (simp add: transport_url_def)
  moreover have "\<not> resolves_locally v" using t by (rule transport_url_remote)
  ultimately show ?thesis using True split_once_join [OF s(1)] v_def by auto
qed

theorem transport_url_remote_dns_witness:
  "\<exists>v. transport_url (default_proxy_config\<lparr>proxy_url := Some ''SOCKS5://p:1080''\<rparr>) = Done v \<and>
    \<not> resolves_locally v"
  using transport_url_remote_dns [of "default_proxy_config\<lparr>proxy_url := Some ''SOCKS5://p:1080''\<rparr>"]
  by auto

end
