(* ===== verification/Retry.thy ===== *)
theory Retry
  imports Core_Types
begin

section \<open>Retries\<close>

text \<open>
  Models \<^verbatim>\<open>catcher-http/src/resilience/retry.rs\<close>, \<^verbatim>\<open>resilience/backoff.rs\<close> and
  \<^verbatim>\<open>transport/retry_middleware.rs\<close>.  The retry driver and the backoff sequences of \<^verbatim>\<open>retry.rs\<close>
  come from the library \<open>backon\<close> and are arguments, with the documented laws \<open>driver_law\<close> and
  \<open>backoff_law\<close>; the loop of the middleware is the program's own, its policy and its classification
  of results are arguments.  Operations thread a world of any type.
\<close>

subsection \<open>retry_with_backoff\<close>

text \<open>The driver's state: the attempt counter, the log of \<open>on_retry\<close> calls and the world.\<close>

type_synonym 'w retry_state = "u32 \<times> (u32 \<times> catcher_error) list \<times> 'w"

type_synonym ('a, 'w) retry_driver =
  "u64 list \<Rightarrow> ('w retry_state \<Rightarrow> (catcher_error + 'a) \<times> 'w retry_state) \<Rightarrow>
   (catcher_error \<Rightarrow> 'w retry_state \<Rightarrow> bool \<times> 'w retry_state) \<Rightarrow>
   'w retry_state \<Rightarrow> (catcher_error + 'a) \<times> 'w retry_state"

definition retry_action ::
  "('w \<Rightarrow> (catcher_error + 'a) \<times> 'w) \<Rightarrow> 'w retry_state \<Rightarrow> (catcher_error + 'a) \<times> 'w retry_state"
where
  "retry_action operation s =
     (case s of (a, lg, w) \<Rightarrow> (case operation w of (r, w') \<Rightarrow> (r, a + 1, lg, w')))"

definition retry_when ::
  "retry_config \<Rightarrow> (catcher_error \<Rightarrow> bool) \<Rightarrow> catcher_error \<Rightarrow> 'w retry_state \<Rightarrow> bool \<times> 'w retry_state"
where
  "retry_when cfg retry_if e s =
     (case s of (a, lg, w) \<Rightarrow>
        let should = (category e = Retryable \<and> retry_if e \<and> a < retry_max_attempts cfg)
        in (should, a, (if should then lg @ [(a, e)] else lg), w))"

definition retry_with_backoff ::
  "('a, 'w) retry_driver \<Rightarrow> (backoff_kind \<Rightarrow> u64 \<Rightarrow> u64 \<Rightarrow> u64 list) \<Rightarrow> retry_config \<Rightarrow>
   ('w \<Rightarrow> (catcher_error + 'a) \<times> 'w) \<Rightarrow> (catcher_error \<Rightarrow> bool) \<Rightarrow> 'w \<Rightarrow>
   (catcher_error + 'a) \<times> 'w retry_state"
where
  "retry_with_backoff driver backoff cfg operation retry_if w =
     (case driver (backoff (retry_backoff cfg) (min_backoff_ms cfg) (max_backoff_ms cfg))
             (retry_action operation) (retry_when cfg retry_if) (0, [], w) of
        (result, final_attempt, lg, w') \<Rightarrow>
          ((case result of
              Inr v \<Rightarrow> Ok v
            | Inl e \<Rightarrow>
                if 1 < final_attempt then Err (RetryExhausted final_attempt e) else Err e),
           final_attempt, lg, w'))"

text \<open>
  The documented behaviour of \<open>backon\<close>: an error is retried when the condition accepts it and the
  backoff sequence has a delay left; the default builders give three delays.
\<close>

definition driver_step ::
  "('a, 'w) retry_driver \<Rightarrow> ('a, 'w) retry_driver" where
  "driver_step driver ds act cond s =
     (case act s of
        (Inr v, s1) \<Rightarrow> (Inr v, s1)
      | (Inl e, s1) \<Rightarrow>
          (case cond e s1 of (b, s2) \<Rightarrow>
             if \<not> b then (Inl e, s2)
             else case ds of [] \<Rightarrow> (Inl e, s2) | d # ds' \<Rightarrow> driver ds' act cond s2))"

definition driver_law :: "('a, 'w) retry_driver \<Rightarrow> bool" where
  "driver_law driver \<longleftrightarrow> (\<forall>ds act cond s. driver ds act cond s = driver_step driver ds act cond s)"

definition backoff_law :: "(backoff_kind \<Rightarrow> u64 \<Rightarrow> u64 \<Rightarrow> u64 list) \<Rightarrow> bool" where
  "backoff_law backoff \<longleftrightarrow> (\<forall>k mn mx. length (backoff k mn mx) = 3)"

text \<open>A driver with these laws.\<close>

fun simple_driver :: "('a, 'w) retry_driver" where
  "simple_driver ds act cond s =
     (case act s of
        (Inr v, s1) \<Rightarrow> (Inr v, s1)
      | (Inl e, s1) \<Rightarrow>
          (case cond e s1 of (b, s2) \<Rightarrow>
             if \<not> b then (Inl e, s2)
             else case ds of [] \<Rightarrow> (Inl e, s2) | d # ds' \<Rightarrow> simple_driver ds' act cond s2))"

declare simple_driver.simps [simp del]

lemma simple_driver_law: "driver_law simple_driver"
  unfolding driver_law_def driver_step_def by (intro allI) (rule simple_driver.simps)

text \<open>The result of the call after \<open>k\<close> calls, and whether it is to be retried.\<close>

fun world_after :: "('w \<Rightarrow> 'r \<times> 'w) \<Rightarrow> nat \<Rightarrow> 'w \<Rightarrow> 'w" where
  "world_after f 0 w = w"
| "world_after f (Suc k) w = world_after f k (snd (f w))"

definition call_result :: "('w \<Rightarrow> 'r \<times> 'w) \<Rightarrow> nat \<Rightarrow> 'w \<Rightarrow> 'r" where
  "call_result f k w = fst (f (world_after f k w))"

lemma call_result_simps [simp]:
  "call_result f 0 w = fst (f w)"
  "call_result f (Suc k) w = call_result f k (snd (f w))"
  by (simp_all add: call_result_def)

fun to_retry :: "(catcher_error \<Rightarrow> bool) \<Rightarrow> catcher_error + 'a \<Rightarrow> bool" where
  "to_retry retry_if (Inr v) = False"
| "to_retry retry_if (Inl e) = (category e = Retryable \<and> retry_if e)"

lemma driver_run:
  assumes "driver_law driver" and "unat a + length ds + 1 < 2 ^ 32"
  shows "\<exists>n lg'. 0 < n \<and> n \<le> length ds + 1 \<and>
    list_all (\<lambda>i. to_retry retry_if (call_result op i w) \<and> unat a + i + 1 < unat (retry_max_attempts cfg))
      [0..<n - 1] \<and>
    (n = length ds + 1 \<or> \<not> to_retry retry_if (call_result op (n - 1) w) \<or>
      unat (retry_max_attempts cfg) \<le> unat a + n) \<and>
    driver ds (retry_action op) (retry_when cfg retry_if) (a, lg, w) =
      (call_result op (n - 1) w, a + of_nat n, lg', world_after op n w)"
  using assms(2)
proof (induction ds arbitrary: a lg w)
  case Nil
  obtain r w1 where r: "op w = (r, w1)" by fastforce
  show ?case
    by (rule exI [of _ 1], cases r)
      (auto simp: r driver_law_def [THEN iffD1, OF assms(1), rule_format, of "[]"] driver_step_def
        retry_action_def retry_when_def Let_def)
next
  case (Cons d ds)
  obtain r w1 where r: "op w = (r, w1)" by fastforce
  have a1: "unat (a + 1) = Suc (unat a)" using Cons.prems by (intro unat_plus_one) simp
  note step = driver_law_def [THEN iffD1, OF assms(1), rule_format, of "d # ds"] driver_step_def
    retry_action_def retry_when_def Let_def r
  show ?case
  proof (cases "to_retry retry_if r \<and> a + 1 < retry_max_attempts cfg")
    case False
    then show ?thesis
      by (intro exI [of _ 1], cases r)
        (auto simp: step r word_less_nat_alt a1)
  next
    case True
    then obtain e where e: "r = Inl e" by (cases r) auto
    from Cons.IH [where a = "a + 1" and lg = "lg @ [(a + 1, e)]" and w = w1] Cons.prems obtain n lg' where
      n: "0 < n" "n \<le> length ds + 1"
        "list_all (\<lambda>i. to_retry retry_if (call_result op i w1) \<and>
          unat (a + 1) + i + 1 < unat (retry_max_attempts cfg)) [0..<n - 1]"
        "n = length ds + 1 \<or> \<not> to_retry retry_if (call_result op (n - 1) w1) \<or>
          unat (retry_max_attempts cfg) \<le> unat (a + 1) + n"
        "driver ds (retry_action op) (retry_when cfg retry_if) (a + 1, lg @ [(a + 1, e)], w1) =
          (call_result op (n - 1) w1, (a + 1) + of_nat n, lg', world_after op n w1)"
      unfolding a1 by auto
    have prefix: "list_all (\<lambda>i. to_retry retry_if (call_result op i w) \<and>
        unat a + i + 1 < unat (retry_max_attempts cfg)) [0..<Suc n - 1]"
    proof -
      have "to_retry retry_if (call_result op i w) \<and> unat a + i + 1 < unat (retry_max_attempts cfg)"
        if "i < n" for i
      proof (cases i)
        case 0
        with True r show ?thesis by (simp add: word_less_nat_alt a1)
      next
        case (Suc j)
        with that n(3) have "to_retry retry_if (call_result op j w1) \<and>
            unat (a + 1) + j + 1 < unat (retry_max_attempts cfg)"
          by (auto simp: list_all_iff)
        with Suc r show ?thesis by (simp add: a1)
      qed
      then show ?thesis by (simp add: list_all_iff)
    qed
    have last: "call_result op n w = call_result op (n - 1) w1"
      using n(1) r by (cases n) auto
    have "driver (d # ds) (retry_action op) (retry_when cfg retry_if) (a, lg, w) =
        (call_result op (Suc n - 1) w, a + of_nat (Suc n), lg', world_after op (Suc n) w)"
      using True e n(5) r last by (simp add: step algebra_simps)
    then show ?thesis using n(1,2,4) prefix last
      by (intro exI [of _ "Suc n"] exI [of _ lg']) (simp add: a1)
  qed
qed

text \<open>The number of calls \<open>retry_with_backoff\<close> makes at most.\<close>

definition call_budget :: "retry_config \<Rightarrow> nat" where
  "call_budget cfg = min 4 (max 1 (unat (retry_max_attempts cfg)))"

text \<open>
  \<open>retry_with_backoff\<close> calls the operation again exactly while its results are retryable errors
  accepted by the caller's filter and fewer than \<open>min 4 (max 1 max_attempts)\<close> calls were made, and
  returns the last result, an error wrapped with the number of calls when there was more than one.
  The 4 is the default limit of three delays of the backoff builders: a larger \<open>max_attempts\<close> has
  no effect.
\<close>

theorem retry_with_backoff_spec:
  assumes "driver_law driver" and "backoff_law backoff"
  shows "\<exists>n log. 0 < n \<and> n \<le> call_budget cfg \<and>
    list_all (\<lambda>i. to_retry retry_if (call_result op i w)) [0..<n - 1] \<and>
    (n = call_budget cfg \<or> \<not> to_retry retry_if (call_result op (n - 1) w)) \<and>
    retry_with_backoff driver backoff cfg op retry_if w =
      ((case call_result op (n - 1) w of
          Inr v \<Rightarrow> Ok v
        | Inl e \<Rightarrow> if 1 < n then Err (RetryExhausted (of_nat n) e) else Err e),
       of_nat n, log, world_after op n w)"
proof -
  define ds where "ds = backoff (retry_backoff cfg) (min_backoff_ms cfg) (max_backoff_ms cfg)"
  have ds: "length ds = 3" using assms(2) by (simp add: ds_def backoff_law_def)
  from driver_run [OF assms(1), of 0 ds retry_if op w cfg "[]"] obtain n lg where
    n: "0 < n" "n \<le> 4"
      "list_all (\<lambda>i. to_retry retry_if (call_result op i w) \<and> i + 1 < unat (retry_max_attempts cfg)) [0..<n - 1]"
      "n = 4 \<or> \<not> to_retry retry_if (call_result op (n - 1) w) \<or> unat (retry_max_attempts cfg) \<le> n"
      "driver ds (retry_action op) (retry_when cfg retry_if) (0, [], w) =
        (call_result op (n - 1) w, of_nat n, lg, world_after op n w)"
    unfolding ds by auto
  have max: "n \<le> max 1 (unat (retry_max_attempts cfg))"
  proof (cases "n = 1")
    case False
    then have "n - 2 \<in> set [0..<n - 1]" using n(1) by auto
    with n(3) have "n - 2 + 1 < unat (retry_max_attempts cfg)" unfolding list_all_iff by blast
    with False n(1) show ?thesis by linarith
  qed simp
  have "(1 < (of_nat n :: u32)) = (1 < n)"
    using n(2) by (simp add: word_less_nat_alt unat_of_nat take_bit_nat_eq_self_iff)
  then have "retry_with_backoff driver backoff cfg op retry_if w =
      ((case call_result op (n - 1) w of
          Inr v \<Rightarrow> Ok v
        | Inl e \<Rightarrow> if 1 < n then Err (RetryExhausted (of_nat n) e) else Err e),
       of_nat n, lg, world_after op n w)"
    using n(5) by (simp add: retry_with_backoff_def ds_def cong: sum.case_cong)
  moreover have "list_all (\<lambda>i. to_retry retry_if (call_result op i w)) [0..<n - 1]"
    using n(3) by (simp add: list_all_iff)
  moreover have "n = call_budget cfg \<or> \<not> to_retry retry_if (call_result op (n - 1) w)"
    and "n \<le> call_budget cfg"
    using n(1,2,4) max by (auto simp: call_budget_def)
  ultimately show ?thesis using n(1) by blast
qed

text \<open>With a budget of ten attempts an operation that always times out is called four times.\<close>

theorem retry_with_backoff_spec_witness:
  "\<exists>log. retry_with_backoff simple_driver (\<lambda>k mn mx. [mn, mn, mn])
      (default_retry_config\<lparr>retry_max_attempts := 10\<rparr>)
      (\<lambda>w::nat. (Inl (RequestTimeout 5) :: catcher_error + unit, w + 1)) (\<lambda>_. True) 0 =
    (Err (RetryExhausted 4 (RequestTimeout 5)), 4, log, 4)"
proof -
  define f where "f = (\<lambda>w::nat. (Inl (RequestTimeout 5) :: catcher_error + unit, w + 1))"
  define cfg where "cfg = default_retry_config\<lparr>retry_max_attempts := 10\<rparr>"
  have after: "world_after f n k = k + n" for n k by (induction n arbitrary: k) (auto simp: f_def)
  have r: "call_result f n k = Inl (RequestTimeout 5)" for n k by (simp add: call_result_def f_def)
  have b: "backoff_law (\<lambda>k mn mx. [mn, mn, mn])" by (simp add: backoff_law_def)
  have c: "call_budget cfg = 4" by (simp add: call_budget_def cfg_def default_retry_config_def)
  obtain n lg where "n = 4"
    "retry_with_backoff simple_driver (\<lambda>k mn mx. [mn, mn, mn]) cfg f (\<lambda>_. True) 0 =
      ((case call_result f (n - 1) 0 of
          Inr v \<Rightarrow> Ok v
        | Inl e \<Rightarrow> if 1 < n then Err (RetryExhausted (of_nat n) e) else Err e),
       of_nat n, lg, world_after f n 0)"
    using retry_with_backoff_spec [OF simple_driver_law b, of cfg "\<lambda>_. True" f 0]
    by (auto simp: r c)
  then show ?thesis unfolding f_def [symmetric] cfg_def [symmetric] by (simp add: r after)
qed

subsection \<open>The retry middleware\<close>

text \<open>The policy as the configuration builds it.\<close>

datatype jitter = NoJitter | FullJitter

record exponential_backoff =
  eb_min :: u64
  eb_max :: u64
  eb_jitter :: jitter
  eb_max_retries :: u32

fun build_retry_policy :: "retry_config \<Rightarrow> exponential_backoff" where
  "build_retry_policy cfg =
     (case retry_backoff cfg of
        Fixed \<Rightarrow> \<lparr>eb_min = min_backoff_ms cfg, eb_max = min_backoff_ms cfg,
                  eb_jitter = NoJitter, eb_max_retries = retry_max_attempts cfg\<rparr>
      | Exponential \<Rightarrow> \<lparr>eb_min = min_backoff_ms cfg, eb_max = max_backoff_ms cfg,
                        eb_jitter = NoJitter, eb_max_retries = retry_max_attempts cfg\<rparr>
      | DecorrelatedJitter \<Rightarrow> \<lparr>eb_min = min_backoff_ms cfg, eb_max = max_backoff_ms cfg,
                              eb_jitter = FullJitter, eb_max_retries = retry_max_attempts cfg\<rparr>)"

declare build_retry_policy.simps [simp del]

datatype ('q, 'e, 'r, 'w) retry_env = RetryEnv
  (try_clone: "'q \<Rightarrow> 'q option")
  (run_next: "'q \<Rightarrow> 'w \<Rightarrow> ('e + 'r) \<times> 'w")
  (is_transient: "'e + 'r \<Rightarrow> bool")
  (should_retry: "exponential_backoff \<Rightarrow> u32 \<Rightarrow> 'w \<Rightarrow> u64 option")
  (sleep: "u64 \<Rightarrow> 'w \<Rightarrow> 'w")

datatype 'e middleware_error = NoCloneError | WithRetries u32 'e | PlainError 'e

text \<open>
  The loop of \<open>execute_with_retry\<close>.  The counter is \<open>None\<close> when the collector is gone.  The loop
  ends only when the policy refuses, so it is partial.
\<close>

partial_function (option) execute_with_retry ::
  "('q, 'e, 'r, 'w) retry_env \<Rightarrow> exponential_backoff \<Rightarrow> 'q \<Rightarrow> u32 \<Rightarrow> u64 option \<Rightarrow> 'w \<Rightarrow>
   (('e middleware_error + 'r) \<times> u64 option \<times> 'w) option"
where
  "execute_with_retry env policy req n counter w =
     (case try_clone env req of
        None \<Rightarrow> Some (Err NoCloneError, counter, w)
      | Some dup \<Rightarrow>
          (case run_next env dup w of
             (result, w1) \<Rightarrow>
               (case (if is_transient env result then should_retry env policy n w1 else None) of
                  Some duration \<Rightarrow>
                    execute_with_retry env policy req (n + 1) (map_option (\<lambda>c. c + 1) counter)
                      (sleep env duration w1)
                | None \<Rightarrow>
                    Some ((case result of
                             Inr r \<Rightarrow> Ok r
                           | Inl e \<Rightarrow> Err (if 0 < n then WithRetries n e else PlainError e)),
                          counter, w1))))"

text \<open>The documented behaviour of a policy built with a maximum number of retries.\<close>

definition policy_law :: "('q, 'e, 'r, 'w) retry_env \<Rightarrow> bool" where
  "policy_law env \<longleftrightarrow> (\<forall>p n w. eb_max_retries p \<le> n \<longrightarrow> should_retry env p n w = None)"

text \<open>
  The attempts one by one, for a request whose clone is \<open>dup\<close>: the world in which attempt \<open>k\<close> is
  sent, what it gives, and the wait the policy orders after it; none when the result is not
  transient or the policy has had enough.
\<close>

fun before_attempt ::
  "('q, 'e, 'r, 'w) retry_env \<Rightarrow> exponential_backoff \<Rightarrow> 'q \<Rightarrow> nat \<Rightarrow> 'w \<Rightarrow> 'w" where
  "before_attempt env p dup 0 w = w"
| "before_attempt env p dup (Suc k) w =
     (let w1 = snd (run_next env dup (before_attempt env p dup k w))
      in case should_retry env p (of_nat k) w1 of None \<Rightarrow> w1 | Some duration \<Rightarrow> sleep env duration w1)"

definition attempt_at ::
  "('q, 'e, 'r, 'w) retry_env \<Rightarrow> exponential_backoff \<Rightarrow> 'q \<Rightarrow> nat \<Rightarrow> 'w \<Rightarrow> ('e + 'r) \<times> 'w" where
  "attempt_at env p dup k w = run_next env dup (before_attempt env p dup k w)"

definition wait_after ::
  "('q, 'e, 'r, 'w) retry_env \<Rightarrow> exponential_backoff \<Rightarrow> 'q \<Rightarrow> nat \<Rightarrow> 'w \<Rightarrow> u64 option" where
  "wait_after env p dup k w =
     (case attempt_at env p dup k w of (result, w1) \<Rightarrow>
        if is_transient env result then should_retry env p (of_nat k) w1 else None)"

text \<open>What the caller gets after \<open>k\<close> retries.\<close>

fun after_retries :: "nat \<Rightarrow> 'e + 'r \<Rightarrow> 'e middleware_error + 'r" where
  "after_retries k (Inr r) = Ok r"
| "after_retries 0 (Inl e) = Err (PlainError e)"
| "after_retries k (Inl e) = Err (WithRetries (of_nat k) e)"

lemma after_retries_eq:
  assumes "unat (of_nat k :: u32) = k"
  shows "after_retries k result =
    (case result of
       Inr r \<Rightarrow> Ok r
     | Inl e \<Rightarrow> Err (if 0 < (of_nat k :: u32) then WithRetries (of_nat k) e else PlainError e))"
  using assms by (cases k; cases result) (simp_all add: word_less_nat_alt)

lemma last_attempt:
  assumes "try_clone env req = Some dup" and "wait_after env p dup j w = None"
    and "unat (of_nat j :: u32) = j"
  shows "execute_with_retry env p req (of_nat j) counter (before_attempt env p dup j w) =
    Some (after_retries j (fst (attempt_at env p dup j w)), counter, snd (attempt_at env p dup j w))"
proof -
  obtain result w1 where r: "run_next env dup (before_attempt env p dup j w) = (result, w1)" by fastforce
  have "(if is_transient env result then should_retry env p (of_nat j) w1 else None) = None"
    using assms(2) by (simp add: wait_after_def attempt_at_def r)
  then show ?thesis
    unfolding after_retries_eq [OF assms(3)]
    by (subst execute_with_retry.simps) (simp add: assms(1) attempt_at_def r del: before_attempt.simps)
qed

lemma execute_with_retry_attempts:
  assumes "policy_law env" and "try_clone env req = Some dup"
    and "unat (eb_max_retries p) = j + d" and "\<forall>i < j. wait_after env p dup i w \<noteq> None"
  shows "\<exists>k. j \<le> k \<and> k \<le> j + d \<and> (\<forall>i < k. wait_after env p dup i w \<noteq> None) \<and>
    wait_after env p dup k w = None \<and>
    execute_with_retry env p req (of_nat j) counter (before_attempt env p dup j w) =
      Some (after_retries k (fst (attempt_at env p dup k w)),
            map_option (\<lambda>c. c + of_nat (k - j)) counter, snd (attempt_at env p dup k w))"
  using assms(3,4)
proof (induction d arbitrary: j counter)
  case 0
  have j: "unat (of_nat j :: u32) = j"
    using 0(1) unat_le_max [of "eb_max_retries p"] by (simp add: unat_of_nat take_bit_nat_eq_self_iff)
  then have refuses: "should_retry env p (of_nat j) v = None" for v
    using assms(1) 0(1) by (simp add: policy_law_def word_le_nat_alt)
  then have none: "wait_after env p dup j w = None"
    by (simp add: wait_after_def split: prod.split)
  from last_attempt [OF assms(2) none j, of counter] 0(2) none show ?case
    by (intro exI [of _ j]) (simp add: option.map_ident)
next
  case (Suc d)
  have j: "unat (of_nat j :: u32) = j"
    using Suc(2) unat_le_max [of "eb_max_retries p"] by (simp add: unat_of_nat take_bit_nat_eq_self_iff)
  obtain result w1 where r: "attempt_at env p dup j w = (result, w1)" by fastforce
  note step = execute_with_retry.simps [of env p req "of_nat j" counter "before_attempt env p dup j w"]
    assms(2) r [unfolded attempt_at_def]
  show ?case
  proof (cases "wait_after env p dup j w")
    case None
    from last_attempt [OF assms(2) None j, of counter] Suc(3) None show ?thesis
      by (intro exI [of _ j]) (simp add: option.map_ident)
  next
    case (Some duration)
    then have t: "is_transient env result" "should_retry env p (of_nat j) w1 = Some duration"
      by (simp_all add: wait_after_def r split: if_splits)
    then have w: "before_attempt env p dup (Suc j) w = sleep env duration w1"
      using r by (simp add: attempt_at_def Let_def)
    have go: "execute_with_retry env p req (of_nat j) counter (before_attempt env p dup j w) =
        execute_with_retry env p req (of_nat (Suc j)) (map_option (\<lambda>c. c + 1) counter)
          (before_attempt env p dup (Suc j) w)"
      unfolding w using t by (simp add: step add.commute)
    have "\<forall>i < Suc j. wait_after env p dup i w \<noteq> None" using Suc(3) Some by (auto simp: less_Suc_eq)
    with Suc.IH [of "Suc j" "map_option (\<lambda>c. c + 1) counter"] Suc(2) obtain k where k:
      "Suc j \<le> k" "k \<le> Suc j + d" "\<forall>i < k. wait_after env p dup i w \<noteq> None" "wait_after env p dup k w = None"
      "execute_with_retry env p req (of_nat (Suc j)) (map_option (\<lambda>c. c + 1) counter)
          (before_attempt env p dup (Suc j) w) =
        Some (after_retries k (fst (attempt_at env p dup k w)),
          map_option (\<lambda>c. c + of_nat (k - Suc j)) (map_option (\<lambda>c. c + 1) counter),
          snd (attempt_at env p dup k w))"
      by auto
    have "(1 + of_nat (k - Suc j) :: u64) = of_nat (k - j)"
      using k(1) by (simp add: Suc_diff_Suc [symmetric] Suc_le_eq)
    then have "map_option (\<lambda>c. c + of_nat (k - Suc j)) (map_option (\<lambda>c. c + 1) counter)
        = map_option (\<lambda>c. c + of_nat (k - j)) (counter :: u64 option)"
      by (simp add: option.map_comp o_def add.assoc)
    with k go show ?thesis by (intro exI [of _ k]) simp
  qed
qed

text \<open>
  C8. The retry middleware returns, and what it does is determined attempt by attempt.  A request that
  cannot be cloned is refused unsent.  Otherwise clone after clone is sent, each once and each retry
  after the wait the policy ordered, for as long as the result is transient and the policy orders a
  wait: \<open>k\<close> retries, at most \<open>max_attempts\<close>.  The caller gets the result of attempt \<open>k\<close>, an error
  marked with \<open>k\<close> when there was a retry, the world is the one that attempt left, and the retry
  counter has grown by \<open>k\<close> while its collector is alive.
\<close>

theorem middleware_returns:
  fixes cfg :: retry_config
  assumes "policy_law env"
  defines "p \<equiv> build_retry_policy cfg"
  shows "case try_clone env req of
      None \<Rightarrow> execute_with_retry env p req 0 counter w = Some (Err NoCloneError, counter, w)
    | Some dup \<Rightarrow>
        \<exists>k \<le> unat (retry_max_attempts cfg). (\<forall>i < k. wait_after env p dup i w \<noteq> None) \<and>
          wait_after env p dup k w = None \<and>
          execute_with_retry env p req 0 counter w =
            Some (after_retries k (fst (attempt_at env p dup k w)),
                  map_option (\<lambda>c. c + of_nat k) counter, snd (attempt_at env p dup k w))"
proof (cases "try_clone env req")
  case None
  then show ?thesis by (simp add: execute_with_retry.simps)
next
  case (Some dup)
  have "unat (eb_max_retries p) = 0 + unat (retry_max_attempts cfg)"
    by (simp add: p_def build_retry_policy.simps split: backoff_kind.splits)
  from execute_with_retry_attempts [OF assms(1) Some this, of w counter] Some show ?thesis by auto
qed

text \<open>
  The first attempt fails with a transient error, the second after the wait with one that is not.
\<close>

theorem middleware_returns_witness:
  "execute_with_retry
      (RetryEnv Some (\<lambda>q (w::nat). (Inl w :: nat + unit, w + 1)) (\<lambda>r. r = Inl 0)
         (\<lambda>p n w. if n < eb_max_retries p then Some (eb_min p) else None) (\<lambda>d w. w + unat d))
      (build_retry_policy (default_retry_config\<lparr>min_backoff_ms := 100\<rparr>)) () 0 (Some 10) 0 =
    Some (Err (WithRetries 1 101), Some 11, 102)"
proof -
  let ?env = "RetryEnv Some (\<lambda>q (w::nat). (Inl w :: nat + unit, w + 1)) (\<lambda>r. r = Inl 0)
      (\<lambda>p n w. if n < eb_max_retries p then Some (eb_min p) else None) (\<lambda>d w. w + unat d)"
  let ?cfg = "default_retry_config\<lparr>min_backoff_ms := 100\<rparr>"
  let ?p = "build_retry_policy ?cfg"
  have p: "eb_min ?p = 100" "eb_max_retries ?p = 3"
    by (simp_all add: build_retry_policy.simps default_retry_config_def)
  have law: "policy_law ?env" by (auto simp: policy_law_def not_less [symmetric])
  have a: "attempt_at ?env ?p () 0 0 = (Inl 0, 1)" "attempt_at ?env ?p () 1 0 = (Inl 101, 102)"
    by (simp_all add: attempt_at_def p Let_def)
  have w: "wait_after ?env ?p () 0 0 = Some 100" "wait_after ?env ?p () 1 0 = None"
    by (simp_all only: wait_after_def a) (simp_all add: p)
  obtain k where k: "\<forall>i < k. wait_after ?env ?p () i 0 \<noteq> None" "wait_after ?env ?p () k 0 = None"
    "execute_with_retry ?env ?p () 0 (Some 10) 0 =
      Some (after_retries k (fst (attempt_at ?env ?p () k 0)), Some (10 + of_nat k), snd (attempt_at ?env ?p () k 0))"
    using middleware_returns [OF law, of ?cfg "()" "Some 10" 0]
    unfolding retry_env.sel option.case option.map by (elim exE conjE) (rule that)
  define f where "f i = wait_after ?env ?p () i 0" for i
  have f: "f 0 = Some 100" "f 1 = None" "\<forall>i < k. f i \<noteq> None" "f k = None"
    using w k(1,2) by (simp_all only: f_def)
  have "k \<noteq> 0" using f(1,4) by (intro notI) simp
  moreover have "\<not> 1 < k" using f(2,3) by blast
  ultimately have one: "k = 1" by linarith
  show ?thesis using k(3) unfolding one a(2) by simp
qed

end
