(* ===== verification/Metrics.thy ===== *)
theory Metrics
  imports Core_Types
begin

section \<open>Metrics\<close>

text \<open>
  Models \<^verbatim>\<open>catcher-http/src/observability/metrics.rs\<close>: the atomic counters and the exported
  snapshot.  Every counter update is one atomic addition, so a history of calls from several
  threads is the sequence of their additions.  The retry counter is shared with the retry
  middleware, whose additions are \<open>increment_http_retries\<close> here.
\<close>

record metrics_collector =
  http_requests_total :: u64
  http_successes :: u64
  http_failures :: u64
  http_retries :: u64
  http_total_latency_us :: u64
  ws_connects_attempted :: u64
  ws_connects_succeeded :: u64
  ws_disconnects :: u64
  ws_messages_sent :: u64
  ws_messages_received :: u64
  cb_open_count :: u64
  cb_half_open_count :: u64
  queue_high_priority_enqueued :: u64
  queue_low_priority_enqueued :: u64
  queue_timeouts :: u32

definition mc_new :: metrics_collector where
  "mc_new =
     \<lparr>http_requests_total = 0, http_successes = 0, http_failures = 0, http_retries = 0,
      http_total_latency_us = 0, ws_connects_attempted = 0, ws_connects_succeeded = 0,
      ws_disconnects = 0, ws_messages_sent = 0, ws_messages_received = 0, cb_open_count = 0,
      cb_half_open_count = 0, queue_high_priority_enqueued = 0, queue_low_priority_enqueued = 0,
      queue_timeouts = 0\<rparr>"

definition record_http_request :: "bool \<Rightarrow> u64 \<Rightarrow> metrics_collector \<Rightarrow> metrics_collector" where
  "record_http_request success latency_us m =
     (let m1 = m\<lparr>http_requests_total := http_requests_total m + 1\<rparr>;
          m2 = (if success then m1\<lparr>http_successes := http_successes m1 + 1\<rparr>
                else m1\<lparr>http_failures := http_failures m1 + 1\<rparr>)
      in m2\<lparr>http_total_latency_us := http_total_latency_us m2 + latency_us\<rparr>)"

definition increment_http_retries :: "metrics_collector \<Rightarrow> metrics_collector" where
  "increment_http_retries m = m\<lparr>http_retries := http_retries m + 1\<rparr>"

definition record_ws_connect :: "bool \<Rightarrow> metrics_collector \<Rightarrow> metrics_collector" where
  "record_ws_connect success m =
     (let m1 = m\<lparr>ws_connects_attempted := ws_connects_attempted m + 1\<rparr>
      in if success then m1\<lparr>ws_connects_succeeded := ws_connects_succeeded m1 + 1\<rparr> else m1)"

definition record_ws_disconnect :: "metrics_collector \<Rightarrow> metrics_collector" where
  "record_ws_disconnect m = m\<lparr>ws_disconnects := ws_disconnects m + 1\<rparr>"

definition record_ws_message_sent :: "metrics_collector \<Rightarrow> metrics_collector" where
  "record_ws_message_sent m = m\<lparr>ws_messages_sent := ws_messages_sent m + 1\<rparr>"

definition record_ws_message_received :: "metrics_collector \<Rightarrow> metrics_collector" where
  "record_ws_message_received m = m\<lparr>ws_messages_received := ws_messages_received m + 1\<rparr>"

definition record_cb_open :: "metrics_collector \<Rightarrow> metrics_collector" where
  "record_cb_open m = m\<lparr>cb_open_count := cb_open_count m + 1\<rparr>"

definition record_cb_half_open :: "metrics_collector \<Rightarrow> metrics_collector" where
  "record_cb_half_open m = m\<lparr>cb_half_open_count := cb_half_open_count m + 1\<rparr>"

definition record_queue_enqueue :: "priority \<Rightarrow> metrics_collector \<Rightarrow> metrics_collector" where
  "record_queue_enqueue p m =
     (if p \<le> High
      then m\<lparr>queue_high_priority_enqueued := queue_high_priority_enqueued m + 1\<rparr>
      else m\<lparr>queue_low_priority_enqueued := queue_low_priority_enqueued m + 1\<rparr>)"

definition record_queue_timeout :: "metrics_collector \<Rightarrow> metrics_collector" where
  "record_queue_timeout m = m\<lparr>queue_timeouts := queue_timeouts m + 1\<rparr>"

record metrics_snapshot =
  ms_http_requests :: u64
  ms_http_success_rate :: f64
  ms_http_avg_latency_us :: u64
  ms_http_retries :: u64
  ms_ws_connect_success_rate :: f64
  ms_ws_disconnects :: u64
  ms_ws_messages_sent :: u64
  ms_ws_messages_received :: u64
  ms_cb_open_count :: u64
  ms_queue_timeouts :: u32

definition metrics_snapshot :: "metrics_collector \<Rightarrow> metrics_snapshot" where
  "metrics_snapshot m =
     (let requests = http_requests_total m; successes = http_successes m;
          total_latency = http_total_latency_us m;
          ws_attempts = ws_connects_attempted m; ws_successes = ws_connects_succeeded m
      in \<lparr>ms_http_requests = requests,
          ms_http_success_rate =
            (if 0 < requests then f64_div (f64_of_u64 successes) (f64_of_u64 requests) else Fin 0),
          ms_http_avg_latency_us = (if successes = 0 then 0 else total_latency div successes),
          ms_http_retries = http_retries m,
          ms_ws_connect_success_rate =
            (if 0 < ws_attempts then f64_div (f64_of_u64 ws_successes) (f64_of_u64 ws_attempts)
             else Fin 0),
          ms_ws_disconnects = ws_disconnects m, ms_ws_messages_sent = ws_messages_sent m,
          ms_ws_messages_received = ws_messages_received m, ms_cb_open_count = cb_open_count m,
          ms_queue_timeouts = queue_timeouts m\<rparr>)"

subsection \<open>Histories\<close>

datatype metric_event =
    HttpRequestDone bool u64 | HttpRetry | WsConnect bool | WsDisconnect | WsSent | WsReceived
  | CbOpen | CbHalfOpen | Enqueued priority | QueueTimedOut

fun mc_step :: "metric_event \<Rightarrow> metrics_collector \<Rightarrow> metrics_collector" where
  "mc_step (HttpRequestDone ok l) m = record_http_request ok l m"
| "mc_step HttpRetry m = increment_http_retries m"
| "mc_step (WsConnect ok) m = record_ws_connect ok m"
| "mc_step WsDisconnect m = record_ws_disconnect m"
| "mc_step WsSent m = record_ws_message_sent m"
| "mc_step WsReceived m = record_ws_message_received m"
| "mc_step CbOpen m = record_cb_open m"
| "mc_step CbHalfOpen m = record_cb_half_open m"
| "mc_step (Enqueued p) m = record_queue_enqueue p m"
| "mc_step QueueTimedOut m = record_queue_timeout m"

definition mc_run :: "metric_event list \<Rightarrow> metrics_collector" where
  "mc_run evs = fold mc_step evs mc_new"

text \<open>The latencies of the requests of a history, of all or of those with the given outcome.\<close>

fun latencies :: "metric_event list \<Rightarrow> u64 list" where
  "latencies [] = []"
| "latencies (HttpRequestDone ok l # evs) = l # latencies evs"
| "latencies (_ # evs) = latencies evs"

fun outcome_latencies :: "bool \<Rightarrow> metric_event list \<Rightarrow> u64 list" where
  "outcome_latencies b [] = []"
| "outcome_latencies b (HttpRequestDone ok l # evs) =
     (if ok = b then l # outcome_latencies b evs else outcome_latencies b evs)"
| "outcome_latencies b (_ # evs) = outcome_latencies b evs"

lemmas mc_ops = record_http_request_def increment_http_retries_def record_ws_connect_def
  record_ws_disconnect_def record_ws_message_sent_def record_ws_message_received_def
  record_cb_open_def record_cb_half_open_def record_queue_enqueue_def record_queue_timeout_def
  Let_def

lemma mc_fold_http:
  "http_requests_total (fold mc_step evs m) = http_requests_total m + of_nat (length (latencies evs)) \<and>
   http_successes (fold mc_step evs m) = http_successes m + of_nat (length (outcome_latencies True evs)) \<and>
   http_failures (fold mc_step evs m) = http_failures m + of_nat (length (outcome_latencies False evs)) \<and>
   http_total_latency_us (fold mc_step evs m) = http_total_latency_us m + sum_list (latencies evs)"
proof (induction evs arbitrary: m)
  case (Cons e evs)
  then show ?case by (cases e) (simp_all add: mc_ops)
qed simp

lemma mc_run_http:
  "http_requests_total (mc_run evs) = of_nat (length (latencies evs))"
  "http_successes (mc_run evs) = of_nat (length (outcome_latencies True evs))"
  "http_failures (mc_run evs) = of_nat (length (outcome_latencies False evs))"
  "http_total_latency_us (mc_run evs) = sum_list (latencies evs)"
  using mc_fold_http [of evs mc_new] by (simp_all add: mc_run_def mc_new_def)

lemma length_outcomes:
  "length (outcome_latencies True evs) + length (outcome_latencies False evs) = length (latencies evs)"
proof (induction evs)
  case (Cons e evs)
  then show ?case by (cases e) auto
qed simp

lemma length_latencies: "length (latencies evs) \<le> length evs"
proof (induction evs)
  case (Cons e evs)
  then show ?case by (cases e) auto
qed simp

subsection \<open>Properties\<close>

text \<open>The quotient of two counts as the code computes it lies between 0 and 1.\<close>

lemma f64_ratio:
  assumes "a \<le> b" and "0 < b" and "b < 2 ^ 53"
  shows "\<exists>r. f64_div (f64_of_nat a) (f64_of_nat b) = Fin r \<and> 0 \<le> r \<and> r \<le> 1"
proof -
  have fin: "f64_of_nat a = Fin (of_nat a)" "f64_of_nat b = Fin (of_nat b)"
    using assms by (auto intro!: f64_of_nat_exact)
  define q :: rat where "q = of_nat a / of_nat b"
  have q: "0 \<le> q" "q \<le> 1" using assms by (simp_all add: q_def divide_le_eq_1)
  have "0 \<le> rnd q" "rnd q \<le> 1" using rnd_nonneg [OF q(1)] rnd_mono [OF q(2)] rnd_of_nat [of 1] by auto
  moreover then have "f64_round q = Fin (rnd q)" by (intro f64_round_fin) simp
  moreover have "f64_div (f64_of_nat a) (f64_of_nat b) = f64_round q"
    using assms(2) by (simp add: fin q_def)
  ultimately show ?thesis by auto
qed

text \<open>
  The snapshot of any history of calls, from any threads: the number of requests is the number
  recorded, successes and failures add up to it, the success rate is a number between 0 and 1, and
  the average latency is the sum of all latencies, those of failures included, divided by the
  number of successes only.
\<close>

theorem metrics_snapshot_exact:
  assumes "length evs < 2 ^ 53" and "sum_list (map unat (latencies evs)) < 2 ^ 64"
  defines "s \<equiv> metrics_snapshot (mc_run evs)"
  shows "unat (ms_http_requests s) =
      length (outcome_latencies True evs) + length (outcome_latencies False evs) \<and>
    (\<exists>r. ms_http_success_rate s = Fin r \<and> 0 \<le> r \<and> r \<le> 1) \<and>
    unat (ms_http_avg_latency_us s) =
      sum_list (map unat (latencies evs)) div length (outcome_latencies True evs)"
proof -
  define n where "n = length (latencies evs)"
  define k where "k = length (outcome_latencies True evs)"
  have kn: "k \<le> n" using length_outcomes [of evs] by (simp add: k_def n_def)
  have n: "n < 2 ^ 53" using length_latencies [of evs] assms(1) by (simp add: n_def)
  have u: "unat (of_nat i :: u64) = i" if "i \<le> n" for i
    using that n by (simp add: unat_of_nat take_bit_nat_eq_self_iff)
  have req: "unat (ms_http_requests s) = n"
    by (simp add: s_def metrics_snapshot_def Let_def mc_run_http u flip: n_def)
  have avg: "unat (ms_http_avg_latency_us s) = sum_list (map unat (latencies evs)) div k"
  proof (cases "k = 0")
    case False
    have "(of_nat k :: u64) \<noteq> 0" using u [OF kn] False by (metis unsigned_0)
    moreover have "unat (sum_list (latencies evs)) = sum_list (map unat (latencies evs))"
      using unat_sum_list [of "latencies evs"] assms(2) by simp
    ultimately show ?thesis
      by (simp add: s_def metrics_snapshot_def Let_def mc_run_http unat_div u [OF kn] flip: k_def)
  qed (simp add: s_def metrics_snapshot_def Let_def mc_run_http flip: k_def)
  have "\<exists>r. ms_http_success_rate s = Fin r \<and> 0 \<le> r \<and> r \<le> 1"
  proof (cases "0 < (of_nat n :: u64)")
    case True
    then have "0 < n" by (cases n) auto
    with f64_ratio [OF kn _ n] True show ?thesis
      by (simp add: s_def metrics_snapshot_def Let_def mc_run_http f64_of_u64_def u kn flip: k_def n_def)
  qed (simp add: s_def metrics_snapshot_def Let_def mc_run_http flip: n_def)
  with req avg show ?thesis using length_outcomes [of evs] by (simp add: k_def n_def)
qed

theorem metrics_snapshot_exact_witness:
  "unat (ms_http_avg_latency_us (metrics_snapshot
     (mc_run [HttpRequestDone True 100, HttpRequestDone False 5000, HttpRetry]))) = 5100"
  using metrics_snapshot_exact [of "[HttpRequestDone True 100, HttpRequestDone False 5000, HttpRetry]"]
  by simp

end
