(* ===== verification/Handle_Registry.thy ===== *)
theory Handle_Registry
  imports Prelude
begin

section \<open>The registry of foreign handles\<close>

text \<open>
  Models \<^verbatim>\<open>catcher-core/src/handle_registry.rs\<close>: the map from identifiers to live objects that
  the C interfaces of the HTTP, WebSocket and SSE clients use.  The counter and the locked map are
  separate; an insertion from another thread may run between the two halves of \<open>insert\<close>, which
  the operations \<open>hr_next_id\<close> and \<open>hr_insert_with_id\<close> express.
\<close>

record 'a registry =
  hr_map :: "u64 \<rightharpoonup> 'a"
  hr_next :: u64

definition hr_new :: "'a registry" where
  "hr_new = \<lparr>hr_map = Map.empty, hr_next = 1\<rparr>"

definition hr_next_id :: "'a registry \<Rightarrow> u64 \<times> 'a registry" where
  "hr_next_id r = (hr_next r, r\<lparr>hr_next := hr_next r + 1\<rparr>)"

definition hr_insert_with_id :: "u64 \<Rightarrow> 'a \<Rightarrow> 'a registry \<Rightarrow> 'a registry" where
  "hr_insert_with_id i v r = r\<lparr>hr_map := (hr_map r)(i \<mapsto> v)\<rparr>"

definition hr_insert :: "'a \<Rightarrow> 'a registry \<Rightarrow> u64 \<times> 'a registry" where
  "hr_insert v r = (case hr_next_id r of (i, r') \<Rightarrow> (i, hr_insert_with_id i v r'))"

definition hr_get :: "u64 \<Rightarrow> 'a registry \<Rightarrow> 'a option" where
  "hr_get i r = hr_map r i"

definition hr_remove :: "u64 \<Rightarrow> 'a registry \<Rightarrow> 'a option \<times> 'a registry" where
  "hr_remove i r = (hr_map r i, r\<lparr>hr_map := (hr_map r)(i := None)\<rparr>)"

subsection \<open>The interface\<close>

text \<open>
  What the C interfaces rely on.  \<open>fresh s i\<close> says that \<open>i\<close> has not been handed out yet, and
  \<open>room s n\<close> that \<open>n\<close> more identifiers can be handed out before the counter wraps.
\<close>

locale handle_store =
  fixes next_id :: "'s \<Rightarrow> u64 \<times> 's" and put :: "u64 \<Rightarrow> 'a \<Rightarrow> 's \<Rightarrow> 's"
    and get :: "u64 \<Rightarrow> 's \<Rightarrow> 'a option" and del :: "u64 \<Rightarrow> 's \<Rightarrow> 'a option \<times> 's"
    and fresh :: "'s \<Rightarrow> u64 \<Rightarrow> bool" and room :: "'s \<Rightarrow> nat \<Rightarrow> bool"
  assumes next_fresh: "room s (Suc n) \<Longrightarrow> next_id s = (i, s') \<Longrightarrow>
      i \<noteq> 0 \<and> fresh s i \<and> room s' n \<and> (\<forall>j. fresh s' j \<longleftrightarrow> fresh s j \<and> j \<noteq> i)"
    and next_get: "next_id s = (i, s') \<Longrightarrow> get j s' = get j s"
    and put_get: "get j (put i v s) = (if i = j then Some v else get j s)"
    and put_room: "room (put i v s) n = room s n" and put_fresh: "fresh (put i v s) j = fresh s j"
    and del_get: "del i s = (x, s') \<Longrightarrow> x = get i s \<and> get j s' = (if i = j then None else get j s)"
    and del_room: "del i s = (x, s') \<Longrightarrow> room s' n = room s n"
    and del_fresh: "del i s = (x, s') \<Longrightarrow> fresh s' j = fresh s j"
begin

text \<open>Operations of other users of the store between two uses of handle \<open>i\<close>.\<close>

lemma next_keeps:
  assumes "room s (Suc n)" and "next_id s = (j, s')" and "\<not> fresh s i"
  shows "\<not> fresh s' i \<and> j \<noteq> i \<and> room s' n"
  using next_fresh [OF assms(1,2)] assms(3) by blast

end

lemma hr_room_Suc:
  assumes "unat (x::u64) + Suc n < 2 ^ 64"
  shows "unat (x + 1) = Suc (unat x)"
proof (rule unat_plus_one)
  show "unat x < 2 ^ LENGTH(64) - 1" using assms by simp
qed

interpretation registry: handle_store hr_next_id hr_insert_with_id hr_get hr_remove
  "\<lambda>r i. hr_next r \<le> i" "\<lambda>r n. hr_next r \<noteq> 0 \<and> unat (hr_next r) + n < 2 ^ 64"
proof (unfold_locales, goal_cases)
  case (1 s n i s')
  then have i: "i = hr_next s" "hr_next s' = hr_next s + 1" by (auto simp: hr_next_id_def)
  have u: "unat (hr_next s + 1) = Suc (unat (hr_next s))" using 1 by (intro hr_room_Suc) auto
  have "hr_next s + 1 \<le> j \<longleftrightarrow> hr_next s \<le> j \<and> j \<noteq> hr_next s" for j
    by (auto simp: word_le_nat_alt u Suc_le_eq order_le_less
        dest: unsigned_word_eqI [where 'a = nat])
  moreover have "hr_next s + 1 \<noteq> 0" using u by (metis nat.distinct(1) unsigned_0)
  ultimately show ?case using 1 i u by auto
qed (auto simp: hr_next_id_def hr_insert_with_id_def hr_get_def hr_remove_def)

subsection \<open>Runs\<close>

datatype 'a reg_op = NextId | InsertWithId u64 'a | Insert 'a | Remove u64

fun reg_step :: "'a reg_op \<Rightarrow> 'a registry \<Rightarrow> 'a registry" where
  "reg_step NextId r = snd (hr_next_id r)"
| "reg_step (InsertWithId i v) r = hr_insert_with_id i v r"
| "reg_step (Insert v) r = snd (hr_insert v r)"
| "reg_step (Remove i) r = snd (hr_remove i r)"

definition reg_run :: "'a reg_op list \<Rightarrow> 'a registry \<Rightarrow> 'a registry" where
  "reg_run ops r = fold reg_step ops r"

text \<open>The operations by which the owner of \<open>i\<close> changes it.\<close>

fun fills :: "u64 \<Rightarrow> 'a reg_op \<Rightarrow> bool" where
  "fills i (InsertWithId j v) = (i = j)"
| "fills i _ = False"

fun touches :: "u64 \<Rightarrow> 'a reg_op \<Rightarrow> bool" where
  "touches i (Remove j) = (i = j)"
| "touches i x = fills i x"

abbreviation reg_room :: "'a registry \<Rightarrow> nat \<Rightarrow> bool" where
  "reg_room r n \<equiv> hr_next r \<noteq> 0 \<and> unat (hr_next r) + n < 2 ^ 64"

lemma reg_step_others:
  assumes "reg_room r (Suc n)" and "\<not> fills i x" and "\<not> hr_next r \<le> i"
  shows "reg_room (reg_step x r) n \<and> \<not> hr_next (reg_step x r) \<le> i \<and>
    (hr_get i r = None \<longrightarrow> hr_get i (reg_step x r) = None) \<and>
    (\<not> touches i x \<longrightarrow> hr_get i (reg_step x r) = hr_get i r)"
proof -
  obtain j r' where j: "hr_next_id r = (j, r')" by fastforce
  have k: "\<not> hr_next r' \<le> i \<and> j \<noteq> i \<and> reg_room r' n"
    using registry.next_keeps [OF assms(1) j assms(3)] .
  show ?thesis
  proof (cases x)
    case NextId
    then show ?thesis using j k registry.next_get [OF j, of i] by simp
  next
    case (Insert v)
    then show ?thesis using j k registry.next_get [OF j, of i]
      by (simp add: hr_insert_def registry.put_get) (simp add: hr_insert_with_id_def)
  next
    case (InsertWithId m v)
    then show ?thesis using assms by (simp add: registry.put_get) (simp add: hr_insert_with_id_def)
  next
    case (Remove m)
    then show ?thesis using assms by (auto simp: hr_remove_def hr_get_def)
  qed
qed

lemma reg_run_others:
  assumes "reg_room r (length ops + n)" and "list_all (\<lambda>x. \<not> fills i x) ops" and "\<not> hr_next r \<le> i"
  shows "reg_room (reg_run ops r) n \<and> \<not> hr_next (reg_run ops r) \<le> i \<and>
    (hr_get i r = None \<longrightarrow> hr_get i (reg_run ops r) = None) \<and>
    (list_all (\<lambda>x. \<not> touches i x) ops \<longrightarrow> hr_get i (reg_run ops r) = hr_get i r)"
  using assms
proof (induction ops arbitrary: r)
  case (Cons x xs)
  have s: "reg_room (reg_step x r) (length xs + n)" "\<not> hr_next (reg_step x r) \<le> i"
    "hr_get i r = None \<longrightarrow> hr_get i (reg_step x r) = None"
    "\<not> touches i x \<longrightarrow> hr_get i (reg_step x r) = hr_get i r"
    using reg_step_others [of r "length xs + n" i x] Cons.prems by simp_all
  from Cons.IH [OF s(1) _ s(2)] Cons.prems s show ?case by (simp add: reg_run_def)
qed (simp add: reg_run_def)

lemma reg_run_room:
  assumes "reg_room r (length ops + n)"
  shows "reg_room (reg_run ops r) n"
  using assms
proof (induction ops arbitrary: r)
  case (Cons x xs)
  have "reg_room (reg_step x r) (length xs + n)"
    using Cons.prems hr_room_Suc [of "hr_next r" "length xs + n"]
    by (cases x) (auto simp: hr_next_id_def hr_insert_def hr_insert_with_id_def hr_remove_def
      dest: arg_cong [where f = unat])
  with Cons.IH show ?case by (simp add: reg_run_def)
qed (simp add: reg_run_def)

subsection \<open>Properties\<close>

text \<open>
  C12. A handle lives exactly from its insertion to its removal.  Whatever other threads did before
  and do in between (the registry hands out fewer than \<open>2 ^ 64\<close> identifiers), the object is found
  under its identifier until its owner removes it, and from then on the identifier finds nothing:
  it is not handed out again.
\<close>

theorem handle_lifetime:
  assumes "length before + length between + length after < 2 ^ 64 - 2"
    and "hr_insert v (reg_run before hr_new) = (i, r)"
    and "list_all (\<lambda>x. \<not> touches i x) between" and "list_all (\<lambda>x. \<not> fills i x) after"
  shows "i \<noteq> 0 \<and> hr_get i (reg_run between r) = Some v \<and>
    hr_get i (reg_run after (snd (hr_remove i (reg_run between r)))) = None"
proof -
  define r0 :: "'a registry" where "r0 = reg_run before hr_new"
  have room0: "reg_room r0 (Suc (length between + length after))"
    unfolding r0_def using assms(1) by (intro reg_run_room) (simp add: hr_new_def)
  obtain r1 where n: "hr_next_id r0 = (i, r1)" and r: "r = hr_insert_with_id i v r1"
    using assms(2) by (auto simp: hr_insert_def r0_def split: prod.splits)
  from registry.next_fresh [OF room0 n]
  have i: "i \<noteq> 0" "\<not> hr_next r1 \<le> i" "reg_room r1 (length between + length after)" by auto
  then have r': "\<not> hr_next r \<le> i" "reg_room r (length between + length after)" "hr_get i r = Some v"
    using r registry.put_get [of i i v r1] by (simp_all add: hr_insert_with_id_def)
  have nf: "list_all (\<lambda>x. \<not> fills i x) between"
    using assms(3) by (rule list.pred_mono_strong) (auto elim!: fills.elims)
  note b = reg_run_others [OF r'(2) nf r'(1)]
  define r2 where "r2 = snd (hr_remove i (reg_run between r))"
  have "hr_get i r2 = None" "reg_room r2 (length after + 0)" "\<not> hr_next r2 \<le> i"
    using b by (auto simp: r2_def hr_remove_def hr_get_def)
  then have "hr_get i (reg_run after r2) = None"
    using reg_run_others [of r2 "after" 0 i] assms(4) by blast
  with i b r'(3) assms(3) show ?thesis by (simp add: r2_def)
qed

theorem handle_lifetime_witness:
  "hr_get 2 (reg_run [Insert (7::nat), Remove 1]
     (snd (hr_remove 2 (reg_run [Insert 5, Remove 1] (snd (hr_insert 9 (reg_run [Insert 4] hr_new))))))) = None"
proof -
  have "hr_insert 9 (reg_run [Insert 4] hr_new) =
      (2, snd (hr_insert (9::nat) (reg_run [Insert 4] hr_new)))"
    by (simp add: hr_insert_def hr_next_id_def hr_insert_with_id_def reg_run_def hr_new_def)
  from handle_lifetime [OF _ this, of "[Insert 5, Remove 1]" "[Insert 7, Remove 1]"]
  show ?thesis by simp
qed

end
