(* ===== verification/Utf8.thy ===== *)
theory Utf8
  imports Rust_Text
begin

section \<open>UTF-8\<close>

text \<open>
  The standard library's \<open>String::from_utf8_lossy\<close> and white-space trimming, on bytes.  A decoder
  step looks at the head of the input: it is a well-formed character of some length, or an
  ill-formed prefix that is replaced with U+FFFD.
\<close>

definition byte :: "char \<Rightarrow> nat" where
  "byte c = of_char c"

definition in_range :: "nat \<Rightarrow> nat \<Rightarrow> char \<Rightarrow> bool" where
  "in_range lo hi c \<longleftrightarrow> lo \<le> byte c \<and> byte c \<le> hi"

abbreviation is_cont :: "char \<Rightarrow> bool" where
  "is_cont \<equiv> in_range 128 191"

text \<open>The range of the second byte that the first one admits.\<close>

definition second_ok :: "char \<Rightarrow> char \<Rightarrow> bool" where
  "second_ok b c =
     (if byte b = 224 then in_range 160 191 c
      else if byte b = 237 then in_range 128 159 c
      else if byte b = 240 then in_range 144 191 c
      else if byte b = 244 then in_range 128 143 c
      else is_cont c)"

definition char_width :: "char \<Rightarrow> nat" where
  "char_width b =
     (if byte b < 128 then 1
      else if in_range 194 223 b then 2
      else if in_range 224 239 b then 3
      else if in_range 240 244 b then 4
      else 0)"

text \<open>Whether the head is a character, and how many bytes the step consumes.\<close>

fun utf8_head :: "string \<Rightarrow> bool \<times> nat" where
  "utf8_head [] = (False, 0)"
| "utf8_head (b # s) =
     (if char_width b = 1 then (True, 1)
      else if char_width b = 0 then (False, 1)
      else case s of [] \<Rightarrow> (False, 1)
        | c2 # s2 \<Rightarrow>
            if \<not> second_ok b c2 then (False, 1)
            else if char_width b = 2 then (True, 2)
            else (case s2 of [] \<Rightarrow> (False, 2)
              | c3 # s3 \<Rightarrow>
                  if \<not> is_cont c3 then (False, 2)
                  else if char_width b = 3 then (True, 3)
                  else (case s3 of [] \<Rightarrow> (False, 3)
                    | c4 # s4 \<Rightarrow> if is_cont c4 then (True, 4) else (False, 3))))"

lemma utf8_head_pos: "s \<noteq> [] \<Longrightarrow> 0 < snd (utf8_head s)"
  by (cases s) (auto split: list.splits)

lemma utf8_head_shorter: "s \<noteq> [] \<Longrightarrow> (ok, n) = utf8_head s \<Longrightarrow> length s - n < length s"
  using utf8_head_pos [of s] by (cases "utf8_head s") auto

definition replacement :: string where
  "replacement = [CHR 0xEF, CHR 0xBF, CHR 0xBD]"

lemma length_replacement [simp]: "length replacement = 3"
  by (simp add: replacement_def)

function from_utf8_lossy :: "string \<Rightarrow> string" where
  "from_utf8_lossy s =
     (if s = [] then []
      else (case utf8_head s of
              (ok, n) \<Rightarrow> (if ok then take n s else replacement) @ from_utf8_lossy (drop n s)))"
  by pat_completeness auto
termination
  by (relation "measure length") (auto simp: utf8_head_shorter)

declare from_utf8_lossy.simps [simp del]

lemma from_utf8_lossy_Nil [simp]: "from_utf8_lossy [] = []"
  by (simp add: from_utf8_lossy.simps)

function utf8_valid :: "string \<Rightarrow> bool" where
  "utf8_valid s =
     (if s = [] then True
      else (case utf8_head s of (ok, n) \<Rightarrow> ok \<and> utf8_valid (drop n s)))"
  by pat_completeness auto
termination
  by (relation "measure length") (auto simp: utf8_head_shorter)

declare utf8_valid.simps [simp del]

lemma utf8_valid_Nil [simp]: "utf8_valid []"
  by (simp add: utf8_valid.simps)

text \<open>A well-formed head does not depend on what follows.\<close>

lemma utf8_head_append:
  "utf8_head s = (True, n) \<Longrightarrow> utf8_head (s @ t) = (True, n) \<and> n \<le> length s"
  by (cases s) (auto split: list.splits if_splits)

lemma lossy_append:
  "utf8_valid s \<Longrightarrow> from_utf8_lossy (s @ t) = s @ from_utf8_lossy t"
proof (induction s rule: utf8_valid.induct)
  case (1 s)
  show ?case
  proof (cases "s = []")
    case False
    then obtain n where n: "utf8_head s = (True, n)" "utf8_valid (drop n s)"
      using "1.prems" by (cases "utf8_head s") (simp add: utf8_valid.simps [of s])
    from utf8_head_append [OF n(1), of t] have h: "utf8_head (s @ t) = (True, n)" "n \<le> length s" by auto
    have "from_utf8_lossy (s @ t) = take n s @ from_utf8_lossy (drop n s @ t)"
      using False h by (simp add: from_utf8_lossy.simps [of "s @ t"])
    also have "\<dots> = take n s @ drop n s @ from_utf8_lossy t"
      using "1.IH" False n by simp
    finally show ?thesis by simp
  qed simp
qed

lemma lossy_valid [simp]: "utf8_valid s \<Longrightarrow> from_utf8_lossy s = s"
  using lossy_append [of s "[]"] by simp

lemma lossy_chunks_valid:
  "list_all utf8_valid cs \<Longrightarrow> concat (map from_utf8_lossy cs) = from_utf8_lossy (concat cs)"
  by (induction cs) (simp_all add: lossy_append)

text \<open>ASCII text is well-formed however it is cut.\<close>

lemma ascii_valid: "list_all (\<lambda>c. byte c < 128) s \<Longrightarrow> utf8_valid s"
proof (induction s)
  case (Cons c s)
  then show ?case by (simp add: utf8_valid.simps [of "c # s"] char_width_def)
qed simp

text \<open>
  One well-formed character of two or more bytes, cut inside: the part before the cut is one
  ill-formed prefix and every byte after it another.
\<close>

definition utf8_char :: "string \<Rightarrow> bool" where
  "utf8_char c \<longleftrightarrow> utf8_head c = (True, length c)"

lemma cont_head: "is_cont c \<Longrightarrow> utf8_head (c # s) = (False, 1)"
  by (simp add: char_width_def in_range_def)

lemma lossy_cont:
  "list_all is_cont cs \<Longrightarrow> from_utf8_lossy (cs @ t) = concat (map (\<lambda>_. replacement) cs) @ from_utf8_lossy t"
  by (induction cs) (simp_all add: from_utf8_lossy.simps [of "_ # _"] cont_head del: utf8_head.simps)

lemma second_is_cont: "second_ok b c \<Longrightarrow> is_cont c"
  by (auto simp: second_ok_def in_range_def split: if_splits)

lemma utf8_char_cut:
  assumes "utf8_char c" and "0 < k" and "k < length c"
  shows "utf8_head (take k c) = (False, k)" and "list_all is_cont (drop k c)" and "length c \<le> 4"
proof -
  obtain b s where c: "c = b # s" using assms by (cases c) (auto simp: utf8_char_def)
  from assms obtain c2 s2 where s: "s = c2 # s2" by (cases s) (auto simp: c)
  show four: "length c \<le> 4"
    using assms by (auto simp: utf8_char_def c s split: if_splits list.splits)
  with assms consider "k = 1" | "k = 2" | "k = 3" by linarith
  then have "utf8_head (take k c) = (False, k) \<and> list_all is_cont (drop k c)"
    by cases (use assms in \<open>auto simp: utf8_char_def c s second_is_cont numeral_2_eq_2
      numeral_3_eq_3 split: if_splits list.splits\<close>)
  then show "utf8_head (take k c) = (False, k)" "list_all is_cont (drop k c)" by auto
qed

lemma lossy_cut:
  assumes "utf8_valid a" and "utf8_char c" and "0 < k" and "k < length c"
  shows "from_utf8_lossy (a @ take k c) @ from_utf8_lossy (drop k c @ t) =
    a @ replacement @ concat (map (\<lambda>_. replacement) (drop k c)) @ from_utf8_lossy t"
proof -
  note cut = utf8_char_cut [OF assms(2-4)]
  have "take k c \<noteq> []" using assms by auto
  then have "from_utf8_lossy (take k c) = replacement"
    using cut(1) by (simp add: from_utf8_lossy.simps [of "take k c"])
  then show ?thesis by (simp add: lossy_append assms(1) lossy_cont [OF cut(2)])
qed

lemma lossy_cut_longer:
  assumes "utf8_char c" and "0 < k" and "k < length c"
  shows "length (a @ c @ b) <
    length (a @ replacement @ concat (map (\<lambda>_. replacement) (drop k c)) @ b)"
proof -
  have "length (concat (map (\<lambda>_. replacement) (drop k c))) = 3 * (length c - k)"
    by (simp add: length_concat o_def sum_list_triv)
  then show ?thesis using utf8_char_cut(3) [OF assms] assms(2,3) by simp
qed

subsection \<open>White space\<close>

text \<open>The encodings of the characters with the Unicode property \<open>White_Space\<close>.\<close>

definition white_space :: "string list" where
  "white_space =
     [[CHR 0x09], [CHR 0x0A], [CHR 0x0B], [CHR 0x0C], [CHR 0x0D], [CHR 0x20],
      [CHR 0xC2, CHR 0x85], [CHR 0xC2, CHR 0xA0], [CHR 0xE1, CHR 0x9A, CHR 0x80],
      [CHR 0xE2, CHR 0x80, CHR 0x80], [CHR 0xE2, CHR 0x80, CHR 0x81],
      [CHR 0xE2, CHR 0x80, CHR 0x82], [CHR 0xE2, CHR 0x80, CHR 0x83],
      [CHR 0xE2, CHR 0x80, CHR 0x84], [CHR 0xE2, CHR 0x80, CHR 0x85],
      [CHR 0xE2, CHR 0x80, CHR 0x86], [CHR 0xE2, CHR 0x80, CHR 0x87],
      [CHR 0xE2, CHR 0x80, CHR 0x88], [CHR 0xE2, CHR 0x80, CHR 0x89],
      [CHR 0xE2, CHR 0x80, CHR 0x8A], [CHR 0xE2, CHR 0x80, CHR 0xA8],
      [CHR 0xE2, CHR 0x80, CHR 0xA9], [CHR 0xE2, CHR 0x80, CHR 0xAF],
      [CHR 0xE2, CHR 0x81, CHR 0x9F], [CHR 0xE3, CHR 0x80, CHR 0x80]]"

function trim_with :: "string list \<Rightarrow> string \<Rightarrow> string" where
  "trim_with ws s =
     (case find (\<lambda>w. w \<noteq> [] \<and> starts_with s w) ws of
        None \<Rightarrow> s
      | Some w \<Rightarrow> trim_with ws (drop (length w) s))"
  by pat_completeness auto
termination
proof (relation "measure (length \<circ> snd)")
  fix ws :: "string list" and s w
  assume "find (\<lambda>w. w \<noteq> [] \<and> starts_with s w) ws = Some w"
  then have "w \<noteq> []" "starts_with s w" by (auto simp: find_Some_iff)
  then show "((ws, drop (length w) s), ws, s) \<in> measure (length \<circ> snd)"
    by (auto simp: starts_with_iff)
qed simp

declare trim_with.simps [simp del]

definition trim_start :: "string \<Rightarrow> string" where
  "trim_start s = trim_with white_space s"

definition trim_end :: "string \<Rightarrow> string" where
  "trim_end s = rev (trim_with (map rev white_space) (rev s))"

definition trim :: "string \<Rightarrow> string" where
  "trim s = trim_end (trim_start s)"

definition trim_end_matches :: "char \<Rightarrow> string \<Rightarrow> string" where
  "trim_end_matches c s = rev (dropWhile (\<lambda>x. x = c) (rev s))"

end
