(* ===== verification/Sse_Lines.thy ===== *)
theory Sse_Lines
  imports Utf8
begin

section \<open>Server-sent events: lines\<close>

text \<open>
  Models \<^verbatim>\<open>catcher-http/src/sse/router.rs\<close> and the framing of a byte stream into lines that
  \<^verbatim>\<open>sse/stream.rs\<close> and \<^verbatim>\<open>sse/client.rs\<close> share: each chunk is decoded on its own and appended to
  a text buffer, complete lines are cut off at its front and handled one by one.  What handles a
  line is an argument; \<open>line_handler\<close> is the interface of a consumer of chunks.
\<close>

datatype route_action = Yield string | Silent | SetLastEventId string | SetRetry u64

definition route_line :: "string \<Rightarrow> route_action" where
  "route_line line =
     (if line = [] then Silent
      else if starts_with line '':'' then Silent
      else case strip_prefix line ''id:'' of
             Some i \<Rightarrow> SetLastEventId (trim_start i)
           | None \<Rightarrow>
               (case (case strip_prefix line ''retry:'' of
                        Some r \<Rightarrow> parse_u64 (trim r) | None \<Rightarrow> None) of
                  Some ms \<Rightarrow> SetRetry ms
                | None \<Rightarrow> Yield line))"

abbreviation newline :: char where "newline \<equiv> CHR 0x0A"
abbreviation carriage_return :: char where "carriage_return \<equiv> CHR 0x0D"

subsection \<open>Cutting lines\<close>

text \<open>
  The loop \<open>while let Some(pos) = buffer.find('\n')\<close>.  The handler returns whether to go on.
\<close>

function drain_lines :: "(string \<Rightarrow> 's \<Rightarrow> 's \<times> bool) \<Rightarrow> string \<Rightarrow> 's \<Rightarrow> string \<times> 's \<times> bool" where
  "drain_lines handle buffer s =
     (case split_once [newline] buffer of
        None \<Rightarrow> (buffer, s, True)
      | Some (line, rest) \<Rightarrow>
          (case handle (trim_end_matches carriage_return line) s of
             (s', go) \<Rightarrow> if go then drain_lines handle rest s' else (rest, s', False)))"
  by pat_completeness auto
termination
  by (relation "measure (\<lambda>(h, b, s). length b)") (auto dest: split_once_join)

declare drain_lines.simps [simp del]

text \<open>Reading a list of chunks.\<close>

fun feed_chunks ::
  "(string \<Rightarrow> 's \<Rightarrow> 's \<times> bool) \<Rightarrow> string list \<Rightarrow> string \<Rightarrow> 's \<Rightarrow> string \<times> 's \<times> bool" where
  "feed_chunks handle [] buffer s = (buffer, s, True)"
| "feed_chunks handle (c # cs) buffer s =
     (case drain_lines handle (buffer @ from_utf8_lossy c) s of
        (buffer', s', go) \<Rightarrow> if go then feed_chunks handle cs buffer' s' else (buffer', s', False))"

text \<open>The specification: the complete lines of a text and the unfinished rest.\<close>

fun lines_rest :: "string \<Rightarrow> string list \<times> string" where
  "lines_rest [] = ([], [])"
| "lines_rest (c # s) =
     (case lines_rest s of (ls, r) \<Rightarrow>
        if c = newline then ([] # ls, r)
        else (case ls of [] \<Rightarrow> ([], c # r) | l # ls' \<Rightarrow> ((c # l) # ls', r)))"

lemma lines_rest_no_newline: "newline \<notin> set s \<Longrightarrow> lines_rest s = ([], s)"
  by (induction s) auto

lemma lines_rest_line: "newline \<notin> set l \<Longrightarrow>
  lines_rest (l @ newline # s) = (case lines_rest s of (ls, r) \<Rightarrow> (l # ls, r))"
  by (induction l) (auto split: prod.splits)

lemma lines_rest_append:
  "lines_rest (a @ b) =
     (case lines_rest a of (ls, r) \<Rightarrow> (case lines_rest (r @ b) of (ls', r') \<Rightarrow> (ls @ ls', r')))"
  by (induction a) (auto split: prod.splits list.splits)

lemma lines_rest_snd: "lines_rest s = (ls, r) \<Longrightarrow> newline \<notin> set r"
  by (induction s arbitrary: ls r) (auto split: prod.splits list.splits if_splits)

lemma split_once_newline:
  "split_once [newline] s = None \<Longrightarrow> newline \<notin> set s"
  "split_once [newline] s = Some (l, r) \<Longrightarrow> newline \<notin> set l"
  by (induction s arbitrary: l) (auto split: if_splits option.splits)

fun run_lines :: "(string \<Rightarrow> 's \<Rightarrow> 's \<times> bool) \<Rightarrow> string list \<Rightarrow> 's \<Rightarrow> 's \<times> bool" where
  "run_lines handle [] s = (s, True)"
| "run_lines handle (l # ls) s =
     (case handle l s of (s', go) \<Rightarrow> if go then run_lines handle ls s' else (s', False))"

lemma run_lines_append:
  "run_lines handle (xs @ ys) s =
     (case run_lines handle xs s of (s', go) \<Rightarrow> if go then run_lines handle ys s' else (s', False))"
  by (induction xs arbitrary: s) (auto split: prod.splits)

abbreviation trim_cr :: "string \<Rightarrow> string" where
  "trim_cr \<equiv> trim_end_matches carriage_return"

definition text_lines :: "string \<Rightarrow> string list" where
  "text_lines t = map trim_cr (fst (lines_rest t))"

definition text_rest :: "string \<Rightarrow> string" where
  "text_rest t = snd (lines_rest t)"

lemma text_append:
  "text_lines (a @ b) = text_lines a @ text_lines (text_rest a @ b)"
  "text_rest (a @ b) = text_rest (text_rest a @ b)"
  by (auto simp: text_lines_def text_rest_def lines_rest_append [of a b] split: prod.splits)

lemma text_rest_rest: "newline \<notin> set s \<Longrightarrow> text_lines s = [] \<and> text_rest s = s"
  by (simp add: text_lines_def text_rest_def lines_rest_no_newline)

lemma newline_text_rest: "newline \<notin> set (text_rest t)"
  by (metis lines_rest_snd prod.collapse text_rest_def)

text \<open>The loop handles exactly the lines of the buffer and, unless stopped, keeps the rest.\<close>

lemma drain_lines_spec:
  "\<exists>b. drain_lines handle buffer s =
     (case run_lines handle (text_lines buffer) s of (s', go) \<Rightarrow>
        (if go then text_rest buffer else b, s', go))"
proof (induction handle buffer s rule: drain_lines.induct)
  case (1 handle buffer s)
  show ?case
  proof (cases "split_once [newline] buffer")
    case None
    then show ?thesis
      by (simp add: drain_lines.simps [of handle buffer] text_rest_rest split_once_newline(1))
  next
    case (Some lr)
    obtain l r where lr: "lr = (l, r)" by fastforce
    have buf: "buffer = l @ newline # r" using split_once_join [of "[newline]" buffer l r] Some lr by simp
    have nl: "newline \<notin> set l" using split_once_newline(2) Some lr by blast
    have "text_lines buffer = trim_cr l # text_lines r" "text_rest buffer = text_rest r"
      by (simp_all add: buf text_lines_def text_rest_def lines_rest_line [OF nl] split: prod.splits)
    note eqs = this
    obtain s' go where h: "handle (trim_cr l) s = (s', go)" by fastforce
    show ?thesis
    proof (cases go)
      case True
      from "1.IH" [OF Some lr [symmetric] h [symmetric] True] Some lr h True show ?thesis
        by (auto simp: drain_lines.simps [of handle buffer] eqs case_prod_unfold split: if_splits)
    next
      case False
      with Some lr h show ?thesis by (simp add: drain_lines.simps [of handle buffer] eqs)
    qed
  qed
qed

lemma feed_chunks_spec:
  assumes "newline \<notin> set buffer"
  shows "\<exists>b. feed_chunks handle cs buffer s =
     (case run_lines handle (text_lines (buffer @ concat (map from_utf8_lossy cs))) s of (s', go) \<Rightarrow>
        (if go then text_rest (buffer @ concat (map from_utf8_lossy cs)) else b, s', go))"
  using assms
proof (induction cs arbitrary: buffer s)
  case Nil
  then show ?case by (simp add: text_rest_rest)
next
  case (Cons c cs)
  let ?t = "buffer @ from_utf8_lossy c"
  obtain b where d: "drain_lines handle ?t s =
      (case run_lines handle (text_lines ?t) s of (s', go) \<Rightarrow> (if go then text_rest ?t else b, s', go))"
    using drain_lines_spec [of handle ?t s] by blast
  obtain s1 go1 where r: "run_lines handle (text_lines ?t) s = (s1, go1)" by fastforce
  have split: "text_lines (buffer @ concat (map from_utf8_lossy (c # cs))) =
      text_lines ?t @ text_lines (text_rest ?t @ concat (map from_utf8_lossy cs))"
    "text_rest (buffer @ concat (map from_utf8_lossy (c # cs))) =
      text_rest (text_rest ?t @ concat (map from_utf8_lossy cs))"
    using text_append [of ?t "concat (map from_utf8_lossy cs)"] by simp_all
  show ?case
  proof (cases go1)
    case True
    from Cons.IH [OF newline_text_rest, of ?t s1] show ?thesis
      using d r True by (simp only: feed_chunks.simps split run_lines_append) simp
  next
    case False
    with d r show ?thesis by (simp only: feed_chunks.simps split run_lines_append) simp
  qed
qed

subsection \<open>The interface of a line handler\<close>

text \<open>
  A consumer reads chunks, then handles what is left in the buffer as a last line, in its own way,
  when the stream ended and it was not stopped.
\<close>

definition finish :: "(string \<Rightarrow> 's \<Rightarrow> 's) \<Rightarrow> string \<times> 's \<times> bool \<Rightarrow> 's" where
  "finish last_line r =
     (case r of (buffer, s, go) \<Rightarrow>
        if go \<and> buffer \<noteq> [] then last_line (trim_cr buffer) s else s)"

text \<open>All lines of a text, the last one ended by the end of the text.\<close>

definition all_lines :: "string \<Rightarrow> string list" where
  "all_lines t = text_lines t @ (if text_rest t = [] then [] else [trim_cr (text_rest t)])"

text \<open>The reading loop as a function of the text alone.\<close>

definition run_text ::
  "(string \<Rightarrow> 's \<Rightarrow> 's \<times> bool) \<Rightarrow> (string \<Rightarrow> 's \<Rightarrow> 's) \<Rightarrow> string \<Rightarrow> 's \<Rightarrow> 's" where
  "run_text handle last_line t s =
     (case run_lines handle (text_lines t) s of (s', go) \<Rightarrow>
        if go \<and> text_rest t \<noteq> [] then last_line (trim_cr (text_rest t)) s' else s')"

locale line_handler =
  fixes handle :: "string \<Rightarrow> 's \<Rightarrow> 's \<times> bool" and last_line :: "string \<Rightarrow> 's \<Rightarrow> 's"
    and read :: "string list \<Rightarrow> 's \<Rightarrow> 's"
  assumes read_def: "read cs s = finish last_line (feed_chunks handle cs [] s)"
begin

lemma read_text: "read cs s = run_text handle last_line (concat (map from_utf8_lossy cs)) s"
proof -
  obtain b where f: "feed_chunks handle cs [] s =
     (case run_lines handle (text_lines (concat (map from_utf8_lossy cs))) s of (s', go) \<Rightarrow>
        (if go then text_rest (concat (map from_utf8_lossy cs)) else b, s', go))"
    using feed_chunks_spec [of "[]" handle cs s, unfolded append_Nil] by auto
  show ?thesis by (auto simp: read_def f finish_def run_text_def split: prod.splits)
qed

lemma read_chunking:
  assumes "list_all utf8_valid cs" and "list_all utf8_valid ds" and "concat cs = concat ds"
  shows "read cs s = read ds s"
  using assms by (simp add: read_text lossy_chunks_valid)

text \<open>A handler that never stops and treats the last line like the others handles all lines.\<close>

lemma read_all:
  assumes "\<And>l s. handle l s = (last_line l s, True)"
  shows "read cs s = fold last_line (all_lines (concat (map from_utf8_lossy cs))) s"
proof -
  have "run_lines handle ls s = (fold last_line ls s, True)" for ls s
    by (induction ls arbitrary: s) (simp_all add: assms)
  then show ?thesis by (simp add: read_text run_text_def all_lines_def)
qed

end

end
