(* ===== verification/Sse_Stream.thy ===== *)
theory Sse_Stream
  imports Sse_Lines Core_Types
begin

section \<open>The one-shot event stream\<close>

text \<open>
  Models \<^verbatim>\<open>catcher-http/src/sse/stream.rs\<close>: a stream of content lines that is polled.  What
  polling the response body gives is a list of answers, which ends when the body does.
\<close>

datatype body_poll = ReadyChunk string | ReadyError string | NotReady

record sse_stream =
  st_source :: "body_poll list"
  st_buffer :: string
  st_pending :: "string list"
  st_last_event_id :: string
  st_reconnect_delay :: "u64 option"
  st_done :: bool

text \<open>What sending the request gives.\<close>

datatype send_error = TimedOutSend | ConnectFailed | OtherSend string

datatype sse_response = SendFailed send_error | SseResponse u16 "body_poll list"

definition sse_send_error :: "u64 \<Rightarrow> send_error \<Rightarrow> catcher_error" where
  "sse_send_error ms e =
     (case e of
        TimedOutSend \<Rightarrow> SseTimeout ms
      | ConnectFailed \<Rightarrow> ConnectionTimeout ms
      | OtherSend m \<Rightarrow> Internal (''SSE connect: '' @ m))"

record sse_request =
  rq_post :: bool
  rq_url :: string
  rq_headers :: header_map
  rq_body :: "string option"
  rq_timeout_ms :: u64

text \<open>
  The headers are added in this order; \<open>Last-Event-ID\<close> only by the client with reconnection.  A value
  that is not legal in a header (an identifier with a control character, say) is still put into the request
  here: reqwest keeps the error of the builder and returns it from \<open>send\<close>, so that case is a
  \<open>SendFailed (OtherSend m)\<close> of the response argument of the operations below.
\<close>

definition sse_request :: "sse_client_config \<Rightarrow> string \<Rightarrow> sse_request" where
  "sse_request cfg event_id =
     \<lparr>rq_post = (sse_method cfg = SsePost), rq_url = sse_url cfg,
      rq_headers = sse_headers cfg @
        (if event_id \<noteq> [] then [(''Last-Event-ID'', event_id)] else []) @
        (if sse_body cfg \<noteq> None \<and> map_of (sse_headers cfg) ''Content-Type'' = None
         then [(''Content-Type'', ''application/json'')] else []),
      rq_body = sse_body cfg, rq_timeout_ms = sse_timeout_ms cfg\<rparr>"

definition stream_connect :: "sse_client_config \<Rightarrow> sse_response \<Rightarrow> catcher_error + sse_stream" where
  "stream_connect cfg r =
     (case r of
        SendFailed e \<Rightarrow> Err (sse_send_error (sse_timeout_ms cfg) e)
      | SseResponse st src \<Rightarrow>
          if st \<noteq> 200 then Err (HttpError st [])
          else Ok \<lparr>st_source = src, st_buffer = [], st_pending = [], st_last_event_id = [],
                   st_reconnect_delay = None, st_done = False\<rparr>)"

definition stream_line :: "string \<Rightarrow> sse_stream \<Rightarrow> sse_stream" where
  "stream_line line s =
     (case route_line line of
        Yield l \<Rightarrow> s\<lparr>st_pending := st_pending s @ [l]\<rparr>
      | SetLastEventId i \<Rightarrow> s\<lparr>st_last_event_id := i\<rparr>
      | SetRetry ms \<Rightarrow> s\<lparr>st_reconnect_delay := Some ms\<rparr>
      | Silent \<Rightarrow> s)"

definition process_buffer :: "sse_stream \<Rightarrow> sse_stream" where
  "process_buffer s =
     (case drain_lines (\<lambda>l s. (stream_line l s, True)) (st_buffer s) s of
        (buffer, s', _) \<Rightarrow> s'\<lparr>st_buffer := buffer\<rparr>)"

lemma stream_line_fields [simp]:
  "st_source (stream_line l s) = st_source s"
  "st_buffer (stream_line l s) = st_buffer s"
  "st_done (stream_line l s) = st_done s"
  by (simp_all add: stream_line_def split: route_action.splits)

lemma run_stream_lines: "run_lines (\<lambda>l s. (stream_line l s, True)) ls s = (fold stream_line ls s, True)"
  by (induction ls arbitrary: s) auto

lemma process_buffer_fold:
  "process_buffer s = (fold stream_line (text_lines (st_buffer s)) s)\<lparr>st_buffer := text_rest (st_buffer s)\<rparr>"
  using drain_lines_spec [of "\<lambda>l s. (stream_line l s, True)" "st_buffer s" s]
  by (auto simp: process_buffer_def run_stream_lines)

lemma fold_stream_fields [simp]:
  "st_source (fold stream_line ls s) = st_source s"
  "st_done (fold stream_line ls s) = st_done s"
  by (induction ls arbitrary: s) auto

datatype poll_result = Item "catcher_error + string" | EndOfStream | PendingPoll

text \<open>
  The content lines that are pending are returned first.  The source's loop goes round again after
  new lines became pending, to pop the first of them; here it is popped at once.
\<close>

function poll_next :: "sse_stream \<Rightarrow> poll_result \<times> sse_stream" where
  "poll_next s =
     (case st_pending s of
        l # ls \<Rightarrow> (Item (Ok l), s\<lparr>st_pending := ls\<rparr>)
      | [] \<Rightarrow>
          if st_done s then (EndOfStream, s)
          else
            let s1 = process_buffer s in
            (case st_pending s1 of
               l # ls \<Rightarrow> (Item (Ok l), s1\<lparr>st_pending := ls\<rparr>)
             | [] \<Rightarrow>
                 (case st_source s1 of
                    ReadyChunk b # src \<Rightarrow>
                      poll_next (s1\<lparr>st_source := src, st_buffer := st_buffer s1 @ from_utf8_lossy b\<rparr>)
                  | ReadyError m # src \<Rightarrow>
                      (Item (Err (Internal (''SSE read error: '' @ m))), s1\<lparr>st_source := src\<rparr>)
                  | NotReady # src \<Rightarrow> (PendingPoll, s1\<lparr>st_source := src\<rparr>)
                  | [] \<Rightarrow>
                      let s2 = s1\<lparr>st_done := True\<rparr>
                      in if st_buffer s2 \<noteq> []
                         then
                           let s3 = stream_line (trim_cr (st_buffer s2)) (s2\<lparr>st_buffer := []\<rparr>)
                           in (case st_pending s3 of
                                 l # ls \<Rightarrow> (Item (Ok l), s3\<lparr>st_pending := ls\<rparr>)
                               | [] \<Rightarrow> (EndOfStream, s3))
                         else (EndOfStream, s2))))"
  by pat_completeness auto
termination
  by (relation "measure (length \<circ> st_source)") (auto simp: process_buffer_fold)

declare poll_next.simps [simp del]

text \<open>The consumer polls until the stream ends; polls that are not ready are repeated.\<close>

fun stream_collect :: "nat \<Rightarrow> sse_stream \<Rightarrow> ((catcher_error + string) list \<times> sse_stream) option" where
  "stream_collect 0 s = None"
| "stream_collect (Suc n) s =
     (case poll_next s of
        (Item x, s') \<Rightarrow> map_option (\<lambda>(xs, t). (x # xs, t)) (stream_collect n s')
      | (PendingPoll, s') \<Rightarrow> stream_collect n s'
      | (EndOfStream, s') \<Rightarrow> Some ([], s'))"

subsection \<open>What the stream yields\<close>

fun yields :: "string list \<Rightarrow> string list" where
  "yields [] = []"
| "yields (l # ls) = (case route_line l of Yield x \<Rightarrow> x # yields ls | _ \<Rightarrow> yields ls)"

fun last_id :: "string list \<Rightarrow> string \<Rightarrow> string" where
  "last_id [] i = i"
| "last_id (l # ls) i = last_id ls (case route_line l of SetLastEventId j \<Rightarrow> j | _ \<Rightarrow> i)"

lemma yields_append [simp]: "yields (a @ b) = yields a @ yields b"
  by (induction a) (auto split: route_action.splits)

lemma last_id_append [simp]: "last_id (a @ b) i = last_id b (last_id a i)"
  by (induction a arbitrary: i) auto

lemma fold_stream_line [simp]:
  "st_pending (fold stream_line ls s) = st_pending s @ yields ls"
  "st_last_event_id (fold stream_line ls s) = last_id ls (st_last_event_id s)"
  by (induction ls arbitrary: s) (auto simp: stream_line_def split: route_action.splits)

fun source_text :: "body_poll list \<Rightarrow> string" where
  "source_text [] = []"
| "source_text (ReadyChunk b # src) = from_utf8_lossy b @ source_text src"
| "source_text (_ # src) = source_text src"

fun no_error :: "body_poll \<Rightarrow> bool" where
  "no_error (ReadyError m) = False"
| "no_error _ = True"

text \<open>What is still to come, and the event identifier at the end.\<close>

definition to_come :: "sse_stream \<Rightarrow> string list" where
  "to_come s = (if st_done s then [] else all_lines (st_buffer s @ source_text (st_source s)))"

definition final_id :: "sse_stream \<Rightarrow> string" where
  "final_id s = last_id (to_come s) (st_last_event_id s)"

lemma all_lines_append: "all_lines (a @ b) = text_lines a @ all_lines (text_rest a @ b)"
  by (simp add: all_lines_def text_append [of a b])

lemma all_lines_rest: "newline \<notin> set r \<Longrightarrow> all_lines r = (if r = [] then [] else [trim_cr r])"
  by (simp add: all_lines_def text_rest_rest)

lemma poll_next_spec:
  assumes "list_all no_error (st_source s)"
  shows "case poll_next s of
    (Item x, s') \<Rightarrow> \<exists>l. x = Ok l \<and> list_all no_error (st_source s') \<and>
        st_pending s @ yields (to_come s) = l # st_pending s' @ yields (to_come s') \<and>
        final_id s' = final_id s \<and> length (st_source s') \<le> length (st_source s)
  | (PendingPoll, s') \<Rightarrow> list_all no_error (st_source s') \<and>
        st_pending s @ yields (to_come s) = st_pending s' @ yields (to_come s') \<and>
        final_id s' = final_id s \<and> length (st_source s') < length (st_source s)
  | (EndOfStream, s') \<Rightarrow> st_pending s @ yields (to_come s) = [] \<and> st_last_event_id s' = final_id s"
  using assms
proof (induction s rule: poll_next.induct)
  case (1 s)
  let ?s1 = "process_buffer s"
  show ?case
  proof (cases "st_pending s")
    case (Cons l ls)
    then show ?thesis using "1.prems"
      by (simp add: poll_next.simps [of s] to_come_def final_id_def)
  next
    case Nil
    show ?thesis
    proof (cases "st_done s")
      case True
      with Nil show ?thesis by (simp add: poll_next.simps [of s] to_come_def final_id_def)
    next
      case False
      have come: "yields (to_come s) = st_pending ?s1 @ yields (to_come ?s1)"
        "final_id ?s1 = final_id s" "st_source ?s1 = st_source s" "\<not> st_done ?s1"
        "newline \<notin> set (st_buffer ?s1)"
        using Nil False
        by (simp_all add: process_buffer_fold to_come_def final_id_def newline_text_rest
          all_lines_append [of "st_buffer s"])
      show ?thesis
      proof (cases "st_pending ?s1")
        case (Cons l ls)
        then show ?thesis using "1.prems" Nil False come
          by (simp add: poll_next.simps [of s] to_come_def final_id_def)
      next
        case n1: Nil
        show ?thesis
        proof (cases "st_source ?s1")
          case n2: Nil
          have "to_come ?s1 = (if st_buffer ?s1 = [] then [] else [trim_cr (st_buffer ?s1)])"
            using come(4,5) n2 by (simp add: to_come_def all_lines_rest)
          then show ?thesis using Nil False come n1 n2
            by (auto simp: poll_next.simps [of s] Let_def final_id_def to_come_def stream_line_def
              split: list.splits route_action.splits)
        next
          case (Cons p src)
          then have src: "st_source s = p # src" using come(3) by simp
          show ?thesis
          proof (cases p)
            case (ReadyChunk b)
            let ?s2 = "?s1\<lparr>st_source := src, st_buffer := st_buffer ?s1 @ from_utf8_lossy b\<rparr>"
            have loop: "poll_next s = poll_next ?s2"
              using Nil False n1 Cons ReadyChunk by (simp add: poll_next.simps [of s] Let_def)
            have t: "to_come ?s2 = to_come ?s1" "final_id ?s2 = final_id ?s1"
              using come(4) Cons ReadyChunk by (simp_all add: to_come_def final_id_def)
            have len: "length (st_source s) = Suc (length src)" using src by simp
            have "list_all no_error (st_source ?s2)" using "1.prems" src by simp
            from "1.IH" [OF Nil False refl n1 Cons ReadyChunk this] show ?thesis
              unfolding loop len using t come(1,2) Nil n1
              by (auto split: prod.splits poll_result.splits)
          next
            case (ReadyError m)
            with src "1.prems" show ?thesis by simp
          next
            case NotReady
            then show ?thesis using "1.prems" Nil False come n1 src
              by (simp add: poll_next.simps [of s] Let_def to_come_def final_id_def)
          qed
        qed
      qed
    qed
  qed
qed

lemma stream_collect_spec:
  assumes "list_all no_error (st_source s)"
    and "length (st_pending s @ yields (to_come s)) + length (st_source s) < n"
  shows "\<exists>t. stream_collect n s = Some (map Ok (st_pending s @ yields (to_come s)), t) \<and>
    st_last_event_id t = final_id s"
  using assms
proof (induction n arbitrary: s)
  case (Suc n)
  obtain r s' where p: "poll_next s = (r, s')" by fastforce
  note spec = poll_next_spec [OF Suc.prems(1), unfolded p prod.case]
  show ?case
  proof (cases r)
    case (Item x)
    with spec obtain l where "x = Ok l" and s': "list_all no_error (st_source s')"
      "st_pending s @ yields (to_come s) = l # st_pending s' @ yields (to_come s')"
      "final_id s' = final_id s" "length (st_source s') \<le> length (st_source s)" by auto
    with Suc.IH [OF s'(1)] Suc.prems(2) Item p show ?thesis by fastforce
  next
    case EndOfStream
    with spec p show ?thesis by auto
  next
    case PendingPoll
    with spec have s': "list_all no_error (st_source s')"
      "st_pending s @ yields (to_come s) = st_pending s' @ yields (to_come s')"
      "final_id s' = final_id s" "length (st_source s') < length (st_source s)" by auto
    with Suc.IH [OF s'(1)] Suc.prems(2) PendingPoll p show ?thesis by fastforce
  qed
qed simp

subsection \<open>Properties\<close>

text \<open>
  C6. Consumed to its end, the stream yields exactly the content lines of the decoded body in
  order, an unfinished last line included, however the body is cut into chunks and however often a
  poll finds nothing ready; then it ends, having recorded the last \<open>id:\<close> line.
\<close>

theorem stream_yields_content:
  assumes "stream_connect cfg (SseResponse 200 src) = Ok s" and "list_all no_error src"
  shows "\<exists>n t. stream_collect n s = Some (map Ok (yields (all_lines (source_text src))), t) \<and>
    st_last_event_id t = last_id (all_lines (source_text src)) []"
proof -
  have s: "st_pending s = []" "st_source s = src" "to_come s = all_lines (source_text src)"
    "final_id s = last_id (all_lines (source_text src)) []"
    using assms(1) by (auto simp: stream_connect_def to_come_def final_id_def)
  obtain t where "stream_collect (Suc (length (yields (to_come s)) + length src)) s =
      Some (map Ok (yields (to_come s)), t)" "st_last_event_id t = final_id s"
    using stream_collect_spec [of s "Suc (length (yields (to_come s)) + length src)"] assms(2) s(1,2)
    by (auto simp del: stream_collect.simps)
  then show ?thesis unfolding s by blast
qed

theorem stream_yields_content_witness:
  "\<exists>s n t. stream_connect default_sse_client_config
      (SseResponse 200 [ReadyChunk ''id: 7'', NotReady, ReadyChunk (newline # ''data: a'')]) = Ok s \<and>
    stream_collect n s = Some ([Ok ''data: a''], t) \<and> st_last_event_id t = ''7''"
proof -
  let ?src = "[ReadyChunk ''id: 7'', NotReady, ReadyChunk (newline # ''data: a'')]"
  obtain s where s: "stream_connect default_sse_client_config (SseResponse 200 ?src) = Ok s"
    by (simp add: stream_connect_def)
  have v: "utf8_valid ''id: 7''" "utf8_valid (newline # ''data: a'')"
    by (rule ascii_valid, simp add: byte_def)+
  have l: "all_lines (source_text ?src) = [''id: 7'', ''data: a'']"
    by (simp add: v lossy_valid) (simp add: all_lines_def text_lines_def text_rest_def
      trim_end_matches_def)
  have "route_line ''id: 7'' = SetLastEventId ''7''" "route_line ''data: a'' = Yield ''data: a''"
    by (simp_all add: route_line_def strip_prefix_def trim_start_def white_space_def trim_with.simps)
  then have y: "yields [''id: 7'', ''data: a''] = [''data: a'']" "last_id [''id: 7'', ''data: a''] [] = ''7''"
    by simp_all
  obtain n t where "stream_collect n s = Some ([Ok ''data: a''], t)" "st_last_event_id t = ''7''"
    using stream_yields_content [OF s, unfolded l y] by auto
  with s show ?thesis by blast
qed

end
