(* ===== verification/Sse_Client.thy ===== *)
theory Sse_Client
  imports Sse_Stream
begin

section \<open>The event client with reconnection\<close>

text \<open>
  Models \<^verbatim>\<open>catcher-http/src/sse/client.rs\<close>: one connection attempt that reads a response into a
  channel, and the background loop that reconnects with backoff.  What the network answers, the
  nanoseconds the jitter reads and the arrival of a cancellation are arguments.  The receiver of
  the channel may be dropped at any time: \<open>cl_receiver\<close> is the number of items it still accepts.
\<close>

datatype ready_state = SseConnecting | SseOpen | SseClosed

record sse_client =
  cl_sent :: "(catcher_error + string) list"
  cl_receiver :: "nat option"
  cl_last_event_id :: string
  cl_ready_state :: ready_state
  cl_reconnect_delay :: "u64 option"

definition client_new :: "nat option \<Rightarrow> sse_client" where
  "client_new r =
     \<lparr>cl_sent = [], cl_receiver = r, cl_last_event_id = [], cl_ready_state = SseConnecting,
      cl_reconnect_delay = None\<rparr>"

definition client_send :: "catcher_error + string \<Rightarrow> sse_client \<Rightarrow> bool \<times> sse_client" where
  "client_send x c =
     (case cl_receiver c of
        None \<Rightarrow> (True, c\<lparr>cl_sent := cl_sent c @ [x]\<rparr>)
      | Some 0 \<Rightarrow> (False, c)
      | Some (Suc n) \<Rightarrow> (True, c\<lparr>cl_sent := cl_sent c @ [x], cl_receiver := Some n\<rparr>))"

definition client_line :: "string \<Rightarrow> sse_client \<Rightarrow> sse_client \<times> bool" where
  "client_line line c =
     (case route_line line of
        Yield l \<Rightarrow>
          (case client_send (Ok l) c of
             (True, c') \<Rightarrow> (c', True)
           | (False, c') \<Rightarrow> (c'\<lparr>cl_ready_state := SseClosed\<rparr>, False))
      | SetLastEventId i \<Rightarrow> (c\<lparr>cl_last_event_id := i\<rparr>, True)
      | SetRetry ms \<Rightarrow> (c\<lparr>cl_reconnect_delay := Some ms\<rparr>, True)
      | Silent \<Rightarrow> (c, True))"

text \<open>The unfinished last line: the outcome of sending is ignored.\<close>

definition client_last :: "string \<Rightarrow> sse_client \<Rightarrow> sse_client" where
  "client_last line c =
     (case route_line line of
        Yield l \<Rightarrow> snd (client_send (Ok l) c)
      | SetLastEventId i \<Rightarrow> c\<lparr>cl_last_event_id := i\<rparr>
      | SetRetry ms \<Rightarrow> c\<lparr>cl_reconnect_delay := Some ms\<rparr>
      | Silent \<Rightarrow> c)"

fun read_body :: "body_poll list \<Rightarrow> string \<Rightarrow> sse_client \<Rightarrow> (catcher_error + unit) \<times> sse_client" where
  "read_body [] buffer c =
     (Ok (), if buffer \<noteq> [] then client_last (trim_cr buffer) c else c)"
| "read_body (NotReady # src) buffer c = read_body src buffer c"
| "read_body (ReadyError m # src) buffer c = (Err (Internal (''SSE read: '' @ m)), c)"
| "read_body (ReadyChunk b # src) buffer c =
     (case drain_lines client_line (buffer @ from_utf8_lossy b) c of
        (buffer', c', go) \<Rightarrow> if go then read_body src buffer' c' else (Ok (), c'))"

definition connect_once ::
  "sse_client_config \<Rightarrow> sse_response \<Rightarrow> sse_client \<Rightarrow> (catcher_error + unit) \<times> sse_client" where
  "connect_once cfg r c =
     (case r of
        SendFailed e \<Rightarrow> (Err (sse_send_error (sse_timeout_ms cfg) e), c)
      | SseResponse st body \<Rightarrow>
          if st = 204 then (Ok (), c\<lparr>cl_ready_state := SseClosed\<rparr>)
          else if st \<noteq> 200 then (Err (HttpError st []), c)
          else read_body body [] (c\<lparr>cl_ready_state := SseOpen\<rparr>))"

interpretation sse_body: line_handler client_line client_last
  "\<lambda>cs c. snd (read_body (map ReadyChunk cs) [] c)"
proof
  fix cs :: "string list" and c :: sse_client
  have "snd (read_body (map ReadyChunk cs) buffer c) =
      finish client_last (feed_chunks client_line cs buffer c)" for buffer
    by (induction cs arbitrary: buffer c) (auto simp: finish_def split: prod.splits)
  then show "snd (read_body (map ReadyChunk cs) [] c) =
      finish client_last (feed_chunks client_line cs [] c)" .
qed

subsection \<open>The reconnection loop\<close>

text \<open>\<open>rand_jitter\<close> on the nanoseconds of the clock.\<close>

definition rand_jitter :: "nat \<Rightarrow> f64" where
  "rand_jitter ns = f64_div (f64_of_nat ns) (f64_of_nat (2 ^ 32 - 1))"

definition jittered :: "nat \<Rightarrow> f64 \<Rightarrow> u64" where
  "jittered ns base =
     (let jitter = f64_mul (f64_mul base (Fin (1/4)))
            (f64_sub (f64_mul (rand_jitter ns) (Fin 2)) (Fin 1))
      in f64_to_u64 (f64_max (f64_add base jitter) (Fin 0)))"

definition sse_delay :: "sse_client_config \<Rightarrow> nat \<Rightarrow> u32 \<Rightarrow> u64 option \<Rightarrow> u64" where
  "sse_delay cfg ns attempt rd =
     (let rc = (case sse_reconnect cfg of Some r \<Rightarrow> r | None \<Rightarrow> default_sse_reconnect_config)
      in (case rd of
            Some ms \<Rightarrow> jittered ns (f64_of_u64 ms)
          | None \<Rightarrow>
              let base = f64_mul (f64_of_u64 (sse_initial_delay_ms rc))
                    (f64_powi (sse_backoff_multiplier rc) (sint (attempt - 1)));
                  capped = f64_min base (f64_of_u64 (sse_max_delay_ms rc))
              in jittered ns capped))"

definition sse_retry_budget :: "sse_client_config \<Rightarrow> u32" where
  "sse_retry_budget cfg =
     (case sse_reconnect cfg of Some r \<Rightarrow> sse_max_retries r | None \<Rightarrow> 10)"

text \<open>What one round of the loop meets.\<close>

record sse_round =
  cancel_before :: bool
  response :: sse_response
  cancel_after :: bool
  jitter_ns :: nat
  cancel_asleep :: bool

text \<open>
  The loop over the rounds its environment offers.  The result holds the requests made, the state
  and whether the loop has ended (\<open>False\<close>: it would go on with a further round).
\<close>

fun sse_loop ::
  "sse_client_config \<Rightarrow> sse_round list \<Rightarrow> u32 \<Rightarrow> sse_client \<Rightarrow> sse_request list \<times> sse_client \<times> bool"
where
  "sse_loop cfg [] attempt c = ([], c, False)"
| "sse_loop cfg (r # rs) attempt c =
     (if cancel_before r then ([], c\<lparr>cl_ready_state := SseClosed\<rparr>, True)
      else
        let c0 = c\<lparr>cl_ready_state := SseConnecting\<rparr>;
            req = sse_request cfg (cl_last_event_id c0)
        in (case connect_once cfg (response r) c0 of
              (result, c1) \<Rightarrow>
                if is_ok result \<and> cancel_after r
                then ([req], c1\<lparr>cl_ready_state := SseClosed\<rparr>, True)
                else
                  let c2 = (case result of Inl e \<Rightarrow> snd (client_send (Err e) c1) | Inr _ \<Rightarrow> c1);
                      attempt' = attempt + 1
                  in if sse_retry_budget cfg < attempt' \<or> cancel_asleep r
                     then ([req], c2\<lparr>cl_ready_state := SseClosed\<rparr>, True)
                     else (case sse_loop cfg rs attempt' c2 of
                             (reqs, c3, ended) \<Rightarrow> (req # reqs, c3, ended))))"

text \<open>The delays of the loop are those of \<open>sse_delay\<close> at the attempts it counts.\<close>

definition never_cancelled :: "sse_round \<Rightarrow> bool" where
  "never_cancelled r \<longleftrightarrow> \<not> cancel_before r \<and> \<not> cancel_after r \<and> \<not> cancel_asleep r"

lemma sse_loop_budget:
  assumes "unat (sse_retry_budget cfg) = unat attempt + d" and "unat (sse_retry_budget cfg) < 2 ^ 32 - 1"
  shows "length (fst (sse_loop cfg rs attempt c)) \<le> Suc d \<and>
    (d < length rs \<longrightarrow> snd (snd (sse_loop cfg rs attempt c))) \<and>
    (list_all never_cancelled rs \<longrightarrow>
       length (fst (sse_loop cfg rs attempt c)) = min (length rs) (Suc d) \<and>
       (snd (snd (sse_loop cfg rs attempt c)) \<longleftrightarrow> d < length rs))"
  using assms(1)
proof (induction rs arbitrary: attempt c d)
  case (Cons r rs)
  obtain result c1 where k: "connect_once cfg (response r) (c\<lparr>cl_ready_state := SseConnecting\<rparr>) = (result, c1)"
    by fastforce
  have a1: "unat (attempt + 1) = Suc (unat attempt)"
    using Cons.prems assms(2) by (intro unat_plus_one) simp
  have guard: "sse_retry_budget cfg < attempt + 1 \<longleftrightarrow> d = 0"
    using Cons.prems by (auto simp: word_less_nat_alt a1)
  show ?case
  proof (cases d)
    case 0
    with guard k show ?thesis by (auto simp: never_cancelled_def Let_def)
  next
    case (Suc d')
    with Cons.prems have "unat (sse_retry_budget cfg) = unat (attempt + 1) + d'" by (simp add: a1)
    note IH = Cons.IH [OF this, of "case result of Inl e \<Rightarrow> snd (client_send (Err e) c1) | Inr _ \<Rightarrow> c1"]
    obtain reqs c3 ended where l: "sse_loop cfg rs (attempt + 1)
        (case result of Inl e \<Rightarrow> snd (client_send (Err e) c1) | Inr _ \<Rightarrow> c1) = (reqs, c3, ended)"
      using prod_cases3 by blast
    from IH guard k l Suc show ?thesis by (auto simp: never_cancelled_def Let_def)
  qed
qed simp

subsection \<open>Properties\<close>

text \<open>
  The retry budget is for the life of the client: whatever the responses (successful streams
  and 204 included), the loop makes at most \<open>max_retries + 1\<close> requests, ends after that many
  rounds, and when it is not cancelled makes exactly that many.
\<close>

theorem sse_lifetime_budget:
  assumes "unat (sse_retry_budget cfg) < 2 ^ 32 - 1"
  defines "n \<equiv> Suc (unat (sse_retry_budget cfg))"
  shows "length (fst (sse_loop cfg rs 0 c)) \<le> n \<and>
    (n \<le> length rs \<longrightarrow> snd (snd (sse_loop cfg rs 0 c))) \<and>
    (list_all never_cancelled rs \<longrightarrow> length (fst (sse_loop cfg rs 0 c)) = min (length rs) n)"
  using sse_loop_budget [of cfg 0 "unat (sse_retry_budget cfg)" rs c] assms by (simp add: Suc_le_eq)

text \<open>With a budget of one reconnection a 204 is followed by another request, and then the end.\<close>

theorem sse_lifetime_budget_witness:
  "length (fst (sse_loop (default_sse_client_config\<lparr>sse_reconnect :=
        Some (default_sse_reconnect_config\<lparr>sse_max_retries := 1\<rparr>)\<rparr>)
      (replicate 3 \<lparr>cancel_before = False, response = SseResponse 204 [], cancel_after = False,
        jitter_ns = 0, cancel_asleep = False\<rparr>) 0 (client_new None))) = 2"
proof -
  define cfg where "cfg = default_sse_client_config\<lparr>sse_reconnect :=
      Some (default_sse_reconnect_config\<lparr>sse_max_retries := 1\<rparr>)\<rparr>"
  define rs where "rs = replicate 3 \<lparr>cancel_before = False, response = SseResponse 204 [],
      cancel_after = False, jitter_ns = 0, cancel_asleep = False\<rparr>"
  have b: "unat (sse_retry_budget cfg) = 1" by (simp add: sse_retry_budget_def cfg_def)
  have "list_all never_cancelled rs" "length rs = 3"
    by (simp_all add: rs_def never_cancelled_def list_all_iff)
  with sse_lifetime_budget [of cfg rs "client_new None"] b
  have "length (fst (sse_loop cfg rs 0 (client_new None))) = 2" by simp
  then show ?thesis unfolding cfg_def rs_def .
qed

text \<open>
  How a response body is cut into chunks does not matter as long as every chunk is well-formed
  UTF-8 on its own: two such cuts of the same bytes leave the client in the same state, with the
  same lines delivered.
\<close>

theorem sse_chunking_irrelevant:
  assumes "list_all utf8_valid cs" and "list_all utf8_valid ds" and "concat cs = concat ds"
  shows "snd (connect_once cfg (SseResponse 200 (map ReadyChunk cs)) c) =
    snd (connect_once cfg (SseResponse 200 (map ReadyChunk ds)) c)"
  using sse_body.read_chunking [OF assms] by (simp add: connect_once_def)

theorem sse_chunking_irrelevant_witness:
  "snd (connect_once default_sse_client_config
     (SseResponse 200 (map ReadyChunk [''data: a'', [newline]])) (client_new None)) =
   snd (connect_once default_sse_client_config
     (SseResponse 200 (map ReadyChunk [''da'', ''ta: a'' @ [newline]])) (client_new None))"
proof (rule sse_chunking_irrelevant)
  show "list_all utf8_valid [''data: a'', [newline]]" "list_all utf8_valid [''da'', ''ta: a'' @ [newline]]"
    by (simp_all, (intro conjI; rule ascii_valid; simp add: byte_def)+)
qed simp

text \<open>A data line cut at any place inside a multi-byte character.\<close>

lemma data_line: "route_line (''data:'' @ x) = Yield (''data:'' @ x)"
  by (simp add: route_line_def strip_prefix_def)

lemma trim_cr_id: "carriage_return \<notin> set l \<Longrightarrow> trim_cr l = l"
  by (cases l rule: rev_cases) (auto simp: trim_end_matches_def)

lemma one_data_line:
  assumes "newline \<notin> set l" and "carriage_return \<notin> set l" and "l = ''data:'' @ x"
    and "cl_receiver c = None"
  shows "cl_sent (run_text client_line client_last (l @ [newline]) c) = cl_sent c @ [Ok l]"
proof -
  have "text_lines (l @ [newline]) = [l]" "text_rest (l @ [newline]) = []"
    using lines_rest_line [OF assms(1), of "[]"] assms(2)
    by (simp_all add: text_lines_def text_rest_def trim_cr_id)
  moreover have "route_line l = Yield l" unfolding assms(3) by (rule data_line)
  ultimately show ?thesis using assms(4)
    by (simp add: run_text_def client_line_def client_send_def)
qed

text \<open>
  Each chunk is decoded on its own, so a character of two or more bytes that two chunks share is
  destroyed: cut anywhere inside such a character, a well-formed data line is delivered as another,
  longer line, while the same line in one chunk is delivered unchanged.
\<close>

theorem split_character_corrupts:
  assumes "utf8_valid a" and "utf8_char m" and "0 < k" and "k < length m" and "utf8_valid b"
    and "a = ''data:'' @ x" and "newline \<notin> set (a @ m @ b)" and "carriage_return \<notin> set (a @ m @ b)"
    and "cl_receiver c = None" and "utf8_valid (a @ m @ b)"
  shows "\<exists>l. l \<noteq> a @ m @ b \<and>
    cl_sent (snd (connect_once cfg (SseResponse 200
      (map ReadyChunk [a @ take k m, drop k m @ b @ [newline]])) c)) = cl_sent c @ [Ok l] \<and>
    cl_sent (snd (connect_once cfg (SseResponse 200
      (map ReadyChunk [a @ m @ b @ [newline]])) c)) = cl_sent c @ [Ok (a @ m @ b)]"
proof -
  have nl: "from_utf8_lossy [newline] = [newline]" by (rule lossy_valid, rule ascii_valid) (simp add: byte_def)
  define l where "l = a @ replacement @ concat (map (\<lambda>_. replacement) (drop k m)) @ b"
  define c0 where "c0 = c\<lparr>cl_ready_state := SseOpen\<rparr>"
  have c0: "cl_receiver c0 = None" "cl_sent c0 = cl_sent c" using assms(9) by (simp_all add: c0_def)
  have split: "concat (map from_utf8_lossy [a @ take k m, drop k m @ b @ [newline]]) = l @ [newline]"
    using lossy_cut [OF assms(1-4), of "b @ [newline]"] by (simp add: lossy_append assms(5) nl l_def)
  have whole: "concat (map from_utf8_lossy [a @ m @ b @ [newline]]) = (a @ m @ b) @ [newline]"
    using lossy_append [OF assms(10), of "[newline]"] nl by simp
  have "newline \<notin> set l" "carriage_return \<notin> set l"
    using assms(7,8) by (auto simp: l_def replacement_def)
  then have "cl_sent (run_text client_line client_last (l @ [newline]) c0) = cl_sent c @ [Ok l]"
    using one_data_line [of l _ c0] c0 by (simp add: l_def assms(6))
  moreover have "cl_sent (run_text client_line client_last ((a @ m @ b) @ [newline]) c0) =
      cl_sent c @ [Ok (a @ m @ b)]"
    using one_data_line [OF assms(7,8), of _ c0] c0 assms(6) by simp
  moreover have "l \<noteq> a @ m @ b" using lossy_cut_longer [OF assms(2-4), of a b, folded l_def] by (intro notI) simp
  moreover have "snd (connect_once cfg (SseResponse 200 (map ReadyChunk cs)) c) =
      run_text client_line client_last (concat (map from_utf8_lossy cs)) c0" for cs
    using sse_body.read_text [of cs c0] by (simp add: connect_once_def c0_def)
  ultimately show ?thesis by (metis split whole)
qed

text \<open>The two bytes of an accented letter arrive in different chunks.\<close>

theorem split_character_corrupts_witness:
  "\<exists>l. l \<noteq> ''data:'' @ [CHR 0xC3, CHR 0xA9] \<and>
    cl_sent (snd (connect_once default_sse_client_config (SseResponse 200
      (map ReadyChunk [''data:'' @ [CHR 0xC3], [CHR 0xA9, newline]])) (client_new None))) = [Ok l]"
proof -
  have "utf8_char [CHR 0xC3, CHR 0xA9]"
    by (simp add: utf8_char_def char_width_def in_range_def byte_def second_ok_def)
  moreover have "utf8_valid ''data:''" by (rule ascii_valid) (simp add: byte_def)
  moreover have "utf8_valid (''data:'' @ [CHR 0xC3, CHR 0xA9])"
    by (simp add: utf8_valid.simps char_width_def in_range_def byte_def second_ok_def)
  ultimately show ?thesis
    using split_character_corrupts [where a = "''data:''" and m = "[CHR 0xC3, CHR 0xA9]" and k = 1
        and b = "[]" and x = "[]" and c = "client_new None" and cfg = default_sse_client_config]
    by (auto simp: client_new_def)
qed

subsection \<open>Delays\<close>

lemma rand_jitter_range:
  assumes "ns < 10 ^ 9"
  obtains q where "rand_jitter ns = Fin q" and "0 \<le> q" and "q \<le> 1/4"
proof -
  have f: "f64_of_nat ns = Fin (of_nat ns)" "f64_of_nat (2 ^ 32 - 1) = Fin (of_nat (2 ^ 32 - 1))"
    by (rule f64_of_nat_exact, use assms in simp)+
  define x :: rat where "x = of_nat ns / of_nat (2 ^ 32 - 1)"
  have "(of_nat ns :: rat) \<le> of_nat (10 ^ 9)" using assms by (simp only: of_nat_le_iff)
  then have x: "0 \<le> x" "x \<le> 1/4" by (simp_all add: x_def divide_le_eq)
  have "rand_jitter ns = Fin (rnd x)"
    using x f64_round_small [of x] by (simp only: rand_jitter_def f f64_div.simps) (simp add: x_def)
  with x that show ?thesis using rnd_nonneg [OF x(1)] rnd_mono [OF x(2)] rnd_quarter by auto
qed

lemma jittered_le:
  assumes "ns < 10 ^ 9" and "0 \<le> c" and "c \<le> of_nat N" and "N < 2 ^ 53"
  shows "unat (jittered ns (Fin c)) \<le> N"
proof -
  obtain q where q: "rand_jitter ns = Fin q" "0 \<le> q" "q \<le> 1/4" using rand_jitter_range [OF assms(1)] .
  have N: "(of_nat N :: rat) < of_nat (2 ^ 53)" using assms(4) by (simp only: of_nat_less_iff)
  then have c: "\<bar>c\<bar> \<le> 2 ^ 53" using assms(2,3) by simp
  define q2 where "q2 = rnd (q * 2)"
  have q2: "f64_mul (Fin q) (Fin 2) = Fin q2" "0 \<le> q2" "q2 \<le> 1/2"
    using q f64_round_small [of "q * 2"] rnd_nonneg [of "q * 2"] rnd_mono [of "q * 2" "1/2"] rnd_half
    by (auto simp: q2_def)
  define t where "t = rnd (q2 - 1)"
  have t: "f64_sub (Fin q2) (Fin 1) = Fin t" "-1 \<le> t" "t \<le> 0"
    using q2 f64_round_small [of "q2 - 1"] rnd_mono [of "-1" "q2 - 1"] rnd_mono [of "q2 - 1" 0]
      rnd_of_int [of "-1"]
    by (auto simp: t_def f64_sub_def)
  define c4 where "c4 = rnd (c * (1/4))"
  have c4: "f64_mul (Fin c) (Fin (1/4)) = Fin c4" "0 \<le> c4" "c4 \<le> 2 ^ 53"
    using c assms(2) f64_round_small [of "c * (1/4)"] rnd_nonneg [of "c * (1/4)"]
      rnd_mono [of "c * (1/4)" "2 ^ 53"] rnd_exact [of 1 53]
    by (auto simp: c4_def)
  define j where "j = rnd (c4 * t)"
  have ct: "c4 * t \<le> 0" "\<bar>c4 * t\<bar> \<le> 2 ^ 53"
  proof -
    show "c4 * t \<le> 0" using c4(2) t(3) by (simp add: mult_nonneg_nonpos)
    have "c4 * (- t) \<le> c4 * 1" using c4(2) t(2) by (intro mult_left_mono) auto
    with c4(3) \<open>c4 * t \<le> 0\<close> show "\<bar>c4 * t\<bar> \<le> 2 ^ 53" by simp
  qed
  have j: "f64_mul (Fin c4) (Fin t) = Fin j" "j \<le> 0" "- (2 ^ 53) \<le> j"
    using ct f64_round_small [of "c4 * t"] rnd_mono [of "c4 * t" 0] rnd_mono [of "- (2 ^ 53)" "c4 * t"]
      rnd_exact [of "-1" 53]
    by (auto simp: j_def)
  define r where "r = rnd (c + j)"
  have r: "f64_add (Fin c) (Fin j) = Fin r" "r \<le> of_nat N"
    using c j assms(2,3) f64_round_small [of "c + j"] rnd_mono [of "c + j" "of_nat N"]
      rnd_of_nat [OF assms(4)]
    by (auto simp: r_def)
  have "unat (jittered ns (Fin c)) = f64_to_nat (f64_max (Fin r) (Fin 0))"
    by (simp only: jittered_def Let_def q(1) q2(1) t(1) c4(1) j(1) r(1) unat_f64_to_u64)
  also have "\<dots> \<le> N"
  proof -
    have "\<lfloor>r\<rfloor> \<le> int N" using r(2) by (simp add: floor_le_iff)
    then show ?thesis by (auto simp: f64_max_def)
  qed
  finally show ?thesis .
qed

lemma capped_range:
  assumes "f64_nonneg base" and "M < 2 ^ 53"
  obtains c where "f64_min base (f64_of_nat M) = Fin c" and "0 \<le> c" and "c \<le> of_nat M"
proof (cases base)
  case (Fin b)
  show ?thesis
    by (cases "b \<le> of_nat M")
      (use assms(1) Fin f64_of_nat_exact [OF assms(2)] that [of b] that [of "of_nat M"]
       in \<open>auto simp: f64_min_def\<close>)
qed (use assms(1) f64_of_nat_exact [OF assms(2)] that [of "of_nat M"] in \<open>auto simp: f64_min_def\<close>)

text \<open>
  Jitter never lengthens a delay and the configured maximum holds: for every non-negative
  multiplier and attempt the delay is at most \<open>max_delay_ms\<close>, and when the server set a
  reconnection time, at most that time.
\<close>

theorem sse_delay_bounded:
  assumes "ns < 10 ^ 9" and "sse_reconnect cfg = Some r" and "f64_nonneg (sse_backoff_multiplier r)"
    and "unat (sse_max_delay_ms r) < 2 ^ 53" and "rd \<noteq> None \<longrightarrow> unat (the rd) < 2 ^ 53"
  shows "unat (sse_delay cfg ns attempt rd) \<le>
    (case rd of None \<Rightarrow> unat (sse_max_delay_ms r) | Some ms \<Rightarrow> unat ms)"
proof (cases rd)
  case (Some ms)
  then have "f64_of_u64 ms = Fin (of_nat (unat ms))"
    using assms(5) by (simp add: f64_of_u64_def f64_of_nat_exact)
  moreover have "unat (jittered ns (Fin (of_nat (unat ms)))) \<le> unat ms"
    by (rule jittered_le [OF assms(1) of_nat_0_le_iff order_refl]) (use assms(5) Some in simp)
  ultimately show ?thesis using Some by (simp add: sse_delay_def)
next
  case None
  have p: "f64_nonneg (f64_powi (sse_backoff_multiplier r) n)" for n
    using f64_powi_loop_nonneg [OF assms(3), of "Fin 1" "nat \<bar>n\<bar>"]
    by (cases "f64_powi_loop (sse_backoff_multiplier r) (nat \<bar>n\<bar>) (Fin 1)")
      (auto simp: f64_powi_def Let_def f64_round_nonneg)
  have i: "f64_nonneg (f64_of_u64 (sse_initial_delay_ms r))"
    unfolding f64_of_u64_def f64_of_nat_def by (rule f64_round_nonneg) (rule of_nat_0_le_iff)
  obtain c where "f64_min (f64_mul (f64_of_u64 (sse_initial_delay_ms r))
      (f64_powi (sse_backoff_multiplier r) (sint (attempt - 1)))) (f64_of_nat (unat (sse_max_delay_ms r))) = Fin c"
    "0 \<le> c" "c \<le> of_nat (unat (sse_max_delay_ms r))"
    using capped_range [OF f64_mul_nonneg [OF i p] assms(4)] .
  then show ?thesis using jittered_le [OF assms(1), of c "unat (sse_max_delay_ms r)"] assms(2,4) None
    by (simp add: sse_delay_def Let_def f64_of_u64_def)
qed

theorem sse_delay_bounded_witness:
  "unat (sse_delay (default_sse_client_config\<lparr>sse_reconnect := Some default_sse_reconnect_config\<rparr>)
     999999999 9 None) \<le> 30000"
  using sse_delay_bounded [of 999999999
      "default_sse_client_config\<lparr>sse_reconnect := Some default_sse_reconnect_config\<rparr>"
      default_sse_reconnect_config None 9]
  by (simp add: default_sse_reconnect_config_def)

subsection \<open>Resuming\<close>

lemma client_line_open:
  assumes "cl_receiver c = None"
  shows "client_line l c = (client_last l c, True)" and "cl_receiver (client_last l c) = None"
  using assms by (auto simp: client_line_def client_last_def client_send_def split: route_action.splits)

lemma run_client_lines:
  "cl_receiver c = None \<Longrightarrow> run_lines client_line ls c = (fold client_last ls c, True)"
  by (induction ls arbitrary: c) (simp_all add: client_line_open)

lemma client_last_step:
  assumes "cl_receiver c = None"
  shows "cl_last_event_id (client_last l c) = last_id [l] (cl_last_event_id c) \<and>
    cl_sent (client_last l c) = cl_sent c @ map Ok (yields [l])"
  using assms by (simp add: client_last_def client_send_def split: route_action.splits)

lemma fold_client_last:
  assumes "cl_receiver c = None"
  shows "cl_last_event_id (fold client_last ls c) = last_id ls (cl_last_event_id c) \<and>
    cl_sent (fold client_last ls c) = cl_sent c @ map Ok (yields ls)"
  using assms
proof (induction ls arbitrary: c)
  case (Cons l ls)
  from Cons.IH [OF client_line_open(2) [OF Cons.prems], of l] client_last_step [OF Cons.prems, of l]
  show ?case using yields_append [of "[l]" ls] by (simp split: route_action.splits)
qed simp

text \<open>
  C9. Resuming: after a stream was read to its end by a client whose receiver is alive, exactly its
  content lines have been delivered in order, and the next request carries the identifier of the
  last \<open>id:\<close> line seen so far, on this connection or an earlier one, in its \<open>Last-Event-ID\<close> header.
\<close>

theorem sse_resumes:
  fixes cs :: "string list" and cfg :: sse_client_config
  assumes "cl_receiver c = None"
  defines "ls \<equiv> all_lines (concat (map from_utf8_lossy cs))"
  defines "c' \<equiv> snd (connect_once cfg (SseResponse 200 (map ReadyChunk cs)) c)"
  shows "cl_sent c' = cl_sent c @ map Ok (yields ls) \<and>
    (let i = last_id ls (cl_last_event_id c)
     in i = [] \<or> (''Last-Event-ID'', i) \<in> set (rq_headers (sse_request cfg (cl_last_event_id c'))))"
proof -
  define c0 where "c0 = c\<lparr>cl_ready_state := SseOpen\<rparr>"
  have c0: "cl_receiver c0 = None" using assms(1) by (simp add: c0_def)
  have "c' = run_text client_line client_last (concat (map from_utf8_lossy cs)) c0"
    using sse_body.read_text [of cs c0] by (simp add: connect_once_def c0_def c'_def)
  also have "\<dots> = fold client_last ls c0"
    by (simp add: run_text_def run_client_lines [OF c0] ls_def all_lines_def)
  finally have "cl_last_event_id c' = last_id ls (cl_last_event_id c) \<and>
      cl_sent c' = cl_sent c @ map Ok (yields ls)"
    using fold_client_last [OF c0, of ls] by (simp add: c0_def)
  then show ?thesis by (auto simp: sse_request_def Let_def)
qed

theorem sse_resumes_witness:
  "let c = snd (connect_once default_sse_client_config
      (SseResponse 200 (map ReadyChunk [''id: 7'', newline # ''data: a''])) (client_new None))
   in cl_sent c = [Ok ''data: a''] \<and>
     (''Last-Event-ID'', ''7'') \<in> set (rq_headers (sse_request default_sse_client_config (cl_last_event_id c)))"
proof -
  have v: "utf8_valid ''id: 7''" "utf8_valid (newline # ''data: a'')"
    by (rule ascii_valid, simp add: byte_def)+
  have l: "all_lines (concat (map from_utf8_lossy [''id: 7'', newline # ''data: a''])) = [''id: 7'', ''data: a'']"
    by (simp add: v lossy_valid) (simp add: all_lines_def text_lines_def text_rest_def
      trim_end_matches_def)
  have "route_line ''id: 7'' = SetLastEventId ''7''" "route_line ''data: a'' = Yield ''data: a''"
    by (simp_all add: route_line_def strip_prefix_def trim_start_def white_space_def trim_with.simps)
  then have y: "yields [''id: 7'', ''data: a''] = [''data: a'']"
    "last_id [''id: 7'', ''data: a''] (cl_last_event_id (client_new None)) = ''7''"
    by simp_all
  have "cl_receiver (client_new None) = None" "cl_sent (client_new None) = []"
    by (simp_all add: client_new_def)
  with sse_resumes [of "client_new None" default_sse_client_config "[''id: 7'', newline # ''data: a'']",
      unfolded l y] show ?thesis by (auto simp: Let_def)
qed

end
