(* ===== verification/Dns.thy ===== *)
theory Dns
  imports Core_Types
begin

section \<open>DNS resolution\<close>

text \<open>
  Models \<^verbatim>\<open>catcher-dns/src/lib.rs\<close>.  Building resolvers and mapping hosts are functions.  The
  caching resolver is a state machine: a lookup answers from the cache or waits for a shared
  resolution, a stale answer starts a background refresh, and \<open>clear_cache\<close> may come between any
  two of their atomic steps.  The cache is \<open>moka\<close>'s: an entry is found until \<open>cache_ttl + stale_ttl\<close>
  after it was put there or until it is evicted; concurrent lookups of one host that miss share
  one resolution.  Parsing addresses and resolving names are arguments.  Time is in milliseconds.
\<close>

datatype ip_addr = IPv4 u32 | IPv6 "128 word"

record sock_addr =
  sa_ip :: ip_addr
  sa_port :: u16

definition with_port :: "sock_addr list \<Rightarrow> u16 \<Rightarrow> sock_addr list" where
  "with_port addrs p = map (\<lambda>a. \<lparr>sa_ip = sa_ip a, sa_port = p\<rparr>) addrs"

fun parse_host_mapping ::
  "(string \<Rightarrow> ip_addr option) \<Rightarrow> header_map \<Rightarrow> catcher_error + (string \<times> sock_addr list) list"
where
  "parse_host_mapping parse_ip [] = Ok []"
| "parse_host_mapping parse_ip ((h, s) # m) =
     (case parse_ip s of
        None \<Rightarrow> Err (InvalidConfig (''dns.host_mapping: invalid IP '' @ [CHR 0x27] @ s @ [CHR 0x27] @
          '' for host '' @ [CHR 0x27] @ h @ [CHR 0x27]))
      | Some ip \<Rightarrow>
          bind_res (parse_host_mapping parse_ip m)
            (\<lambda>r. Ok ((h, [\<lparr>sa_ip = ip, sa_port = 0\<rparr>]) # r)))"

definition resolve_native ::
  "(string \<Rightarrow> u16 \<Rightarrow> string + sock_addr list) \<Rightarrow> (string \<times> sock_addr list) list \<Rightarrow> string \<Rightarrow> u16 \<Rightarrow>
   catcher_error + sock_addr list" where
  "resolve_native lookup_host mapping h p =
     (case map_of mapping h of
        Some addrs \<Rightarrow> Ok (with_port addrs p)
      | None \<Rightarrow> (case lookup_host h p of Inr as \<Rightarrow> Ok as | Inl m \<Rightarrow> Err (DnsError h m)))"

subsection \<open>The underlying resolver\<close>

datatype 'c name_source = SystemNames 'c | DefaultNames | NameServers "sock_addr list"

record 'c inner_resolver =
  ir_source :: "'c name_source"
  ir_negative_ttl_secs :: u32

fun parse_nameservers :: "(string \<Rightarrow> string + sock_addr) \<Rightarrow> string list \<Rightarrow> catcher_error + sock_addr list"
where
  "parse_nameservers parse [] = Ok []"
| "parse_nameservers parse (ns # r) =
     (case parse ns of
        Inl m \<Rightarrow> Err (InvalidConfig (''invalid nameserver '' @ [CHR 0x27] @ ns @ [CHR 0x27] @ '': '' @ m))
      | Inr a \<Rightarrow> bind_res (parse_nameservers parse r) (\<lambda>as. Ok (a # as)))"

definition build_inner_resolver ::
  "(string \<Rightarrow> string + sock_addr) \<Rightarrow> (string + 'c) \<Rightarrow> dns_config \<Rightarrow> catcher_error + 'c inner_resolver"
where
  "build_inner_resolver parse system_conf cfg =
     (if nameservers cfg = []
      then (case system_conf of
              Inr c \<Rightarrow> Ok \<lparr>ir_source = SystemNames c, ir_negative_ttl_secs = negative_ttl_secs cfg\<rparr>
            | Inl m \<Rightarrow>
                if fallback_to_default_nameservers cfg
                then Ok \<lparr>ir_source = DefaultNames, ir_negative_ttl_secs = negative_ttl_secs cfg\<rparr>
                else Err (DnsError ''system'' (''read system DNS config: '' @ m)))
      else bind_res (parse_nameservers parse (nameservers cfg))
        (\<lambda>as. Ok \<lparr>ir_source = NameServers as, ir_negative_ttl_secs = negative_ttl_secs cfg\<rparr>))"

datatype 'c dns_backend =
    Hickory "'c inner_resolver" "(string \<times> sock_addr list) list"
  | Native "(string \<times> sock_addr list) list"

definition dns_resolver_new ::
  "(string \<Rightarrow> ip_addr option) \<Rightarrow> (string \<Rightarrow> string + sock_addr) \<Rightarrow> (string + 'c) \<Rightarrow> dns_config \<Rightarrow>
   catcher_error + 'c dns_backend" where
  "dns_resolver_new parse_ip parse system_conf cfg =
     (if dns_mode cfg = NativeDns
      then bind_res (parse_host_mapping parse_ip (host_mapping cfg)) (\<lambda>m. Ok (Native m))
      else bind_res (build_inner_resolver parse system_conf cfg)
        (\<lambda>r. bind_res (parse_host_mapping parse_ip (host_mapping cfg)) (\<lambda>m. Ok (Hickory r m))))"

subsection \<open>The caching resolver's state\<close>

text \<open>
  \<open>ent_gen\<close> is a ghost: the generation in which the resolution was started.  \<open>ent_put\<close> is when the
  entry was put into the cache; \<open>ent_inserted\<close> is the time stamp the entry carries.
\<close>

record dns_entry =
  ent_addrs :: "sock_addr list"
  ent_inserted :: nat
  ent_put :: nat
  ent_gen :: u64

text \<open>A lookup that missed the cache, waiting for the shared resolution or holding its result.\<close>

datatype fg_phase = Waiting | Got "string + dns_entry"

record fg_task =
  fg_host :: string
  fg_gen :: u64
  fg_phase :: fg_phase

text \<open>A background refresh: resolving, resolved, past the generation check, to be released.\<close>

datatype bg_phase = Resolving | Checked "sock_addr list" | Resolved "sock_addr list" | Releasing

record bg_task =
  bg_host :: string
  bg_gen :: u64
  bg_phase :: bg_phase

record dns_state =
  dn_now :: nat
  dn_generation :: u64
  dn_cache :: "string \<rightharpoonup> dns_entry"
  dn_refreshing :: "string set"
  dn_flights :: "string \<rightharpoonup> u64"
  dn_fg :: "fg_task list"
  dn_bg :: "bg_task list"

definition dns_init :: dns_state where
  "dns_init = \<lparr>dn_now = 0, dn_generation = 0, dn_cache = Map.empty, dn_refreshing = {},
     dn_flights = Map.empty, dn_fg = [], dn_bg = []\<rparr>"

definition ttl_ms :: "dns_config \<Rightarrow> nat" where
  "ttl_ms c = unat (cache_ttl_secs c) * 1000"

definition stale_ms :: "dns_config \<Rightarrow> nat" where
  "stale_ms c = unat (stale_ttl_secs c) * 1000"

text \<open>\<open>Cache::get\<close> with the time to live \<open>total_ttl\<close> the cache was built with.\<close>

definition cache_get :: "dns_config \<Rightarrow> string \<Rightarrow> dns_state \<Rightarrow> dns_entry option" where
  "cache_get c h s =
     (case dn_cache s h of
        None \<Rightarrow> None
      | Some e \<Rightarrow> if dn_now s < ent_put e + (ttl_ms c + stale_ms c) then Some e else None)"

definition cache_put :: "string \<Rightarrow> sock_addr list \<Rightarrow> u64 \<Rightarrow> dns_state \<Rightarrow> dns_state" where
  "cache_put h as g s =
     s\<lparr>dn_cache := (dn_cache s)(h \<mapsto>
       \<lparr>ent_addrs = as, ent_inserted = dn_now s, ent_put = dn_now s, ent_gen = g\<rparr>)\<rparr>"

definition clear_cache :: "dns_state \<Rightarrow> dns_state" where
  "clear_cache s =
     s\<lparr>dn_generation := dn_generation s + 1, dn_cache := Map.empty, dn_refreshing := {}\<rparr>"

subsection \<open>Lookups\<close>

text \<open>The first half of \<open>resolve_zero_port\<close>: an answer at once, or a task that waits.\<close>

definition start_refresh :: "string \<Rightarrow> dns_state \<Rightarrow> dns_state" where
  "start_refresh h s =
     (if h \<in> dn_refreshing s then s
      else s\<lparr>dn_refreshing := insert h (dn_refreshing s),
             dn_bg := dn_bg s @ [\<lparr>bg_host = h, bg_gen = dn_generation s, bg_phase = Resolving\<rparr>]\<rparr>)"

definition start_lookup :: "dns_config \<Rightarrow> string \<Rightarrow> dns_state \<Rightarrow> dns_state" where
  "start_lookup c h s =
     (let g = dn_generation s in
      (case cache_get c h s of
         Some e \<Rightarrow> s\<lparr>dn_fg := dn_fg s @ [\<lparr>fg_host = h, fg_gen = g, fg_phase = Got (Ok e)\<rparr>]\<rparr>
       | None \<Rightarrow>
           s\<lparr>dn_flights := (case dn_flights s h of
                 None \<Rightarrow> (dn_flights s)(h \<mapsto> g) | Some _ \<Rightarrow> dn_flights s),
             dn_fg := dn_fg s @ [\<lparr>fg_host = h, fg_gen = g, fg_phase = Waiting\<rparr>]\<rparr>))"

definition resolve_zero_port ::
  "dns_config \<Rightarrow> (string \<times> sock_addr list) list \<Rightarrow> string \<Rightarrow> dns_state \<Rightarrow>
   sock_addr list option \<times> dns_state" where
  "resolve_zero_port c mapping h s =
     (case map_of mapping h of
        Some as \<Rightarrow> (Some as, s)
      | None \<Rightarrow>
          (case cache_get c h s of
             Some e \<Rightarrow>
               let age = dn_now s - ent_inserted e
               in if age < ttl_ms c then (Some (ent_addrs e), s)
                  else if age < ttl_ms c + stale_ms c
                       then (Some (ent_addrs e), start_refresh h s)
                       else (None, start_lookup c h s)
           | None \<Rightarrow> (None, start_lookup c h s)))"

text \<open>\<open>do_resolve\<close>: an empty answer is an error.\<close>

definition do_resolve :: "string + ip_addr list \<Rightarrow> string + sock_addr list" where
  "do_resolve r =
     (case r of
        Inl m \<Rightarrow> Inl m
      | Inr [] \<Rightarrow> Inl ''DNS resolved to empty address list''
      | Inr (ip # ips) \<Rightarrow> Inr (map (\<lambda>i. \<lparr>sa_ip = i, sa_port = 0\<rparr>) (ip # ips)))"

text \<open>The shared resolution ends: a success is put into the cache, every waiter gets the result.\<close>

definition flight_done :: "string \<Rightarrow> u64 \<Rightarrow> string + sock_addr list \<Rightarrow> dns_state \<Rightarrow> dns_state" where
  "flight_done h g r s =
     (let res = (case r of Inl m \<Rightarrow> Inl m
                 | Inr as \<Rightarrow> Inr \<lparr>ent_addrs = as, ent_inserted = dn_now s, ent_put = dn_now s, ent_gen = g\<rparr>);
          s' = (case r of Inl _ \<Rightarrow> s | Inr as \<Rightarrow> cache_put h as g s)
      in s'\<lparr>dn_flights := (dn_flights s)(h := None),
            dn_fg := map (\<lambda>t. if fg_host t = h \<and> fg_phase t = Waiting then t\<lparr>fg_phase := Got res\<rparr> else t)
              (dn_fg s)\<rparr>)"

text \<open>The second half of \<open>resolve_zero_port\<close>.\<close>

definition finish_lookup ::
  "dns_config \<Rightarrow> fg_task \<Rightarrow> string + dns_entry \<Rightarrow> dns_state \<Rightarrow> (string + sock_addr list) \<times> dns_state"
where
  "finish_lookup c t res s =
     (let s' = (if dn_generation s \<noteq> fg_gen t then s\<lparr>dn_cache := (dn_cache s)(fg_host t := None)\<rparr> else s)
      in ((case res of
             Inr e \<Rightarrow> Ok (ent_addrs e)
           | Inl m \<Rightarrow>
               if stale_on_error c
               then (case cache_get c (fg_host t) s' of Some e \<Rightarrow> Ok (ent_addrs e) | None \<Rightarrow> Err m)
               else Err m), s'))"

definition resolve_socket_addrs ::
  "string \<Rightarrow> u16 \<Rightarrow> string + sock_addr list \<Rightarrow> catcher_error + sock_addr list" where
  "resolve_socket_addrs h p r =
     (case r of Inr as \<Rightarrow> Ok (with_port as p) | Inl m \<Rightarrow> Err (DnsError h m))"

subsection \<open>Steps\<close>

definition remove_nth :: "nat \<Rightarrow> 'a list \<Rightarrow> 'a list" where
  "remove_nth i xs = take i xs @ drop (Suc i) xs"

datatype dns_op =
    Tick nat
  | Evict string
  | Lookup string
  | FlightDone string "string + ip_addr list"
  | FinishLookup nat
  | RefreshResolved nat "string + ip_addr list"
  | RefreshCheck nat
  | RefreshInsert nat
  | RefreshRelease nat
  | ClearCache
  | NetworkChanged

text \<open>The answer a step gives to a caller, if any; \<open>None\<close> when the step is not possible.\<close>

fun dns_step ::
  "dns_config \<Rightarrow> (string \<times> sock_addr list) list \<Rightarrow> dns_op \<Rightarrow> dns_state \<Rightarrow>
   ((string + sock_addr list) option \<times> dns_state) option" where
  "dns_step c m (Tick n) s = Some (None, s\<lparr>dn_now := dn_now s + n\<rparr>)"
| "dns_step c m (Evict h) s = Some (None, s\<lparr>dn_cache := (dn_cache s)(h := None)\<rparr>)"
| "dns_step c m (Lookup h) s =
     (case resolve_zero_port c m h s of (a, s') \<Rightarrow> Some (map_option Ok a, s'))"
| "dns_step c m (FlightDone h r) s =
     (case dn_flights s h of None \<Rightarrow> None | Some g \<Rightarrow> Some (None, flight_done h g (do_resolve r) s))"
| "dns_step c m (FinishLookup i) s =
     (if i < length (dn_fg s)
      then (case fg_phase (dn_fg s ! i) of
              Waiting \<Rightarrow> None
            | Got res \<Rightarrow>
                (case finish_lookup c (dn_fg s ! i) res (s\<lparr>dn_fg := remove_nth i (dn_fg s)\<rparr>) of
                   (a, s') \<Rightarrow> Some (Some a, s')))
      else None)"
| "dns_step c m (RefreshResolved i r) s =
     (if i < length (dn_bg s) \<and> bg_phase (dn_bg s ! i) = Resolving
      then Some (None, s\<lparr>dn_bg := (dn_bg s)[i := (dn_bg s ! i)
        \<lparr>bg_phase := (case do_resolve r of Inl _ \<Rightarrow> Releasing | Inr as \<Rightarrow> Resolved as)\<rparr>]\<rparr>)
      else None)"
| "dns_step c m (RefreshCheck i) s =
     (if i < length (dn_bg s)
      then (case bg_phase (dn_bg s ! i) of
              Resolved as \<Rightarrow> Some (None, s\<lparr>dn_bg := (dn_bg s)[i := (dn_bg s ! i)
                \<lparr>bg_phase := (if dn_generation s = bg_gen (dn_bg s ! i) then Checked as else Releasing)\<rparr>]\<rparr>)
            | _ \<Rightarrow> None)
      else None)"
| "dns_step c m (RefreshInsert i) s =
     (if i < length (dn_bg s)
      then (case bg_phase (dn_bg s ! i) of
              Checked as \<Rightarrow> Some (None, (cache_put (bg_host (dn_bg s ! i)) as (bg_gen (dn_bg s ! i)) s)
                \<lparr>dn_bg := (dn_bg s)[i := (dn_bg s ! i)\<lparr>bg_phase := Releasing\<rparr>]\<rparr>)
            | _ \<Rightarrow> None)
      else None)"
| "dns_step c m (RefreshRelease i) s =
     (if i < length (dn_bg s) \<and> bg_phase (dn_bg s ! i) = Releasing
      then Some (None, s\<lparr>dn_refreshing := dn_refreshing s - {bg_host (dn_bg s ! i)},
                         dn_bg := remove_nth i (dn_bg s)\<rparr>)
      else None)"
| "dns_step c m ClearCache s = Some (None, clear_cache s)"
| "dns_step c m NetworkChanged s = Some (None, clear_cache s)"

fun dns_run ::
  "dns_config \<Rightarrow> (string \<times> sock_addr list) list \<Rightarrow> dns_op list \<Rightarrow> dns_state \<Rightarrow>
   ((string + sock_addr list) list \<times> dns_state) option" where
  "dns_run c m [] s = Some ([], s)"
| "dns_run c m (x # xs) s =
     (case dns_step c m x s of
        None \<Rightarrow> None
      | Some (a, s') \<Rightarrow>
          (case dns_run c m xs s' of
             None \<Rightarrow> None
           | Some (as, s'') \<Rightarrow> Some ((case a of None \<Rightarrow> as | Some r \<Rightarrow> r # as), s'')))"

text \<open>\<open>network_changed\<close>: the cache is cleared first; a resolver that cannot be rebuilt is kept.\<close>

definition network_changed ::
  "(catcher_error + 'c inner_resolver) \<Rightarrow> 'c inner_resolver \<Rightarrow> dns_state \<Rightarrow>
   (catcher_error + unit) \<times> 'c inner_resolver \<times> dns_state" where
  "network_changed built r s =
     (let s' = clear_cache s
      in (case built of Inl e \<Rightarrow> (Err e, r, s') | Inr r' \<Rightarrow> (Ok (), r', s')))"

subsection \<open>No result of an old generation stays\<close>

text \<open>
  The states reached when no clearing comes between the generation check of a background refresh
  and its insertion (and the 64-bit counter does not wrap).
\<close>

fun clears :: "dns_op \<Rightarrow> bool" where
  "clears ClearCache = True"
| "clears NetworkChanged = True"
| "clears _ = False"

fun is_checked :: "bg_phase \<Rightarrow> bool" where
  "is_checked (Checked as) = True"
| "is_checked _ = False"

inductive quiet_reachable :: "dns_config \<Rightarrow> (string \<times> sock_addr list) list \<Rightarrow> dns_state \<Rightarrow> bool"
  for c m where
  init: "quiet_reachable c m dns_init"
| step: "quiet_reachable c m s \<Longrightarrow>
    (clears x \<Longrightarrow> list_all (\<lambda>t. \<not> is_checked (bg_phase t)) (dn_bg s) \<and> dn_generation s \<noteq> - 1) \<Longrightarrow>
    dns_step c m x s = Some (a, s') \<Longrightarrow> quiet_reachable c m s'"

definition gen_inv :: "dns_state \<Rightarrow> bool" where
  "gen_inv s \<longleftrightarrow>
     (\<forall>h e. dn_cache s h = Some e \<longrightarrow> ent_gen e \<noteq> dn_generation s \<longrightarrow>
        (\<exists>t\<in>set (dn_fg s). fg_host t = h \<and> fg_gen t \<noteq> dn_generation s)) \<and>
     (\<forall>h g. dn_flights s h = Some g \<longrightarrow>
        (\<exists>t\<in>set (dn_fg s). fg_host t = h \<and> fg_gen t = g \<and> fg_phase t = Waiting)) \<and>
     (\<forall>t\<in>set (dn_fg s). fg_gen t \<le> dn_generation s) \<and>
     (\<forall>t\<in>set (dn_bg s). is_checked (bg_phase t) \<longrightarrow> bg_gen t = dn_generation s)"

lemma set_remove_nth: "set (remove_nth i xs) \<subseteq> set xs"
  by (auto simp: remove_nth_def dest: in_set_takeD in_set_dropD)

lemma in_remove_nth: "x \<in> set xs \<Longrightarrow> x \<noteq> xs ! i \<Longrightarrow> x \<in> set (remove_nth i xs)"
proof -
  assume x: "x \<in> set xs" "x \<noteq> xs ! i"
  show ?thesis
  proof (cases "i < length xs")
    case True
    then have "xs = take i xs @ xs ! i # drop (Suc i) xs" by (simp add: id_take_nth_drop)
    with x show ?thesis by (metis Un_iff remove_nth_def set_ConsD set_append)
  next
    case False
    with x show ?thesis by (simp add: remove_nth_def)
  qed
qed

lemma in_set_update: "x \<in> set (xs[i := y]) \<Longrightarrow> x = y \<or> x \<in> set xs"
  using set_update_subset_insert [of xs i y] by blast

lemma gen_inv_init: "gen_inv dns_init"
  by (simp add: gen_inv_def dns_init_def)

lemma gen_inv_clear:
  assumes "gen_inv s" and "list_all (\<lambda>t. \<not> is_checked (bg_phase t)) (dn_bg s)" and "dn_generation s \<noteq> - 1"
  shows "gen_inv (clear_cache s)"
proof -
  have lt: "dn_generation s < dn_generation s + 1"
    using assms(3) by (simp add: word_less_nat_alt unat_plus_one_if_not_max)
  show ?thesis using assms(1,2) lt
    by (force simp: gen_inv_def clear_cache_def list_all_iff intro: order.strict_implies_order order.trans)
qed

lemma gen_inv_flight:
  assumes "gen_inv s" and "dn_flights s h = Some g"
  shows "gen_inv (flight_done h g r s)"
proof -
  let ?res = "(case r of Inl m \<Rightarrow> Inl m
    | Inr as \<Rightarrow> Inr \<lparr>ent_addrs = as, ent_inserted = dn_now s, ent_put = dn_now s, ent_gen = g\<rparr>)"
  let ?f = "\<lambda>t. if fg_host t = h \<and> fg_phase t = Waiting then t\<lparr>fg_phase := Got ?res\<rparr> else t"
  have f: "fg_host (?f t) = fg_host t" "fg_gen (?f t) = fg_gen t" for t by simp_all
  have fg: "dn_fg (flight_done h g r s) = map ?f (dn_fg s)"
    by (simp add: flight_done_def Let_def)
  have bg: "dn_bg (flight_done h g r s) = dn_bg s" "dn_generation (flight_done h g r s) = dn_generation s"
    "dn_flights (flight_done h g r s) = (dn_flights s)(h := None)"
    by (simp_all add: flight_done_def Let_def cache_put_def split: sum.splits)
  have cache: "dn_cache (flight_done h g r s) k = Some e \<Longrightarrow>
      dn_cache s k = Some e \<or> (k = h \<and> ent_gen e = g)" for k e
    by (auto simp: flight_done_def Let_def cache_put_def split: sum.splits if_splits)
  obtain t0 where t0: "t0 \<in> set (dn_fg s)" "fg_host t0 = h" "fg_gen t0 = g"
    using assms unfolding gen_inv_def by blast
  show ?thesis
    unfolding gen_inv_def fg bg
  proof (intro conjI allI impI ballI)
    fix k e
    assume "dn_cache (flight_done h g r s) k = Some e" and ne: "ent_gen e \<noteq> dn_generation s"
    then obtain t where "t \<in> set (dn_fg s)" "fg_host t = k" "fg_gen t \<noteq> dn_generation s"
      using cache assms(1) t0 by (metis gen_inv_def)
    then show "\<exists>t\<in>set (map ?f (dn_fg s)). fg_host t = k \<and> fg_gen t \<noteq> dn_generation s"
      by (intro bexI [of _ "?f t"]) auto
  next
    fix k g'
    assume "((dn_flights s)(h := None)) k = Some g'"
    then have "k \<noteq> h" "dn_flights s k = Some g'" by (auto split: if_splits)
    then obtain t where "t \<in> set (dn_fg s)" "fg_host t = k" "fg_gen t = g'" "fg_phase t = Waiting"
      using assms(1) unfolding gen_inv_def by blast
    then show "\<exists>t\<in>set (map ?f (dn_fg s)). fg_host t = k \<and> fg_gen t = g' \<and> fg_phase t = Waiting"
      using \<open>k \<noteq> h\<close> by (intro bexI [of _ "?f t"]) auto
  next
    fix t assume "t \<in> set (map ?f (dn_fg s))"
    then show "fg_gen t \<le> dn_generation s" using assms(1) by (auto simp: gen_inv_def)
  next
    fix t assume "t \<in> set (dn_bg s)" "is_checked (bg_phase t)"
    then show "bg_gen t = dn_generation s" using assms(1) by (auto simp: gen_inv_def)
  qed
qed

lemma gen_inv_finish:
  assumes "gen_inv s" and "fg_phase (dn_fg s ! i) = Got res"
  shows "gen_inv (snd (finish_lookup c (dn_fg s ! i) res (s\<lparr>dn_fg := remove_nth i (dn_fg s)\<rparr>)))"
proof -
  let ?t = "dn_fg s ! i"
  let ?s' = "snd (finish_lookup c ?t res (s\<lparr>dn_fg := remove_nth i (dn_fg s)\<rparr>))"
  have s': "dn_fg ?s' = remove_nth i (dn_fg s)" "dn_generation ?s' = dn_generation s"
    "dn_flights ?s' = dn_flights s" "dn_bg ?s' = dn_bg s"
    "dn_cache ?s' = (if dn_generation s \<noteq> fg_gen ?t then (dn_cache s)(fg_host ?t := None) else dn_cache s)"
    by (simp_all add: finish_lookup_def Let_def)
  show ?thesis
    unfolding gen_inv_def s'
  proof (intro conjI allI impI ballI)
    fix k e
    assume e: "(if dn_generation s \<noteq> fg_gen ?t then (dn_cache s)(fg_host ?t := None) else dn_cache s) k = Some e"
      and ne: "ent_gen e \<noteq> dn_generation s"
    then have "dn_cache s k = Some e" by (auto split: if_splits)
    then obtain t where t: "t \<in> set (dn_fg s)" "fg_host t = k" "fg_gen t \<noteq> dn_generation s"
      using assms(1) ne unfolding gen_inv_def by blast
    have "t \<noteq> ?t" using t e by (auto split: if_splits)
    with t in_remove_nth show "\<exists>t\<in>set (remove_nth i (dn_fg s)). fg_host t = k \<and> fg_gen t \<noteq> dn_generation s"
      by metis
  next
    fix k g assume "dn_flights s k = Some g"
    then obtain t where t: "t \<in> set (dn_fg s)" "fg_host t = k" "fg_gen t = g" "fg_phase t = Waiting"
      using assms(1) unfolding gen_inv_def by blast
    then have "t \<noteq> ?t" using assms(2) by auto
    with t in_remove_nth show "\<exists>t\<in>set (remove_nth i (dn_fg s)). fg_host t = k \<and> fg_gen t = g \<and> fg_phase t = Waiting"
      by metis
  next
    fix t assume "t \<in> set (remove_nth i (dn_fg s))"
    then have "t \<in> set (dn_fg s)" using set_remove_nth [of i "dn_fg s"] by blast
    then show "fg_gen t \<le> dn_generation s" using assms(1) unfolding gen_inv_def by blast
  next
    fix t assume "t \<in> set (dn_bg s)" "is_checked (bg_phase t)"
    then show "bg_gen t = dn_generation s" using assms(1) unfolding gen_inv_def by blast
  qed
qed

text \<open>Steps that leave the foreground alone and only take entries away or add current ones.\<close>

lemma gen_inv_bg:
  assumes "gen_inv s" and "dn_fg s' = dn_fg s" and "dn_generation s' = dn_generation s"
    and "dn_flights s' = dn_flights s"
    and "\<And>h e. dn_cache s' h = Some e \<Longrightarrow> dn_cache s h = Some e \<or> ent_gen e = dn_generation s"
    and "\<And>t. t \<in> set (dn_bg s') \<Longrightarrow> is_checked (bg_phase t) \<Longrightarrow>
      t \<in> set (dn_bg s) \<or> bg_gen t = dn_generation s"
  shows "gen_inv s'"
  using assms(1) assms(5,6) unfolding gen_inv_def assms(2-4) by blast

lemma gen_inv_lookup:
  assumes "gen_inv s"
  shows "gen_inv (snd (resolve_zero_port c m h s))"
proof -
  have r: "gen_inv (start_refresh h s)"
    by (rule gen_inv_bg [OF assms]) (auto simp: start_refresh_def split: if_splits)
  have l: "gen_inv (start_lookup c h s)"
    using assms by (auto simp: gen_inv_def start_lookup_def Let_def split: option.splits if_splits)
  show ?thesis using assms r l by (simp add: resolve_zero_port_def Let_def split: option.split)
qed

lemma quiet_gen_inv: "quiet_reachable c m s \<Longrightarrow> gen_inv s"
proof (induction rule: quiet_reachable.induct)
  case init
  show ?case by (rule gen_inv_init)
next
  case (step s x a s')
  note inv = \<open>gen_inv s\<close>
  show ?case
  proof (cases x)
    case (Tick n)
    with step show ?thesis by (auto intro!: gen_inv_bg [OF inv])
  next
    case (Evict h)
    with step show ?thesis by (auto intro!: gen_inv_bg [OF inv] split: if_splits)
  next
    case (Lookup h)
    with step gen_inv_lookup [OF inv, of c m h] show ?thesis by (auto split: prod.splits)
  next
    case (FlightDone h r)
    with step show ?thesis by (auto intro!: gen_inv_flight [OF inv] split: option.splits)
  next
    case (FinishLookup i)
    with step obtain res where "fg_phase (dn_fg s ! i) = Got res"
      "s' = snd (finish_lookup c (dn_fg s ! i) res (s\<lparr>dn_fg := remove_nth i (dn_fg s)\<rparr>))"
      by (auto split: if_splits fg_phase.splits prod.splits)
    with gen_inv_finish [OF inv] show ?thesis by simp
  next
    case (RefreshResolved i r)
    with step show ?thesis
      by (auto intro!: gen_inv_bg [OF inv] split: if_splits sum.splits
        dest!: in_set_update)
  next
    case (RefreshCheck i)
    with step show ?thesis
      by (auto intro!: gen_inv_bg [OF inv] split: if_splits bg_phase.splits
        dest!: in_set_update)
  next
    case (RefreshInsert i)
    with step obtain as where i: "i < length (dn_bg s)" "bg_phase (dn_bg s ! i) = Checked as"
      "s' = (cache_put (bg_host (dn_bg s ! i)) as (bg_gen (dn_bg s ! i)) s)
                \<lparr>dn_bg := (dn_bg s)[i := (dn_bg s ! i)\<lparr>bg_phase := Releasing\<rparr>]\<rparr>"
      by (auto split: if_splits bg_phase.splits)
    then have "bg_gen (dn_bg s ! i) = dn_generation s"
      using inv nth_mem [OF i(1)] unfolding gen_inv_def by fastforce
    with i show ?thesis
      by (intro gen_inv_bg [OF inv])
        (auto simp: cache_put_def split: if_splits dest!: in_set_update)
  next
    case (RefreshRelease i)
    with step show ?thesis
      by (auto intro!: gen_inv_bg [OF inv] dest: set_remove_nth [THEN subsetD] split: if_splits)
  qed (use step gen_inv_clear [OF inv] in auto)
qed

text \<open>
  C5. When no clearing of the cache falls between the generation check of a background refresh and
  its insertion, then once all lookups have returned the cache holds only entries whose resolution
  was started after the last clearing: nothing of the old network is left.
\<close>

theorem cache_is_current:
  assumes "quiet_reachable c m s" and "dn_fg s = []" and "dn_cache s h = Some e"
  shows "ent_gen e = dn_generation s"
  using quiet_gen_inv [OF assms(1)] assms(2,3) by (auto simp: gen_inv_def)

text \<open>A lookup, a clearing while it resolves, and a second lookup.\<close>

definition one_addr :: "sock_addr list" where
  "one_addr = [\<lparr>sa_ip = IPv4 7, sa_port = 0\<rparr>]"

lemma quiet_run:
  assumes "dns_run c m ops s = Some (as, s')" and "quiet_reachable c m s" and "list_all (\<lambda>x. \<not> clears x) ops"
  shows "quiet_reachable c m s'"
  using assms
proof (induction ops arbitrary: s as)
  case (Cons x xs)
  obtain a s1 where s1: "dns_step c m x s = Some (a, s1)"
    using Cons.prems(1) by (auto split: option.splits)
  then obtain bs where "dns_run c m xs s1 = Some (bs, s')"
    using Cons.prems(1) by (auto split: option.splits)
  moreover have "quiet_reachable c m s1"
    using quiet_reachable.step [OF Cons.prems(2) _ s1] Cons.prems(3) by simp
  ultimately show ?case using Cons.IH [of s1 bs] Cons.prems(3) by simp
qed simp

theorem cache_is_current_witness:
  "\<exists>s e. quiet_reachable default_dns_config [] s \<and> dn_cache s ''h'' = Some e \<and>
    ent_gen e = dn_generation s"
proof -
  obtain as s where r: "dns_run default_dns_config []
      [Lookup ''h'', FlightDone ''h'' (Inr [IPv4 7]), FinishLookup 0] dns_init = Some (as, s)"
    and fg: "dn_fg s = []" and e: "dn_cache s ''h'' \<noteq> None"
    by (simp add: dns_init_def resolve_zero_port_def cache_get_def start_lookup_def flight_done_def
      do_resolve_def cache_put_def finish_lookup_def remove_nth_def)
  have "quiet_reachable default_dns_config [] s"
    by (rule quiet_run [OF r quiet_reachable.init]) simp
  with cache_is_current [OF this fg] e show ?thesis by auto
qed

subsection \<open>The race\<close>

text \<open>
  In general the guarantee fails: the check of the generation and the insertion of a background
  refresh are separate steps, and a clearing between them leaves an address of the old network in
  the cache with nothing in flight, which the next lookup returns without resolving.
\<close>

theorem stale_refresh_survives_clearing:
  "\<exists>as s e. dns_run default_dns_config []
      [Lookup ''h'', FlightDone ''h'' (Inr [IPv4 7]), FinishLookup 0, Tick 300000, Lookup ''h'',
       RefreshResolved 0 (Inr [IPv4 7]), RefreshCheck 0, NetworkChanged, RefreshInsert 0,
       RefreshRelease 0] dns_init = Some (as, s) \<and>
    dn_fg s = [] \<and> dn_bg s = [] \<and> dn_cache s ''h'' = Some e \<and> ent_gen e \<noteq> dn_generation s \<and>
    dns_step default_dns_config [] (Lookup ''h'') s = Some (Some (Ok (ent_addrs e)), s)"
  by (simp add: dns_init_def resolve_zero_port_def cache_get_def start_lookup_def flight_done_def
    do_resolve_def cache_put_def finish_lookup_def remove_nth_def start_refresh_def clear_cache_def
    ttl_ms_def stale_ms_def default_dns_config_def Let_def)

subsection \<open>Outages\<close>

text \<open>The steps while names cannot be resolved: time passes, lookups of \<open>h\<close>, failing refreshes.\<close>

fun outage_op :: "string \<Rightarrow> dns_op \<Rightarrow> bool" where
  "outage_op h (Tick n) = True"
| "outage_op h (Lookup k) = (k = h)"
| "outage_op h (RefreshResolved i (Inl msg)) = True"
| "outage_op h (RefreshRelease i) = True"
| "outage_op h _ = False"

fun time_passed :: "dns_op list \<Rightarrow> nat" where
  "time_passed [] = 0"
| "time_passed (Tick n # xs) = n + time_passed xs"
| "time_passed (_ # xs) = time_passed xs"

fun lookups :: "dns_op list \<Rightarrow> nat" where
  "lookups [] = 0"
| "lookups (Lookup h # xs) = Suc (lookups xs)"
| "lookups (_ # xs) = lookups xs"

lemma outage_step:
  assumes "map_of m h = None" and "dn_cache s h = Some e" and "ent_put e = ent_inserted e"
    and "ent_inserted e \<le> dn_now s" and "dn_now s < ent_inserted e + (ttl_ms c + stale_ms c)"
    and "dns_step c m x s = Some (a, s')" and "outage_op h x"
  shows "dn_cache s' h = Some e \<and>
    dn_now s' = dn_now s + (case x of Tick n \<Rightarrow> n | _ \<Rightarrow> 0) \<and>
    a = (case x of Lookup k \<Rightarrow> Some (Ok (ent_addrs e)) | _ \<Rightarrow> None)"
proof (cases x)
  case (Lookup k)
  have "dn_now s - ent_inserted e < ttl_ms c + stale_ms c" using assms(4,5) by linarith
  with assms Lookup show ?thesis
    by (auto simp: resolve_zero_port_def cache_get_def start_refresh_def Let_def split: if_splits)
next
  case (RefreshResolved i r)
  with assms show ?thesis by (cases r) (auto split: if_splits)
qed (use assms in \<open>auto split: if_splits\<close>)

text \<open>
  Stale answers bridge an outage: from any state with an entry of a host in the cache, however
  the refreshes fail and whatever \<open>stale_on_error\<close> says, every lookup of that host is answered at
  once with the entry's addresses until \<open>cache_ttl + stale_ttl\<close> after the entry was made.
\<close>

theorem outage_is_bridged:
  assumes "map_of m h = None" and "dn_cache s h = Some e" and "ent_put e = ent_inserted e"
    and "ent_inserted e \<le> dn_now s" and "dn_now s + time_passed ops < ent_inserted e + (ttl_ms c + stale_ms c)"
    and "list_all (outage_op h) ops" and "dns_run c m ops s = Some (as, s')"
  shows "as = replicate (lookups ops) (Ok (ent_addrs e))"
  using assms(2,4-7)
proof (induction ops arbitrary: s as)
  case (Cons x xs)
  obtain a s1 bs where s1: "dns_step c m x s = Some (a, s1)" "dns_run c m xs s1 = Some (bs, s')"
    "as = (case a of None \<Rightarrow> bs | Some r \<Rightarrow> r # bs)"
    using Cons.prems(5) by (auto split: option.splits)
  have lt: "dn_now s < ent_inserted e + (ttl_ms c + stale_ms c)" using Cons.prems(3) by simp
  have o: "outage_op h x" using Cons.prems(4) by simp
  from outage_step [OF assms(1) Cons.prems(1) assms(3) Cons.prems(2) lt s1(1) o] have st:
    "dn_cache s1 h = Some e" "dn_now s1 = dn_now s + (case x of Tick n \<Rightarrow> n | _ \<Rightarrow> 0)"
    "a = (case x of Lookup k \<Rightarrow> Some (Ok (ent_addrs e)) | _ \<Rightarrow> None)" by auto
  have "dn_now s1 + time_passed xs < ent_inserted e + (ttl_ms c + stale_ms c)"
    "ent_inserted e \<le> dn_now s1"
    using Cons.prems(2,3) st(2) by (cases x; auto)+
  from Cons.IH [OF st(1) this(2,1) _ s1(2)] Cons.prems(4) have "bs = replicate (lookups xs) (Ok (ent_addrs e))"
    by simp
  then show ?case using s1(3) st(3) by (cases x) auto
qed simp

theorem outage_is_bridged_witness:
  "\<exists>s'. dns_run (default_dns_config\<lparr>stale_on_error := False\<rparr>) []
      [Tick 400000, Lookup ''h'', RefreshResolved 0 (Inl ''timeout''), Lookup ''h'']
      (cache_put ''h'' one_addr 0 dns_init) = Some ([Ok one_addr, Ok one_addr], s')"
proof -
  let ?c = "default_dns_config\<lparr>stale_on_error := False\<rparr>"
  let ?ops = "[Tick 400000, Lookup ''h'', RefreshResolved 0 (Inl ''timeout''), Lookup ''h'']"
  let ?s = "cache_put ''h'' one_addr 0 dns_init"
  have t: "ttl_ms ?c + stale_ms ?c = 3900000"
    by (simp add: ttl_ms_def stale_ms_def default_dns_config_def)
  obtain as s' where r: "dns_run ?c [] ?ops ?s = Some (as, s')"
    by (simp add: dns_init_def resolve_zero_port_def cache_get_def cache_put_def start_refresh_def
      do_resolve_def ttl_ms_def stale_ms_def default_dns_config_def Let_def)
  have e: "dn_cache ?s ''h'' = Some \<lparr>ent_addrs = one_addr, ent_inserted = 0, ent_put = 0, ent_gen = 0\<rparr>"
    "dn_now ?s = 0" by (simp_all add: cache_put_def dns_init_def)
  have "as = replicate (lookups ?ops) (Ok one_addr)"
    using outage_is_bridged [OF _ e(1) _ _ _ _ r] t e(2) by simp
  with r show ?thesis by (simp add: numeral_2_eq_2)
qed

end
