(* ===== verification/App_Compression.thy ===== *)
theory App_Compression
  imports Core_Types
begin

section \<open>Application-level compression frames\<close>

text \<open>
  Models \<^verbatim>\<open>catcher-ws/src/ws/application_compression.rs\<close>: a message of at least the threshold is
  replaced by a frame of magic, algorithm byte, kind byte, big-endian length and compressed
  bytes.  The compressors (\<open>flate2\<close>, \<open>zstd\<close>) are an argument, with the failures the code
  handles; a decoder is read as a stream of bytes that ends or fails.  \<open>usize\<close> has 64 bits.
\<close>

unbundle bit_operations_syntax

definition application_compression_magic :: bytes where
  "application_compression_magic = map of_char ''CATCHER-CMP-1''"

definition algorithm_gzip :: u8 where "algorithm_gzip = 1"
definition algorithm_zstd :: u8 where "algorithm_zstd = 2"
definition kind_text :: u8 where "kind_text = 1"
definition kind_binary :: u8 where "kind_binary = 2"
definition length_bytes :: nat where "length_bytes = 4"

record application_compression_frame =
  acf_data :: bytes
  acf_is_binary :: bool

subsection \<open>The compressors\<close>

text \<open>What a reader delivers: its bytes and, if it does not reach the end, the error after them.\<close>

type_synonym reader = "bytes \<times> string option"

datatype gz_outcome = GzWriteError string | GzFinishError string | GzDone bytes

record codecs =
  gz_encode :: "bytes \<Rightarrow> gz_outcome"
  gz_reader :: "bytes \<Rightarrow> reader"
  zstd_encode_all :: "bytes \<Rightarrow> string + bytes"
  zstd_decoder :: "bytes \<Rightarrow> string + reader"

definition gzip_compress :: "codecs \<Rightarrow> bytes \<Rightarrow> catcher_error + bytes" where
  "gzip_compress cs d =
     (case gz_encode cs d of
        GzWriteError e \<Rightarrow> Err (EncodeError (''gzip write: '' @ e))
      | GzFinishError e \<Rightarrow> Err (EncodeError (''gzip finish: '' @ e))
      | GzDone c \<Rightarrow> Ok c)"

definition zstd_compress :: "codecs \<Rightarrow> bytes \<Rightarrow> catcher_error + bytes" where
  "zstd_compress cs d =
     (case zstd_encode_all cs d of
        Inl e \<Rightarrow> Err (EncodeError (''zstd encode: '' @ e)) | Inr c \<Rightarrow> Ok c)"

text \<open>
  \<open>reader.take(max as u64 + 1)\<close> stops after that many bytes and then never sees what follows;
  the addition wraps.
\<close>

definition read_limited :: "reader \<Rightarrow> u64 \<Rightarrow> string \<Rightarrow> catcher_error + bytes" where
  "read_limited r max_payload label =
     (let limit = unat (max_payload + 1); decoded = take limit (fst r)
      in case (if length (fst r) < limit then snd r else None) of
           Some e \<Rightarrow> Err (DecodeError (label @ '' decode: '' @ e))
         | None \<Rightarrow>
             if unat max_payload < length decoded
             then Err (DecodeError (label @ '' frame expands beyond max payload''))
             else Ok decoded)"

definition gzip_decompress :: "codecs \<Rightarrow> bytes \<Rightarrow> u64 \<Rightarrow> catcher_error + bytes" where
  "gzip_decompress cs d max_payload =
     read_limited (gz_reader cs d) max_payload ''gzip''"

definition zstd_decompress :: "codecs \<Rightarrow> bytes \<Rightarrow> u64 \<Rightarrow> catcher_error + bytes" where
  "zstd_decompress cs d max_payload =
     (case zstd_decoder cs d of
        Inl e \<Rightarrow> Err (DecodeError (''zstd decoder: '' @ e))
      | Inr r \<Rightarrow> read_limited r max_payload ''zstd'')"

subsection \<open>Frames\<close>

definition algorithm_to_wire :: "application_compression_algorithm \<Rightarrow> u8" where
  "algorithm_to_wire a = (case a of Gzip \<Rightarrow> algorithm_gzip | Zstd \<Rightarrow> algorithm_zstd)"

definition wire_to_algorithm :: "u8 \<Rightarrow> catcher_error + application_compression_algorithm" where
  "wire_to_algorithm v =
     (if v = algorithm_gzip then Ok Gzip
      else if v = algorithm_zstd then Ok Zstd
      else Err (DecodeError (''unknown application compression algorithm: '' @ show_word v)))"

definition to_be_bytes :: "u32 \<Rightarrow> bytes" where
  "to_be_bytes w =
     [ucast (drop_bit 24 w), ucast (drop_bit 16 w), ucast (drop_bit 8 w), ucast w]"

definition from_be_bytes :: "u8 \<Rightarrow> u8 \<Rightarrow> u8 \<Rightarrow> u8 \<Rightarrow> u32" where
  "from_be_bytes a b c d =
     push_bit 24 (ucast a) OR push_bit 16 (ucast b) OR push_bit 8 (ucast c) OR ucast d"

definition encode_application_compression_frame ::
  "codecs \<Rightarrow> bytes \<Rightarrow> bool \<Rightarrow> application_compression_config \<Rightarrow> catcher_error + bytes option" where
  "encode_application_compression_frame cs d is_binary config =
     (if \<not> ac_enabled config \<or> length d < unat (ac_threshold_bytes config) then Ok None
      else if 2 ^ 32 - 1 < length d
      then Err (EncodeError ''application compression payload exceeds u32 length'')
      else bind_res
        (case ac_algorithm config of Gzip \<Rightarrow> gzip_compress cs d | Zstd \<Rightarrow> zstd_compress cs d)
        (\<lambda>compressed. Ok (Some
           (application_compression_magic
            @ [algorithm_to_wire (ac_algorithm config), if is_binary then kind_binary else kind_text]
            @ to_be_bytes (of_nat (length d)) @ compressed))))"

definition decode_application_compression_frame ::
  "codecs \<Rightarrow> bytes \<Rightarrow> u64 \<Rightarrow> catcher_error + application_compression_frame option" where
  "decode_application_compression_frame cs d max_payload =
     (let m = length application_compression_magic; header_len = m + 2 + length_bytes
      in if \<not> starts_with d application_compression_magic then Ok None
         else if length d < header_len
         then Err (DecodeError ''application compression frame is truncated'')
         else bind_res (wire_to_algorithm (d ! m)) (\<lambda>algorithm.
           let kind = d ! (m + 1); l = m + 2;
               expected_len = unat (from_be_bytes (d ! l) (d ! (l + 1)) (d ! (l + 2)) (d ! (l + 3)))
           in if unat max_payload < expected_len
              then Err (DecodeError (''application compression frame expands beyond max payload: ''
                     @ dec expected_len @ '' > '' @ show_word max_payload))
              else let payload = drop header_len d in
              bind_res
                (case algorithm of
                   Gzip \<Rightarrow> gzip_decompress cs payload max_payload
                 | Zstd \<Rightarrow> zstd_decompress cs payload max_payload)
                (\<lambda>decoded.
                   if length decoded \<noteq> expected_len
                   then Err (DecodeError (''application compression length mismatch: expected ''
                          @ dec expected_len @ '', got '' @ dec (length decoded)))
                   else if kind = kind_text then Ok (Some \<lparr>acf_data = decoded, acf_is_binary = False\<rparr>)
                   else if kind = kind_binary then Ok (Some \<lparr>acf_data = decoded, acf_is_binary = True\<rparr>)
                   else Err (DecodeError (''unknown application compression message kind: ''
                          @ show_word kind)))))"

subsection \<open>Lemmas\<close>

lemma from_be_bytes_of_bytes:
  "from_be_bytes (ucast (drop_bit 24 w)) (ucast (drop_bit 16 w)) (ucast (drop_bit 8 w)) (ucast w) = w"
proof (rule bit_word_eqI)
  fix n assume "n < LENGTH(32)"
  then consider "n < 8" | "8 \<le> n" "n < 16" | "16 \<le> n" "n < 24" | "24 \<le> n" "n < 32" by fastforce
  then show "bit (from_be_bytes (ucast (drop_bit 24 w)) (ucast (drop_bit 16 w))
      (ucast (drop_bit 8 w)) (ucast w)) n = bit w n"
    by cases (auto simp: from_be_bytes_def bit_simps)
qed

lemma to_be_bytes_eq: "\<exists>a b c d. to_be_bytes w = [a, b, c, d] \<and> from_be_bytes a b c d = w"
  unfolding to_be_bytes_def using from_be_bytes_of_bytes by blast

lemma length_magic [simp]: "length application_compression_magic = 13"
  by (simp add: application_compression_magic_def)

lemma wire_algorithm [simp]: "wire_to_algorithm (algorithm_to_wire a) = Ok a"
  by (cases a) (simp_all add: wire_to_algorithm_def algorithm_to_wire_def algorithm_gzip_def
    algorithm_zstd_def)

text \<open>A frame laid out as the encoder does: what the decoder reads from it.\<close>

lemma decode_frame:
  assumes n: "n < 2 ^ 32"
  shows "decode_application_compression_frame cs
      (application_compression_magic @ [algorithm_to_wire a, k] @ to_be_bytes (of_nat n) @ c) max_payload =
    (if unat max_payload < n
     then Err (DecodeError (''application compression frame expands beyond max payload: ''
            @ dec n @ '' > '' @ show_word max_payload))
     else bind_res (case a of Gzip \<Rightarrow> gzip_decompress cs c max_payload
                            | Zstd \<Rightarrow> zstd_decompress cs c max_payload)
       (\<lambda>decoded.
          if length decoded \<noteq> n
          then Err (DecodeError (''application compression length mismatch: expected ''
                 @ dec n @ '', got '' @ dec (length decoded)))
          else if k = kind_text then Ok (Some \<lparr>acf_data = decoded, acf_is_binary = False\<rparr>)
          else if k = kind_binary then Ok (Some \<lparr>acf_data = decoded, acf_is_binary = True\<rparr>)
          else Err (DecodeError (''unknown application compression message kind: '' @ show_word k))))"
proof -
  obtain b0 b1 b2 b3 where b: "to_be_bytes (of_nat n) = [b0, b1, b2, b3]"
    "from_be_bytes b0 b1 b2 b3 = of_nat n"
    using to_be_bytes_eq [of "of_nat n"] by blast
  have u: "unat (of_nat n :: u32) = n" using n by (simp add: unat_of_nat take_bit_nat_eq_self)
  let ?x = "application_compression_magic @ [algorithm_to_wire a, k] @ [b0, b1, b2, b3] @ c"
  have nths: "?x ! 13 = algorithm_to_wire a" "?x ! (13 + 1) = k" "?x ! (13 + 2) = b0"
    "?x ! (13 + 2 + 1) = b1" "?x ! (13 + 2 + 2) = b2" "?x ! (13 + 2 + 3) = b3"
    "drop (13 + 2 + 4) ?x = c"
    by (simp_all add: nth_append)
  have g: "starts_with ?x application_compression_magic" "\<not> length ?x < 13 + 2 + 4"
    by simp_all
  show ?thesis
    unfolding decode_application_compression_frame_def Let_def length_magic length_bytes_def b nths u
      wire_algorithm bind_res_simps
    by (simp only: g if_False if_True not_True_eq_False)
qed

lemma read_limited_length:
  assumes "read_limited r max_payload l = Ok d"
  shows "length d \<le> unat max_payload \<and> (\<exists>rest. fst r = d @ rest)"
proof -
  from assms have d: "d = take (unat (max_payload + 1)) (fst r)" and l: "length d \<le> unat max_payload"
    by (auto simp: read_limited_def Let_def split: option.splits if_splits)
  have "fst r = d @ drop (unat (max_payload + 1)) (fst r)"
    unfolding d by simp
  with l show ?thesis by blast
qed

lemma read_limited_complete:
  assumes "length d \<le> unat max_payload" and "max_payload \<noteq> - 1"
  shows "read_limited (d, None) max_payload l = Ok d"
proof -
  have "unat (max_payload + 1) = Suc (unat max_payload)"
    by (rule unat_plus_one_if_not_max) (rule assms)
  with assms show ?thesis by (simp add: read_limited_def Let_def)
qed

text \<open>What the code relies on: a decompressor returns what its compressor was given.\<close>

definition lossless :: "codecs \<Rightarrow> bool" where
  "lossless cs \<longleftrightarrow>
     (\<forall>d c. gz_encode cs d = GzDone c \<longrightarrow> gz_reader cs c = (d, None)) \<and>
     (\<forall>d c. zstd_encode_all cs d = Inr c \<longrightarrow> zstd_decoder cs c = Inr (d, None))"

lemma encode_frame_cases:
  assumes "encode_application_compression_frame cs d b config = Ok (Some f)"
  obtains c where "f = application_compression_magic @
      [algorithm_to_wire (ac_algorithm config), if b then kind_binary else kind_text]
      @ to_be_bytes (of_nat (length d)) @ c"
    and "length d < 2 ^ 32"
    and "(case ac_algorithm config of Gzip \<Rightarrow> gzip_compress cs d | Zstd \<Rightarrow> zstd_compress cs d) = Ok c"
  using assms
  by (auto simp: encode_application_compression_frame_def bind_res_Ok_iff split: if_splits)

lemma frame_roundtrip:
  assumes "lossless cs" and "encode_application_compression_frame cs d b config = Ok (Some f)"
    and "length d \<le> unat max_payload" and "max_payload \<noteq> - 1"
  shows "decode_application_compression_frame cs f max_payload =
    Ok (Some \<lparr>acf_data = d, acf_is_binary = b\<rparr>)"
proof -
  obtain c where f: "f = application_compression_magic @
      [algorithm_to_wire (ac_algorithm config), if b then kind_binary else kind_text]
      @ to_be_bytes (of_nat (length d)) @ c"
    and l: "length d < 2 ^ 32"
    and c: "(case ac_algorithm config of Gzip \<Rightarrow> gzip_compress cs d | Zstd \<Rightarrow> zstd_compress cs d) = Ok c"
    using encode_frame_cases [OF assms(2)] .
  have "(case ac_algorithm config of Gzip \<Rightarrow> gzip_decompress cs c max_payload
      | Zstd \<Rightarrow> zstd_decompress cs c max_payload) = Ok d"
    using c assms(1) read_limited_complete [OF assms(3,4)]
    by (cases "ac_algorithm config") (auto simp: gzip_compress_def zstd_compress_def lossless_def
      gzip_decompress_def zstd_decompress_def split: gz_outcome.splits sum.splits)
  then show ?thesis
    using assms(3) unfolding f decode_frame [OF l] by (simp add: kind_text_def kind_binary_def)
qed

end
