(* ===== verification/Ws_Messages.thy ===== *)
theory Ws_Messages
  imports App_Compression
begin

section \<open>WebSocket messages\<close>

text \<open>
  Models the message layer of \<^verbatim>\<open>catcher-ws/src/transport/ws_client.rs\<close>: what a text or binary
  message becomes on the wire and what a received frame is reported as, and the choice of the
  connection backend and of the handshake headers.  The codecs of JSON and MessagePack are an
  argument, with \<open>'v\<close> the type of a JSON value.  A frame is an opcode with its payload.
\<close>

datatype ws_frame =
    TextFrame bytes
  | BinaryFrame bytes
  | PingFrame bytes
  | PongFrame bytes
  | CloseFrame "u16 option" "string option"
  | ContinuationFrame bytes

record 'v value_codec =
  json_from_str :: "string \<Rightarrow> 'v option"
  json_to_string :: "'v \<Rightarrow> string option"
  msgpack_to_vec :: "'v \<Rightarrow> bytes option"
  msgpack_from_slice :: "bytes \<Rightarrow> 'v option"

definition as_bytes :: "string \<Rightarrow> bytes" where
  "as_bytes s = map of_char s"

subsection \<open>Encoding and decoding\<close>

definition maybe_compress ::
  "codecs \<Rightarrow> bytes \<Rightarrow> bool \<Rightarrow> ws_client_config \<Rightarrow> catcher_error + bytes option" where
  "maybe_compress cs d is_binary config =
     (if per_message_deflate config then Ok None
      else case application_compression config of
             None \<Rightarrow> Ok None
           | Some ac \<Rightarrow> encode_application_compression_frame cs d is_binary ac)"

definition encode_binary_message ::
  "codecs \<Rightarrow> bytes \<Rightarrow> ws_client_config \<Rightarrow> catcher_error + ws_frame" where
  "encode_binary_message cs d config =
     bind_res (maybe_compress cs d True config)
       (\<lambda>f. Ok (BinaryFrame (case f of Some fr \<Rightarrow> fr | None \<Rightarrow> d)))"

definition text_as_msgpack :: "'v value_codec \<Rightarrow> string \<Rightarrow> ws_client_config \<Rightarrow> bytes option" where
  "text_as_msgpack vc t config =
     (if ws_msgpack config
      then case json_from_str vc t of Some v \<Rightarrow> msgpack_to_vec vc v | None \<Rightarrow> None
      else None)"

definition encode_text_message ::
  "codecs \<Rightarrow> 'v value_codec \<Rightarrow> string \<Rightarrow> ws_client_config \<Rightarrow> catcher_error + ws_frame" where
  "encode_text_message cs vc t config =
     (case text_as_msgpack vc t config of
        Some bin \<Rightarrow> encode_binary_message cs bin config
      | None \<Rightarrow>
          bind_res (maybe_compress cs (as_bytes t) False config)
            (\<lambda>f. Ok (case f of Some fr \<Rightarrow> BinaryFrame fr | None \<Rightarrow> TextFrame (as_bytes t))))"

definition decode_binary_message ::
  "codecs \<Rightarrow> 'v value_codec \<Rightarrow> bytes \<Rightarrow> ws_client_config \<Rightarrow> catcher_error + (bytes \<times> bool)" where
  "decode_binary_message cs vc d config =
     bind_res (decode_application_compression_frame cs d (max_payload_bytes config)) (\<lambda>fr.
       let (payload, is_binary) =
             (case fr of Some f \<Rightarrow> (acf_data f, acf_is_binary f) | None \<Rightarrow> (d, True))
       in Ok (case (if ws_msgpack config \<and> is_binary
                    then case msgpack_from_slice vc payload of
                           Some v \<Rightarrow> json_to_string vc v | None \<Rightarrow> None
                    else None) of
                Some json \<Rightarrow> (as_bytes json, False)
              | None \<Rightarrow> (payload, is_binary)))"

text \<open>The event a data frame is reported as.\<close>

definition data_event ::
  "codecs \<Rightarrow> 'v value_codec \<Rightarrow> ws_client_config \<Rightarrow> ws_frame \<Rightarrow> ws_event option" where
  "data_event cs vc config fr =
     (case fr of
        TextFrame d \<Rightarrow> Some (EvMessage d False)
      | BinaryFrame d \<Rightarrow>
          Some (case decode_binary_message cs vc d config of
                  Inr (m, b) \<Rightarrow> EvMessage m b
                | Inl e \<Rightarrow> EvError (display e))
      | _ \<Rightarrow> None)"

subsection \<open>Commands\<close>

text \<open>What the handle asks of the connection task, and the frame of a message.\<close>

datatype ws_command =
    CmdText string
  | CmdBinary bytes
  | CmdClose u16 string
  | CmdNetworkChanged

definition encode_command ::
  "codecs \<Rightarrow> 'v value_codec \<Rightarrow> ws_client_config \<Rightarrow> ws_command
    \<Rightarrow> (catcher_error + ws_frame) option" where
  "encode_command cs vc config cmd =
     (case cmd of
        CmdText t \<Rightarrow> Some (encode_text_message cs vc t config)
      | CmdBinary d \<Rightarrow> Some (encode_binary_message cs d config)
      | _ \<Rightarrow> None)"

subsection \<open>Backend and handshake\<close>

definition application_compression_algorithm_name :: "application_compression_algorithm \<Rightarrow> string" where
  "application_compression_algorithm_name a = (case a of Gzip \<Rightarrow> ''gzip'' | Zstd \<Rightarrow> ''zstd'')"

text \<open>The parser of the \<open>url\<close> crate yields the scheme and the parsed URL, or an error text.\<close>

definition parse_ws_url :: "(string \<Rightarrow> string + (string \<times> 'u)) \<Rightarrow> string \<Rightarrow> catcher_error + 'u" where
  "parse_ws_url parse url =
     (case parse url of
        Inl e \<Rightarrow> Err (Internal (''invalid WS URL: '' @ e))
      | Inr (scheme, u) \<Rightarrow>
          if scheme = ''ws'' \<or> scheme = ''wss'' then Ok u
          else Err (InvalidConfig (''unsupported WS URL scheme: '' @ scheme)))"

text \<open>
  The \<open>http\<close> crate's header map keeps names in lower case; \<open>insert\<close> replaces the entries of that
  name.  The checks of names and values are arguments.
\<close>

definition header_insert :: "string \<Rightarrow> string \<Rightarrow> header_map \<Rightarrow> header_map" where
  "header_insert k v h =
     filter (\<lambda>(k', _). k' \<noteq> map ascii_lower k) h @ [(map ascii_lower k, v)]"

fun user_headers ::
  "(string \<Rightarrow> string option) \<Rightarrow> (string \<Rightarrow> string option) \<Rightarrow> header_map \<Rightarrow> header_map
    \<Rightarrow> catcher_error + header_map" where
  "user_headers bad_name bad_value [] h = Ok h"
| "user_headers bad_name bad_value ((k, v) # kvs) h =
     (case bad_name k of
        Some e \<Rightarrow> Err (Internal (''invalid header name '' @ [CHR 0x27] @ k @ [CHR 0x27] @ '': '' @ e))
      | None \<Rightarrow>
          case bad_value v of
            Some e \<Rightarrow> Err (Internal (''invalid header value for '' @ [CHR 0x27] @ k @ [CHR 0x27]
                              @ '': '' @ e))
          | None \<Rightarrow> user_headers bad_name bad_value kvs (header_insert k v h))"

fun join :: "'a list \<Rightarrow> 'a list list \<Rightarrow> 'a list" where
  "join sep [] = []"
| "join sep [x] = x"
| "join sep (x # xs) = x @ sep @ join sep xs"

definition checked_insert ::
  "(string \<Rightarrow> string option) \<Rightarrow> string \<Rightarrow> string \<Rightarrow> string \<Rightarrow> header_map \<Rightarrow> catcher_error + header_map" where
  "checked_insert bad_value msg k v h =
     (case bad_value v of
        Some e \<Rightarrow> Err (Internal (msg @ e)) | None \<Rightarrow> Ok (header_insert k v h))"

definition build_handshake_headers ::
  "(string \<Rightarrow> string option) \<Rightarrow> (string \<Rightarrow> string option) \<Rightarrow> ws_client_config
    \<Rightarrow> catcher_error + header_map" where
  "build_handshake_headers bad_name bad_value config =
     bind_res (user_headers bad_name bad_value (ws_headers config) []) (\<lambda>h.
     bind_res
       (case (per_message_deflate config, application_compression config) of
          (False, Some ac) \<Rightarrow>
            if ac_enabled ac
            then bind_res (checked_insert bad_value ''invalid compression header: ''
                   ''X-Catcher-Application-Compression''
                   (application_compression_algorithm_name (ac_algorithm ac)) h) (\<lambda>h.
                 bind_res (checked_insert bad_value ''invalid compression format header: ''
                   ''X-Catcher-Application-Compression-Format'' ''CATCHER-CMP-1'' h) (\<lambda>h.
                 checked_insert bad_value ''invalid compression threshold header: ''
                   ''X-Catcher-Application-Compression-Threshold''
                   (show_word (ac_threshold_bytes ac)) h))
            else Ok h
        | _ \<Rightarrow> Ok h) (\<lambda>h.
     if ws_protocols config = [] then Ok h
     else checked_insert bad_value ''invalid protocols: '' ''Sec-WebSocket-Protocol''
            (join '', '' (ws_protocols config)) h))"

definition has_advanced_tls :: "tls_config \<Rightarrow> bool" where
  "has_advanced_tls t \<longleftrightarrow>
     \<not> reject_unauthorized t \<or> ca_cert_pem t \<noteq> None \<or> ca_cert_path t \<noteq> None
     \<or> client_cert_pem t \<noteq> None \<or> client_cert_path t \<noteq> None \<or> client_key_pem t \<noteq> None
     \<or> client_key_path t \<noteq> None \<or> client_identity_pfx t \<noteq> None
     \<or> client_identity_password t \<noteq> None \<or> tls_sni_override t \<noteq> None
     \<or> min_tls_version t \<noteq> None \<or> max_tls_version t \<noteq> None
     \<or> (case pin_sha256 t of Some pins \<Rightarrow> pins \<noteq> [] | None \<Rightarrow> False)"

datatype ws_backend = NativeBackend | ReqwestBackend

definition needs_reqwest_backend :: "ws_client_config \<Rightarrow> bool" where
  "needs_reqwest_backend config \<longleftrightarrow>
     has_advanced_tls (ws_tls config) \<or> ws_proxy config \<noteq> None
     \<or> (case ws_dns config of Some d \<Rightarrow> use_catcher_resolver d | None \<Rightarrow> False)"

subsection \<open>Round trip\<close>

text \<open>Whether a message is sent in an application-level frame.\<close>

definition framed :: "ws_client_config \<Rightarrow> bytes \<Rightarrow> bool" where
  "framed config d \<longleftrightarrow> \<not> per_message_deflate config \<and>
     (\<exists>ac. application_compression config = Some ac \<and> ac_enabled ac \<and>
        unat (ac_threshold_bytes ac) \<le> length d)"

definition payload_of :: "ws_command \<Rightarrow> bytes" where
  "payload_of cmd = (case cmd of CmdText t \<Rightarrow> as_bytes t | CmdBinary d \<Rightarrow> d | _ \<Rightarrow> [])"

definition is_binary_command :: "ws_command \<Rightarrow> bool" where
  "is_binary_command cmd = (case cmd of CmdBinary _ \<Rightarrow> True | _ \<Rightarrow> False)"

lemma compression_result:
  assumes "maybe_compress cs d b config = Ok fr"
  shows "(framed config d \<longrightarrow> (\<exists>ac f. fr = Some f \<and>
      encode_application_compression_frame cs d b ac = Ok (Some f))) \<and> (\<not> framed config d \<longrightarrow> fr = None)"
  using assms
  by (auto simp: maybe_compress_def framed_def encode_application_compression_frame_def bind_res_Ok_iff
    split: bool.splits option.splits if_splits)

lemma decode_not_frame:
  "\<not> starts_with d application_compression_magic \<Longrightarrow>
     decode_application_compression_frame cs d m = Ok None"
  by (simp add: decode_application_compression_frame_def Let_def)

text \<open>
  What goes over the wire, with its kind: a JSON text becomes MessagePack when the configuration says
  so.  And what is made of it at the other end: binary data that decode as MessagePack become JSON
  text.
\<close>

definition sent_as :: "'v value_codec \<Rightarrow> ws_client_config \<Rightarrow> ws_command \<Rightarrow> bytes \<times> bool" where
  "sent_as vc config cmd =
     (case cmd of
        CmdText t \<Rightarrow>
          (case text_as_msgpack vc t config of Some bin \<Rightarrow> (bin, True) | None \<Rightarrow> (as_bytes t, False))
      | _ \<Rightarrow> (payload_of cmd, is_binary_command cmd))"

definition received_as :: "'v value_codec \<Rightarrow> ws_client_config \<Rightarrow> bytes \<times> bool \<Rightarrow> bytes \<times> bool" where
  "received_as vc config m =
     (case (if ws_msgpack config \<and> snd m
            then case msgpack_from_slice vc (fst m) of
                   Some v \<Rightarrow> json_to_string vc v | None \<Rightarrow> None
            else None) of
        Some json \<Rightarrow> (as_bytes json, False)
      | None \<Rightarrow> m)"

lemma decode_binary_plain:
  assumes "\<not> starts_with d application_compression_magic"
  shows "decode_binary_message cs vc d config = Ok (received_as vc config (d, True))"
  using assms by (simp add: decode_binary_message_def decode_not_frame received_as_def)

lemma decode_binary_framed:
  assumes "lossless cs"
    and "encode_application_compression_frame cs d b ac = Ok (Some f)"
    and "length d \<le> unat (max_payload_bytes config)" and "max_payload_bytes config \<noteq> - 1"
  shows "decode_binary_message cs vc f config = Ok (received_as vc config (d, b))"
  using frame_roundtrip [OF assms] by (simp add: decode_binary_message_def received_as_def)

lemma encoded_frame:
  assumes "encode_command cs vc config cmd = Some (Ok f)" and "sent_as vc config cmd = (d, b)"
  shows "if framed config d
    then \<exists>ac g. f = BinaryFrame g \<and> encode_application_compression_frame cs d b ac = Ok (Some g)
    else f = (if b then BinaryFrame d else TextFrame d)"
  using assms
  by (cases cmd)
    (auto simp: encode_command_def encode_text_message_def sent_as_def payload_of_def
      encode_binary_message_def is_binary_command_def bind_res_Ok_iff
      dest!: compression_result split: option.splits)

lemma text_received: "received_as vc config (d, False) = (d, False)"
  by (simp add: received_as_def)

text \<open>
  C15. What arrives of a message that two ends with the same configuration exchange, compressed or
  not: with MessagePack switched off, the message as it was sent, with its kind.  With it switched
  on, a text that is no JSON arrives unchanged; a JSON text travels as MessagePack and arrives as the
  text printed for the value its decoding gives; and a binary message whose bytes happen to decode
  as MessagePack arrives not as itself but as JSON text, any other one unchanged.  The conditions:
  lossless codecs, an encoding that succeeds, a payload on the wire within the limit (itself below the
  largest 64-bit integer), and no uncompressed binary payload that begins with the magic of the
  compression frames.
\<close>

theorem message_roundtrip:
  assumes "lossless cs"
    and "encode_command cs vc config cmd = Some (Ok f)"
    and "sent_as vc config cmd = (d, b)"
    and "length d \<le> unat (max_payload_bytes config)"
    and "max_payload_bytes config \<noteq> - 1"
    and "b \<Longrightarrow> starts_with d application_compression_magic \<Longrightarrow> framed config d"
    and "received_as vc config (d, b) = (m, k)"
  shows "data_event cs vc config f = Some (EvMessage m k) \<and>
    (\<not> ws_msgpack config \<longrightarrow> m = payload_of cmd \<and> k = is_binary_command cmd) \<and>
    (\<forall>t. cmd = CmdText t \<longrightarrow> json_from_str vc t = None \<longrightarrow> m = as_bytes t \<and> \<not> k) \<and>
    (\<forall>t v bin u t'. cmd = CmdText t \<longrightarrow> ws_msgpack config \<longrightarrow> json_from_str vc t = Some v \<longrightarrow>
       msgpack_to_vec vc v = Some bin \<longrightarrow> msgpack_from_slice vc bin = Some u \<longrightarrow>
       json_to_string vc u = Some t' \<longrightarrow> m = as_bytes t' \<and> \<not> k) \<and>
    (\<forall>u t'. cmd = CmdBinary d \<longrightarrow> ws_msgpack config \<longrightarrow> msgpack_from_slice vc d = Some u \<longrightarrow>
       json_to_string vc u = Some t' \<longrightarrow> m = as_bytes t' \<and> \<not> k) \<and>
    (cmd = CmdBinary d \<longrightarrow> msgpack_from_slice vc d = None \<longrightarrow> m = d \<and> k)"
proof -
  have "data_event cs vc config f = Some (EvMessage m k)"
  proof (cases "framed config d")
    case True
    with encoded_frame [OF assms(2,3)] obtain ac g where g: "f = BinaryFrame g"
      "encode_application_compression_frame cs d b ac = Ok (Some g)" by auto
    with decode_binary_framed [OF assms(1) g(2) assms(4,5), of vc] assms(7) show ?thesis
      by (simp add: data_event_def)
  next
    case False
    with encoded_frame [OF assms(2,3)] have "f = (if b then BinaryFrame d else TextFrame d)" by simp
    moreover have "decode_binary_message cs vc d config = Ok (m, k)" if b
      using that assms(6,7) False decode_binary_plain [of d cs vc config] by auto
    moreover have "m = d \<and> \<not> k" if "\<not> b" using that assms(7) by (simp add: text_received)
    ultimately show ?thesis by (auto simp: data_event_def)
  qed
  moreover have "m = payload_of cmd \<and> k = is_binary_command cmd" if "\<not> ws_msgpack config"
    using that assms(3,7)
    by (cases cmd) (auto simp: sent_as_def received_as_def text_as_msgpack_def payload_of_def
      is_binary_command_def)
  ultimately show ?thesis using assms(3,7)
    by (auto simp: sent_as_def received_as_def text_as_msgpack_def payload_of_def is_binary_command_def
      split: if_splits)
qed

text \<open>Codecs that copy, and a configuration that frames every message.\<close>

definition copying_codecs :: codecs where
  "copying_codecs =
     \<lparr>gz_encode = GzDone, gz_reader = (\<lambda>d. (d, None)), zstd_encode_all = Inr,
      zstd_decoder = (\<lambda>d. Inr (d, None))\<rparr>"

definition framing_config :: ws_client_config where
  "framing_config = default_ws_client_config\<lparr>per_message_deflate := False,
     application_compression := Some (default_application_compression_config\<lparr>ac_threshold_bytes := 0\<rparr>)\<rparr>"

definition no_values :: "unit value_codec" where
  "no_values = \<lparr>json_from_str = (\<lambda>_. None), json_to_string = (\<lambda>_. None),
     msgpack_to_vec = (\<lambda>_. None), msgpack_from_slice = (\<lambda>_. None)\<rparr>"

lemma copying_lossless: "lossless copying_codecs"
  by (simp add: lossless_def copying_codecs_def)

text \<open>
  A value codec with one value, and both configurations: a message that begins with the magic is
  framed and comes back, and with MessagePack the byte 1 arrives as a text.
\<close>

definition one_value :: "unit value_codec" where
  "one_value = \<lparr>json_from_str = (\<lambda>t. if t = ''true'' then Some () else None),
     json_to_string = (\<lambda>_. Some ''true''), msgpack_to_vec = (\<lambda>_. Some [1]),
     msgpack_from_slice = (\<lambda>d. if d = [1] then Some () else None)\<rparr>"

theorem message_roundtrip_witness:
  "\<exists>f g h. encode_command copying_codecs no_values framing_config (CmdBinary application_compression_magic)
      = Some (Ok f) \<and>
    data_event copying_codecs no_values framing_config f
      = Some (EvMessage application_compression_magic True) \<and>
    encode_command copying_codecs one_value (framing_config\<lparr>ws_msgpack := True\<rparr>) (CmdText ''true'')
      = Some (Ok g) \<and>
    data_event copying_codecs one_value (framing_config\<lparr>ws_msgpack := True\<rparr>) g
      = Some (EvMessage (as_bytes ''true'') False) \<and>
    encode_command copying_codecs one_value (framing_config\<lparr>ws_msgpack := True\<rparr>) (CmdBinary [1])
      = Some (Ok h) \<and>
    data_event copying_codecs one_value (framing_config\<lparr>ws_msgpack := True\<rparr>) h
      = Some (EvMessage (as_bytes ''true'') False)"
proof -
  let ?cfg = "framing_config\<lparr>ws_msgpack := True\<rparr>"
  note enc = encode_command_def encode_binary_message_def encode_text_message_def text_as_msgpack_def
    maybe_compress_def framing_config_def encode_application_compression_frame_def
    default_application_compression_config_def gzip_compress_def copying_codecs_def one_value_def
  obtain f where f: "encode_command copying_codecs no_values framing_config
      (CmdBinary application_compression_magic) = Some (Ok f)" by (simp add: enc)
  obtain g where g: "encode_command copying_codecs one_value ?cfg (CmdText ''true'') = Some (Ok g)"
    by (simp add: enc)
  obtain h where h: "encode_command copying_codecs one_value ?cfg (CmdBinary [1]) = Some (Ok h)"
    by (simp add: enc)
  have c: "framed framing_config d" "framed ?cfg d" "max_payload_bytes framing_config \<noteq> - 1"
    "max_payload_bytes ?cfg \<noteq> - 1" "unat (max_payload_bytes framing_config) = 67108864"
    "unat (max_payload_bytes ?cfg) = 67108864" for d
    by (simp_all add: framed_def framing_config_def default_application_compression_config_def
      default_ws_client_config_def)
  note s = sent_as_def payload_of_def is_binary_command_def text_as_msgpack_def one_value_def
    received_as_def framing_config_def default_ws_client_config_def
  have "data_event copying_codecs no_values framing_config f
      = Some (EvMessage application_compression_magic True)"
    using message_roundtrip [OF copying_lossless f, of application_compression_magic True
        application_compression_magic True] c
    by (simp add: s)
  moreover have "data_event copying_codecs one_value ?cfg g = Some (EvMessage (as_bytes ''true'') False)"
    using message_roundtrip [OF copying_lossless g, of "[1]" True "as_bytes ''true''" False] c by (simp add: s)
  moreover have "data_event copying_codecs one_value ?cfg h = Some (EvMessage (as_bytes ''true'') False)"
    using message_roundtrip [OF copying_lossless h, of "[1]" True "as_bytes ''true''" False] c by (simp add: s)
  ultimately show ?thesis using f g h by blast
qed

text \<open>
  A binary message that is sent uncompressed and begins with the magic of the compression
  frames, shorter than a frame's header, is not delivered: the receiver reports a decoding error.
\<close>

theorem magic_prefix_lost:
  assumes "\<not> framed config d" and "encode_command cs vc config (CmdBinary d) = Some (Ok f)"
    and "d = application_compression_magic @ rest" and "length rest < 6"
  shows "data_event cs vc config f =
    Some (EvError (display (DecodeError ''application compression frame is truncated'')))"
proof -
  have "f = BinaryFrame d"
    using assms(1,2)
    by (auto simp: encode_command_def encode_binary_message_def bind_res_Ok_iff dest!: compression_result)
  with assms(3,4) show ?thesis
    by (simp add: data_event_def decode_binary_message_def decode_application_compression_frame_def
      length_bytes_def)
qed

theorem magic_prefix_lost_witness:
  "data_event copying_codecs no_values default_ws_client_config
      (BinaryFrame (application_compression_magic @ [0])) =
    Some (EvError (display (DecodeError ''application compression frame is truncated'')))"
  by (rule magic_prefix_lost [where rest = "[0]" and d = "application_compression_magic @ [0]"])
    (simp_all add: framed_def default_ws_client_config_def encode_command_def
      encode_binary_message_def maybe_compress_def)

text \<open>
  Whatever bytes the peer sends and whatever the decompressor makes of them, a frame that is
  accepted holds at most the configured number of bytes, and exactly as many as its header
  announces.
\<close>

theorem decompression_bounded:
  assumes "decode_application_compression_frame cs d max_payload = Ok (Some fr)"
  shows "length (acf_data fr) \<le> unat max_payload \<and>
    length (acf_data fr) = unat (from_be_bytes (d ! 15) (d ! 16) (d ! 17) (d ! 18))"
proof -
  have l: "Suc (Suc (Suc (13 + 2))) = (18::nat)" by simp
  from assms show ?thesis
    by (auto simp: decode_application_compression_frame_def Let_def bind_res_Ok_iff
      split: if_splits)
qed

theorem decompression_bounded_witness:
  "\<exists>fr. decode_application_compression_frame copying_codecs
      (application_compression_magic @ [1, 2, 0, 0, 0, 2, 7, 8]) 16 = Ok (Some fr) \<and>
    length (acf_data fr) = 2"
proof -
  let ?x = "application_compression_magic @ [1, 2, 0, 0, 0, 2, 7, 8] :: bytes"
  obtain fr where fr: "decode_application_compression_frame copying_codecs ?x 16 = Ok (Some fr)"
    using decode_frame [of 2 copying_codecs Gzip 2 "[7, 8]" 16]
    by (simp add: to_be_bytes_def algorithm_to_wire_def algorithm_gzip_def kind_text_def
      kind_binary_def gzip_decompress_def read_limited_def copying_codecs_def)
  from decompression_bounded [OF fr] have "length (acf_data fr) = unat (from_be_bytes 0 0 0 2)"
    by (simp add: nth_append)
  with fr show ?thesis by (simp add: from_be_bytes_def)
qed

end
