(* ===== verification/Client_Builder.thy ===== *)
theory Client_Builder
  imports Ws_Messages Utf8 Retry
begin

section \<open>Client construction: TLS, pinning, proxies\<close>

text \<open>
  Models \<^verbatim>\<open>catcher-http/src/transport/tls.rs\<close> and \<^verbatim>\<open>tls_pinning.rs\<close>, \<^verbatim>\<open>catcher-dns/src/proxy.rs\<close>,
  \<open>build_middleware_client\<close> of \<^verbatim>\<open>http_client.rs\<close> and the client builder and connection context of
  \<^verbatim>\<open>catcher-ws/src/transport/ws_client.rs\<close>, with the crates' default features (\<open>rustls-tls\<close>,
  \<open>hickory-dns\<close>; no \<open>native-tls\<close>).  A \<open>reqwest\<close> builder is the list of the calls made on it, in
  order; the library's parsers, the file system and the operating system's proxy settings are
  arguments.
\<close>

subsection \<open>The builder and its environment\<close>

record pinned_tls =
  pt_web_roots :: bool
  pt_roots :: "bytes list"
  pt_pins :: "bytes list"

datatype builder_call =
    ConnectTimeout u64
  | PoolMaxIdlePerHost nat
  | PoolIdleTimeout u64
  | TcpKeepalive "u64 option"
  | TcpKeepaliveInterval "u64 option"
  | TcpKeepaliveRetries "u32 option"
  | AcceptInvalidCerts
  | AddRootCertificate bytes
  | SetIdentity string
  | MinTlsVersion tls_version
  | MaxTlsVersion tls_version
  | UsePreconfiguredTls pinned_tls
  | SetDnsResolver dns_config
  | NoProxyAtAll
  | UseProxy string "proxy_auth option" "string option"
  | RedirectNone
  | RedirectLimited nat
  | DefaultHeaders header_map

record tls_env =
  fs_read :: "string \<Rightarrow> string + bytes"
  fs_read_to_string :: "string \<Rightarrow> string + string"
  certificate_error :: "bytes \<Rightarrow> string option"
  identity_error :: "string \<Rightarrow> string option"
  pem_certificates :: "bytes \<Rightarrow> (string + bytes) list"
  root_error :: "bytes \<Rightarrow> string option"
  verifier_error :: "bool \<Rightarrow> bytes list \<Rightarrow> string option"
  base64_decode :: "string \<Rightarrow> bytes option"

definition map_err :: "('e \<Rightarrow> 'f) \<Rightarrow> 'e + 'a \<Rightarrow> 'f + 'a" where
  "map_err f r = (case r of Inl e \<Rightarrow> Inl (f e) | Inr v \<Rightarrow> Inr v)"

definition check :: "(string \<Rightarrow> catcher_error) \<Rightarrow> string option \<Rightarrow> catcher_error + unit" where
  "check f e = (case e of Some s \<Rightarrow> Err (f s) | None \<Rightarrow> Ok ())"

subsection \<open>Certificates\<close>

text \<open>
  The HTTP and the WebSocket client add certificates in the same way; \<open>w\<close> is the word their
  error texts differ in.
\<close>

definition ca_cert_pem_calls :: "tls_env \<Rightarrow> string \<Rightarrow> tls_config \<Rightarrow> catcher_error + builder_call list" where
  "ca_cert_pem_calls env w t =
     (case ca_cert_pem t of
        None \<Rightarrow> Ok []
      | Some pem \<Rightarrow>
          bind_res (check (\<lambda>e. TlsError (''parse '' @ w @ ''CA cert PEM: '' @ e))
                      (certificate_error env (as_bytes pem)))
            (\<lambda>_. Ok [AddRootCertificate (as_bytes pem)]))"

definition ca_cert_path_calls :: "tls_env \<Rightarrow> string \<Rightarrow> tls_config \<Rightarrow> catcher_error + builder_call list" where
  "ca_cert_path_calls env w t =
     (case ca_cert_path t of
        None \<Rightarrow> Ok []
      | Some path \<Rightarrow>
          bind_res (map_err (\<lambda>e. TlsError (''read '' @ w @ ''CA cert file '' @ path @ '': '' @ e))
                      (fs_read env path)) (\<lambda>pem.
          bind_res (check (\<lambda>e. TlsError (''parse '' @ w @ ''CA cert file '' @ path @ '': '' @ e))
                      (certificate_error env pem))
            (\<lambda>_. Ok [AddRootCertificate pem])))"

definition identity_pem :: "string \<Rightarrow> string \<Rightarrow> string" where
  "identity_pem cert key = cert @ [CHR 0x0A] @ key"

definition identity_pem_calls :: "tls_env \<Rightarrow> string \<Rightarrow> tls_config \<Rightarrow> catcher_error + builder_call list" where
  "identity_pem_calls env w t =
     (case (client_cert_pem t, client_key_pem t) of
        (Some cert, Some key) \<Rightarrow>
          bind_res (check (\<lambda>e. TlsError (''parse '' @ w @ ''client identity PEM: '' @ e))
                      (identity_error env (identity_pem cert key)))
            (\<lambda>_. Ok [SetIdentity (identity_pem cert key)])
      | _ \<Rightarrow> Ok [])"

definition identity_path_calls :: "tls_env \<Rightarrow> string \<Rightarrow> tls_config \<Rightarrow> catcher_error + builder_call list" where
  "identity_path_calls env w t =
     (case (client_cert_path t, client_key_path t) of
        (Some cp, Some kp) \<Rightarrow>
          bind_res (map_err (\<lambda>e. TlsError (''read '' @ w @ ''client cert '' @ cp @ '': '' @ e))
                      (fs_read_to_string env cp)) (\<lambda>cert.
          bind_res (map_err (\<lambda>e. TlsError (''read '' @ w @ ''client key '' @ kp @ '': '' @ e))
                      (fs_read_to_string env kp)) (\<lambda>key.
          bind_res (check (\<lambda>e. TlsError (''parse '' @ w @ ''client identity from files: '' @ e))
                      (identity_error env (identity_pem cert key)))
            (\<lambda>_. Ok [SetIdentity (identity_pem cert key)])))
      | _ \<Rightarrow> Ok [])"

definition tls_version_calls :: "tls_config \<Rightarrow> builder_call list" where
  "tls_version_calls t =
     (case min_tls_version t of Some v \<Rightarrow> [MinTlsVersion v] | None \<Rightarrow> [])
     @ (case max_tls_version t of Some v \<Rightarrow> [MaxTlsVersion v] | None \<Rightarrow> [])"

definition pins_configured :: "tls_config \<Rightarrow> bool" where
  "pins_configured t = (case pin_sha256 t of Some pins \<Rightarrow> pins \<noteq> [] | None \<Rightarrow> False)"

text \<open>The calls that the standard path of both clients makes between the guards.\<close>

definition certificate_calls :: "tls_env \<Rightarrow> string \<Rightarrow> tls_config \<Rightarrow> catcher_error + builder_call list" where
  "certificate_calls env w t =
     bind_res (ca_cert_pem_calls env w t) (\<lambda>a.
     bind_res (ca_cert_path_calls env w t) (\<lambda>b.
     bind_res (identity_pem_calls env w t) (\<lambda>c.
     bind_res (identity_path_calls env w t) (\<lambda>d.
     Ok ((if reject_unauthorized t then [] else [AcceptInvalidCerts]) @ a @ b @ c @ d)))))"

subsection \<open>Certificate pinning\<close>

fun add_roots :: "tls_env \<Rightarrow> string \<Rightarrow> (string + bytes) list \<Rightarrow> bytes list \<Rightarrow> catcher_error + bytes list" where
  "add_roots env msg [] roots = Ok roots"
| "add_roots env msg (Inl e # cs) roots = Err (TlsError (''parse PEM cert: '' @ e))"
| "add_roots env msg (Inr c # cs) roots =
     (case root_error env c of
        Some e \<Rightarrow> Err (TlsError (msg @ e))
      | None \<Rightarrow> add_roots env msg cs (roots @ [c]))"

text \<open>\<open>PinningVerifier::new\<close>: pins that do not decode to 32 bytes are dropped.\<close>

definition pinning_pins :: "tls_env \<Rightarrow> string list \<Rightarrow> bytes list" where
  "pinning_pins env pins =
     filter (\<lambda>b. length b = 32) (List.map_filter (\<lambda>p. base64_decode env (trim p)) pins)"

definition pin_mismatch :: string where
  "pin_mismatch = ''certificate pin mismatch: none of the configured SHA-256 pins match the server certificate''"

text \<open>\<open>verify_server_cert\<close>: the chain's verdict, and then the digest of the certificate.\<close>

definition verify_server_cert ::
  "(bytes \<Rightarrow> bytes) \<Rightarrow> bytes list \<Rightarrow> (string + 'v) \<Rightarrow> bytes \<Rightarrow> string + 'v" where
  "verify_server_cert sha256 pins verdict cert =
     bind_res verdict (\<lambda>verified.
       if pins \<noteq> [] \<and> \<not> list_ex (\<lambda>pin. pin = sha256 cert) pins then Err pin_mismatch
       else Ok verified)"

definition build_tls_with_pinning :: "tls_env \<Rightarrow> tls_config \<Rightarrow> catcher_error + builder_call list" where
  "build_tls_with_pinning env t =
     bind_res (case ca_cert_pem t of
                 None \<Rightarrow> Ok []
               | Some pem \<Rightarrow> add_roots env ''add CA cert: '' (pem_certificates env (as_bytes pem)) [])
       (\<lambda>roots.
     bind_res (case ca_cert_path t of
                 None \<Rightarrow> Ok roots
               | Some path \<Rightarrow>
                   bind_res (map_err (\<lambda>e. TlsError (''read CA cert file '' @ path @ '': '' @ e))
                               (fs_read env path))
                     (\<lambda>pem. add_roots env ''add CA cert from file: '' (pem_certificates env pem) roots))
       (\<lambda>roots.
     bind_res (check (\<lambda>e. TlsError (''build webpki verifier: '' @ e))
                 (verifier_error env (reject_unauthorized t) roots)) (\<lambda>_.
     Ok [UsePreconfiguredTls
           \<lparr>pt_web_roots = reject_unauthorized t, pt_roots = roots,
            pt_pins = pinning_pins env (case pin_sha256 t of Some ps \<Rightarrow> ps | None \<Rightarrow> [])\<rparr>])))"

definition sni_unsupported_http :: string where
  "sni_unsupported_http = ''tls.tls_sni_override is not supported on the native transport: reqwest cannot override the SNI hostname. Omit the field, or use the TS agent path which supports it.''"

definition build_tls_config :: "tls_env \<Rightarrow> tls_config \<Rightarrow> catcher_error + builder_call list" where
  "build_tls_config env t =
     (if tls_sni_override t \<noteq> None then Err (InvalidConfig sni_unsupported_http)
      else if pins_configured t then build_tls_with_pinning env t
      else bind_res (certificate_calls env '''' t) (\<lambda>cs. Ok (cs @ tls_version_calls t)))"

text \<open>The WebSocket client's version.\<close>

definition build_reqwest_tls_config :: "tls_env \<Rightarrow> tls_config \<Rightarrow> catcher_error + builder_call list" where
  "build_reqwest_tls_config env t =
     (if pins_configured t then Err (InvalidConfig ''ws tls.pin_sha256 is not supported yet'')
      else bind_res (certificate_calls env ''WS '' t) (\<lambda>cs.
        if client_identity_pfx t \<noteq> None
        then Err (InvalidConfig ''ws tls.client_identity_pfx requires native-tls and is not supported by catcher-ws'')
        else if tls_sni_override t \<noteq> None
        then Err (InvalidConfig ''ws tls.tls_sni_override is not supported: reqwest cannot override the SNI hostname'')
        else Ok (cs @ tls_version_calls t)))"

subsection \<open>System proxy\<close>

text \<open>What \<open>proxy_cfg\<close> reports: proxies by scheme and the hosts that bypass them.\<close>

record os_proxies =
  os_map :: "string \<rightharpoonup> string"
  os_whitelist :: "string list"

fun contains_str :: "string \<Rightarrow> string \<Rightarrow> bool" where
  "contains_str [] p = (p = [])"
| "contains_str (c # s) p = (starts_with (c # s) p \<or> contains_str s p)"

definition detect_system_proxy :: "os_proxies option \<Rightarrow> proxy_config option" where
  "detect_system_proxy reported =
     (case reported of
        None \<Rightarrow> None
      | Some os \<Rightarrow>
          case (case os_map os ''https'' of
                  Some u \<Rightarrow> Some u
                | None \<Rightarrow> (case os_map os ''http'' of Some u \<Rightarrow> Some u | None \<Rightarrow> os_map os ''*'')) of
            None \<Rightarrow> None
          | Some url \<Rightarrow>
              Some \<lparr>proxy_mode = Manual,
                    proxy_url = Some (if contains_str url ''://'' then url else ''http://'' @ url),
                    proxy_auth = None, no_proxy = os_whitelist os\<rparr>)"

fun add_missing :: "string list \<Rightarrow> string list \<Rightarrow> string list" where
  "add_missing xs [] = xs"
| "add_missing xs (e # es) = add_missing (if e \<in> set xs then xs else xs @ [e]) es"

definition system_proxy_or_direct :: "proxy_config option \<Rightarrow> string list \<Rightarrow> proxy_config" where
  "system_proxy_or_direct detected user_no_proxy =
     (case detected of
        Some p \<Rightarrow> p\<lparr>no_proxy := add_missing (no_proxy p) user_no_proxy\<rparr>
      | None \<Rightarrow> \<lparr>proxy_mode = Direct, proxy_url = None, proxy_auth = None, no_proxy = user_no_proxy\<rparr>)"

text \<open>The proxy with which a client is rebuilt after a network change.\<close>

definition redetect_proxy :: "os_proxies option \<Rightarrow> proxy_config option \<Rightarrow> proxy_config option" where
  "redetect_proxy reported proxy =
     (case proxy of
        Some p \<Rightarrow>
          if proxy_mode p = System
          then Some (system_proxy_or_direct (detect_system_proxy reported) (no_proxy p))
          else proxy
      | None \<Rightarrow> None)"

text \<open>
  The calls for a proxy configuration.  The address without a URL is a panic; the check of the
  address is the library's.
\<close>

definition proxy_calls ::
  "(string \<Rightarrow> string option) \<Rightarrow> string \<Rightarrow> proxy_config option \<Rightarrow> (catcher_error + builder_call list) exec" where
  "proxy_calls url_error msg proxy =
     (case proxy of
        None \<Rightarrow> Done (Ok [])
      | Some p \<Rightarrow>
          if proxy_mode p = Direct \<or> (proxy_mode p = System \<and> proxy_url p = None)
          then Done (Ok [NoProxyAtAll])
          else (case transport_url p of
                  Panic \<Rightarrow> Panic
                | Done u \<Rightarrow>
                    Done (case url_error u of
                            Some e \<Rightarrow> Err (InvalidConfig (msg @ e))
                          | None \<Rightarrow> Ok [UseProxy u (proxy_auth p)
                              (if no_proxy p = [] then None else Some (join '','' (no_proxy p)))])))"

subsection \<open>The HTTP client\<close>

definition base64_charset :: string where
  "base64_charset = ''ABCDEFGHIJKLMNOPQRSTUVWXYZabcdefghijklmnopqrstuvwxyz0123456789+/''"

text \<open>The group of up to three bytes as a 24-bit number, and its four symbols.\<close>

fun chunk_value :: "nat \<Rightarrow> bytes \<Rightarrow> u32" where
  "chunk_value i [] = 0"
| "chunk_value i (b # bs) = push_bit (16 - i * 8) (ucast b) OR chunk_value (Suc i) bs"

definition base64_symbol :: "bytes \<Rightarrow> nat \<Rightarrow> char" where
  "base64_symbol chunk i =
     (if i \<le> length chunk
      then base64_charset ! unat (drop_bit (18 - i * 6) (chunk_value 0 chunk) AND 0x3F)
      else CHR ''='')"

fun base64_encode_bytes :: "bytes \<Rightarrow> string" where
  "base64_encode_bytes [] = []"
| "base64_encode_bytes [a] = map (base64_symbol [a]) [0..<4]"
| "base64_encode_bytes [a, b] = map (base64_symbol [a, b]) [0..<4]"
| "base64_encode_bytes (a # b # c # bs) =
     map (base64_symbol [a, b, c]) [0..<4] @ base64_encode_bytes bs"

definition base64_encode :: "string \<Rightarrow> string" where
  "base64_encode s = base64_encode_bytes (as_bytes s)"

definition auth_calls ::
  "(string \<Rightarrow> string option) \<Rightarrow> http_client_config \<Rightarrow> catcher_error + builder_call list" where
  "auth_calls header_error config =
     bind_res
       (case http_auth config of
          None \<Rightarrow> Ok []
        | Some a \<Rightarrow>
            let v = ''Basic '' @ base64_encode (username a @ '':'' @ password a)
            in bind_res (check (\<lambda>e. InvalidConfig (''invalid basic auth header: '' @ e)) (header_error v))
                 (\<lambda>_. Ok [DefaultHeaders [(''authorization'', v)]])) (\<lambda>basic.
     bind_res
       (case bearer_token config of
          None \<Rightarrow> Ok []
        | Some token \<Rightarrow>
            let v = ''Bearer '' @ token
            in bind_res (check (\<lambda>e. InvalidConfig (''invalid bearer token header: '' @ e)) (header_error v))
                 (\<lambda>_. Ok [DefaultHeaders [(''authorization'', v)]])) (\<lambda>bearer.
     Ok (basic @ bearer)))"

definition pool_calls :: "http_client_config \<Rightarrow> builder_call list" where
  "pool_calls config =
     (let p = http_pool config;
          interval = (if keep_alive p then Some (keep_alive_interval_secs p) else None)
      in [ConnectTimeout (connect_timeout_ms config), PoolMaxIdlePerHost (max_idle_per_host p),
          PoolIdleTimeout (idle_timeout_secs p), TcpKeepalive interval,
          TcpKeepaliveInterval interval, TcpKeepaliveRetries (if keep_alive p then Some 3 else None)])"

definition redirect_calls :: "http_client_config \<Rightarrow> builder_call list" where
  "redirect_calls config =
     (case http_redirect config of
        Some r \<Rightarrow> if redirect_follow r then [RedirectLimited (unat (max_redirects r))] else [RedirectNone]
      | None \<Rightarrow> [])"

text \<open>\<open>build_exec\<close> threads a result that may be a panic.\<close>

definition bind_exec :: "('e + 'a) exec \<Rightarrow> ('a \<Rightarrow> ('e + 'b) exec) \<Rightarrow> ('e + 'b) exec" where
  "bind_exec r f =
     (case r of Panic \<Rightarrow> Panic | Done (Inl e) \<Rightarrow> Done (Inl e) | Done (Inr v) \<Rightarrow> f v)"

record lib_env =
  le_tls :: tls_env
  proxy_url_error :: "string \<Rightarrow> string option"
  header_name_error :: "string \<Rightarrow> string option"
  header_value_error :: "string \<Rightarrow> string option"
  build_error :: "builder_call list \<Rightarrow> string option"

text \<open>A built client: the calls it was built from and its retry policy.\<close>

record http_client =
  hc_calls :: "builder_call list"
  hc_retry :: "retry_config option"

definition build_middleware_client ::
  "lib_env \<Rightarrow> dns_config option \<Rightarrow> http_client_config \<Rightarrow> (catcher_error + http_client) exec" where
  "build_middleware_client env dns_resolver config =
     bind_exec (Done (build_tls_config (le_tls env) (http_tls config))) (\<lambda>tls.
     bind_exec (proxy_calls (proxy_url_error env) ''invalid proxy URL: '' (http_proxy config)) (\<lambda>proxy.
     bind_exec (Done (auth_calls (header_value_error env) config)) (\<lambda>auth.
     let calls = pool_calls config @ tls
                 @ (case dns_resolver of Some d \<Rightarrow> [SetDnsResolver d] | None \<Rightarrow> [])
                 @ proxy @ redirect_calls config @ auth
     in Done (case build_error env calls of
                Some e \<Rightarrow> Err (Internal (''reqwest build error: '' @ e))
              | None \<Rightarrow> Ok \<lparr>hc_calls = calls, hc_retry = http_retry config\<rparr>))))"

subsection \<open>The WebSocket client\<close>

definition build_reqwest_client ::
  "lib_env \<Rightarrow> (dns_config \<Rightarrow> catcher_error option) \<Rightarrow> ws_client_config
    \<Rightarrow> (catcher_error + builder_call list) exec" where
  "build_reqwest_client env resolver_error config =
     bind_exec (Done (build_reqwest_tls_config (le_tls env) (ws_tls config))) (\<lambda>tls.
     bind_exec (Done
       (case ws_dns config of
          Some d \<Rightarrow>
            if use_catcher_resolver d
            then (case resolver_error d of Some e \<Rightarrow> Err e | None \<Rightarrow> Ok [SetDnsResolver d])
            else Ok []
        | None \<Rightarrow> Ok [])) (\<lambda>dns.
     bind_exec (proxy_calls (proxy_url_error env) ''invalid WS proxy URL: '' (ws_proxy config)) (\<lambda>proxy.
     bind_exec (Done (build_handshake_headers (header_name_error env) (header_value_error env) config))
       (\<lambda>headers.
     let calls = (if 0 < handshake_timeout_ms config
                  then [ConnectTimeout (handshake_timeout_ms config)] else [])
                 @ tls @ dns @ proxy @ (if headers = [] then [] else [DefaultHeaders headers])
     in Done (case build_error env calls of
                Some e \<Rightarrow> Err (Internal (''WS reqwest build error: '' @ e))
              | None \<Rightarrow> Ok calls)))))"

record ws_connect_context =
  wc_backend :: ws_backend
  wc_reqwest_client :: "builder_call list option"

definition build_connect_context ::
  "lib_env \<Rightarrow> (dns_config \<Rightarrow> catcher_error option) \<Rightarrow> ws_client_config
    \<Rightarrow> (catcher_error + ws_connect_context) exec" where
  "build_connect_context env resolver_error config =
     (if needs_reqwest_backend config
      then bind_exec (build_reqwest_client env resolver_error config)
             (\<lambda>c. Done (Ok \<lparr>wc_backend = ReqwestBackend, wc_reqwest_client = Some c\<rparr>))
      else Done (Ok \<lparr>wc_backend = NativeBackend, wc_reqwest_client = None\<rparr>))"

definition build_reqwest_client_for_network_change ::
  "lib_env \<Rightarrow> (dns_config \<Rightarrow> catcher_error option) \<Rightarrow> os_proxies option \<Rightarrow> ws_client_config
    \<Rightarrow> (catcher_error + builder_call list) exec" where
  "build_reqwest_client_for_network_change env resolver_error reported config =
     build_reqwest_client env resolver_error
       (config\<lparr>ws_proxy := redetect_proxy reported (ws_proxy config)\<rparr>)"

text \<open>The rebuilt context and the error event, if any.\<close>

definition rebuild_after_network_change ::
  "lib_env \<Rightarrow> (dns_config \<Rightarrow> catcher_error option) \<Rightarrow> os_proxies option \<Rightarrow> ws_client_config
    \<Rightarrow> ws_connect_context \<Rightarrow> (ws_connect_context \<times> ws_event list) exec" where
  "rebuild_after_network_change env resolver_error reported config ctx =
     (if wc_backend ctx \<noteq> ReqwestBackend then Done (ctx, [])
      else case build_reqwest_client_for_network_change env resolver_error reported config of
             Panic \<Rightarrow> Panic
           | Done (Inr c) \<Rightarrow> Done (ctx\<lparr>wc_reqwest_client := Some c\<rparr>, [])
           | Done (Inl e) \<Rightarrow>
               Done (ctx, [EvError (''network changed client rebuild failed: '' @ display e)]))"

subsection \<open>Properties of the proxy settings\<close>

lemma bind_exec_Ok_iff:
  "bind_exec r f = Done (Inr b) \<longleftrightarrow> (\<exists>a. r = Done (Inr a) \<and> f a = Done (Inr b))"
  by (cases r) (auto simp: bind_exec_def split: sum.splits)

definition proxy_decided :: "builder_call list \<Rightarrow> bool" where
  "proxy_decided calls \<longleftrightarrow> NoProxyAtAll \<in> set calls
     \<or> (\<exists>u a n. UseProxy u a n \<in> set calls \<and> \<not> resolves_locally u)"

lemma proxy_calls_decided:
  assumes "proxy_calls err msg proxy = Done (Ok calls)" and "proxy \<noteq> None"
  shows "proxy_decided calls"
proof -
  from assms(2) obtain p where p: "proxy = Some p" by blast
  show ?thesis
  proof (cases "NoProxyAtAll \<in> set calls")
    case False
    with assms(1) p obtain u where u: "transport_url p = Done u"
      "calls = [UseProxy u (proxy_auth p)
        (if no_proxy p = [] then None else Some (join '','' (no_proxy p)))]"
      by (auto simp: proxy_calls_def split: if_splits exec.splits option.splits)
    with transport_url_remote [OF u(1)] show ?thesis by (auto simp: proxy_decided_def)
  qed (simp add: proxy_decided_def)
qed

lemma redetect_keeps_Some: "proxy \<noteq> None \<Longrightarrow> redetect_proxy reported proxy \<noteq> None"
  by (auto simp: redetect_proxy_def)

lemma detected_has_url: "detect_system_proxy reported = Some p \<Longrightarrow> \<exists>u. proxy_url p = Some u"
  by (auto simp: detect_system_proxy_def split: option.splits)

text \<open>A client that was configured with \<open>System\<close> is rebuilt without a panic.\<close>

lemma redetected_no_panic:
  assumes "proxy = Some p" and "proxy_mode p = System"
  shows "proxy_calls err msg (redetect_proxy reported proxy) \<noteq> Panic"
proof (cases "detect_system_proxy reported")
  case None
  then show ?thesis using assms
    by (simp add: redetect_proxy_def system_proxy_or_direct_def proxy_calls_def)
next
  case (Some q)
  obtain u where "proxy_url q = Some u" using detected_has_url [OF Some] by blast
  then show ?thesis using assms Some
    by (auto simp: redetect_proxy_def system_proxy_or_direct_def proxy_calls_def transport_url_def
      split: option.splits exec.splits)
qed

text \<open>
  C17. A client whose configuration names a proxy, in whatever mode, never falls back to the
  library's automatic proxy, neither when first built nor when rebuilt after a network change:
  the builder is told to use none or a given one, and a given one resolves names remotely.  A
  \<open>System\<close> client is rebuilt without a panic whatever the operating system reports.
\<close>

theorem proxy_always_decided:
  assumes "http_proxy config \<noteq> None"
    and "redetected = config \<or> redetected = config\<lparr>http_proxy := redetect_proxy reported (http_proxy config)\<rparr>"
    and "build_middleware_client env dns redetected = Done (Ok client)"
  shows "proxy_decided (hc_calls client)"
proof -
  have n: "http_proxy redetected \<noteq> None" using assms(1,2) redetect_keeps_Some by auto
  from assms(3) obtain b where
    p: "proxy_calls (proxy_url_error env) ''invalid proxy URL: '' (http_proxy redetected) = Done (Ok b)"
    and h: "\<forall>x \<in> set b. x \<in> set (hc_calls client)"
    by (auto simp: build_middleware_client_def bind_exec_Ok_iff Let_def split: option.splits)
  from proxy_calls_decided [OF p n] h show ?thesis by (auto simp: proxy_decided_def)
qed

definition permissive_tls :: tls_env where
  "permissive_tls =
     \<lparr>fs_read = (\<lambda>_. Ok []), fs_read_to_string = (\<lambda>_. Ok []), certificate_error = (\<lambda>_. None),
      identity_error = (\<lambda>_. None), pem_certificates = (\<lambda>_. []), root_error = (\<lambda>_. None),
      verifier_error = (\<lambda>_ _. None), base64_decode = (\<lambda>s. if s = ''ok'' then Some (replicate 32 0) else None)\<rparr>"

definition permissive_env :: lib_env where
  "permissive_env =
     \<lparr>le_tls = permissive_tls, proxy_url_error = (\<lambda>_. None), header_name_error = (\<lambda>_. None),
      header_value_error = (\<lambda>_. None), build_error = (\<lambda>_. None)\<rparr>"

theorem proxy_always_decided_witness:
  "\<exists>client. build_middleware_client permissive_env None
      (default_http_client_config\<lparr>http_proxy := redetect_proxy None
        (Some (default_proxy_config\<lparr>proxy_mode := System\<rparr>))\<rparr>) = Done (Ok client) \<and>
    proxy_decided (hc_calls client)"
proof -
  define cfg where "cfg = default_http_client_config\<lparr>http_proxy := Some (default_proxy_config\<lparr>proxy_mode := System\<rparr>)\<rparr>"
  define cfg2 where "cfg2 = cfg\<lparr>http_proxy := redetect_proxy None (http_proxy cfg)\<rparr>"
  obtain client where c: "build_middleware_client permissive_env None cfg2 = Done (Ok client)"
    by (auto simp: build_middleware_client_def cfg_def cfg2_def permissive_env_def permissive_tls_def
      bind_exec_def build_tls_config_def default_http_client_config_def default_tls_config_def
      pins_configured_def certificate_calls_def ca_cert_pem_calls_def ca_cert_path_calls_def
      identity_pem_calls_def identity_path_calls_def proxy_calls_def redetect_proxy_def
      default_proxy_config_def system_proxy_or_direct_def detect_system_proxy_def auth_calls_def Let_def)
  from c have "proxy_decided (hc_calls client)"
    by (rule proxy_always_decided [where config = cfg and reported = None, rotated 2])
      (simp_all add: cfg_def cfg2_def)
  with c show ?thesis by (auto simp: cfg2_def cfg_def)
qed

subsection \<open>What pinning enforces\<close>

lemma set_pinning_pins:
  "set (pinning_pins env pins) =
     {b. length b = 32 \<and> (\<exists>p \<in> set pins. base64_decode env (trim p) = Some b)}"
  by (force simp: pinning_pins_def List.map_filter_def)

text \<open>
  C18. With pins configured and the client built, the TLS set-up is the pinning one alone (client
  certificates and version limits of the configuration are not applied), and a server is accepted
  exactly when its chain is and the SHA-256 digest of its whole certificate is among the pins that
  decode to 32 bytes, or none of the configured pins does.  The documentation of the setting speaks
  of the fingerprint of the public key: a pin of that kind is compared with another digest, and a renewed certificate
  with the same key is refused.
\<close>

theorem pinned_client_exact:
  assumes "pins_configured t" and "pin_sha256 t = Some pins" and "build_tls_config env t = Ok calls"
    and "length (sha256 cert) = 32"
  shows "\<exists>pt. calls = [UsePreconfiguredTls pt] \<and>
    (verify_server_cert sha256 (pt_pins pt) verdict cert = Ok v \<longleftrightarrow>
      verdict = Ok v \<and>
      ((\<exists>p \<in> set pins. base64_decode env (trim p) = Some (sha256 cert)) \<or>
       (\<forall>p \<in> set pins. \<forall>b. base64_decode env (trim p) = Some b \<longrightarrow> length b \<noteq> 32)))"
proof -
  from assms(1-3) obtain pt where pt: "calls = [UsePreconfiguredTls pt]" "pt_pins pt = pinning_pins env pins"
    by (auto simp: build_tls_config_def build_tls_with_pinning_def bind_res_Ok_iff split: if_splits)
  have e: "pinning_pins env pins = [] \<longleftrightarrow> set (pinning_pins env pins) = {}" by simp
  have "verify_server_cert sha256 (pinning_pins env pins) verdict cert = Ok v \<longleftrightarrow>
    verdict = Ok v \<and> (pinning_pins env pins = [] \<or> sha256 cert \<in> set (pinning_pins env pins))"
    by (cases verdict) (auto simp: verify_server_cert_def list_ex_iff)
  then show ?thesis unfolding e set_pinning_pins using pt assms(4) by auto
qed

theorem pinned_client_exact_witness:
  "\<exists>calls pt. build_tls_config permissive_tls (default_tls_config\<lparr>pin_sha256 := Some [''oops!'']\<rparr>) = Ok calls
    \<and> calls = [UsePreconfiguredTls pt] \<and>
    verify_server_cert (\<lambda>_. replicate 32 1) (pt_pins pt) (Ok ()) [] = Ok ()"
proof -
  define t where "t = default_tls_config\<lparr>pin_sha256 := Some [''oops!'']\<rparr>"
  have p: "pins_configured t" "pin_sha256 t = Some [''oops!'']"
    by (simp_all add: t_def pins_configured_def)
  obtain calls where c: "build_tls_config permissive_tls t = Ok calls"
    by (simp add: t_def build_tls_config_def build_tls_with_pinning_def default_tls_config_def
      pins_configured_def permissive_tls_def check_def)
  have d: "base64_decode permissive_tls (trim ''oops!'') = None" by code_simp
  from pinned_client_exact [OF p c, of "\<lambda>_. replicate 32 1" "[]" "Ok ()" "()"] d c
  show ?thesis by (auto simp: t_def)
qed

end
