(* ===== verification/Ws_Connection.thy ===== *)
theory Ws_Connection
  imports Client_Builder "HOL-Library.Sublist"
begin

section \<open>The WebSocket connection manager\<close>

text \<open>
  Models the connection task of \<^verbatim>\<open>catcher-ws/src/transport/ws_client.rs\<close> (\<open>WsHandle\<close>,
  \<open>WsTransport::connect\<close>, \<open>connection_manager\<close> and what it calls) and \<^verbatim>\<open>multi_endpoint.rs\<close>.  The task is
  a state machine: its phase is the \<open>await\<close> it is suspended at, and a step is what it does from one
  \<open>await\<close> to the next.  An input names the future that completed with what it returned: a command
  taken from the channel, a timer, a frame, the end of a connection attempt.  What the sockets do is
  part of the inputs; the events and the frames written are logged.
\<close>

subsection \<open>Sending with a timeout\<close>

text \<open>When a send on the socket ends, in milliseconds, and how; it may never end.\<close>

datatype sink_outcome = SinkOk nat | SinkErr nat | SinkHangs

definition send_frame_with_timeout :: "u64 \<Rightarrow> sink_outcome \<Rightarrow> send_status option" where
  "send_frame_with_timeout timeout_ms out =
     (if timeout_ms = 0
      then (case out of SinkOk _ \<Rightarrow> Some Sent | SinkErr _ \<Rightarrow> Some Failed | SinkHangs \<Rightarrow> None)
      else (case out of
              SinkOk t \<Rightarrow> Some (if t \<le> unat timeout_ms then Sent else TimedOut)
            | SinkErr t \<Rightarrow> Some (if t \<le> unat timeout_ms then Failed else TimedOut)
            | SinkHangs \<Rightarrow> Some TimedOut))"

record 'v ws_env =
  we_codecs :: codecs
  we_values :: "'v value_codec"
  we_lib :: lib_env
  we_resolver_error :: "dns_config \<Rightarrow> catcher_error option"

text \<open>
  \<open>replay_buffered_commands\<close>: \<open>sink k\<close> is the fate of the \<open>k\<close>-th send; the frames written, and the
  status (\<open>None\<close>: a send never ends).
\<close>

fun replay_buffered_commands ::
  "'v ws_env \<Rightarrow> ws_client_config \<Rightarrow> (nat \<Rightarrow> sink_outcome) \<Rightarrow> nat \<Rightarrow> ws_command list
    \<Rightarrow> ws_frame list \<times> send_status option" where
  "replay_buffered_commands env config sink k [] = ([], Some Sent)"
| "replay_buffered_commands env config sink k (cmd # cmds) =
     (case encode_command (we_codecs env) (we_values env) config cmd of
        Some (Inr f) \<Rightarrow>
          (case send_frame_with_timeout (send_timeout_ms config) (sink k) of
             Some Sent \<Rightarrow>
               (case replay_buffered_commands env config sink (Suc k) cmds of
                  (fs, st) \<Rightarrow> (f # fs, st))
           | st \<Rightarrow> ([], st))
      | _ \<Rightarrow> replay_buffered_commands env config sink k cmds)"

definition replay_disconnect_reason :: "send_status \<Rightarrow> string option" where
  "replay_disconnect_reason st =
     (case st of
        Sent \<Rightarrow> None
      | Failed \<Rightarrow> Some ''replay send failed''
      | TimedOut \<Rightarrow> Some ''replay send timeout'')"

subsection \<open>Endpoints\<close>

text \<open>How the connection attempt to an endpoint ends; a spawned task may also panic.\<close>

datatype task_result = ConnectedIn u64 | ConnectFailed catcher_error | TaskPanicked string

text \<open>The first success in the order in which the attempts end.\<close>

fun first_connected :: "string list \<Rightarrow> (nat \<Rightarrow> task_result) \<Rightarrow> nat list \<Rightarrow> (string \<times> u64) option" where
  "first_connected urls res [] = None"
| "first_connected urls res (i # is) =
     (case res i of
        ConnectedIn lat \<Rightarrow> Some (urls ! i, lat)
      | _ \<Rightarrow> first_connected urls res is)"

definition connect_one :: "string \<Rightarrow> task_result \<Rightarrow> (catcher_error + (string \<times> u64)) exec" where
  "connect_one url r =
     (case r of
        ConnectedIn lat \<Rightarrow> Done (Ok (url, lat))
      | ConnectFailed e \<Rightarrow> Done (Err e)
      | TaskPanicked _ \<Rightarrow> Panic)"

definition race ::
  "string list \<Rightarrow> u32 \<Rightarrow> (nat \<Rightarrow> task_result) \<Rightarrow> nat list \<Rightarrow> (catcher_error + (string \<times> u64)) exec" where
  "race all_urls width res order =
     (let urls = take (unat width) all_urls
      in case urls of
           [] \<Rightarrow> Done (Err (InvalidConfig ''no WS endpoints configured''))
         | [url] \<Rightarrow> connect_one url (res 0)
         | _ \<Rightarrow> Done (case first_connected urls res order of
                      Some c \<Rightarrow> Ok c
                    | None \<Rightarrow> Err (WsAllEndpointsFailed (length all_urls))))"

definition connect_any_endpoint ::
  "ws_client_config \<Rightarrow> (nat \<Rightarrow> task_result) \<Rightarrow> nat list \<Rightarrow> (catcher_error + (string \<times> u64)) exec" where
  "connect_any_endpoint config res order =
     (if 1 < length (ws_urls config) \<or> 1 < race_count config
      then race (ws_urls config) (max (of_nat (length (ws_urls config))) (race_count config)) res order
      else (case ws_urls config of
              [] \<Rightarrow> Done (Err (InvalidConfig ''no WS URLs configured''))
            | url # _ \<Rightarrow> connect_one url (res 0)))"

subsection \<open>The state\<close>

text \<open>
  \<open>Redialling\<close> is the immediate reconnection after a network change, \<open>Dialling\<close> an attempt after a
  backoff.  \<open>Hung\<close>: a send without a time limit never ends.
\<close>

datatype ws_phase = Online | Redialling | BackingOff u64 | Dialling | Stopped | Hung | Crashed

fun backing_off :: "ws_phase \<Rightarrow> bool" where
  "backing_off (BackingOff _) = True"
| "backing_off _ = False"

record ws_manager =
  wm_phase :: ws_phase
  wm_url :: string
  wm_reconnect :: "reconnect_manager option"
  wm_ctx :: ws_connect_context
  wm_hb :: "heartbeat_state option"
  wm_ping_ms :: "u64 option"
  wm_buffered :: "ws_command list"
  wm_race :: bool
  wm_queue :: "ws_command list"
  wm_open :: bool
  wm_taken :: "ws_command list"
  wm_conn :: nat
  wm_wire :: "(nat \<times> ws_frame) list"
  wm_events :: "ws_event list"

definition emit :: "ws_event list \<Rightarrow> ws_manager \<Rightarrow> ws_manager" where
  "emit evs m = m\<lparr>wm_events := wm_events m @ evs\<rparr>"

definition write_frames :: "ws_frame list \<Rightarrow> ws_manager \<Rightarrow> ws_manager" where
  "write_frames fs m = m\<lparr>wm_wire := wm_wire m @ map (Pair (wm_conn m)) fs\<rparr>"

text \<open>The top of the loop: the \<open>Connected\<close> event and a fresh heartbeat.\<close>

definition go_online :: "ws_client_config \<Rightarrow> string \<Rightarrow> u64 \<Rightarrow> ws_manager \<Rightarrow> ws_manager" where
  "go_online config url lat m =
     (let hb = map_option (\<lambda>c. let (ms, mgr) = hb_interval_ms (hb_new c)
                               in (ms, (hb_state_new c)\<lparr>hb_mgr := mgr\<rparr>)) (ws_heartbeat config)
      in emit [EvConnected url lat]
           (m\<lparr>wm_phase := Online, wm_url := url, wm_hb := map_option snd hb,
              wm_ping_ms := map_option fst hb\<rparr>))"

text \<open>The head of the reconnection loop: the next delay, or the end of the task.\<close>

definition next_attempt :: "ws_manager \<Rightarrow> ws_manager" where
  "next_attempt m =
     (case wm_reconnect m of
        None \<Rightarrow> m\<lparr>wm_phase := Stopped\<rparr>
      | Some rm \<Rightarrow>
          (case rc_on_disconnect rm of
             (None, rm') \<Rightarrow> m\<lparr>wm_reconnect := Some rm', wm_phase := Stopped\<rparr>
           | (Some delay, rm') \<Rightarrow>
               emit [EvReconnecting (rc_attempt rm') delay]
                 (m\<lparr>wm_reconnect := Some rm', wm_phase := BackingOff delay\<rparr>)))"

definition go_offline :: "u16 \<Rightarrow> string \<Rightarrow> ws_manager \<Rightarrow> ws_manager" where
  "go_offline code reason m =
     next_attempt (emit [EvDisconnected code reason] (m\<lparr>wm_buffered := [], wm_race := False\<rparr>))"

text \<open>
  \<open>try_recv\<close> until the channel is empty: the messages, whether a network change was seen, whether
  a \<open>Close\<close> was, and what is left behind a \<open>Close\<close>.
\<close>

fun drain :: "ws_command list \<Rightarrow> ws_command list \<times> bool \<times> bool \<times> ws_command list" where
  "drain [] = ([], False, False, [])"
| "drain (CmdClose code reason # q) = ([], False, True, q)"
| "drain (CmdNetworkChanged # q) = (case drain q of (b, n, c, r) \<Rightarrow> (b, True, c, r))"
| "drain (cmd # q) = (case drain q of (b, n, c, r) \<Rightarrow> (cmd # b, n, c, r))"

definition drain_channel :: "ws_manager \<Rightarrow> bool \<times> bool \<times> ws_manager" where
  "drain_channel m =
     (case drain (wm_queue m) of
        (b, n, c, r) \<Rightarrow>
          (n, c \<or> \<not> wm_open m,
           m\<lparr>wm_queue := r, wm_buffered := wm_buffered m @ b, wm_taken := wm_taken m @ b\<rparr>))"

definition rebuild_client ::
  "'v ws_env \<Rightarrow> ws_client_config \<Rightarrow> os_proxies option \<Rightarrow> ws_manager \<Rightarrow> ws_manager exec" where
  "rebuild_client env config reported m =
     (case rebuild_after_network_change (we_lib env) (we_resolver_error env) reported config (wm_ctx m) of
        Panic \<Rightarrow> Panic
      | Done (ctx, evs) \<Rightarrow>
          Done (emit evs (m\<lparr>wm_ctx := ctx, wm_reconnect := map_option rc_reset (wm_reconnect m)\<rparr>)))"

text \<open>A network change while connected, up to the immediate reconnection.\<close>

definition on_network_changed ::
  "'v ws_env \<Rightarrow> ws_client_config \<Rightarrow> os_proxies option \<Rightarrow> ws_manager \<Rightarrow> ws_manager" where
  "on_network_changed env config reported m =
     (let m1 = emit [EvDisconnected 1006 ''network changed''] (m\<lparr>wm_buffered := [], wm_race := True\<rparr>)
      in case drain_channel m1 of
           (_, close_requested, m2) \<Rightarrow>
             if close_requested then m2\<lparr>wm_phase := Stopped\<rparr>
             else (case rebuild_client env config reported m2 of
                     Panic \<Rightarrow> m2\<lparr>wm_phase := Crashed\<rparr>
                   | Done m3 \<Rightarrow> emit [EvReconnecting 0 0] (m3\<lparr>wm_phase := Redialling\<rparr>)))"

text \<open>The end of a backoff, by its timer or by a network change.\<close>

definition end_backoff ::
  "'v ws_env \<Rightarrow> ws_client_config \<Rightarrow> os_proxies option \<Rightarrow> bool \<Rightarrow> ws_manager \<Rightarrow> ws_manager" where
  "end_backoff env config reported skip m =
     (case drain_channel m of
        (n, abort, m1) \<Rightarrow>
          if abort then m1\<lparr>wm_phase := Stopped\<rparr>
          else if skip \<or> n
          then (case rebuild_client env config reported m1 of
                  Panic \<Rightarrow> m1\<lparr>wm_phase := Crashed\<rparr>
                | Done m2 \<Rightarrow> m2\<lparr>wm_race := True, wm_phase := Dialling\<rparr>)
          else m1\<lparr>wm_phase := Dialling\<rparr>)"

subsection \<open>Steps\<close>

text \<open>
  \<open>Post\<close> and \<open>DropHandles\<close> are what the user's side does at any time.  The other inputs resume the
  task; the clocks are nanoseconds.  \<open>DialEnds\<close> has the outcome of every endpoint, the order in which
  the attempts end and the fate of the sends of a replay.
\<close>

datatype ws_input =
    Post ws_command
  | DropHandles
  | TakeCommand sink_outcome sink_outcome "os_proxies option"
  | PingTick nat nat sink_outcome
  | Incoming "ws_frame option" nat sink_outcome
  | BackoffOver "os_proxies option"
  | DialEnds "nat \<Rightarrow> task_result" "nat list" "nat \<Rightarrow> sink_outcome"

text \<open>\<open>WsHandle::send_text\<close>, \<open>send_binary\<close>, \<open>close\<close>, \<open>network_changed\<close>: the channel is closed once the
  task has ended.\<close>

definition task_ended :: "ws_manager \<Rightarrow> bool" where
  "task_ended m \<longleftrightarrow> wm_phase m = Stopped \<or> wm_phase m = Crashed"

definition post :: "ws_command \<Rightarrow> ws_manager \<Rightarrow> (catcher_error + unit) \<times> ws_manager" where
  "post cmd m =
     (if task_ended m \<or> \<not> wm_open m then (Err (WsDisconnected 1006 ''connection closed''), m)
      else (Ok (), m\<lparr>wm_queue := wm_queue m @ [cmd]\<rparr>))"

text \<open>A message while connected: the frame is sent, or the connection is given up.\<close>

definition send_message ::
  "'v ws_env \<Rightarrow> ws_client_config \<Rightarrow> sink_outcome \<Rightarrow> ws_command \<Rightarrow> ws_manager \<Rightarrow> ws_manager" where
  "send_message env config out cmd m =
     (case encode_command (we_codecs env) (we_values env) config cmd of
        None \<Rightarrow> m
      | Some (Inl e) \<Rightarrow> emit [EvError (display e)] m
      | Some (Inr f) \<Rightarrow>
          (case send_frame_with_timeout (send_timeout_ms config) out of
             None \<Rightarrow> m\<lparr>wm_phase := Hung\<rparr>
           | Some Sent \<Rightarrow> write_frames [f] m
           | Some Failed \<Rightarrow> go_offline 1006 ''send failed'' m
           | Some TimedOut \<Rightarrow> go_offline 1006 ''send timeout'' m))"

text \<open>\<open>Close\<close>: the close frame and then the shutdown of the writer, each with the time limit.\<close>

definition close_connection ::
  "ws_client_config \<Rightarrow> sink_outcome \<Rightarrow> sink_outcome \<Rightarrow> u16 \<Rightarrow> string \<Rightarrow> ws_manager \<Rightarrow> ws_manager" where
  "close_connection config out shutdown code reason m =
     (case send_frame_with_timeout (send_timeout_ms config) out of
        None \<Rightarrow> m\<lparr>wm_phase := Hung\<rparr>
      | Some st \<Rightarrow>
          (let m1 = (if st = Sent then write_frames [CloseFrame (Some code) (Some reason)] m else m)
           in case send_frame_with_timeout (send_timeout_ms config) shutdown of
                None \<Rightarrow> m1\<lparr>wm_phase := Hung\<rparr>
              | Some _ \<Rightarrow> m1\<lparr>wm_phase := Stopped\<rparr>))"

definition online_command ::
  "'v ws_env \<Rightarrow> ws_client_config \<Rightarrow> sink_outcome \<Rightarrow> sink_outcome \<Rightarrow> os_proxies option
    \<Rightarrow> ws_command \<Rightarrow> ws_manager \<Rightarrow> ws_manager" where
  "online_command env config out shutdown reported cmd m =
     (case cmd of
        CmdClose code reason \<Rightarrow> close_connection config out shutdown code reason m
      | CmdNetworkChanged \<Rightarrow> on_network_changed env config reported m
      | _ \<Rightarrow> send_message env config out cmd (m\<lparr>wm_taken := wm_taken m @ [cmd]\<rparr>))"

definition backoff_command ::
  "'v ws_env \<Rightarrow> ws_client_config \<Rightarrow> os_proxies option \<Rightarrow> ws_command \<Rightarrow> ws_manager \<Rightarrow> ws_manager" where
  "backoff_command env config reported cmd m =
     (case cmd of
        CmdClose _ _ \<Rightarrow> m\<lparr>wm_phase := Stopped\<rparr>
      | CmdNetworkChanged \<Rightarrow> end_backoff env config reported True m
      | _ \<Rightarrow> m\<lparr>wm_buffered := wm_buffered m @ [cmd], wm_taken := wm_taken m @ [cmd]\<rparr>)"

text \<open>\<open>recv\<close> in the two phases that wait for it; \<open>None\<close> when the channel is closed and empty.\<close>

definition take_command ::
  "'v ws_env \<Rightarrow> ws_client_config \<Rightarrow> sink_outcome \<Rightarrow> sink_outcome \<Rightarrow> os_proxies option
    \<Rightarrow> ws_manager \<Rightarrow> ws_manager" where
  "take_command env config out shutdown reported m =
     (if wm_phase m = Online \<or> backing_off (wm_phase m)
      then (case wm_queue m of
              [] \<Rightarrow> if wm_open m then m else m\<lparr>wm_phase := Stopped\<rparr>
            | cmd # q \<Rightarrow>
                if wm_phase m = Online
                then online_command env config out shutdown reported cmd (m\<lparr>wm_queue := q\<rparr>)
                else backoff_command env config reported cmd (m\<lparr>wm_queue := q\<rparr>))
      else m)"

definition ping_tick ::
  "ws_client_config \<Rightarrow> nat \<Rightarrow> nat \<Rightarrow> sink_outcome \<Rightarrow> ws_manager \<Rightarrow> ws_manager" where
  "ping_tick config now now2 out m =
     (case wm_hb m of
        None \<Rightarrow> m
      | Some hb \<Rightarrow>
          if fst (hb_tick now now2 Sent hb) = HbTimeout then go_offline 1006 ''heartbeat timeout'' m
          else (case send_frame_with_timeout (send_timeout_ms config) out of
                  None \<Rightarrow> m\<lparr>wm_phase := Hung\<rparr>
                | Some st \<Rightarrow>
                    (let m1 = (if st = Sent then write_frames [PingFrame []] m else m)
                     in case hb_tick now now2 st hb of
                          (NextPing d, hb') \<Rightarrow> m1\<lparr>wm_hb := Some hb', wm_ping_ms := Some d\<rparr>
                        | _ \<Rightarrow> go_offline 1006 ''ping send timeout'' m1)))"

text \<open>A received frame; a \<open>Close\<close> is answered before the connection is given up.\<close>

definition incoming ::
  "'v ws_env \<Rightarrow> ws_client_config \<Rightarrow> ws_frame option \<Rightarrow> nat \<Rightarrow> sink_outcome \<Rightarrow> ws_manager \<Rightarrow> ws_manager" where
  "incoming env config frame now out m =
     (case frame of
        None \<Rightarrow> go_offline 1006 ''stream ended'' m
      | Some (PongFrame _) \<Rightarrow>
          (case wm_hb m of
             None \<Rightarrow> m
           | Some hb \<Rightarrow>
               (case hb_pong now hb of
                  (rtt, hb') \<Rightarrow> emit [EvHeartbeatRtt rtt] (m\<lparr>wm_hb := Some hb'\<rparr>)))
      | Some (CloseFrame c r) \<Rightarrow>
          (let code = (case c of Some x \<Rightarrow> x | None \<Rightarrow> 1006);
               reason = (case r of Some x \<Rightarrow> x | None \<Rightarrow> ''abnormal'')
           in case send_frame_with_timeout (send_timeout_ms config) out of
                None \<Rightarrow> m\<lparr>wm_phase := Hung\<rparr>
              | Some st \<Rightarrow>
                  go_offline code reason
                    (if st = Sent then write_frames [CloseFrame (Some code) (Some reason)] m else m))
      | Some f \<Rightarrow>
          (case data_event (we_codecs env) (we_values env) config f of
             Some ev \<Rightarrow> emit [ev] m | None \<Rightarrow> m))"

text \<open>A connection was made: the buffered messages are replayed on it.\<close>

definition stream_connected ::
  "'v ws_env \<Rightarrow> ws_client_config \<Rightarrow> string \<Rightarrow> u64 \<Rightarrow> (nat \<Rightarrow> sink_outcome) \<Rightarrow> ws_manager \<Rightarrow> ws_manager" where
  "stream_connected env config url lat sink m =
     (case replay_buffered_commands env config sink 0 (wm_buffered m) of
        (fs, st) \<Rightarrow>
          (let m1 = write_frames fs (m\<lparr>wm_conn := Suc (wm_conn m)\<rparr>)
           in case st of
                None \<Rightarrow> m1\<lparr>wm_phase := Hung\<rparr>
              | Some s \<Rightarrow>
                  (case replay_disconnect_reason s of
                     Some reason \<Rightarrow> next_attempt (emit [EvDisconnected 1006 reason] m1)
                   | None \<Rightarrow>
                       go_online config url lat
                         (m1\<lparr>wm_reconnect := map_option rc_on_connected (wm_reconnect m1)\<rparr>))))"

definition redial_ends ::
  "'v ws_env \<Rightarrow> ws_client_config \<Rightarrow> (nat \<Rightarrow> task_result) \<Rightarrow> nat list \<Rightarrow> (nat \<Rightarrow> sink_outcome)
    \<Rightarrow> ws_manager \<Rightarrow> ws_manager" where
  "redial_ends env config res order sink m =
     (case connect_any_endpoint config res order of
        Panic \<Rightarrow> m\<lparr>wm_phase := Crashed\<rparr>
      | Done (Inr (url, lat)) \<Rightarrow> stream_connected env config url lat sink m
      | Done (Inl e) \<Rightarrow>
          next_attempt
            (if wm_reconnect m = None
             then emit [EvError (''network changed reconnect failed: '' @ display e)] m else m))"

definition dial_ends ::
  "'v ws_env \<Rightarrow> ws_client_config \<Rightarrow> (nat \<Rightarrow> task_result) \<Rightarrow> nat list \<Rightarrow> (nat \<Rightarrow> sink_outcome)
    \<Rightarrow> ws_manager \<Rightarrow> ws_manager" where
  "dial_ends env config res order sink m =
     (case (if wm_race m then connect_any_endpoint config res order
            else connect_one (wm_url m) (res 0)) of
        Panic \<Rightarrow> m\<lparr>wm_phase := Crashed\<rparr>
      | Done (Inr (url, lat)) \<Rightarrow> stream_connected env config url lat sink (m\<lparr>wm_url := url\<rparr>)
      | Done (Inl e) \<Rightarrow> next_attempt m)"

text \<open>
  One step.  The \<open>select!\<close> is biased: the timer and the socket are looked at only when no command is
  waiting.  An input that the task does not wait for changes nothing.
\<close>

fun ws_step :: "'v ws_env \<Rightarrow> ws_client_config \<Rightarrow> ws_input \<Rightarrow> ws_manager \<Rightarrow> ws_manager" where
  "ws_step env config (Post cmd) m = snd (post cmd m)"
| "ws_step env config DropHandles m = m\<lparr>wm_open := False\<rparr>"
| "ws_step env config (TakeCommand out shutdown reported) m =
     take_command env config out shutdown reported m"
| "ws_step env config (PingTick now now2 out) m =
     (if wm_phase m = Online \<and> wm_queue m = [] \<and> wm_open m then ping_tick config now now2 out m else m)"
| "ws_step env config (Incoming frame now out) m =
     (if wm_phase m = Online \<and> wm_queue m = [] \<and> wm_open m
      then incoming env config frame now out m else m)"
| "ws_step env config (BackoffOver reported) m =
     (if backing_off (wm_phase m) then end_backoff env config reported False m else m)"
| "ws_step env config (DialEnds res order sink) m =
     (case wm_phase m of
        Redialling \<Rightarrow> redial_ends env config res order sink m
      | Dialling \<Rightarrow> dial_ends env config res order sink m
      | _ \<Rightarrow> m)"

text \<open>\<open>WsTransport::connect\<close>: the state in which the task starts.\<close>

definition ws_start :: "ws_client_config \<Rightarrow> ws_connect_context \<Rightarrow> string \<Rightarrow> u64 \<Rightarrow> ws_manager" where
  "ws_start config ctx url lat =
     go_online config url lat
       \<lparr>wm_phase = Online, wm_url = url, wm_reconnect = map_option rc_new (ws_reconnect config),
        wm_ctx = ctx, wm_hb = None, wm_ping_ms = None, wm_buffered = [], wm_race = False,
        wm_queue = [], wm_open = True, wm_taken = [], wm_conn = 0, wm_wire = [], wm_events = []\<rparr>"

definition ws_connect ::
  "'v ws_env \<Rightarrow> ws_client_config \<Rightarrow> (nat \<Rightarrow> task_result) \<Rightarrow> nat list \<Rightarrow> (catcher_error + ws_manager) exec" where
  "ws_connect env config res order =
     (if ws_urls config = [] then Done (Err (InvalidConfig ''no WS URLs configured''))
      else bind_exec (build_connect_context (we_lib env) (we_resolver_error env) config) (\<lambda>ctx.
           bind_exec
             (if 1 < length (ws_urls config) \<or> 1 < race_count config
              then race (ws_urls config) (race_count config) res order
              else connect_one (hd (ws_urls config)) (res 0))
             (\<lambda>(url, lat). Done (Ok (ws_start config ctx url lat)))))"

fun ws_run :: "'v ws_env \<Rightarrow> ws_client_config \<Rightarrow> ws_input list \<Rightarrow> ws_manager \<Rightarrow> ws_manager" where
  "ws_run env config [] m = m"
| "ws_run env config (i # is) m = ws_run env config is (ws_step env config i m)"

subsection \<open>What the consumer of the events sees\<close>

datatype view = Up | Down

fun observe :: "view \<Rightarrow> ws_event \<Rightarrow> view option" where
  "observe Down (EvConnected _ _) = Some Up"
| "observe Up (EvConnected _ _) = None"
| "observe v (EvDisconnected _ _) = Some Down"
| "observe Down (EvReconnecting _ _) = Some Down"
| "observe Up (EvReconnecting _ _) = None"
| "observe Up (EvMessage _ _) = Some Up"
| "observe Down (EvMessage _ _) = None"
| "observe Up (EvHeartbeatRtt _) = Some Up"
| "observe Down (EvHeartbeatRtt _) = None"
| "observe v (EvError _) = Some v"

fun observe_all :: "view \<Rightarrow> ws_event list \<Rightarrow> view option" where
  "observe_all v [] = Some v"
| "observe_all v (e # es) = (case observe v e of Some v' \<Rightarrow> observe_all v' es | None \<Rightarrow> None)"

lemma observe_all_append:
  "observe_all v xs = Some u \<Longrightarrow> observe_all v (xs @ ys) = observe_all u ys"
  by (induction xs arbitrary: v) (auto split: option.splits)

definition sees :: "ws_manager \<Rightarrow> view \<Rightarrow> bool" where
  "sees m v \<longleftrightarrow> observe_all Down (wm_events m) = Some v"

definition view_ok :: "ws_manager \<Rightarrow> bool" where
  "view_ok m \<longleftrightarrow> (\<exists>v. sees m v \<and> (wm_phase m = Online \<longrightarrow> v = Up) \<and>
     (wm_phase m \<in> {Redialling, Dialling} \<or> backing_off (wm_phase m) \<longrightarrow> v = Down))"

lemma sees_emit: "sees m v \<Longrightarrow> observe_all v evs = Some u \<Longrightarrow> sees (emit evs m) u"
  by (simp add: sees_def emit_def observe_all_append)

lemma sees_update [simp]:
  "sees (m\<lparr>wm_phase := p\<rparr>) v = sees m v" "sees (m\<lparr>wm_url := u\<rparr>) v = sees m v"
  "sees (m\<lparr>wm_reconnect := r\<rparr>) v = sees m v" "sees (m\<lparr>wm_ctx := c\<rparr>) v = sees m v"
  "sees (m\<lparr>wm_hb := h\<rparr>) v = sees m v" "sees (m\<lparr>wm_ping_ms := i\<rparr>) v = sees m v"
  "sees (m\<lparr>wm_buffered := b\<rparr>) v = sees m v" "sees (m\<lparr>wm_race := k\<rparr>) v = sees m v"
  "sees (m\<lparr>wm_queue := q\<rparr>) v = sees m v" "sees (m\<lparr>wm_open := o'\<rparr>) v = sees m v"
  "sees (m\<lparr>wm_taken := t\<rparr>) v = sees m v" "sees (m\<lparr>wm_conn := n\<rparr>) v = sees m v"
  "sees (write_frames fs m) v = sees m v"
  by (simp_all add: sees_def write_frames_def)

lemma phase_emit [simp]: "wm_phase (emit evs m) = wm_phase m"
  and phase_write_frames [simp]: "wm_phase (write_frames fs m) = wm_phase m"
  by (simp_all add: emit_def write_frames_def)

lemma view_ok_next_attempt: "sees m Down \<Longrightarrow> view_ok (next_attempt m)"
  using sees_emit [of m Down] by (auto simp: next_attempt_def view_ok_def sees_def emit_def
    observe_all_append split: option.splits prod.splits)

lemma view_ok_go_offline: "sees m v \<Longrightarrow> view_ok (go_offline code reason m)"
  unfolding go_offline_def by (rule view_ok_next_attempt, rule sees_emit [of _ v]) simp_all

lemma view_ok_go_online: "sees m Down \<Longrightarrow> view_ok (go_online config url lat m)"
  by (auto simp: go_online_def view_ok_def Let_def intro!: sees_emit [of _ Down])

lemma drain_channel_frame:
  assumes "drain_channel m = (n, a, m')"
  shows "wm_phase m' = wm_phase m" "wm_events m' = wm_events m" "wm_wire m' = wm_wire m"
    "wm_conn m' = wm_conn m" "wm_open m' = wm_open m" "wm_url m' = wm_url m"
    "wm_reconnect m' = wm_reconnect m" "wm_race m' = wm_race m" "wm_ctx m' = wm_ctx m"
  using assms by (auto simp: drain_channel_def split: prod.splits)

text \<open>Rebuilding the client only changes the context and the backoff, and reports errors.\<close>

lemma rebuild_client_frame:
  assumes "rebuild_client env config reported m = Done m'"
  obtains evs where "wm_events m' = wm_events m @ evs" "\<forall>e \<in> set evs. \<exists>msg. e = EvError msg"
    "wm_phase m' = wm_phase m" "wm_wire m' = wm_wire m" "wm_conn m' = wm_conn m"
    "wm_buffered m' = wm_buffered m" "wm_queue m' = wm_queue m" "wm_taken m' = wm_taken m"
    "wm_race m' = wm_race m"
  using assms
  by (auto simp: rebuild_client_def rebuild_after_network_change_def emit_def
    split: exec.splits if_splits sum.splits)

lemma observe_errors: "\<forall>e \<in> set evs. \<exists>msg. e = EvError msg \<Longrightarrow> observe_all v evs = Some v"
  by (induction evs) auto

lemma sees_rebuild:
  assumes "rebuild_client env config reported m = Done m'" and "sees m v"
  shows "sees m' v"
proof -
  obtain evs where "wm_events m' = wm_events m @ evs" "\<forall>e \<in> set evs. \<exists>msg. e = EvError msg"
    using rebuild_client_frame [OF assms(1)] .
  with assms(2) show ?thesis by (simp add: sees_def observe_all_append observe_errors)
qed

lemma view_ok_network_changed:
  assumes "sees m v" shows "view_ok (on_network_changed env config reported m)"
proof -
  let ?m1 = "emit [EvDisconnected 1006 ''network changed''] (m\<lparr>wm_buffered := [], wm_race := True\<rparr>)"
  obtain n a m2 where d: "drain_channel ?m1 = (n, a, m2)" by (cases "drain_channel ?m1") auto
  have "sees ?m1 Down" by (rule sees_emit [of _ v]) (use assms in simp_all)
  then have s: "sees m2 Down" using drain_channel_frame(2) [OF d] by (simp add: sees_def)
  show ?thesis
  proof (cases "rebuild_client env config reported m2")
    case (Done m3)
    from sees_rebuild [OF Done s] have "sees (emit [EvReconnecting 0 0] (m3\<lparr>wm_phase := Redialling\<rparr>)) Down"
      by (intro sees_emit [of _ Down]) simp_all
    then show ?thesis using s by (auto simp: on_network_changed_def Let_def d Done view_ok_def)
  qed (use s in \<open>auto simp: on_network_changed_def Let_def d view_ok_def\<close>)
qed

lemma view_ok_end_backoff:
  assumes "sees m Down" shows "view_ok (end_backoff env config reported skip m)"
proof -
  obtain n a m1 where d: "drain_channel m = (n, a, m1)" by (cases "drain_channel m") auto
  have s: "sees m1 Down" using assms drain_channel_frame(2) [OF d] by (simp add: sees_def)
  show ?thesis
  proof (cases "rebuild_client env config reported m1")
    case (Done m2)
    from sees_rebuild [OF Done s] show ?thesis using s
      by (auto simp: end_backoff_def d Done view_ok_def)
  qed (use s in \<open>auto simp: end_backoff_def d view_ok_def\<close>)
qed

text \<open>The steps of a connected task, seen from \<open>Up\<close>.\<close>

lemma view_okI_Up: "sees m Up \<Longrightarrow> wm_phase m \<in> {Online, Stopped, Hung, Crashed} \<Longrightarrow> view_ok m"
  by (auto simp: view_ok_def)

lemma view_ok_send_message:
  assumes "sees m Up" and "wm_phase m = Online"
  shows "view_ok (send_message env config out cmd m)"
  using assms sees_emit [of m Up]
  by (auto simp: send_message_def intro!: view_ok_go_offline view_okI_Up
    split: option.splits sum.splits send_status.splits)

lemma view_ok_close:
  assumes "sees m Up" shows "view_ok (close_connection config out shutdown code reason m)"
  using assms by (auto simp: close_connection_def Let_def intro!: view_okI_Up split: option.splits)

lemma view_ok_ping_tick:
  assumes "sees m Up" and "wm_phase m = Online"
  shows "view_ok (ping_tick config now now2 out m)"
  using assms
  by (auto simp: ping_tick_def Let_def intro!: view_ok_go_offline view_okI_Up
    split: option.splits tick_outcome.splits prod.splits)

lemma observe_data_event: "data_event cs vc config f = Some ev \<Longrightarrow> observe Up ev = Some Up"
  by (auto simp: data_event_def split: ws_frame.splits sum.splits)

lemma view_ok_incoming:
  assumes "sees m Up" and "wm_phase m = Online"
  shows "view_ok (incoming env config frame now out m)"
  using assms
  by (auto simp: incoming_def Let_def observe_data_event intro!: view_ok_go_offline view_okI_Up sees_emit
    split: option.splits prod.splits ws_frame.splits)

lemma view_ok_connected:
  assumes "sees m Down" shows "view_ok (stream_connected env config url lat sink m)"
proof -
  have "sees (emit [EvDisconnected 1006 r] (write_frames fs (m\<lparr>wm_conn := Suc (wm_conn m)\<rparr>))) Down" for r fs
    by (rule sees_emit [of _ Down]) (use assms in simp_all)
  then show ?thesis using assms
    by (auto simp: stream_connected_def Let_def intro!: view_ok_next_attempt view_ok_go_online
      split: prod.splits option.splits) (auto simp: view_ok_def)
qed

lemma view_ok_dial:
  assumes "sees m Down"
  shows "view_ok (redial_ends env config res order sink m)" "view_ok (dial_ends env config res order sink m)"
proof -
  have "sees (emit [EvError e] m) Down" for e by (rule sees_emit [of _ Down]) (use assms in simp_all)
  then show "view_ok (redial_ends env config res order sink m)" using assms
    by (auto simp: redial_ends_def intro!: view_ok_connected view_ok_next_attempt
      split: exec.splits sum.splits) (auto simp: view_ok_def)
  show "view_ok (dial_ends env config res order sink m)" using assms
    by (auto simp: dial_ends_def intro!: view_ok_connected view_ok_next_attempt
      split: exec.splits sum.splits) (auto simp: view_ok_def)
qed

lemma view_ok_take_command:
  assumes "view_ok m" shows "view_ok (take_command env config out shutdown reported m)"
proof (cases "wm_queue m")
  case Nil
  with assms show ?thesis by (auto simp: take_command_def view_ok_def)
next
  case (Cons cmd q)
  have up: "sees m Up" if "wm_phase m = Online" using assms that by (auto simp: view_ok_def)
  have down: "sees m Down" if "backing_off (wm_phase m)" using assms that by (auto simp: view_ok_def)
  have on: "view_ok (online_command env config out shutdown reported cmd (m\<lparr>wm_queue := q\<rparr>))"
    if "wm_phase m = Online"
    using up [OF that] that
    by (auto simp: online_command_def intro!: view_ok_close view_ok_network_changed [of _ Up]
      view_ok_send_message split: ws_command.splits)
  have off: "view_ok (backoff_command env config reported cmd (m\<lparr>wm_queue := q\<rparr>))"
    if "backing_off (wm_phase m)"
  proof -
    from that have "wm_phase m \<noteq> Online" by auto
    with down [OF that] show ?thesis
      by (auto simp: backoff_command_def intro!: view_ok_end_backoff split: ws_command.splits)
        (auto simp: view_ok_def)
  qed
  from on off assms show ?thesis by (auto simp: take_command_def Cons)
qed

lemma view_ok_step:
  assumes "view_ok m" shows "view_ok (ws_step env config i m)"
proof -
  have up: "sees m Up" if "wm_phase m = Online" using assms that by (auto simp: view_ok_def)
  have down: "sees m Down"
    if "wm_phase m \<in> {Redialling, Dialling} \<or> backing_off (wm_phase m)" using assms that
    by (auto simp: view_ok_def)
  show ?thesis
  proof (cases i)
    case (Post cmd)
    with assms show ?thesis by (auto simp: post_def view_ok_def)
  next
    case DropHandles
    with assms show ?thesis by (auto simp: view_ok_def)
  next
    case (DialEnds res order sink)
    with down assms show ?thesis by (auto intro: view_ok_dial split: ws_phase.splits)
  qed (use assms up down in \<open>auto intro: view_ok_take_command view_ok_ping_tick view_ok_incoming
    view_ok_end_backoff\<close>)
qed

lemma view_ok_run: "view_ok m \<Longrightarrow> view_ok (ws_run env config is m)"
  by (induction "is" arbitrary: m) (auto intro: view_ok_step)

lemma view_ok_start: "view_ok (ws_start config ctx url lat)"
  unfolding ws_start_def by (rule view_ok_go_online) (simp add: sees_def)

text \<open>
  C2. Whatever the network and the user do, the events follow the protocol a consumer relies on:
  \<open>Connected\<close> only when disconnected, messages and round trips only while connected, \<open>Reconnecting\<close>
  only while disconnected; and a consumer that follows them knows whether the task is connected,
  as long as it has not ended.
\<close>

theorem events_tell_connection:
  "\<exists>v. observe_all Down (wm_events (ws_run env config is (ws_start config ctx url lat))) = Some v \<and>
    (case wm_phase (ws_run env config is (ws_start config ctx url lat)) of
       Online \<Rightarrow> v = Up
     | Redialling \<Rightarrow> v = Down
     | Dialling \<Rightarrow> v = Down
     | BackingOff _ \<Rightarrow> v = Down
     | _ \<Rightarrow> True)"
  using view_ok_run [OF view_ok_start, of env config "is" config ctx url lat]
  by (auto simp: view_ok_def sees_def split: ws_phase.splits)

subsection \<open>No send blocks the task for ever\<close>

lemma send_returns: "timeout \<noteq> 0 \<Longrightarrow> \<exists>st. send_frame_with_timeout timeout out = Some st"
  by (auto simp: send_frame_with_timeout_def split: sink_outcome.splits)

lemma replay_returns:
  assumes "send_timeout_ms config \<noteq> 0"
  shows "\<exists>st. snd (replay_buffered_commands env config sink k cmds) = Some st"
proof (induction cmds arbitrary: k)
  case (Cons cmd cmds)
  obtain st where "send_frame_with_timeout (send_timeout_ms config) (sink k) = Some st"
    using send_returns [OF assms] by blast
  with Cons.IH [of k] Cons.IH [of "Suc k"] show ?case
    by (cases st) (auto split: option.splits sum.splits prod.splits)
qed simp

lemma not_hung_next_attempt [simp]: "wm_phase m \<noteq> Hung \<Longrightarrow> wm_phase (next_attempt m) \<noteq> Hung"
  by (auto simp: next_attempt_def split: option.splits prod.splits)

lemma not_hung_go [simp]:
  "wm_phase m \<noteq> Hung \<Longrightarrow> wm_phase (go_offline code reason m) \<noteq> Hung"
  "wm_phase (go_online config url lat m) \<noteq> Hung"
  by (simp_all add: go_offline_def go_online_def Let_def)

lemma not_hung_drain: "drain_channel m = (n, a, m') \<Longrightarrow> wm_phase m \<noteq> Hung \<Longrightarrow> wm_phase m' \<noteq> Hung"
  by (simp add: drain_channel_frame)

lemma not_hung_rebuild:
  "rebuild_client env config reported m = Done m' \<Longrightarrow> wm_phase m \<noteq> Hung \<Longrightarrow> wm_phase m' \<noteq> Hung"
  by (erule rebuild_client_frame) simp

lemma not_hung_network:
  assumes "wm_phase m \<noteq> Hung"
  shows "wm_phase (on_network_changed env config reported m) \<noteq> Hung"
    and "wm_phase (end_backoff env config reported skip m) \<noteq> Hung"
  using assms
  by (auto simp: on_network_changed_def end_backoff_def Let_def dest: not_hung_drain not_hung_rebuild
    split: prod.splits exec.splits)

lemma not_hung_connected:
  assumes "send_timeout_ms config \<noteq> 0" and "wm_phase m \<noteq> Hung"
  shows "wm_phase (stream_connected env config url lat sink m) \<noteq> Hung"
proof -
  obtain fs st where "replay_buffered_commands env config sink 0 (wm_buffered m) = (fs, Some st)"
    using replay_returns [OF assms(1)] by (metis prod.collapse)
  with assms(2) show ?thesis by (auto simp: stream_connected_def Let_def split: option.splits)
qed

lemma not_hung_dial:
  assumes "send_timeout_ms config \<noteq> 0" and "wm_phase m \<noteq> Hung"
  shows "wm_phase (redial_ends env config res order sink m) \<noteq> Hung"
    and "wm_phase (dial_ends env config res order sink m) \<noteq> Hung"
  using assms by (auto simp: redial_ends_def dial_ends_def not_hung_connected
    split: exec.splits sum.splits)

lemma not_hung_online:
  assumes "send_timeout_ms config \<noteq> 0" and "wm_phase m \<noteq> Hung"
  shows "wm_phase (send_message env config out cmd m) \<noteq> Hung"
    and "wm_phase (close_connection config out shutdown code reason m) \<noteq> Hung"
    and "wm_phase (ping_tick config now now2 out m) \<noteq> Hung"
    and "wm_phase (incoming env config frame now out m) \<noteq> Hung"
  using assms send_returns [OF assms(1), of out] send_returns [OF assms(1), of shutdown]
  by (auto simp: send_message_def close_connection_def ping_tick_def incoming_def Let_def
    split: option.splits sum.splits send_status.splits tick_outcome.splits prod.splits ws_frame.splits)

lemma not_hung_step:
  assumes "send_timeout_ms config \<noteq> 0" and "wm_phase m \<noteq> Hung"
  shows "wm_phase (ws_step env config i m) \<noteq> Hung"
  using assms
  by (cases i) (auto simp: post_def take_command_def online_command_def backoff_command_def
    not_hung_dial not_hung_online not_hung_network
    split: ws_phase.splits list.splits ws_command.splits)

text \<open>
  C13. With a send timeout configured, no send on a dead connection holds up the task: it never
  waits for a send without end, so it always gets to its next command, whatever the sockets do.
\<close>

theorem never_stuck_in_send:
  assumes "send_timeout_ms config \<noteq> 0"
  shows "wm_phase (ws_run env config is (ws_start config ctx url lat)) \<noteq> Hung"
proof -
  have "wm_phase m \<noteq> Hung \<Longrightarrow> wm_phase (ws_run env config is m) \<noteq> Hung" for m
    by (induction "is" arbitrary: m) (auto simp: not_hung_step [OF assms])
  then show ?thesis by (simp add: ws_start_def)
qed

definition copying_env :: "unit ws_env" where
  "copying_env = \<lparr>we_codecs = copying_codecs, we_values = no_values, we_lib = permissive_env,
     we_resolver_error = (\<lambda>_. None)\<rparr>"

definition native_ctx :: ws_connect_context where
  "native_ctx = \<lparr>wc_backend = NativeBackend, wc_reqwest_client = None\<rparr>"

theorem never_stuck_in_send_witness:
  "wm_phase (ws_run copying_env default_ws_client_config [DropHandles, TakeCommand SinkHangs SinkHangs None]
     (ws_start default_ws_client_config native_ctx ''ws://a'' 3)) \<noteq> Hung"
  by (rule never_stuck_in_send) (simp add: default_ws_client_config_def)

subsection \<open>Order of delivery\<close>

fun is_data :: "ws_frame \<Rightarrow> bool" where
  "is_data (TextFrame _) = True"
| "is_data (BinaryFrame _) = True"
| "is_data _ = False"

definition data_frames :: "nat \<Rightarrow> ws_manager \<Rightarrow> ws_frame list" where
  "data_frames c m = map snd (filter (\<lambda>(c', f). c' = c \<and> is_data f) (wm_wire m))"

text \<open>The frames of the messages that can be encoded.\<close>

definition frame_of :: "'v ws_env \<Rightarrow> ws_client_config \<Rightarrow> ws_command \<Rightarrow> ws_frame option" where
  "frame_of env config cmd =
     (case encode_command (we_codecs env) (we_values env) config cmd of Some (Inr f) \<Rightarrow> Some f | _ \<Rightarrow> None)"

definition encoded :: "'v ws_env \<Rightarrow> ws_client_config \<Rightarrow> ws_command list \<Rightarrow> ws_frame list" where
  "encoded env config cmds = List.map_filter (frame_of env config) cmds"

lemma encoded_append: "encoded env config (xs @ ys) = encoded env config xs @ encoded env config ys"
  by (simp add: encoded_def List.map_filter_def)

lemma encoded_simps:
  "encoded env config [] = []"
  "encoded env config (cmd # cmds) =
     (case frame_of env config cmd of Some f \<Rightarrow> [f] | None \<Rightarrow> []) @ encoded env config cmds"
  by (simp_all add: encoded_def List.map_filter_def split: option.split)

lemma subseq_encoded: "subseq xs ys \<Longrightarrow> subseq (encoded env config xs) (encoded env config ys)"
  unfolding encoded_def List.map_filter_def by (intro subseq_map subseq_filter)

lemma is_data_frame_of:
  assumes "frame_of env config cmd = Some f" shows "is_data f"
proof -
  from assms have "encode_command (we_codecs env) (we_values env) config cmd = Some (Ok f)"
    by (auto simp: frame_of_def split: option.splits sum.splits)
  then show ?thesis
    by (auto simp: encode_command_def encode_text_message_def encode_binary_message_def
      bind_res_Ok_iff split: ws_command.splits option.splits)
qed

lemma is_data_encoded: "f \<in> set (encoded env config cmds) \<Longrightarrow> is_data f"
  by (induction cmds) (auto simp: encoded_simps dest: is_data_frame_of [OF sym] split: option.splits)

text \<open>A replay writes the frames of a prefix of the messages, and of all when it succeeds.\<close>

lemma replay_frames:
  assumes "replay_buffered_commands env config sink k cmds = (fs, st)"
  shows "prefix fs (encoded env config cmds) \<and> (st = Some Sent \<longrightarrow> fs = encoded env config cmds)"
  using assms
  by (induction cmds arbitrary: k fs)
    (auto simp: encoded_simps frame_of_def split: option.splits sum.splits send_status.splits prod.splits)

lemma replay_all_sent:
  assumes "\<And>k. send_frame_with_timeout (send_timeout_ms config) (sink k) = Some Sent"
  shows "replay_buffered_commands env config sink k cmds = (encoded env config cmds, Some Sent)"
  by (induction cmds arbitrary: k) (auto simp: assms encoded_simps frame_of_def split: option.splits sum.splits)

text \<open>
  The invariant of delivery: every connection carries a subsequence of the messages taken from the
  channel, a connection that was not made carries nothing, and what is buffered was taken.
\<close>

definition delivery_inv :: "'v ws_env \<Rightarrow> ws_client_config \<Rightarrow> ws_manager \<Rightarrow> bool" where
  "delivery_inv env config m \<longleftrightarrow>
     (\<forall>c. subseq (data_frames c m) (encoded env config (wm_taken m))) \<and>
     (\<forall>c > wm_conn m. data_frames c m = []) \<and> subseq (wm_buffered m) (wm_taken m)"

text \<open>Steps that neither write data nor take messages leave it as it is.\<close>

definition same_delivery :: "ws_manager \<Rightarrow> ws_manager \<Rightarrow> bool" where
  "same_delivery m m' \<longleftrightarrow> wm_taken m' = wm_taken m \<and> wm_conn m' = wm_conn m \<and>
     wm_queue m' = wm_queue m \<and> (\<forall>c. data_frames c m' = data_frames c m) \<and>
     (wm_buffered m' = wm_buffered m \<or> wm_buffered m' = [])"

lemma same_delivery_inv: "same_delivery m m' \<Longrightarrow> delivery_inv env config m \<Longrightarrow> delivery_inv env config m'"
  by (auto simp: same_delivery_def delivery_inv_def)

lemma same_delivery_trans: "same_delivery a b \<Longrightarrow> same_delivery b c \<Longrightarrow> same_delivery a c"
  by (auto simp: same_delivery_def)

lemma data_frames_write:
  "data_frames c (write_frames fs m) =
     data_frames c m @ (if c = wm_conn m then filter is_data fs else [])"
  by (induction fs) (auto simp: data_frames_def write_frames_def)

lemma data_frames_update [simp]:
  "data_frames c (emit evs m) = data_frames c m"
  "data_frames c (m\<lparr>wm_phase := p\<rparr>) = data_frames c m"
  "data_frames c (m\<lparr>wm_url := u\<rparr>) = data_frames c m"
  "data_frames c (m\<lparr>wm_reconnect := r\<rparr>) = data_frames c m"
  "data_frames c (m\<lparr>wm_hb := h\<rparr>) = data_frames c m"
  "data_frames c (m\<lparr>wm_ping_ms := i\<rparr>) = data_frames c m"
  "data_frames c (m\<lparr>wm_buffered := b\<rparr>) = data_frames c m"
  "data_frames c (m\<lparr>wm_race := k\<rparr>) = data_frames c m"
  "data_frames c (m\<lparr>wm_queue := q\<rparr>) = data_frames c m"
  "data_frames c (m\<lparr>wm_open := o'\<rparr>) = data_frames c m"
  "data_frames c (m\<lparr>wm_taken := t\<rparr>) = data_frames c m"
  "data_frames c (m\<lparr>wm_conn := n\<rparr>) = data_frames c m"
  by (simp_all add: data_frames_def emit_def)

lemma same_next_attempt: "same_delivery m (next_attempt m)"
  by (auto simp: same_delivery_def next_attempt_def emit_def data_frames_def split: option.splits prod.splits)

lemma same_go_offline: "same_delivery m (go_offline code reason m)"
proof -
  have "same_delivery m (emit [EvDisconnected code reason] (m\<lparr>wm_buffered := [], wm_race := False\<rparr>))"
    by (auto simp: same_delivery_def emit_def data_frames_def)
  then show ?thesis unfolding go_offline_def by (rule same_delivery_trans) (rule same_next_attempt)
qed

lemma same_emit: "same_delivery m (emit evs m)"
  by (auto simp: same_delivery_def emit_def data_frames_def)

lemma same_phase: "same_delivery m (m\<lparr>wm_phase := p\<rparr>)"
  by (auto simp: same_delivery_def)

lemma write_frames_fields [simp]:
  "wm_taken (write_frames fs m) = wm_taken m" "wm_conn (write_frames fs m) = wm_conn m"
  "wm_queue (write_frames fs m) = wm_queue m" "wm_buffered (write_frames fs m) = wm_buffered m"
  by (simp_all add: write_frames_def)

lemma same_control: "\<forall>f \<in> set fs. \<not> is_data f \<Longrightarrow> same_delivery m (write_frames fs m)"
  by (auto simp: same_delivery_def data_frames_write)

lemma same_go_online: "same_delivery m (go_online config url lat m)"
  by (auto simp: same_delivery_def go_online_def Let_def data_frames_def emit_def)

text \<open>A step delivers: it keeps the invariant and takes messages in the order of the channel.\<close>

definition delivers :: "'v ws_env \<Rightarrow> ws_client_config \<Rightarrow> ws_manager \<Rightarrow> ws_manager \<Rightarrow> bool" where
  "delivers env config m m' \<longleftrightarrow>
     (delivery_inv env config m \<longrightarrow>
        delivery_inv env config m' \<and> subseq (wm_taken m' @ wm_queue m') (wm_taken m @ wm_queue m))"

lemma delivers_trans:
  "delivers env config a b \<Longrightarrow> delivers env config b c \<Longrightarrow> delivers env config a c"
  unfolding delivers_def using subseq_order.trans by blast

lemma same_delivers: "same_delivery m m' \<Longrightarrow> delivers env config m m'"
  using same_delivery_inv by (auto simp: delivers_def same_delivery_def)

lemma delivers_then: "delivers env config a b \<Longrightarrow> same_delivery b c \<Longrightarrow> delivers env config a c"
  using same_delivers delivers_trans by blast

lemma taken_grows:
  "delivery_inv env config m \<Longrightarrow> subseq b' (wm_taken m @ b) \<Longrightarrow>
     delivery_inv env config (m\<lparr>wm_queue := q, wm_buffered := b', wm_taken := wm_taken m @ b\<rparr>)"
  by (auto simp: delivery_inv_def encoded_append intro: subseq_order.trans)

lemma drain_subseq: "drain q = (b, n, c, r) \<Longrightarrow> subseq (b @ r) q"
  by (induction q arbitrary: b n c r rule: drain.induct)
    (auto split: prod.splits intro: subseq_order.trans)

lemma delivers_drain:
  assumes "drain_channel m = (n, a, m')" shows "delivers env config m m'"
proof -
  obtain b nn c r where d: "drain (wm_queue m) = (b, nn, c, r)" by (cases "drain (wm_queue m)") auto
  have m': "m' = m\<lparr>wm_queue := r, wm_buffered := wm_buffered m @ b, wm_taken := wm_taken m @ b\<rparr>"
    using assms by (auto simp: drain_channel_def d)
  have "subseq (wm_buffered m @ b) (wm_taken m @ b)" if "delivery_inv env config m"
    using that by (simp add: delivery_inv_def)
  moreover have "subseq (wm_taken m @ b @ r) (wm_taken m @ wm_queue m)"
    using drain_subseq [OF d] by (simp add: list_emb_append_mono)
  ultimately show ?thesis using taken_grows [of env config m _ b r]
    by (simp add: delivers_def m')
qed

lemma delivers_rebuild:
  assumes "rebuild_client env' config' reported m = Done m'" shows "delivers env config m m'"
proof -
  from assms have "same_delivery m m'"
    by (rule rebuild_client_frame) (auto simp: same_delivery_def data_frames_def)
  then show ?thesis by (rule same_delivers)
qed

lemma delivers_network_changed: "delivers env config m (on_network_changed env config reported m)"
proof -
  let ?m1 = "emit [EvDisconnected 1006 ''network changed''] (m\<lparr>wm_buffered := [], wm_race := True\<rparr>)"
  obtain n a m2 where d: "drain_channel ?m1 = (n, a, m2)" by (cases "drain_channel ?m1") auto
  have "same_delivery m ?m1" by (auto simp: same_delivery_def emit_def data_frames_def)
  then have m2: "delivers env config m m2"
    using delivers_trans [OF same_delivers delivers_drain [OF d]] by blast
  have p: "delivers env config m (m2\<lparr>wm_phase := ph\<rparr>)" for ph by (rule delivers_then [OF m2 same_phase])
  show ?thesis
  proof (cases "rebuild_client env config reported m2")
    case Panic
    with p show ?thesis by (simp add: on_network_changed_def Let_def d)
  next
    case (Done m3)
    have "same_delivery m3 (emit [EvReconnecting 0 0] (m3\<lparr>wm_phase := Redialling\<rparr>))"
      by (rule same_delivery_trans [OF same_phase same_emit])
    with delivers_trans [OF m2 delivers_rebuild [OF Done]]
    have "delivers env config m (emit [EvReconnecting 0 0] (m3\<lparr>wm_phase := Redialling\<rparr>))"
      by (rule delivers_then)
    with p show ?thesis by (simp add: on_network_changed_def Let_def d Done)
  qed
qed

lemma delivers_end_backoff: "delivers env config m (end_backoff env config reported skip m)"
proof -
  obtain n a m1 where d: "drain_channel m = (n, a, m1)" by (cases "drain_channel m") auto
  note m1 = delivers_drain [OF d, of env config]
  have p: "delivers env config m (m1\<lparr>wm_phase := ph\<rparr>)" for ph by (rule delivers_then [OF m1 same_phase])
  show ?thesis
  proof (cases "rebuild_client env config reported m1")
    case Panic
    with p show ?thesis by (simp add: end_backoff_def d)
  next
    case (Done m2)
    have "same_delivery m2 (m2\<lparr>wm_race := True, wm_phase := Dialling\<rparr>)"
      by (simp add: same_delivery_def)
    with delivers_trans [OF m1 delivers_rebuild [OF Done]]
    have "delivers env config m (m2\<lparr>wm_race := True, wm_phase := Dialling\<rparr>)" by (rule delivers_then)
    with p show ?thesis by (simp add: end_backoff_def d Done)
  qed
qed

text \<open>A message that is sent at once.\<close>

lemma delivers_send_message:
  assumes "wm_queue m = cmd # q" and m0: "m0 = m\<lparr>wm_queue := q, wm_taken := wm_taken m @ [cmd]\<rparr>"
  shows "delivers env config m (send_message env config out cmd m0)"
proof -
  have "subseq (wm_buffered m) (wm_taken m @ [cmd])" if "delivery_inv env config m"
    using that by (auto simp: delivery_inv_def intro: subseq_order.trans)
  then have m: "delivers env config m m0"
    using taken_grows [of env config m "wm_buffered m" "[cmd]" q]
    by (simp add: delivers_def m0 assms(1))
  have w: "delivers env config m (write_frames [f] m0)" if f: "frame_of env config cmd = Some f" for f
    unfolding delivers_def
  proof (intro impI conjI)
    assume inv: "delivery_inv env config m"
    have "delivery_inv env config m0" using m inv by (simp add: delivers_def)
    moreover have "subseq (data_frames c m @ [f]) (encoded env config (wm_taken m @ [cmd]))" for c
      using inv f by (auto simp: delivery_inv_def encoded_append encoded_simps intro: list_emb_append_mono)
    ultimately show "delivery_inv env config (write_frames [f] m0)"
      using is_data_frame_of [OF f] by (auto simp: delivery_inv_def data_frames_write m0)
  qed (simp add: m0 assms(1))
  note t = delivers_then [OF m]
  show ?thesis using m w t [OF same_emit] t [OF same_phase] t [OF same_go_offline]
    by (auto simp: send_message_def frame_of_def split: option.splits sum.splits send_status.splits)
qed

text \<open>A new connection carries a prefix of the buffered messages.\<close>

lemma filter_data_prefix: "prefix fs (encoded env config cmds) \<Longrightarrow> filter is_data fs = fs"
  by (auto simp: filter_id_conv dest: set_mono_prefix is_data_encoded)

lemma delivers_new_connection:
  assumes "prefix fs (encoded env config (wm_buffered m))"
  shows "delivers env config m (write_frames fs (m\<lparr>wm_conn := Suc (wm_conn m)\<rparr>))"
  unfolding delivers_def
proof (intro impI conjI)
  assume inv: "delivery_inv env config m"
  have "subseq fs (encoded env config (wm_taken m))"
    using inv assms subseq_encoded [of "wm_buffered m" "wm_taken m" env config]
    by (auto simp: delivery_inv_def intro: subseq_order.trans prefix_imp_subseq)
  then show "delivery_inv env config (write_frames fs (m\<lparr>wm_conn := Suc (wm_conn m)\<rparr>))"
    using inv filter_data_prefix [OF assms] by (auto simp: delivery_inv_def data_frames_write)
qed simp

lemma delivers_stream_connected:
  "delivers env config m (stream_connected env config url lat sink m)"
proof -
  obtain fs st where r: "replay_buffered_commands env config sink 0 (wm_buffered m) = (fs, st)"
    by (cases "replay_buffered_commands env config sink 0 (wm_buffered m)") auto
  let ?m1 = "write_frames fs (m\<lparr>wm_conn := Suc (wm_conn m)\<rparr>)"
  note t = delivers_then [OF delivers_new_connection [OF replay_frames [OF r, THEN conjunct1]]]
  have g: "same_delivery ?m1 (go_online config url lat (?m1\<lparr>wm_reconnect := x\<rparr>))" for x
    by (rule same_delivery_trans [OF _ same_go_online]) (simp add: same_delivery_def)
  have n: "same_delivery ?m1 (next_attempt (emit evs ?m1))" for evs
    by (rule same_delivery_trans [OF same_emit same_next_attempt])
  show ?thesis using t [OF same_phase] t [OF g] t [OF n]
    by (auto simp: stream_connected_def r Let_def split: option.splits)
qed

lemma delivers_dial:
  "delivers env config m (redial_ends env config res order sink m)"
  "delivers env config m (dial_ends env config res order sink m)"
proof -
  note s = same_delivers [of m _ env config]
  have n: "same_delivery m (next_attempt (emit evs m))" for evs
    by (rule same_delivery_trans [OF same_emit same_next_attempt])
  have u: "delivers env config m (m\<lparr>wm_url := x\<rparr>)" for x by (rule s) (simp add: same_delivery_def)
  show "delivers env config m (redial_ends env config res order sink m)"
    using s [OF same_phase] s [OF same_next_attempt] s [OF n] delivers_stream_connected
    by (auto simp: redial_ends_def split: exec.splits sum.splits)
  show "delivers env config m (dial_ends env config res order sink m)"
    using s [OF same_phase] s [OF same_next_attempt] delivers_trans [OF u delivers_stream_connected]
    by (auto simp: dial_ends_def split: exec.splits sum.splits)
qed

text \<open>The other steps of a connected task write control frames at most.\<close>

lemma same_close: "same_delivery m (close_connection config out shutdown code reason m)"
proof -
  have w: "same_delivery m (write_frames [CloseFrame c r] m)" for c r by (rule same_control) simp
  show ?thesis using same_phase same_delivery_trans [OF w same_phase]
    by (auto simp: close_connection_def Let_def split: option.splits)
qed

lemma same_ping_tick: "same_delivery m (ping_tick config now now2 out m)"
proof -
  have w: "same_delivery m (write_frames [PingFrame []] m)" by (rule same_control) simp
  have h: "same_delivery x (x\<lparr>wm_hb := a, wm_ping_ms := b\<rparr>)" for x a b by (simp add: same_delivery_def)
  have r: "same_delivery m m" by (simp add: same_delivery_def)
  show ?thesis
    using r same_phase same_go_offline h same_delivery_trans [OF w same_go_offline] same_delivery_trans [OF w h]
    by (auto simp: ping_tick_def Let_def split: option.splits prod.splits tick_outcome.splits)
qed

lemma same_incoming: "same_delivery m (incoming env config frame now out m)"
proof -
  have w: "same_delivery m (write_frames [CloseFrame c r] m)" for c r by (rule same_control) simp
  have h: "same_delivery m (emit evs (m\<lparr>wm_hb := a\<rparr>))" for a evs
    by (rule same_delivery_trans [OF _ same_emit]) (simp add: same_delivery_def)
  have r: "same_delivery m m" by (simp add: same_delivery_def)
  show ?thesis
    using r same_phase same_go_offline same_emit h same_delivery_trans [OF w same_go_offline]
    by (auto simp: incoming_def Let_def split: option.splits prod.splits ws_frame.splits)
qed

lemma delivers_skip:
  assumes "wm_queue m = cmd # q" shows "delivers env config m (m\<lparr>wm_queue := q\<rparr>)"
  by (auto simp: delivers_def delivery_inv_def assms intro: list_emb_append_mono)

lemma delivers_take_command:
  "delivers env config m (take_command env config out shutdown reported m)"
proof (cases "wm_queue m")
  case Nil
  have "same_delivery m m" by (simp add: same_delivery_def)
  with Nil show ?thesis by (auto simp: take_command_def intro: same_delivers same_phase)
next
  case (Cons cmd q)
  note s = delivers_skip [OF Cons, of env config]
  note t = delivers_then [OF s] and u = delivers_trans [OF s]
  have on: "delivers env config m (online_command env config out shutdown reported cmd (m\<lparr>wm_queue := q\<rparr>))"
    using t [OF same_close] u [OF delivers_network_changed] delivers_send_message [OF Cons refl, of env config out]
    by (cases cmd) (simp_all add: online_command_def)
  have b: "delivers env config m (m\<lparr>wm_queue := q, wm_buffered := wm_buffered m @ [cmd],
      wm_taken := wm_taken m @ [cmd]\<rparr>)"
    using taken_grows [of env config m "wm_buffered m @ [cmd]" "[cmd]" q]
    by (auto simp: delivers_def Cons delivery_inv_def)
  have off: "delivers env config m (backoff_command env config reported cmd (m\<lparr>wm_queue := q\<rparr>))"
    using t [OF same_phase] u [OF delivers_end_backoff] b
    by (cases cmd) (simp_all add: backoff_command_def)
  have "same_delivery m m" by (simp add: same_delivery_def)
  with on off show ?thesis by (auto simp: take_command_def Cons intro: same_delivers)
qed

definition posted :: "ws_input list \<Rightarrow> ws_command list" where
  "posted is = List.map_filter (\<lambda>i. case i of Post cmd \<Rightarrow> Some cmd | _ \<Rightarrow> None) is"

lemma posted_simps: "posted [] = []" "posted (i # is) = (case i of Post cmd \<Rightarrow> [cmd] | _ \<Rightarrow> []) @ posted is"
  by (auto simp: posted_def List.map_filter_def split: ws_input.splits)

lemma step_delivers:
  assumes "delivery_inv env config m"
  shows "delivery_inv env config (ws_step env config i m) \<and>
    subseq (wm_taken (ws_step env config i m) @ wm_queue (ws_step env config i m))
      ((wm_taken m @ wm_queue m) @ posted [i])"
proof (cases i)
  case (Post cmd)
  then show ?thesis using assms by (auto simp: post_def posted_simps delivery_inv_def)
next
  case DropHandles
  then show ?thesis using assms by (auto simp: posted_simps delivery_inv_def)
next
  case (TakeCommand out shutdown reported)
  then show ?thesis using assms delivers_take_command [of env config m out shutdown reported]
    by (simp add: delivers_def posted_simps)
next
  case (PingTick now now2 out)
  then show ?thesis using assms same_delivers [OF same_ping_tick [of m config now now2 out], of env config]
    by (auto simp: delivers_def posted_simps)
next
  case (Incoming frame now out)
  then show ?thesis using assms same_delivers [OF same_incoming [of m env config frame now out], of env config]
    by (auto simp: delivers_def posted_simps)
next
  case (BackoffOver reported)
  then show ?thesis using assms delivers_end_backoff [of env config m reported False]
    by (simp add: delivers_def posted_simps)
next
  case (DialEnds res order sink)
  then show ?thesis using assms delivers_dial [of env config m res order sink]
    by (simp add: delivers_def posted_simps split: ws_phase.splits)
qed

lemma run_delivers:
  "delivery_inv env config m \<Longrightarrow> delivery_inv env config (ws_run env config is m) \<and>
     subseq (wm_taken (ws_run env config is m)) ((wm_taken m @ wm_queue m) @ posted is)"
proof (induction "is" arbitrary: m)
  case Nil
  then show ?case by (simp add: posted_simps prefix_imp_subseq)
next
  case (Cons i "is")
  let ?m = "ws_step env config i m"
  note step = step_delivers [OF Cons.prems, of i]
  from Cons.IH [of ?m] step have ih: "delivery_inv env config (ws_run env config is ?m)"
    "subseq (wm_taken (ws_run env config is ?m)) ((wm_taken ?m @ wm_queue ?m) @ posted is)" by auto
  have "subseq ((wm_taken ?m @ wm_queue ?m) @ posted is) (((wm_taken m @ wm_queue m) @ posted [i]) @ posted is)"
    using step by (blast intro: list_emb_append_mono)
  with ih show ?case using subseq_order.trans by (auto simp: posted_simps)
qed

lemma delivery_inv_start: "delivery_inv env config (ws_start config ctx url lat)"
  by (simp add: ws_start_def go_online_def Let_def delivery_inv_def emit_def data_frames_def)

text \<open>
  C3. On every connection the messages arrive in the order in which they were posted, each at most
  once: what the connection carries is a subsequence of the encodings of the posted messages,
  whatever the network does and however often the task reconnects.
\<close>

theorem messages_in_order:
  "subseq (data_frames c (ws_run env config is (ws_start config ctx url lat)))
     (encoded env config (posted is))"
proof -
  let ?m = "ws_run env config is (ws_start config ctx url lat)"
  have "wm_taken (ws_start config ctx url lat) @ wm_queue (ws_start config ctx url lat) = []"
    by (simp add: ws_start_def go_online_def Let_def emit_def)
  with run_delivers [of env config "ws_start config ctx url lat" "is"] delivery_inv_start [of env config ctx url lat]
  have "delivery_inv env config ?m" "subseq (wm_taken ?m) (posted is)" by auto
  then show ?thesis
    using subseq_encoded [of "wm_taken ?m" "posted is" env config]
    by (auto simp: delivery_inv_def intro: subseq_order.trans)
qed

subsection \<open>A network change, and a send that fails\<close>

fun is_close :: "ws_command \<Rightarrow> bool" where
  "is_close (CmdClose _ _) = True"
| "is_close _ = False"

lemma drain_no_close:
  "\<not> list_ex is_close q \<Longrightarrow> \<exists>n. drain q = (filter (\<lambda>c. c \<noteq> CmdNetworkChanged) q, n, False, [])"
  by (induction q rule: drain.induct) auto

lemma encoded_messages:
  "encoded env config (filter (\<lambda>c. c \<noteq> CmdNetworkChanged) q) = encoded env config q"
  by (induction q) (auto simp: encoded_simps frame_of_def encode_command_def)

lemma ws_run_append: "ws_run env config (xs @ ys) m = ws_run env config ys (ws_run env config xs m)"
  by (induction xs arbitrary: m) simp_all

text \<open>While the task redials it takes nothing: what is posted waits in the channel.\<close>

fun only_waits :: "ws_input \<Rightarrow> bool" where
  "only_waits (DialEnds _ _ _) = False"
| "only_waits DropHandles = False"
| "only_waits _ = True"

lemma redialling_waits:
  "wm_phase m = Redialling \<Longrightarrow> wm_open m \<Longrightarrow> list_all only_waits is \<Longrightarrow>
     ws_run env config is m = m\<lparr>wm_queue := wm_queue m @ posted is\<rparr>"
proof (induction "is" arbitrary: m)
  case (Cons i "is")
  from Cons.prems have "ws_step env config i m = m\<lparr>wm_queue := wm_queue m @ posted [i]\<rparr>"
    by (cases i) (auto simp: posted_simps post_def task_ended_def take_command_def)
  with Cons.IH [of "m\<lparr>wm_queue := wm_queue m @ posted [i]\<rparr>"] Cons.prems show ?case
    by (simp add: posted_simps split: ws_input.split)
qed (simp add: posted_simps)

text \<open>
  C7. A network change that the connected task takes from the channel, when the channel holds no close
  request, makes it reconnect at once, whether reconnection is configured or not.  Further
  notifications in the channel cause no second reconnection, and every message that was in the
  channel is written to the new connection, in order and before the consumer is told it is connected
  (one that cannot be encoded is left out).  What is posted while the task dials, here any number of
  commands between other inputs that leave the handles held, is not part of that replay: it waits in the channel, complete and
  in order, and is taken from there once the connection stands.  The dial is one that succeeds, the
  client one that is rebuilt without panic, the sends ones that succeed within their time limit.
\<close>

theorem network_change_replays:
  fixes out shutdown :: sink_outcome
  assumes "wm_phase m = Online" and "wm_queue m = CmdNetworkChanged # q"
    and "\<not> list_ex is_close q" and "wm_open m"
    and "rebuild_after_network_change (we_lib env) (we_resolver_error env) reported config (wm_ctx m)
      = Done (ctx, evs)"
    and "list_all only_waits meanwhile"
    and "connect_any_endpoint config res order = Done (Ok (url, lat))"
    and "\<forall>k. send_frame_with_timeout (send_timeout_ms config) (sink k) = Some Sent"
  defines "m' \<equiv> ws_run env config
    (TakeCommand out shutdown reported # meanwhile @ [DialEnds res order sink]) m"
  shows "wm_phase m' = Online \<and> wm_url m' = url \<and> wm_queue m' = posted meanwhile \<and>
    wm_wire m' = wm_wire m @ map (Pair (Suc (wm_conn m))) (encoded env config q) \<and>
    wm_events m' = wm_events m @ [EvDisconnected 1006 ''network changed''] @ evs
      @ [EvReconnecting 0 0, EvConnected url lat]"
proof -
  obtain n where d: "drain q = (filter (\<lambda>c. c \<noteq> CmdNetworkChanged) q, n, False, [])"
    using drain_no_close [OF assms(3)] by blast
  define t where "t = ws_step env config (TakeCommand out shutdown reported) m"
  have t: "wm_phase t = Redialling" "wm_queue t = []" "wm_wire t = wm_wire m" "wm_conn t = wm_conn m"
    "wm_open t" "wm_buffered t = filter (\<lambda>c. c \<noteq> CmdNetworkChanged) q"
    "wm_events t = wm_events m @ [EvDisconnected 1006 ''network changed''] @ evs @ [EvReconnecting 0 0]"
    using assms(1,2,4,5) d
    by (simp_all add: t_def take_command_def online_command_def on_network_changed_def Let_def
      drain_channel_def emit_def rebuild_client_def)
  define r where "r = t\<lparr>wm_queue := posted meanwhile\<rparr>"
  have "ws_run env config meanwhile t = r"
    using redialling_waits [OF t(1,5) assms(6)] t(2) by (simp add: r_def)
  then have "m' = ws_step env config (DialEnds res order sink) r"
    by (simp add: m'_def ws_run_append t_def)
  then have "m' = stream_connected env config url lat sink r"
    using t(1) assms(7) by (simp add: redial_ends_def r_def)
  moreover have "replay_buffered_commands env config sink 0 (wm_buffered r)
      = (encoded env config q, Some Sent)"
    using replay_all_sent [of config sink env 0 "wm_buffered r"] assms(8) t(6) encoded_messages
    by (simp add: r_def)
  ultimately show ?thesis
    using t by (simp add: r_def stream_connected_def replay_disconnect_reason_def Let_def go_online_def
      emit_def write_frames_def)
qed

theorem network_change_replays_witness:
  "(let m = ws_run copying_env (default_ws_client_config\<lparr>ws_urls := [''ws://a'']\<rparr>)
      [Post CmdNetworkChanged, Post (CmdText ''x''), Post CmdNetworkChanged, Post (CmdBinary [7]),
       TakeCommand SinkHangs SinkHangs None, Post (CmdText ''y''), PingTick 3 3 SinkHangs,
       Post CmdNetworkChanged, DialEnds (\<lambda>_. ConnectedIn 4) [] (\<lambda>_. SinkOk 0)]
      (ws_start (default_ws_client_config\<lparr>ws_urls := [''ws://a'']\<rparr>)
        \<lparr>wc_backend = NativeBackend, wc_reqwest_client = None\<rparr> ''ws://a'' 3)
    in (wm_wire m, wm_queue m) =
      ([(1, TextFrame [120]), (1, BinaryFrame [7])], [CmdText ''y'', CmdNetworkChanged]))"
proof -
  define cfg where "cfg = default_ws_client_config\<lparr>ws_urls := [''ws://a'']\<rparr>"
  define m where "m = ws_run copying_env cfg
      [Post CmdNetworkChanged, Post (CmdText ''x''), Post CmdNetworkChanged, Post (CmdBinary [7])]
      (ws_start cfg \<lparr>wc_backend = NativeBackend, wc_reqwest_client = None\<rparr> ''ws://a'' 3)"
  have m: "wm_phase m = Online" "wm_wire m = []" "wm_conn m = 0" "wm_open m"
    "wm_queue m = CmdNetworkChanged # [CmdText ''x'', CmdNetworkChanged, CmdBinary [7]]"
    "wm_ctx m = \<lparr>wc_backend = NativeBackend, wc_reqwest_client = None\<rparr>"
    by (simp_all add: m_def ws_start_def go_online_def Let_def emit_def post_def task_ended_def)
  have e: "encoded copying_env cfg [CmdText ''x'', CmdNetworkChanged, CmdBinary [7]]
      = [TextFrame [120], BinaryFrame [7]]"
    by (simp add: encoded_simps frame_of_def encode_command_def encode_text_message_def
      encode_binary_message_def text_as_msgpack_def maybe_compress_def cfg_def copying_env_def
      default_ws_client_config_def as_bytes_def)
  have c: "rebuild_after_network_change (we_lib copying_env) (we_resolver_error copying_env) None cfg (wm_ctx m)
      = Done (\<lparr>wc_backend = NativeBackend, wc_reqwest_client = None\<rparr>, [])"
    "connect_any_endpoint cfg (\<lambda>_. ConnectedIn 4) [] = Done (Ok (''ws://a'', 4))"
    "send_frame_with_timeout (send_timeout_ms cfg) (SinkOk 0) = Some Sent"
    "\<not> list_ex is_close [CmdText ''x'', CmdNetworkChanged, CmdBinary [7]]"
    by (simp_all add: rebuild_after_network_change_def m(6) connect_any_endpoint_def connect_one_def
      cfg_def default_ws_client_config_def send_frame_with_timeout_def)
  let ?late = "[Post (CmdText ''y''), PingTick 3 3 SinkHangs, Post CmdNetworkChanged]"
  define m' where "m' = ws_run copying_env cfg
      (TakeCommand SinkHangs SinkHangs None # ?late @ [DialEnds (\<lambda>_. ConnectedIn 4) [] (\<lambda>_. SinkOk 0)]) m"
  have "list_all only_waits ?late" by simp
  from network_change_replays [OF m(1,5) c(4) m(4) c(1) this c(2), of "\<lambda>_. SinkOk 0" SinkHangs SinkHangs,
      folded m'_def] c(3)
  have "(wm_wire m', wm_queue m') =
      ([(1, TextFrame [120]), (1, BinaryFrame [7])], [CmdText ''y'', CmdNetworkChanged])"
    by (simp add: e m(2,3) posted_simps)
  then show ?thesis by (simp add: m'_def m_def cfg_def Let_def)
qed

text \<open>
  C21. A message whose send fails or times out is gone: the connection is given up, and the message
  is neither on the wire nor kept for the next connection, although what follows it in the channel is.
\<close>

theorem failed_send_loses_message:
  fixes out shutdown :: sink_outcome and reported :: "os_proxies option"
  assumes "wm_phase m = Online" and "wm_queue m = cmd # q" and "frame_of env config cmd = Some f"
    and "send_frame_with_timeout (send_timeout_ms config) out = Some st" and "st \<noteq> Sent"
  defines "m' \<equiv> ws_step env config (TakeCommand out shutdown reported) m"
  shows "wm_phase m' \<noteq> Online \<and> wm_wire m' = wm_wire m \<and> wm_buffered m' = [] \<and> wm_queue m' = q"
proof -
  have e: "encode_command (we_codecs env) (we_values env) config cmd = Some (Ok f)"
    using assms(3) by (auto simp: frame_of_def split: option.splits sum.splits)
  have g: "wm_phase (go_offline code reason x) \<noteq> Online \<and> wm_wire (go_offline code reason x) = wm_wire x
    \<and> wm_buffered (go_offline code reason x) = [] \<and> wm_queue (go_offline code reason x) = wm_queue x"
    for code reason x
    by (auto simp: go_offline_def next_attempt_def emit_def split: option.splits prod.splits)
  from e have "\<not> is_close cmd" "cmd \<noteq> CmdNetworkChanged"
    by (auto simp: encode_command_def split: ws_command.splits)
  then show ?thesis using assms(1,2,4,5) e g
    by (cases cmd; cases st) (auto simp: m'_def take_command_def online_command_def send_message_def)
qed

theorem failed_send_loses_message_witness:
  "wm_buffered (ws_step copying_env default_ws_client_config (TakeCommand (SinkErr 1) SinkHangs None)
     (ws_run copying_env default_ws_client_config [Post (CmdText ''x''), Post (CmdText ''y'')]
       (ws_start default_ws_client_config native_ctx ''ws://a'' 3))) = []"
proof -
  define m where "m = ws_run copying_env default_ws_client_config
    [Post (CmdText ''x''), Post (CmdText ''y'')] (ws_start default_ws_client_config native_ctx ''ws://a'' 3)"
  have m: "wm_phase m = Online" "wm_queue m = CmdText ''x'' # [CmdText ''y'']"
    by (simp_all add: m_def ws_start_def go_online_def Let_def emit_def post_def task_ended_def)
  have f: "frame_of copying_env default_ws_client_config (CmdText ''x'') = Some (TextFrame (as_bytes ''x''))"
    by (simp add: frame_of_def encode_command_def encode_text_message_def text_as_msgpack_def
      maybe_compress_def default_ws_client_config_def)
  have s: "send_frame_with_timeout (send_timeout_ms default_ws_client_config) (SinkErr 1) = Some Failed"
    by (simp add: send_frame_with_timeout_def default_ws_client_config_def)
  show ?thesis
    using failed_send_loses_message [OF m f s, of SinkHangs None] by (simp add: m_def)
qed

end
