(* ===== verification/Http_Request.thy ===== *)
theory Http_Request
  imports Client_Builder
begin

section \<open>HTTP requests and responses\<close>

text \<open>
  Models \<^verbatim>\<open>catcher-http/src/transport/multipart.rs\<close> and the stateless half of
  \<^verbatim>\<open>catcher-http/src/transport/http_client.rs\<close>: what is sent for a request, what is made of the
  response, of an error of the library, and of a stream.  Sending is the library's: its result is an
  argument.  The headers of a request are the calls of \<open>header\<close> in order.
\<close>

subsection \<open>Multipart forms\<close>

datatype part =
    TextPart string string
  | FilePart string string string bytes
  | BytesPart string string bytes

type_synonym multipart_form = "part list"

definition form_text :: "multipart_form \<Rightarrow> string \<Rightarrow> string \<Rightarrow> multipart_form" where
  "form_text f name v = f @ [TextPart name v]"

definition form_file :: "multipart_form \<Rightarrow> string \<Rightarrow> string \<Rightarrow> string \<Rightarrow> bytes \<Rightarrow> multipart_form" where
  "form_file f name filename content_type d = f @ [FilePart name filename content_type d]"

definition form_bytes :: "multipart_form \<Rightarrow> string \<Rightarrow> string \<Rightarrow> bytes \<Rightarrow> multipart_form" where
  "form_bytes f name content_type d = f @ [BytesPart name content_type d]"

definition crlf :: string where
  "crlf = [CHR 0x0D, CHR 0x0A]"

definition quote_char :: string where
  "quote_char = [CHR 0x22]"

definition write_disposition :: "string \<Rightarrow> string option \<Rightarrow> bytes" where
  "write_disposition name filename =
     as_bytes (''Content-Disposition: form-data; name='' @ quote_char) @ as_bytes name @ as_bytes quote_char
     @ (case filename of
          Some fname \<Rightarrow>
            as_bytes (''; filename='' @ quote_char) @ as_bytes fname @ as_bytes quote_char
        | None \<Rightarrow> [])
     @ as_bytes crlf"

definition content_type_line :: "string \<Rightarrow> bytes" where
  "content_type_line content_type = as_bytes (''Content-Type: '' @ content_type @ crlf)"

fun encode_part :: "part \<Rightarrow> bytes" where
  "encode_part (TextPart name v) =
     write_disposition name None @ as_bytes crlf @ as_bytes v @ as_bytes crlf"
| "encode_part (FilePart name filename content_type d) =
     write_disposition name (Some filename) @ content_type_line content_type
     @ as_bytes crlf @ d @ as_bytes crlf"
| "encode_part (BytesPart name content_type d) =
     write_disposition name None @ content_type_line content_type @ as_bytes crlf @ d @ as_bytes crlf"

text \<open>The boundary is the time in nanoseconds, in 32 hexadecimal digits.\<close>

definition hex_digit :: "nat \<Rightarrow> char" where
  "hex_digit d = ''0123456789abcdef'' ! d"

fun hex_padded :: "nat \<Rightarrow> nat \<Rightarrow> string" where
  "hex_padded 0 n = []"
| "hex_padded (Suc k) n = hex_padded k (n div 16) @ [hex_digit (n mod 16)]"

definition generate_boundary :: "nat \<Rightarrow> string" where
  "generate_boundary nanos = ''----RustFormBoundary'' @ hex_padded 32 nanos"

definition encode_form :: "string \<Rightarrow> multipart_form \<Rightarrow> bytes \<times> string" where
  "encode_form boundary parts =
     (concat (map (\<lambda>p. as_bytes ''--'' @ as_bytes boundary @ as_bytes crlf @ encode_part p) parts)
      @ as_bytes ''--'' @ as_bytes boundary @ as_bytes ''--'' @ as_bytes crlf,
      ''multipart/form-data; boundary='' @ boundary)"

subsection \<open>Requests\<close>

record http_request =
  req_method :: http_method
  req_url :: string
  req_headers :: header_map
  req_body :: "bytes option"
  req_content_type :: "string option"
  req_timeout_ms :: "u64 option"
  req_priority :: priority
  req_multipart :: "multipart_form option"

definition default_request :: http_request where
  "default_request =
     \<lparr>req_method = GET, req_url = '''', req_headers = [], req_body = None, req_content_type = None,
      req_timeout_ms = None, req_priority = Normal, req_multipart = None\<rparr>"

record wire_request =
  wr_method :: http_method
  wr_url :: string
  wr_headers :: header_map
  wr_body :: "bytes option"
  wr_timeout_ms :: u64

text \<open>The codecs of JSON and MessagePack, with \<open>'v\<close> the type of a JSON value.\<close>

record 'v body_codec =
  bc_json_from_slice :: "bytes \<Rightarrow> string + 'v"
  bc_msgpack_to_vec :: "'v \<Rightarrow> string + bytes"
  bc_msgpack_from_read :: "bytes \<Rightarrow> string + ('v \<times> nat)"
  bc_json_to_vec :: "'v \<Rightarrow> string + bytes"

definition absolute_url :: "http_client_config \<Rightarrow> string \<Rightarrow> string" where
  "absolute_url config url =
     (if starts_with url ''http'' then url
      else trim_end_matches (CHR ''/'') (base_url config) @ url)"

text \<open>Body and headers that the body adds.\<close>

definition plain_body :: "http_request \<Rightarrow> bytes option \<times> header_map" where
  "plain_body req =
     (req_body req,
      case req_content_type req of Some ct \<Rightarrow> [(''Content-Type'', ct)] | None \<Rightarrow> [])"

definition request_body ::
  "'v body_codec \<Rightarrow> string \<Rightarrow> http_client_config \<Rightarrow> http_request
    \<Rightarrow> catcher_error + (bytes option \<times> header_map)" where
  "request_body bc boundary config req =
     (case req_multipart req of
        Some form \<Rightarrow>
          (case encode_form boundary form of (b, ct) \<Rightarrow> Ok (Some b, [(''Content-Type'', ct)]))
      | None \<Rightarrow>
          if http_msgpack config
          then (case req_body req of
                  Some body \<Rightarrow>
                    bind_res (map_err (\<lambda>e. Internal (''msgpack encode: invalid JSON body: '' @ e))
                                (bc_json_from_slice bc body)) (\<lambda>v.
                    bind_res (map_err (\<lambda>e. Internal (''msgpack encode: '' @ e)) (bc_msgpack_to_vec bc v))
                      (\<lambda>b. Ok (Some b, [(''Content-Type'', ''application/msgpack'')])))
                | None \<Rightarrow> Ok (None, snd (plain_body req)))
          else Ok (plain_body req))"

definition build_request ::
  "'v body_codec \<Rightarrow> string \<Rightarrow> http_client_config \<Rightarrow> http_request \<Rightarrow> catcher_error + wire_request" where
  "build_request bc boundary config req =
     bind_res (request_body bc boundary config req) (\<lambda>(body, hs).
       Ok \<lparr>wr_method = req_method req, wr_url = absolute_url config (req_url req),
           wr_headers = default_headers config @ req_headers req @ hs
             @ (case hostname_override config of Some h \<Rightarrow> [(''Host'', h)] | None \<Rightarrow> []),
           wr_body = body,
           wr_timeout_ms = (case req_timeout_ms req of
                              Some t \<Rightarrow> t | None \<Rightarrow> response_timeout_ms config)\<rparr>)"

text \<open>A streaming request: no MessagePack and no \<open>Host\<close> header.\<close>

definition build_stream_request ::
  "string \<Rightarrow> http_client_config \<Rightarrow> http_request \<Rightarrow> wire_request" where
  "build_stream_request boundary config req =
     (case (case req_multipart req of
              Some form \<Rightarrow> (case encode_form boundary form of (b, ct) \<Rightarrow> (Some b, [(''Content-Type'', ct)]))
            | None \<Rightarrow> plain_body req) of
        (body, hs) \<Rightarrow>
          \<lparr>wr_method = req_method req, wr_url = absolute_url config (req_url req),
           wr_headers = default_headers config @ req_headers req @ hs, wr_body = body,
           wr_timeout_ms = (case req_timeout_ms req of
                              Some t \<Rightarrow> t | None \<Rightarrow> response_timeout_ms config)\<rparr>)"

definition get_request :: "string \<Rightarrow> http_request" where
  "get_request url = default_request\<lparr>req_method := GET, req_url := url\<rparr>"

definition post_request :: "string \<Rightarrow> bytes \<Rightarrow> string \<Rightarrow> http_request" where
  "post_request url body content_type =
     default_request\<lparr>req_method := POST, req_url := url, req_body := Some body,
       req_content_type := Some content_type\<rparr>"

subsection \<open>Errors of the library\<close>

text \<open>
  What the code asks a \<open>reqwest\<close> error: whether it is a timeout, whether it happened on connecting,
  the host of its URL, and the messages of it and its causes.  An error of the middleware is one
  of these, one of the retry middleware, or another with its messages.
\<close>

record reqwest_error =
  re_timeout :: bool
  re_connect :: bool
  re_host :: "string option"
  re_messages :: "string list"

datatype client_error =
    ReqwestFailed reqwest_error
  | RetriesFailed u32 client_error
  | RetryFailed client_error
  | OtherFailed "string list"

text \<open>A message equal to the one before it is left out.\<close>

definition error_chain :: "string list \<Rightarrow> string" where
  "error_chain msgs = join '': '' (remdups_adj msgs)"

definition map_reqwest_error :: "http_client_config \<Rightarrow> reqwest_error \<Rightarrow> catcher_error" where
  "map_reqwest_error config e =
     (let host = (case re_host e of Some h \<Rightarrow> h | None \<Rightarrow> ''unknown'');
          reason = error_chain (re_messages e);
          n = map ascii_lower reason
      in if re_timeout e \<and> re_connect e then ConnectionTimeout (connect_timeout_ms config)
         else if re_timeout e then RequestTimeout (response_timeout_ms config)
         else if contains_str n ''dns'' \<or> contains_str n ''failed to lookup address''
              \<or> contains_str n ''failed to resolve'' \<or> contains_str n ''no record found''
         then DnsError host reason
         else if contains_str n ''tls'' \<or> contains_str n ''certificate'' \<or> contains_str n ''handshake''
         then TlsError reason
         else if re_connect e then ConnectionError host reason
         else TransportError reason)"

primrec map_middleware_error :: "http_client_config \<Rightarrow> client_error \<Rightarrow> catcher_error" where
  "map_middleware_error config (ReqwestFailed e) = map_reqwest_error config e"
| "map_middleware_error config (RetriesFailed retries e) =
     RetryExhausted (saturating_add retries 1) (map_middleware_error config e)"
| "map_middleware_error config (RetryFailed e) = map_middleware_error config e"
| "map_middleware_error config (OtherFailed msgs) =
     Internal (''request middleware: '' @ error_chain msgs)"

subsection \<open>Responses\<close>

text \<open>A response as it arrives; a header value that is not text is \<open>None\<close>.\<close>

record raw_response =
  rr_status :: u16
  rr_headers :: "(string \<times> string option) list"
  rr_body :: "string + bytes"
  rr_elapsed_ms :: u64

definition header_text :: "string option \<Rightarrow> string" where
  "header_text v = (case v of Some s \<Rightarrow> s | None \<Rightarrow> '''')"

text \<open>Collecting into a \<open>HashMap\<close>: the last value of a name counts.\<close>

fun collect_headers :: "(string \<times> string option) list \<Rightarrow> header_map \<Rightarrow> header_map" where
  "collect_headers [] h = h"
| "collect_headers ((k, v) # kvs) h =
     collect_headers kvs
       (filter (\<lambda>(k', _). k' \<noteq> k) h @ [(k, header_text v)])"

definition of_bytes :: "bytes \<Rightarrow> string" where
  "of_bytes b = map (\<lambda>w. char_of (unat w)) b"

definition decode_body ::
  "'v body_codec \<Rightarrow> http_client_config \<Rightarrow> header_map \<Rightarrow> bytes \<Rightarrow> catcher_error + bytes" where
  "decode_body bc config headers body =
     (if http_msgpack config \<and> body \<noteq> []
         \<and> (case map_of headers ''content-type'' of
              Some ct \<Rightarrow> contains_str ct ''msgpack'' | None \<Rightarrow> False)
      then bind_res (map_err (\<lambda>e. Internal (''msgpack decode: '' @ e)) (bc_msgpack_from_read bc body))
             (\<lambda>(v, pos).
              if pos \<noteq> length body
              then Err (Internal (''msgpack decode: '' @ dec (length body - pos)
                     @ '' trailing bytes (consumed '' @ dec pos @ ''/'' @ dec (length body) @ '')''))
              else map_err (\<lambda>e. Internal (''msgpack decode: json serialize: '' @ e)) (bc_json_to_vec bc v))
      else Ok body)"

definition handle_response ::
  "'v body_codec \<Rightarrow> http_client_config \<Rightarrow> raw_response \<Rightarrow> catcher_error + http_response" where
  "handle_response bc config r =
     (let headers = collect_headers (rr_headers r) []
      in bind_res (map_err (\<lambda>e. Internal (''read body: '' @ e)) (rr_body r)) (\<lambda>body.
         if 400 \<le> rr_status r
         then Err (HttpError (rr_status r) (from_utf8_lossy (of_bytes body)))
         else bind_res (decode_body bc config headers body) (\<lambda>b.
           Ok \<lparr>resp_status = rr_status r, resp_headers = headers, resp_body = b,
               resp_elapsed_ms = rr_elapsed_ms r\<rparr>)))"

text \<open>\<open>execute_http_request\<close>; \<open>send\<close> is the client, with its retry middleware.\<close>

definition execute_http_request ::
  "'v body_codec \<Rightarrow> string \<Rightarrow> (wire_request \<Rightarrow> client_error + raw_response) \<Rightarrow> http_client_config
    \<Rightarrow> http_request \<Rightarrow> catcher_error + http_response" where
  "execute_http_request bc boundary send config req =
     bind_res (build_request bc boundary config req) (\<lambda>w.
     bind_res (map_err (map_middleware_error config) (send w)) (handle_response bc config))"

subsection \<open>Streams\<close>

text \<open>What the two futures of the loop yield: an item of the body, its end, or a cancellation.\<close>

datatype stream_item = StreamBytes bytes | StreamFails string | StreamEnds | StreamCancelled

text \<open>The callbacks made and the result; \<open>None\<close> while the stream has not ended.\<close>

fun stream_loop :: "stream_item list \<Rightarrow> stream_event list \<times> (catcher_error + unit) option" where
  "stream_loop [] = ([], None)"
| "stream_loop (StreamBytes b # is) =
     (case stream_loop is of (evs, r) \<Rightarrow> (StreamChunk b # evs, r))"
| "stream_loop (StreamFails e # is) =
     ([StreamError (''stream read error: '' @ e)], Some (Err (Internal (''stream read: '' @ e))))"
| "stream_loop (StreamEnds # is) = ([StreamDone], Some (Ok ()))"
| "stream_loop (StreamCancelled # is) =
     ([StreamError ''request cancelled''], Some (Err (Internal ''request cancelled'')))"

text \<open>\<open>None\<close> for the sent response is a cancellation before it came.\<close>

definition execute_stream ::
  "string \<Rightarrow> (wire_request \<Rightarrow> (client_error + raw_response) option) \<Rightarrow> http_client_config
    \<Rightarrow> http_request \<Rightarrow> stream_item list \<Rightarrow> stream_event list \<times> (catcher_error + unit) option" where
  "execute_stream boundary send config req items =
     (case send (build_stream_request boundary config req) of
        None \<Rightarrow> ([StreamError ''request cancelled''], Some (Err (Internal ''request cancelled'')))
      | Some (Inl e) \<Rightarrow> ([], Some (Err (map_middleware_error config e)))
      | Some (Inr r) \<Rightarrow>
          (case stream_loop items of
             (evs, res) \<Rightarrow>
               (StreamHeaders (rr_status r) (collect_headers (rr_headers r) []) # evs, res)))"

subsection \<open>Properties\<close>

lemma collect_headers_distinct:
  "distinct (map fst h) \<Longrightarrow> distinct (map fst (collect_headers kvs h))"
proof (induction kvs h rule: collect_headers.induct)
  case (2 k v kvs h)
  have "distinct (map fst (filter (\<lambda>(k', _). k' \<noteq> k) h @ [(k, header_text v)]))"
    using "2.prems" by (auto simp: distinct_map_filter)
  from "2.IH" [OF this] show ?case by simp
qed simp

lemma map_of_filter_other:
  "k' \<noteq> k \<Longrightarrow> map_of (filter (\<lambda>(k', _). k' \<noteq> k) h) k' = map_of h k'"
  by (induction h) auto

lemma map_of_filter_same: "map_of (filter (\<lambda>(k', _). k' \<noteq> k) h) k = None"
  by (induction h) auto

lemma map_of_collect_headers:
  "map_of (collect_headers kvs h) n =
     (case map_of (rev kvs) n of Some v \<Rightarrow> Some (header_text v) | None \<Rightarrow> map_of h n)"
proof (induction kvs h rule: collect_headers.induct)
  case (2 k v kvs h)
  then show ?case
    by (auto simp: map_add_def map_of_filter_other map_of_filter_same split: option.splits)
qed simp

text \<open>
  C19. A response that is handed to the caller is well formed: its status is below 400, every header
  name occurs once, with the last value the server sent (empty when it is not text), and without
  MessagePack its body is the received one; every status from 400 is the error that carries it.
\<close>

theorem ok_response_wellformed:
  assumes "execute_http_request bc boundary send config req = Ok resp"
  shows "\<exists>w r body. build_request bc boundary config req = Ok w \<and> send w = Inr r \<and> rr_body r = Inr body \<and>
    resp_status resp = rr_status r \<and> resp_status resp < 400 \<and>
    distinct (map fst (resp_headers resp)) \<and>
    (\<forall>n. map_of (resp_headers resp) n = map_option header_text (map_of (rev (rr_headers r)) n)) \<and>
    (\<not> http_msgpack config \<longrightarrow> resp_body resp = body)"
proof -
  from assms obtain w r where w: "build_request bc boundary config req = Ok w" "send w = Inr r"
    and h: "handle_response bc config r = Ok resp"
  proof -
    from assms obtain w where w: "build_request bc boundary config req = Ok w"
      "bind_res (map_err (map_middleware_error config) (send w)) (handle_response bc config) = Ok resp"
      by (auto simp: execute_http_request_def bind_res_Ok_iff)
    then show ?thesis using that by (cases "send w") (auto simp: map_err_def)
  qed
  from h obtain body b where b: "rr_body r = Inr body" "\<not> 400 \<le> rr_status r"
    "decode_body bc config (collect_headers (rr_headers r) []) body = Ok b"
    "resp = \<lparr>resp_status = rr_status r, resp_headers = collect_headers (rr_headers r) [],
             resp_body = b, resp_elapsed_ms = rr_elapsed_ms r\<rparr>"
    by (auto simp: handle_response_def Let_def bind_res_Ok_iff map_err_def split: sum.splits if_splits)
  have "\<not> http_msgpack config \<longrightarrow> b = body" using b(3) by (auto simp: decode_body_def)
  moreover have "map_of (collect_headers (rr_headers r) []) n =
      map_option header_text (map_of (rev (rr_headers r)) n)" for n
    by (simp add: map_of_collect_headers split: option.splits)
  ultimately show ?thesis
    using w b collect_headers_distinct [of "[]" "rr_headers r"] by (auto simp: not_le)
qed

definition no_codec :: "unit body_codec" where
  "no_codec = \<lparr>bc_json_from_slice = (\<lambda>_. Inl []), bc_msgpack_to_vec = (\<lambda>_. Inl []),
     bc_msgpack_from_read = (\<lambda>_. Inl []), bc_json_to_vec = (\<lambda>_. Inl [])\<rparr>"

definition answers :: "u16 \<Rightarrow> wire_request \<Rightarrow> client_error + raw_response" where
  "answers st w = Inr \<lparr>rr_status = st, rr_headers = [(''a'', Some ''1''), (''a'', None)],
     rr_body = Inr [104, 105], rr_elapsed_ms = 7\<rparr>"

theorem ok_response_wellformed_witness:
  "\<exists>resp. execute_http_request no_codec '''' (answers 200) default_http_client_config
      (get_request ''/x'') = Ok resp \<and> resp_status resp < 400 \<and> distinct (map fst (resp_headers resp))"
proof -
  obtain resp where r: "execute_http_request no_codec '''' (answers 200) default_http_client_config
      (get_request ''/x'') = Ok resp"
    by (simp add: execute_http_request_def build_request_def request_body_def get_request_def
      default_request_def default_http_client_config_def plain_body_def answers_def map_err_def
      handle_response_def decode_body_def Let_def)
  from ok_response_wellformed [OF r] r show ?thesis by auto
qed

text \<open>The bytes a stream carries before it ends.\<close>

fun stream_bytes :: "stream_item list \<Rightarrow> bytes list" where
  "stream_bytes (StreamBytes b # is) = b # stream_bytes is"
| "stream_bytes _ = []"

lemma stream_loop_shape:
  "\<exists>last res. stream_loop is = (map StreamChunk (stream_bytes is) @ last, res) \<and>
    (case res of
       None \<Rightarrow> last = []
     | Some (Inr _) \<Rightarrow> last = [StreamDone]
     | Some (Inl _) \<Rightarrow> \<exists>msg. last = [StreamError msg])"
proof (induction "is" rule: stream_loop.induct)
  case (2 b "is")
  then obtain last res where "stream_loop is = (map StreamChunk (stream_bytes is) @ last, res)"
    and "case res of None \<Rightarrow> last = [] | Some (Inr _) \<Rightarrow> last = [StreamDone]
      | Some (Inl _) \<Rightarrow> \<exists>msg. last = [StreamError msg]" by blast
  then show ?case by (intro exI [of _ last] exI [of _ res]) simp
qed auto

text \<open>
  C20. A streamed request whose response came calls back with the headers first, then with the chunks
  of the body as they were received, each once and in order, and then once more when it ends: with
  \<open>Done\<close> exactly when the call succeeds, with an error exactly when it fails.
\<close>

theorem stream_protocol:
  assumes "send (build_stream_request boundary config req) = Some (Inr r)"
  shows "\<exists>last res. execute_stream boundary send config req items
      = (StreamHeaders (rr_status r) (collect_headers (rr_headers r) [])
           # map StreamChunk (stream_bytes items) @ last, res) \<and>
    (case res of
       None \<Rightarrow> last = []
     | Some (Inr _) \<Rightarrow> last = [StreamDone]
     | Some (Inl _) \<Rightarrow> \<exists>msg. last = [StreamError msg])"
  using stream_loop_shape [of items] assms by (auto simp: execute_stream_def)

theorem stream_protocol_witness:
  "\<exists>last res. execute_stream '''' (\<lambda>w. Some (answers 200 w)) default_http_client_config (get_request ''/x'')
     [StreamBytes [1], StreamBytes [2, 3], StreamEnds] =
   (StreamHeaders 200 [(''a'', '''')] # [StreamChunk [1], StreamChunk [2, 3]] @ last, res)"
proof -
  have "(\<lambda>w. Some (answers 200 w)) (build_stream_request '''' default_http_client_config (get_request ''/x''))
    = Some (Inr \<lparr>rr_status = 200, rr_headers = [(''a'', Some ''1''), (''a'', None)],
        rr_body = Inr [104, 105], rr_elapsed_ms = 7\<rparr>)" by (simp add: answers_def)
  from stream_protocol [where send = "\<lambda>w. Some (answers 200 w)", OF this, of "[StreamBytes [1], StreamBytes [2, 3], StreamEnds]"] show ?thesis
    by (auto simp: header_text_def)
qed

text \<open>
  Names are written into the headers of a part as they are: a text field with a crafted name
  gives the very bytes of a file field with a file name and content type of the attacker's choice,
  whatever the boundary.
\<close>

theorem multipart_name_injection:
  "encode_form boundary (form_text f
       (name @ quote_char @ ''; filename='' @ quote_char @ filename @ quote_char @ crlf
        @ ''Content-Type: '' @ content_type) v)
   = encode_form boundary (form_file f name filename (content_type @ quote_char) (as_bytes v))"
  by (simp add: encode_form_def form_text_def form_file_def write_disposition_def content_type_line_def
    as_bytes_def)

end
