(* ===== verification/Request_Queue.thy ===== *)
theory Request_Queue
  imports Core_Types
begin

section \<open>The priority request queue\<close>

text \<open>
  Models \<^verbatim>\<open>catcher-http/src/scheduler/priority_queue.rs\<close>: two bounded channels, a worker that takes
  from the high one first and spawns a task for what it takes, and a semaphore that the spawned
  tasks queue up at (\<open>tokio\<close>'s is first come, first served).  The steps are those of the submitting
  side, the worker, a spawned task reaching the semaphore, a permit being granted and a task ending;
  the scheduler chooses among them.  A task is known by a number; its future is not interpreted, how
  it ends is an argument.
\<close>

record queue_task =
  qt_id :: nat
  qt_priority :: priority
  qt_timeout_ms :: u64

record request_queue =
  pq_config :: queue_config
  pq_high :: "queue_task list"
  pq_low :: "queue_task list"
  pq_spawned :: "queue_task list"
  pq_waiting :: "queue_task list"
  pq_running :: "queue_task list"
  pq_permits :: nat

definition pq_new :: "queue_config \<Rightarrow> request_queue" where
  "pq_new config =
     \<lparr>pq_config = config, pq_high = [], pq_low = [], pq_spawned = [], pq_waiting = [],
      pq_running = [], pq_permits = max_concurrency config\<rparr>"

definition pq_task :: "request_queue \<Rightarrow> nat \<Rightarrow> priority \<Rightarrow> u64 option \<Rightarrow> queue_task" where
  "pq_task q n p timeout_ms =
     \<lparr>qt_id = n, qt_priority = p,
      qt_timeout_ms = (case timeout_ms of Some t \<Rightarrow> t | None \<Rightarrow> default_timeout_ms (pq_config q))\<rparr>"

text \<open>\<open>submit\<close> waits while its channel is full.\<close>

definition pq_submit :: "queue_task \<Rightarrow> request_queue \<Rightarrow> request_queue option" where
  "pq_submit t q =
     (if qt_priority t \<le> High
      then (if length (pq_high q) < queue_capacity (pq_config q)
            then Some (q\<lparr>pq_high := pq_high q @ [t]\<rparr>) else None)
      else (if length (pq_low q) < queue_capacity (pq_config q)
            then Some (q\<lparr>pq_low := pq_low q @ [t]\<rparr>) else None))"

text \<open>The worker's biased \<open>select!\<close>.\<close>

definition pq_take :: "request_queue \<Rightarrow> request_queue" where
  "pq_take q =
     (case pq_high q of
        t # ts \<Rightarrow> q\<lparr>pq_high := ts, pq_spawned := pq_spawned q @ [t]\<rparr>
      | [] \<Rightarrow>
          (case pq_low q of
             t # ts \<Rightarrow> q\<lparr>pq_low := ts, pq_spawned := pq_spawned q @ [t]\<rparr>
           | [] \<Rightarrow> q))"

text \<open>The \<open>i\<close>-th spawned task is polled and asks for a permit.\<close>

definition pq_acquire :: "nat \<Rightarrow> request_queue \<Rightarrow> request_queue" where
  "pq_acquire i q =
     (if i < length (pq_spawned q)
      then q\<lparr>pq_spawned := take i (pq_spawned q) @ drop (Suc i) (pq_spawned q),
             pq_waiting := pq_waiting q @ [pq_spawned q ! i]\<rparr>
      else q)"

definition pq_grant :: "request_queue \<Rightarrow> request_queue" where
  "pq_grant q =
     (case pq_waiting q of
        t # ts \<Rightarrow>
          if 0 < pq_permits q
          then q\<lparr>pq_waiting := ts, pq_running := pq_running q @ [t], pq_permits := pq_permits q - 1\<rparr>
          else q
      | [] \<Rightarrow> q)"

definition pq_finish :: "nat \<Rightarrow> request_queue \<Rightarrow> request_queue" where
  "pq_finish i q =
     (if i < length (pq_running q)
      then q\<lparr>pq_running := take i (pq_running q) @ drop (Suc i) (pq_running q),
             pq_permits := pq_permits q + 1\<rparr>
      else q)"

text \<open>What a task sends back: the time limit runs from the grant of the permit.\<close>

definition task_response :: "queue_task \<Rightarrow> (nat \<times> (catcher_error + 'a)) option \<Rightarrow> catcher_error + 'a" where
  "task_response t ended =
     (case ended of
        Some (ms, r) \<Rightarrow> if ms \<le> unat (qt_timeout_ms t) then r else Err (QueueTimeout (qt_timeout_ms t))
      | None \<Rightarrow> Err (QueueTimeout (qt_timeout_ms t)))"

definition available_permits :: "request_queue \<Rightarrow> nat" where
  "available_permits q = pq_permits q"

datatype queue_step = Submit queue_task | Take | Acquire nat | Grant | Finish nat

fun pq_step :: "queue_step \<Rightarrow> request_queue \<Rightarrow> request_queue" where
  "pq_step (Submit t) q = (case pq_submit t q of Some q' \<Rightarrow> q' | None \<Rightarrow> q)"
| "pq_step Take q = pq_take q"
| "pq_step (Acquire i) q = pq_acquire i q"
| "pq_step Grant q = pq_grant q"
| "pq_step (Finish i) q = pq_finish i q"

definition pq_run :: "queue_step list \<Rightarrow> request_queue \<Rightarrow> request_queue" where
  "pq_run steps q = fold pq_step steps q"

lemmas pq_ops = pq_submit_def pq_take_def pq_acquire_def pq_grant_def pq_finish_def

subsection \<open>Capacity\<close>

text \<open>
  What a limiter of concurrency promises its client: whatever steps are made, what runs and what is
  free add up to the limit.
\<close>

locale limited_steps =
  fixes step :: "'i \<Rightarrow> 's \<Rightarrow> 's" and running free limit :: "'s \<Rightarrow> nat" and inv :: "'s \<Rightarrow> bool"
  assumes inv_step: "inv s \<Longrightarrow> inv (step i s)"
    and limit_step: "inv s \<Longrightarrow> limit (step i s) = limit s"
    and accounted: "inv s \<Longrightarrow> running s + free s = limit s"
begin

lemma run_inv: "inv s \<Longrightarrow> inv (fold step is s)"
  by (induction "is" arbitrary: s) (simp_all add: inv_step)

lemma run_limit: "inv s \<Longrightarrow> limit (fold step is s) = limit s"
  by (induction "is" arbitrary: s) (simp_all add: inv_step limit_step)

lemma run_accounted: "inv s \<Longrightarrow> running (fold step is s) + free (fold step is s) = limit s"
  using accounted [OF run_inv] run_limit by metis

lemma run_depth: "inv s \<Longrightarrow> limit s - free (fold step is s) = running (fold step is s)"
  using run_accounted [of s "is"] by linarith

end

definition pq_inv :: "request_queue \<Rightarrow> bool" where
  "pq_inv q \<longleftrightarrow> pq_permits q + length (pq_running q) = max_concurrency (pq_config q) \<and>
     length (pq_high q) \<le> queue_capacity (pq_config q) \<and>
     length (pq_low q) \<le> queue_capacity (pq_config q)"

lemma pq_inv_step: "pq_inv q \<Longrightarrow> pq_inv (pq_step s q)"
  by (cases s) (auto simp: pq_inv_def pq_ops split: list.splits option.splits if_splits)

lemma pq_inv_new: "pq_inv (pq_new config)"
  by (simp add: pq_inv_def pq_new_def)

lemma pq_config_step [simp]: "pq_config (pq_step s q) = pq_config q"
  by (cases s) (auto simp: pq_ops split: list.splits option.splits if_splits)

interpretation queue: limited_steps pq_step "\<lambda>q. length (pq_running q)" available_permits
  "\<lambda>q. max_concurrency (pq_config q)" pq_inv
  by unfold_locales (simp_all add: pq_inv_step, simp add: pq_inv_def available_permits_def)

lemma pq_config_run: "pq_config (pq_run steps q) = pq_config q"
  unfolding pq_run_def by (induction steps arbitrary: q) simp_all

text \<open>
  C14. However the scheduler interleaves submitters, worker and tasks, at most the configured number
  of requests run at a time, the free permits are exactly the rest, and neither channel holds more
  than its capacity.
\<close>

theorem concurrency_bounded:
  "length (pq_running (pq_run steps (pq_new config))) + available_permits (pq_run steps (pq_new config))
      = max_concurrency config \<and>
   length (pq_high (pq_run steps (pq_new config))) \<le> queue_capacity config \<and>
   length (pq_low (pq_run steps (pq_new config))) \<le> queue_capacity config"
proof -
  let ?q = "pq_run steps (pq_new config)"
  have "pq_inv ?q" unfolding pq_run_def by (rule queue.run_inv [OF pq_inv_new])
  then have "length (pq_high ?q) \<le> queue_capacity config" "length (pq_low ?q) \<le> queue_capacity config"
    using pq_config_run [of steps "pq_new config"] by (simp_all add: pq_inv_def pq_new_def)
  with queue.run_accounted [OF pq_inv_new, of steps config] show ?thesis
    by (simp add: pq_run_def) (simp add: pq_new_def)
qed

subsection \<open>What priority means\<close>

text \<open>The tasks in the order in which permits are granted to them in a run.\<close>

fun grants :: "queue_step list \<Rightarrow> request_queue \<Rightarrow> queue_task list" where
  "grants [] q = []"
| "grants (s # ss) q =
     (case (s, pq_waiting q) of
        (Grant, t # ts) \<Rightarrow> if 0 < pq_permits q then [t] else []
      | _ \<Rightarrow> []) @ grants ss (pq_step s q)"

lemma grants_fifo: "\<exists>rest. pq_waiting q @ rest = grants ss q @ pq_waiting (pq_run ss q)"
proof (induction ss arbitrary: q)
  case (Cons s ss)
  from Cons.IH [of "pq_step s q"] obtain rest where
    r: "pq_waiting (pq_step s q) @ rest = grants ss (pq_step s q) @ pq_waiting (pq_run ss (pq_step s q))" ..
  have run: "pq_run (s # ss) q = pq_run ss (pq_step s q)" by (simp add: pq_run_def)
  have "\<exists>x. pq_waiting q @ x =
      (case (s, pq_waiting q) of
        (Grant, t # ts) \<Rightarrow> if 0 < pq_permits q then [t] else []
      | _ \<Rightarrow> []) @ pq_waiting (pq_step s q)"
    by (cases s) (auto simp: pq_ops split: list.splits option.splits)
  then obtain x where x: "pq_waiting q @ x =
      (case (s, pq_waiting q) of
        (Grant, t # ts) \<Rightarrow> if 0 < pq_permits q then [t] else []
      | _ \<Rightarrow> []) @ pq_waiting (pq_step s q)" ..
  have "pq_waiting q @ (x @ rest) = grants (s # ss) q @ pq_waiting (pq_run (s # ss) q)"
    using x r unfolding run by (metis append.assoc grants.simps(2))
  then show ?case ..
qed (simp add: pq_run_def)

text \<open>
  A task, however urgent, is granted a permit only after every task that was waiting at the
  semaphore before it came: permits go by the order of arrival there, which the worker reaches
  without delay, so the priority of a task has no effect once the permits are used up.
\<close>

theorem priority_not_honoured:
  assumes "t \<notin> set (pq_waiting q)" and "t \<in> set (grants ss q)"
  shows "\<exists>later. grants ss q = pq_waiting q @ later \<and> t \<in> set later"
proof -
  obtain rest where r: "pq_waiting q @ rest = grants ss q @ pq_waiting (pq_run ss q)"
    using grants_fifo by blast
  then obtain us where "pq_waiting q = grants ss q @ us \<or> grants ss q = pq_waiting q @ us"
    by (metis append_eq_append_conv2)
  then show ?thesis using assms by auto
qed

definition busy_queue :: request_queue where
  "busy_queue = pq_run
     [Submit \<lparr>qt_id = 1, qt_priority = Low, qt_timeout_ms = 9\<rparr>, Take, Acquire 0, Grant,
      Submit \<lparr>qt_id = 2, qt_priority = Background, qt_timeout_ms = 9\<rparr>, Take, Acquire 0]
     (pq_new (default_queue_config\<lparr>max_concurrency := 1\<rparr>))"

theorem priority_not_honoured_witness:
  "grants [Submit \<lparr>qt_id = 3, qt_priority = Critical, qt_timeout_ms = 9\<rparr>, Take, Acquire 0, Finish 0,
      Grant, Finish 0, Grant] busy_queue =
     [\<lparr>qt_id = 2, qt_priority = Background, qt_timeout_ms = 9\<rparr>,
      \<lparr>qt_id = 3, qt_priority = Critical, qt_timeout_ms = 9\<rparr>]"
proof -
  let ?t = "\<lparr>qt_id = 3, qt_priority = Critical, qt_timeout_ms = 9\<rparr>"
  let ?ss = "[Submit ?t, Take, Acquire 0, Finish 0, Grant, Finish 0, Grant]"
  note ev = busy_queue_def pq_run_def pq_new_def default_queue_config_def pq_ops less_eq_priority_def
  have w: "?t \<notin> set (pq_waiting busy_queue)"
    "pq_waiting busy_queue = [\<lparr>qt_id = 2, qt_priority = Background, qt_timeout_ms = 9\<rparr>]"
    by (simp_all add: ev)
  have g: "?t \<in> set (grants ?ss busy_queue)" "length (grants ?ss busy_queue) = 2"
    by (simp_all add: ev)
  obtain later where l: "grants ?ss busy_queue = pq_waiting busy_queue @ later" "?t \<in> set later"
    using priority_not_honoured [OF w(1) g(1)] by blast
  with g(2) w(2) have "length later = 1" by (simp del: grants.simps)
  with l(2) have "later = [?t]" by (cases later) auto
  with l(1) w(2) show ?thesis by (simp del: grants.simps)
qed

end
