(* ===== verification/Http_Transport.thy ===== *)
theory Http_Transport
  imports Http_Request Request_Queue Adaptive_Timeout Metrics
begin

section \<open>The HTTP transport\<close>

text \<open>
  Models the stateful half of \<^verbatim>\<open>catcher-http/src/transport/http_client.rs\<close>: \<open>HttpTransport\<close> with its
  client, breaker, metrics, adaptive timeout, network generation, cancellation tokens and concurrency
  control.  Any number of requests are in flight: \<open>execute_with_token\<close> is cut at its \<open>await\<close>s into
  the part before (\<open>begin_request\<close>), being let through (\<open>enter_request\<close>), and the two ways in which
  the wait ends (\<open>finish_request\<close>, \<open>observe_cancel\<close>).  Tokens are numbers with the set of the cancelled
  ones.  A panic while the adaptive timeout is locked poisons its mutex.
\<close>

subsection \<open>State\<close>

record flight =
  fl_id :: u64
  fl_token :: nat
  fl_global :: nat
  fl_start_us :: nat
  fl_gen :: u64
  fl_request :: http_request
  fl_entered :: bool

record http_transport =
  ht_client :: http_client
  ht_config :: http_client_config
  ht_dns :: "dns_config option"
  ht_breaker :: "circuit_breaker option"
  ht_metrics :: metrics_collector
  ht_adaptive :: "adaptive_timeout option"
  ht_poisoned :: bool
  ht_generation :: u64
  ht_pending :: "u64 \<rightharpoonup> nat"
  ht_next_id :: u64
  ht_global :: nat
  ht_fresh :: nat
  ht_cancelled :: "nat set"
  ht_semaphore :: "nat option"
  ht_queue :: "request_queue option"
  ht_flights :: "nat \<rightharpoonup> flight"

text \<open>
  \<open>HttpTransport::new\<close>; \<open>in_runtime\<close> is whether it is called inside an asynchronous runtime, which
  decides between the queue and the semaphore.
\<close>

definition transport_queue_config :: "http_client_config \<Rightarrow> queue_config" where
  "transport_queue_config config =
     \<lparr>max_concurrency = unat (http_max_concurrency config), queue_capacity = 1024,
      default_timeout_ms = response_timeout_ms config,
      concurrency_mode = FixedConcurrency (unat (http_max_concurrency config))\<rparr>"

definition transport_new ::
  "lib_env \<Rightarrow> (dns_config \<Rightarrow> catcher_error option) \<Rightarrow> bool \<Rightarrow> http_client_config
    \<Rightarrow> (catcher_error + http_transport) exec" where
  "transport_new env resolver_error in_runtime config =
     bind_exec
       (Done (case http_dns config of
                Some d \<Rightarrow>
                  if use_catcher_resolver d
                  then (case resolver_error d of Some e \<Rightarrow> Err e | None \<Rightarrow> Ok (Some d))
                  else Ok None
              | None \<Rightarrow> Ok None)) (\<lambda>dns.
     bind_exec (build_middleware_client env dns config) (\<lambda>client.
     Done (Ok \<lparr>ht_client = client, ht_config = config, ht_dns = dns,
               ht_breaker = map_option cb_new (http_circuit_breaker config), ht_metrics = mc_new,
               ht_adaptive = None, ht_poisoned = False, ht_generation = 0, ht_pending = Map.empty,
               ht_next_id = 1, ht_global = 0, ht_fresh = 1, ht_cancelled = {},
               ht_semaphore =
                 (if 0 < http_max_concurrency config \<and> \<not> in_runtime
                  then Some (unat (http_max_concurrency config)) else None),
               ht_queue =
                 (if 0 < http_max_concurrency config \<and> in_runtime
                  then Some (pq_new (transport_queue_config config)) else None),
               ht_flights = Map.empty\<rparr>)))"

text \<open>
  \<open>network_changed\<close>: the result and the new state.  The resolver clears its cache whatever it
  returns; the generation and the breaker are reset even when the client cannot be rebuilt.  The
  increment, the stores of the reset and the new client are separate steps of the code: here they
  follow each other undisturbed, in \<^verbatim>\<open>Transport_Races\<close> other requests' steps come between them.
\<close>

definition bump_generation :: "http_transport \<Rightarrow> http_transport" where
  "bump_generation t = t\<lparr>ht_generation := ht_generation t + 1\<rparr>"

definition breaker_store :: "reset_store \<Rightarrow> http_transport \<Rightarrow> http_transport" where
  "breaker_store st t = t\<lparr>ht_breaker := map_option (cb_store st) (ht_breaker t)\<rparr>"

definition rebuild_transport ::
  "lib_env \<Rightarrow> os_proxies option \<Rightarrow> http_transport \<Rightarrow> (catcher_error + unit) exec \<times> http_transport" where
  "rebuild_transport env reported t =
     (let config = (ht_config t)\<lparr>http_proxy := redetect_proxy reported (http_proxy (ht_config t))\<rparr>
      in case build_middleware_client env (ht_dns t) config of
           Panic \<Rightarrow> (Panic, t)
         | Done (Inl e) \<Rightarrow> (Done (Err e), t)
         | Done (Inr client) \<Rightarrow> (Done (Ok ()), t\<lparr>ht_client := client\<rparr>))"

definition transport_network_changed ::
  "lib_env \<Rightarrow> os_proxies option \<Rightarrow> http_transport \<Rightarrow> (catcher_error + unit) exec \<times> http_transport" where
  "transport_network_changed env reported t =
     rebuild_transport env reported (fold breaker_store reset_stores (bump_generation t))"

lemma breaker_stores:
  "fold breaker_store ss t = t\<lparr>ht_breaker := map_option (fold cb_store ss) (ht_breaker t)\<rparr>"
  by (induction ss arbitrary: t)
    (simp_all add: breaker_store_def option.map_comp o_def option.map_id)

lemma transport_network_changed_eq:
  "transport_network_changed env reported t =
     (let t1 = t\<lparr>ht_generation := ht_generation t + 1, ht_breaker := map_option cb_reset (ht_breaker t)\<rparr>;
          config = (ht_config t)\<lparr>http_proxy := redetect_proxy reported (http_proxy (ht_config t))\<rparr>
      in case build_middleware_client env (ht_dns t) config of
           Panic \<Rightarrow> (Panic, t1)
         | Done (Inl e) \<Rightarrow> (Done (Err e), t1)
         | Done (Inr client) \<Rightarrow> (Done (Ok ()), t1\<lparr>ht_client := client\<rparr>))"
  by (simp add: transport_network_changed_def rebuild_transport_def breaker_stores bump_generation_def
    cb_reset_def [abs_def] Let_def)

subsection \<open>Cancellation and bookkeeping\<close>

definition cancel_all :: "http_transport \<Rightarrow> http_transport" where
  "cancel_all t =
     t\<lparr>ht_cancelled := ht_cancelled t \<union> {ht_global t} \<union> ran (ht_pending t),
       ht_global := ht_fresh t, ht_fresh := ht_fresh t + 1, ht_pending := Map.empty\<rparr>"

definition cancel_request :: "u64 \<Rightarrow> http_transport \<Rightarrow> bool \<times> http_transport" where
  "cancel_request rid t =
     (case ht_pending t rid of
        Some token \<Rightarrow> (True, t\<lparr>ht_cancelled := insert token (ht_cancelled t)\<rparr>)
      | None \<Rightarrow> (False, t))"

definition next_request_id :: "http_transport \<Rightarrow> u64 \<times> http_transport" where
  "next_request_id t = (ht_next_id t, t\<lparr>ht_next_id := ht_next_id t + 1\<rparr>)"

definition insert_pending_request :: "u64 \<Rightarrow> nat \<Rightarrow> http_transport \<Rightarrow> http_transport" where
  "insert_pending_request rid token t = t\<lparr>ht_pending := (ht_pending t)(rid \<mapsto> token)\<rparr>"

definition cleanup_pending_request :: "u64 \<Rightarrow> http_transport \<Rightarrow> http_transport" where
  "cleanup_pending_request rid t = t\<lparr>ht_pending := (ht_pending t)(rid := None)\<rparr>"

definition new_token :: "http_transport \<Rightarrow> nat \<times> http_transport" where
  "new_token t = (ht_fresh t, t\<lparr>ht_fresh := ht_fresh t + 1\<rparr>)"

definition allocate_pending_request :: "http_transport \<Rightarrow> (u64 \<times> nat) \<times> http_transport" where
  "allocate_pending_request t =
     (case next_request_id t of (rid, t1) \<Rightarrow>
        (case new_token t1 of (token, t2) \<Rightarrow> ((rid, token), insert_pending_request rid token t2)))"

definition queue_depth :: "http_transport \<Rightarrow> nat" where
  "queue_depth t =
     (case ht_queue t of
        Some q \<Rightarrow> unat (http_max_concurrency (ht_config t)) - available_permits q
      | None \<Rightarrow>
          (case ht_semaphore t of
             Some n \<Rightarrow> unat (http_max_concurrency (ht_config t)) - n
           | None \<Rightarrow> 0))"

definition set_adaptive_timeout ::
  "u64 \<Rightarrow> u64 \<Rightarrow> f64 \<Rightarrow> nat \<Rightarrow> http_transport \<Rightarrow> http_transport exec" where
  "set_adaptive_timeout mn mx m w t =
     (if ht_poisoned t then Panic else Done (t\<lparr>ht_adaptive := Some (at_new mn mx m w)\<rparr>))"

definition disable_adaptive_timeout :: "http_transport \<Rightarrow> http_transport exec" where
  "disable_adaptive_timeout t = (if ht_poisoned t then Panic else Done (t\<lparr>ht_adaptive := None\<rparr>))"

definition circuit_breaker_state :: "http_transport \<Rightarrow> cb_state option" where
  "circuit_breaker_state t = map_option cb_st (ht_breaker t)"

subsection \<open>A request\<close>

text \<open>What a call of \<open>execute_with_token\<close> comes to: it returned, it panicked, or it waits.\<close>

datatype call = Returned "catcher_error + http_response" | Panicked | Waits

definition elapsed_us :: "nat \<Rightarrow> flight \<Rightarrow> u64" where
  "elapsed_us now_us f = of_nat (now_us - fl_start_us f)"

definition record_metrics :: "bool \<Rightarrow> u64 \<Rightarrow> http_transport \<Rightarrow> http_transport" where
  "record_metrics ok us t = t\<lparr>ht_metrics := record_http_request ok us (ht_metrics t)\<rparr>"

text \<open>The adaptive timeout for a request without one; a panic poisons the lock.\<close>

definition apply_adaptive :: "http_request \<Rightarrow> http_transport \<Rightarrow> http_request exec \<times> http_transport" where
  "apply_adaptive req t =
     (if req_timeout_ms req \<noteq> None then (Done req, t)
      else if ht_poisoned t then (Panic, t)
      else case ht_adaptive t of
             None \<Rightarrow> (Done req, t)
           | Some a \<Rightarrow>
               (case at_timeout_ms a of
                  Panic \<Rightarrow> (Panic, t\<lparr>ht_poisoned := True\<rparr>)
                | Done (ms, a') \<Rightarrow>
                    (Done (req\<lparr>req_timeout_ms := Some ms\<rparr>), t\<lparr>ht_adaptive := Some a'\<rparr>)))"

text \<open>
  From the call to its first wait; \<open>n\<close> numbers the flight, the clocks are the breaker's and the
  latency's, which has not moved when the breaker rejects at once (\<open>us\<close> later).
\<close>

definition begin_request ::
  "u64 \<Rightarrow> nat \<Rightarrow> u64 \<Rightarrow> nat \<Rightarrow> u64 \<Rightarrow> nat \<Rightarrow> http_request \<Rightarrow> http_transport \<Rightarrow> call \<times> http_transport" where
  "begin_request now_ms now_us us n rid token req t =
     (let (admitted, t1) =
        (case ht_breaker t of
           None \<Rightarrow> (True, t)
         | Some cb \<Rightarrow>
             (case before_request now_ms cb of (ok, cb') \<Rightarrow> (ok, t\<lparr>ht_breaker := Some cb'\<rparr>)))
      in if \<not> admitted
         then (Returned (Err CircuitBreakerOpen),
               record_metrics False us (cleanup_pending_request rid t1))
         else
           (case apply_adaptive req t1 of
              (Panic, t2) \<Rightarrow> (Panicked, t2)
            | (Done req', t2) \<Rightarrow>
                (Waits, t2\<lparr>ht_flights := (ht_flights t2)(n \<mapsto>
                   \<lparr>fl_id = rid, fl_token = token, fl_global = ht_global t2, fl_start_us = now_us,
                    fl_gen = ht_generation t, fl_request = req',
                    fl_entered = (ht_queue t2 = None \<and> ht_semaphore t2 = None)\<rparr>)\<rparr>)))"

text \<open>The semaphore grants a permit, or the queue's channel takes the request.\<close>

definition enter_request :: "nat \<Rightarrow> http_transport \<Rightarrow> http_transport" where
  "enter_request n t =
     (case ht_flights t n of
        None \<Rightarrow> t
      | Some f \<Rightarrow>
          if fl_entered f then t
          else (case ht_queue t of
                  Some q \<Rightarrow>
                    (case pq_submit (pq_task q n (req_priority (fl_request f))
                            (req_timeout_ms (fl_request f))) q of
                       Some q' \<Rightarrow>
                         t\<lparr>ht_queue := Some q',
                           ht_flights := (ht_flights t)(n \<mapsto> f\<lparr>fl_entered := True\<rparr>)\<rparr>
                     | None \<Rightarrow> t)
                | None \<Rightarrow>
                    (case ht_semaphore t of
                       Some (Suc k) \<Rightarrow>
                         t\<lparr>ht_semaphore := Some k,
                           ht_flights := (ht_flights t)(n \<mapsto> f\<lparr>fl_entered := True\<rparr>)\<rparr>
                     | _ \<Rightarrow> t)))"

text \<open>The flight is over; its permit, if it has one of the semaphore, goes back.\<close>

definition land :: "nat \<Rightarrow> flight \<Rightarrow> http_transport \<Rightarrow> http_transport" where
  "land n f t =
     t\<lparr>ht_flights := (ht_flights t)(n := None),
       ht_semaphore := (if fl_entered f then map_option Suc (ht_semaphore t) else ht_semaphore t)\<rparr>"

definition transport_record_rtt :: "u64 \<Rightarrow> http_transport \<Rightarrow> http_transport exec \<times> http_transport" where
  "transport_record_rtt ms t =
     (if ht_poisoned t then (Panic, t)
      else case ht_adaptive t of
             None \<Rightarrow> (Done t, t)
           | Some a \<Rightarrow>
               (case at_record a ms of
                  Panic \<Rightarrow> (Panic, t\<lparr>ht_poisoned := True\<rparr>)
                | Done a' \<Rightarrow> (Done (t\<lparr>ht_adaptive := Some a'\<rparr>), t)))"

text \<open>
  A failure is counted, and the generation compared, before the breaker is told: two steps of the
  code, which a network change can separate (\<^verbatim>\<open>Transport_Races\<close>).
\<close>

definition failure_check :: "nat \<Rightarrow> flight \<Rightarrow> http_transport \<Rightarrow> bool \<times> http_transport" where
  "failure_check now_us f t =
     (let t1 = record_metrics False (elapsed_us now_us f) (cleanup_pending_request (fl_id f) t)
      in (ht_generation t1 = fl_gen f, t1))"

definition failure_report :: "u64 \<Rightarrow> http_transport \<Rightarrow> http_transport" where
  "failure_report now_ms t = t\<lparr>ht_breaker := map_option (on_failure now_ms) (ht_breaker t)\<rparr>"

text \<open>What follows the wait, on every path that does not return early.\<close>

definition settle ::
  "u64 \<Rightarrow> nat \<Rightarrow> flight \<Rightarrow> catcher_error + http_response \<Rightarrow> http_transport \<Rightarrow> call \<times> http_transport" where
  "settle now_ms now_us f result t =
     (case result of
        Inr resp \<Rightarrow>
          (case transport_record_rtt (resp_elapsed_ms resp) (cleanup_pending_request (fl_id f) t) of
             (Panic, t2) \<Rightarrow> (Panicked, t2)
           | (Done t2, _) \<Rightarrow>
               (Returned result,
                record_metrics True (elapsed_us now_us f)
                  (t2\<lparr>ht_breaker := map_option on_success (ht_breaker t2)\<rparr>)))
      | Inl e \<Rightarrow>
          (case failure_check now_us f t of (current, t1) \<Rightarrow>
             (Returned result, if current then failure_report now_ms t1 else t1)))"

lemma settle_eq:
  "settle now_ms now_us f result t =
     (let t1 = cleanup_pending_request (fl_id f) t
      in case result of
           Inr resp \<Rightarrow>
             (case transport_record_rtt (resp_elapsed_ms resp) t1 of
                (Panic, t2) \<Rightarrow> (Panicked, t2)
              | (Done t2, _) \<Rightarrow>
                  (Returned result,
                   record_metrics True (elapsed_us now_us f)
                     (t2\<lparr>ht_breaker := map_option on_success (ht_breaker t2)\<rparr>)))
         | Inl e \<Rightarrow>
             (Returned result,
              record_metrics False (elapsed_us now_us f)
                (if ht_generation t1 = fl_gen f
                 then t1\<lparr>ht_breaker := map_option (on_failure now_ms) (ht_breaker t1)\<rparr> else t1)))"
  by (simp add: settle_def failure_check_def failure_report_def record_metrics_def Let_def
    split: sum.split)

definition finish_request ::
  "u64 \<Rightarrow> nat \<Rightarrow> nat \<Rightarrow> catcher_error + http_response \<Rightarrow> http_transport \<Rightarrow> call \<times> http_transport" where
  "finish_request now_ms now_us n result t =
     (case ht_flights t n of
        None \<Rightarrow> (Waits, t)
      | Some f \<Rightarrow> if fl_entered f then settle now_ms now_us f result (land n f t) else (Waits, t))"

text \<open>
  A cancelled token is seen: the queue's path counts the request and goes on as after a failure, the
  other paths count it and return at once.
\<close>

definition queue_cancelled :: string where
  "queue_cancelled = ''request cancelled while waiting in queue''"

definition observe_cancel :: "u64 \<Rightarrow> nat \<Rightarrow> nat \<Rightarrow> http_transport \<Rightarrow> call \<times> http_transport" where
  "observe_cancel now_ms now_us n t =
     (case ht_flights t n of
        None \<Rightarrow> (Waits, t)
      | Some f \<Rightarrow>
          if fl_token f \<notin> ht_cancelled t \<and> fl_global f \<notin> ht_cancelled t then (Waits, t)
          else
            let t1 = record_metrics False (elapsed_us now_us f) (land n f t)
            in if ht_queue t \<noteq> None then settle now_ms now_us f (Err (Internal queue_cancelled)) t1
               else (Returned (Err (Internal (if fl_entered f then ''request cancelled'' else queue_cancelled))), t1))"

text \<open>
  \<open>execute\<close>: one call with a fresh token, and a second one on a rebuilt client after a 421.  The two
  calls are arguments: each is a whole run of \<open>execute_with_token\<close>.
\<close>

definition execute ::
  "lib_env \<Rightarrow> os_proxies option \<Rightarrow> (http_transport \<Rightarrow> (catcher_error + http_response) \<times> http_transport)
    \<Rightarrow> (http_transport \<Rightarrow> (catcher_error + http_response) \<times> http_transport)
    \<Rightarrow> http_transport \<Rightarrow> (catcher_error + http_response) exec \<times> http_transport" where
  "execute env reported call1 call2 t =
     (case call1 t of
        (Inl (HttpError st b), t1) \<Rightarrow>
          if st = 421
          then (case transport_network_changed env reported t1 of
                  (Panic, t2) \<Rightarrow> (Panic, t2)
                | (Done (Inl e), t2) \<Rightarrow> (Done (Err e), t2)
                | (Done (Inr _), t2) \<Rightarrow>
                    (case call2 (t2\<lparr>ht_metrics := increment_http_retries (ht_metrics t2)\<rparr>) of
                       (r, t3) \<Rightarrow> (Done r, t3)))
          else (Done (Err (HttpError st b)), t1)
      | (r, t1) \<Rightarrow> (Done r, t1))"

subsection \<open>Runs\<close>

datatype transport_input =
    Begin u64 nat u64 nat u64 nat http_request
  | Enter nat
  | Complete u64 nat nat "catcher_error + http_response"
  | ObserveCancel u64 nat nat
  | QueueWork queue_step
  | NetworkChange "os_proxies option"
  | CancelAll
  | CancelRequest u64
  | AllocateRequest
  | SetAdaptive u64 u64 f64 nat
  | DisableAdaptive

fun or_same :: "http_transport exec \<Rightarrow> http_transport \<Rightarrow> http_transport" where
  "or_same Panic t = t"
| "or_same (Done t') t = t'"

definition is_submit :: "queue_step \<Rightarrow> bool" where
  "is_submit s = (case s of Submit _ \<Rightarrow> True | _ \<Rightarrow> False)"

fun transport_step :: "lib_env \<Rightarrow> transport_input \<Rightarrow> http_transport \<Rightarrow> call \<times> http_transport" where
  "transport_step env (Begin now_ms now_us us n rid token req) t =
     (if ht_flights t n = None then begin_request now_ms now_us us n rid token req t else (Waits, t))"
| "transport_step env (Enter n) t = (Waits, enter_request n t)"
| "transport_step env (Complete now_ms now_us n result) t = finish_request now_ms now_us n result t"
| "transport_step env (ObserveCancel now_ms now_us n) t = observe_cancel now_ms now_us n t"
| "transport_step env (QueueWork s) t =
     (Waits, if is_submit s then t else t\<lparr>ht_queue := map_option (pq_step s) (ht_queue t)\<rparr>)"
| "transport_step env (NetworkChange reported) t = (Waits, snd (transport_network_changed env reported t))"
| "transport_step env CancelAll t = (Waits, cancel_all t)"
| "transport_step env (CancelRequest rid) t = (Waits, snd (cancel_request rid t))"
| "transport_step env AllocateRequest t = (Waits, snd (allocate_pending_request t))"
| "transport_step env (SetAdaptive mn mx m w) t = (Waits, or_same (set_adaptive_timeout mn mx m w t) t)"
| "transport_step env DisableAdaptive t = (Waits, or_same (disable_adaptive_timeout t) t)"

text \<open>A run, with what its calls returned.\<close>

fun transport_run :: "lib_env \<Rightarrow> transport_input list \<Rightarrow> http_transport \<Rightarrow> call list \<times> http_transport" where
  "transport_run env [] t = ([], t)"
| "transport_run env (s # ss) t =
     (case transport_step env s t of (c, t1) \<Rightarrow>
        (case transport_run env ss t1 of (cs, t2) \<Rightarrow> (c # cs, t2)))"

subsection \<open>What the steps leave alone\<close>

lemma record_metrics_fields [simp]:
  "ht_breaker (record_metrics ok us t) = ht_breaker t"
  "ht_generation (record_metrics ok us t) = ht_generation t"
  "ht_flights (record_metrics ok us t) = ht_flights t"
  "ht_queue (record_metrics ok us t) = ht_queue t"
  "ht_semaphore (record_metrics ok us t) = ht_semaphore t"
  "ht_cancelled (record_metrics ok us t) = ht_cancelled t"
  by (simp_all add: record_metrics_def)

lemma land_fields [simp]:
  "ht_breaker (land n f t) = ht_breaker t" "ht_generation (land n f t) = ht_generation t"
  "ht_metrics (land n f t) = ht_metrics t" "ht_queue (land n f t) = ht_queue t"
  "ht_flights (land n f t) = (ht_flights t)(n := None)"
  by (simp_all add: land_def)

lemma cleanup_fields [simp]:
  "ht_breaker (cleanup_pending_request rid t) = ht_breaker t"
  "ht_generation (cleanup_pending_request rid t) = ht_generation t"
  "ht_metrics (cleanup_pending_request rid t) = ht_metrics t"
  "ht_flights (cleanup_pending_request rid t) = ht_flights t"
  by (simp_all add: cleanup_pending_request_def)

lemma apply_adaptive_fields:
  assumes "apply_adaptive req t = (r, t')"
  shows "ht_breaker t' = ht_breaker t" "ht_generation t' = ht_generation t"
    "ht_metrics t' = ht_metrics t" "ht_flights t' = ht_flights t" "ht_queue t' = ht_queue t"
    "ht_semaphore t' = ht_semaphore t" "ht_global t' = ht_global t" "ht_cancelled t' = ht_cancelled t"
  using assms by (auto simp: apply_adaptive_def split: if_splits option.splits exec.splits)

lemma transport_record_rtt_fields:
  assumes "transport_record_rtt ms t = (r, t')"
  shows "ht_breaker t' = ht_breaker t" "ht_generation t' = ht_generation t"
    "ht_metrics t' = ht_metrics t" "ht_flights t' = ht_flights t"
    "r = Done t'' \<Longrightarrow> ht_breaker t'' = ht_breaker t \<and> ht_generation t'' = ht_generation t \<and>
       ht_metrics t'' = ht_metrics t \<and> ht_flights t'' = ht_flights t"
  using assms by (auto simp: transport_record_rtt_def split: if_splits option.splits exec.splits)

lemma transport_network_changed_fields:
  "ht_generation (snd (transport_network_changed env reported t)) = ht_generation t + 1"
  "ht_breaker (snd (transport_network_changed env reported t)) = map_option cb_reset (ht_breaker t)"
  "ht_flights (snd (transport_network_changed env reported t)) = ht_flights t"
  "ht_metrics (snd (transport_network_changed env reported t)) = ht_metrics t"
  "ht_queue (snd (transport_network_changed env reported t)) = ht_queue t"
  by (auto simp: transport_network_changed_eq Let_def split: exec.splits sum.splits)

lemma enter_request_fields [simp]:
  "ht_breaker (enter_request n t) = ht_breaker t"
  "ht_generation (enter_request n t) = ht_generation t"
  "ht_metrics (enter_request n t) = ht_metrics t"
  by (auto simp: enter_request_def split: option.splits nat.splits)

text \<open>Being let through changes nothing in a flight but that.\<close>

lemma enter_request_flight:
  assumes "ht_flights (enter_request n t) k = Some f"
  obtains g where "ht_flights t k = Some g" "f = g \<or> f = g\<lparr>fl_entered := True\<rparr>"
  using assms by (auto simp: enter_request_def split: option.splits nat.splits if_splits)

lemma bookkeeping_fields [simp]:
  "ht_breaker (cancel_all t) = ht_breaker t" "ht_generation (cancel_all t) = ht_generation t"
  "ht_flights (cancel_all t) = ht_flights t" "ht_metrics (cancel_all t) = ht_metrics t"
  "ht_breaker (snd (cancel_request rid t)) = ht_breaker t"
  "ht_generation (snd (cancel_request rid t)) = ht_generation t"
  "ht_flights (snd (cancel_request rid t)) = ht_flights t"
  "ht_metrics (snd (cancel_request rid t)) = ht_metrics t"
  "ht_breaker (snd (allocate_pending_request t)) = ht_breaker t"
  "ht_generation (snd (allocate_pending_request t)) = ht_generation t"
  "ht_flights (snd (allocate_pending_request t)) = ht_flights t"
  "ht_metrics (snd (allocate_pending_request t)) = ht_metrics t"
  "ht_breaker (or_same (set_adaptive_timeout mn mx m w t) t) = ht_breaker t"
  "ht_generation (or_same (set_adaptive_timeout mn mx m w t) t) = ht_generation t"
  "ht_flights (or_same (set_adaptive_timeout mn mx m w t) t) = ht_flights t"
  "ht_metrics (or_same (set_adaptive_timeout mn mx m w t) t) = ht_metrics t"
  "ht_breaker (or_same (disable_adaptive_timeout t) t) = ht_breaker t"
  "ht_generation (or_same (disable_adaptive_timeout t) t) = ht_generation t"
  "ht_flights (or_same (disable_adaptive_timeout t) t) = ht_flights t"
  "ht_metrics (or_same (disable_adaptive_timeout t) t) = ht_metrics t"
  by (simp_all add: cancel_all_def cancel_request_def allocate_pending_request_def next_request_id_def
    new_token_def insert_pending_request_def set_adaptive_timeout_def disable_adaptive_timeout_def
    split: option.splits)

lemma begin_request_cases:
  assumes "begin_request now_ms now_us us n rid token req t = (c, t')"
  shows "ht_breaker t' = map_option (\<lambda>cb. snd (before_request now_ms cb)) (ht_breaker t)"
    and "ht_generation t' = ht_generation t"
    and "ht_queue t' = ht_queue t"
    and "(\<exists>f. c = Waits \<and> ht_flights t' = (ht_flights t)(n \<mapsto> f) \<and> fl_gen f = ht_generation t \<and>
           fl_global f = ht_global t' \<and> ht_metrics t' = ht_metrics t) \<or>
         (c = Panicked \<and> ht_flights t' = ht_flights t \<and> ht_metrics t' = ht_metrics t) \<or>
         (c = Returned (Err CircuitBreakerOpen) \<and> ht_flights t' = ht_flights t \<and>
           ht_metrics t' = record_http_request False us (ht_metrics t))"
proof -
  define t1 where "t1 = (case ht_breaker t of None \<Rightarrow> t
    | Some cb \<Rightarrow> t\<lparr>ht_breaker := Some (snd (before_request now_ms cb))\<rparr>)"
  have t1: "ht_breaker t1 = map_option (\<lambda>cb. snd (before_request now_ms cb)) (ht_breaker t)"
    "ht_generation t1 = ht_generation t" "ht_queue t1 = ht_queue t" "ht_flights t1 = ht_flights t"
    "ht_metrics t1 = ht_metrics t"
    by (auto simp: t1_def split: option.splits)
  define ok where "ok = (case ht_breaker t of None \<Rightarrow> True | Some cb \<Rightarrow> fst (before_request now_ms cb))"
  have b: "begin_request now_ms now_us us n rid token req t =
    (if \<not> ok
     then (Returned (Err CircuitBreakerOpen), record_metrics False us (cleanup_pending_request rid t1))
     else
       (case apply_adaptive req t1 of
          (Panic, t2) \<Rightarrow> (Panicked, t2)
        | (Done req', t2) \<Rightarrow>
            (Waits, t2\<lparr>ht_flights := (ht_flights t2)(n \<mapsto>
               \<lparr>fl_id = rid, fl_token = token, fl_global = ht_global t2, fl_start_us = now_us,
                fl_gen = ht_generation t, fl_request = req',
                fl_entered = (ht_queue t2 = None \<and> ht_semaphore t2 = None)\<rparr>)\<rparr>)))"
    by (auto simp: begin_request_def ok_def t1_def case_prod_unfold split: option.splits)
  obtain r t2 where a: "apply_adaptive req t1 = (r, t2)" by fastforce
  note f = apply_adaptive_fields [OF a] t1
  show "ht_breaker t' = map_option (\<lambda>cb. snd (before_request now_ms cb)) (ht_breaker t)"
    and "ht_generation t' = ht_generation t" and "ht_queue t' = ht_queue t"
    using assms f unfolding b a
    by (auto simp: record_metrics_def cleanup_pending_request_def split: if_splits exec.splits)
  show "(\<exists>f. c = Waits \<and> ht_flights t' = (ht_flights t)(n \<mapsto> f) \<and> fl_gen f = ht_generation t \<and>
           fl_global f = ht_global t' \<and> ht_metrics t' = ht_metrics t) \<or>
         (c = Panicked \<and> ht_flights t' = ht_flights t \<and> ht_metrics t' = ht_metrics t) \<or>
         (c = Returned (Err CircuitBreakerOpen) \<and> ht_flights t' = ht_flights t \<and>
           ht_metrics t' = record_http_request False us (ht_metrics t))"
    using assms f unfolding b a
    by (auto simp: record_metrics_def cleanup_pending_request_def split: if_splits exec.splits)
qed

lemma settle_cases:
  assumes "settle now_ms now_us f result t = (c, t')"
  shows "ht_generation t' = ht_generation t \<and> ht_flights t' = ht_flights t \<and>
    ((c = Returned result \<and>
           ht_metrics t' = record_http_request (is_ok result) (elapsed_us now_us f) (ht_metrics t)) \<or>
         (c = Panicked \<and> is_ok result \<and> ht_metrics t' = ht_metrics t)) \<and>
    (\<not> is_ok result \<longrightarrow> fl_gen f \<noteq> ht_generation t \<longrightarrow> ht_breaker t' = ht_breaker t)"
proof (cases result)
  case (Inl e)
  with assms show ?thesis by (auto simp: settle_eq Let_def record_metrics_def)
next
  case (Inr resp)
  obtain r t2 where a: "transport_record_rtt (resp_elapsed_ms resp) (cleanup_pending_request (fl_id f) t) = (r, t2)"
    by fastforce
  from assms Inr transport_record_rtt_fields(1-4) [OF a] transport_record_rtt_fields(5) [OF a]
  show ?thesis by (auto simp: settle_eq Let_def record_metrics_def a split: exec.splits)
qed

lemma settle_queue:
  "settle now_ms now_us f (Inl e) t = (c, t') \<Longrightarrow>
     ht_queue t' = ht_queue t \<and> c = Returned (Inl e)"
  by (auto simp: settle_eq Let_def record_metrics_def cleanup_pending_request_def)

text \<open>Ending a flight, by its result or by a cancellation.\<close>

lemma finish_request_cases:
  assumes "finish_request now_ms now_us n result t = (c, t')"
  shows "(c = Waits \<and> t' = t) \<or>
    (\<exists>f. ht_flights t n = Some f \<and> settle now_ms now_us f result (land n f t) = (c, t'))"
  using assms by (auto simp: finish_request_def split: option.splits if_splits)

lemma observe_cancel_cases:
  assumes "observe_cancel now_ms now_us n t = (c, t')"
  shows "(c = Waits \<and> t' = t) \<or>
    (\<exists>f. ht_flights t n = Some f \<and>
      (if ht_queue t \<noteq> None
       then settle now_ms now_us f (Err (Internal queue_cancelled))
              (record_metrics False (elapsed_us now_us f) (land n f t)) = (c, t')
       else (\<exists>m. c = Returned (Err (Internal m))) \<and> t' = record_metrics False (elapsed_us now_us f) (land n f t)))"
  using assms by (auto simp: observe_cancel_def Let_def split: option.splits if_splits)

subsection \<open>A network change\<close>

fun old_traffic :: "transport_input \<Rightarrow> bool" where
  "old_traffic (Begin _ _ _ _ _ _ _) = False"
| "old_traffic (NetworkChange _) = False"
| "old_traffic (Complete _ _ _ r) = (\<not> is_ok r)"
| "old_traffic _ = True"

fun is_change :: "transport_input \<Rightarrow> bool" where
  "is_change (NetworkChange _) = True"
| "is_change _ = False"

definition changes :: "transport_input list \<Rightarrow> nat" where
  "changes ss = length (filter is_change ss)"

text \<open>Flights carry the generation they began in; the generation counts the changes.\<close>

definition generation_inv :: "nat \<Rightarrow> http_transport \<Rightarrow> bool" where
  "generation_inv k t \<longleftrightarrow> unat (ht_generation t) = k \<and>
     (\<forall>n f. ht_flights t n = Some f \<longrightarrow> unat (fl_gen f) \<le> k)"

lemma enter_gen:
  "ht_flights (enter_request n t) k = Some f \<Longrightarrow> \<exists>g. ht_flights t k = Some g \<and> fl_gen f = fl_gen g"
  by (erule enter_request_flight) auto

lemma generation_inv_step:
  assumes "generation_inv k t" and "k + changes [s] < 2 ^ 64" and "transport_step env s t = (c, t')"
  shows "generation_inv (k + changes [s]) t'"
proof (cases s)
  case (Begin now_ms now_us us n rid token req)
  show ?thesis
  proof (cases "ht_flights t n = None")
    case True
    with assms(3) Begin have b: "begin_request now_ms now_us us n rid token req t = (c, t')" by simp
    from begin_request_cases(2,4) [OF b] assms(1) Begin show ?thesis
      by (auto simp: generation_inv_def changes_def split: if_splits)
  qed (use assms Begin in \<open>auto simp: changes_def\<close>)
next
  case (Enter n)
  with assms show ?thesis by (auto simp: generation_inv_def changes_def dest!: enter_gen)
next
  case (Complete now_ms now_us n result)
  with assms(3) have "finish_request now_ms now_us n result t = (c, t')" by simp
  from finish_request_cases [OF this] assms(1) Complete show ?thesis
    by (auto simp: generation_inv_def changes_def dest!: settle_cases split: if_splits)
next
  case (ObserveCancel now_ms now_us n)
  with assms(3) have "observe_cancel now_ms now_us n t = (c, t')" by simp
  from observe_cancel_cases [OF this] assms(1) ObserveCancel show ?thesis
    by (auto simp: generation_inv_def changes_def dest!: settle_cases split: if_splits)
next
  case (NetworkChange reported)
  with assms(3) have t': "t' = snd (transport_network_changed env reported t)" by simp
  have "unat (ht_generation t + 1) = Suc k"
    using assms(1,2) NetworkChange by (intro unat_plus_one [THEN trans]) (simp_all add: generation_inv_def changes_def)
  then show ?thesis
    using assms(1) NetworkChange by (auto simp: generation_inv_def changes_def t' transport_network_changed_fields intro: le_SucI)
qed (use assms in \<open>auto simp: generation_inv_def changes_def split: if_splits\<close>)

lemma changes_Cons: "changes (s # ss) = changes [s] + changes ss"
  by (simp add: changes_def)

lemma generation_inv_run:
  "generation_inv k t \<Longrightarrow> k + changes ss < 2 ^ 64 \<Longrightarrow> transport_run env ss t = (cs, t') \<Longrightarrow>
     generation_inv (k + changes ss) t'"
proof (induction ss arbitrary: k t cs)
  case (Cons s ss)
  obtain c t1 where s: "transport_step env s t = (c, t1)" by fastforce
  obtain cs2 where r: "transport_run env ss t1 = (cs2, t')" using Cons.prems(3) s
    by (auto split: prod.splits)
  have b: "k + changes [s] < 2 ^ 64" "k + changes [s] + changes ss < 2 ^ 64"
    using Cons.prems(2) changes_Cons [of s ss] by linarith+
  from Cons.IH [OF generation_inv_step [OF Cons.prems(1) b(1) s] b(2) r] show ?case
    by (simp add: changes_Cons [of s ss] add.assoc)
qed (simp add: changes_def)

text \<open>The flights of an earlier network cannot touch the breaker except by succeeding.\<close>

definition stale_flights :: "http_transport \<Rightarrow> bool" where
  "stale_flights t \<longleftrightarrow> (\<forall>n f. ht_flights t n = Some f \<longrightarrow> fl_gen f \<noteq> ht_generation t)"

lemma stale_step:
  assumes "stale_flights t" and "old_traffic s" and "transport_step env s t = (c, t')"
  shows "stale_flights t' \<and> ht_breaker t' = ht_breaker t"
proof (cases s)
  case (Enter n)
  with assms show ?thesis by (fastforce simp: stale_flights_def dest!: enter_gen)
next
  case (Complete now_ms now_us n result)
  with assms(2,3) have "finish_request now_ms now_us n result t = (c, t')" "\<not> is_ok result" by simp_all
  then show ?thesis using finish_request_cases [of now_ms now_us n result t c t'] assms(1)
    by (auto simp: stale_flights_def dest!: settle_cases split: if_splits)
next
  case (ObserveCancel now_ms now_us n)
  with assms(3) have "observe_cancel now_ms now_us n t = (c, t')" by simp
  from observe_cancel_cases [OF this] assms(1) show ?thesis
    by (auto simp: stale_flights_def dest!: settle_cases split: if_splits)
qed (use assms in \<open>auto simp: stale_flights_def split: if_splits\<close>)

lemma stale_run:
  "stale_flights t \<Longrightarrow> list_all old_traffic ss \<Longrightarrow>
     ht_breaker (snd (transport_run env ss t)) = ht_breaker t"
proof (induction ss arbitrary: t)
  case (Cons s ss)
  obtain c t1 where s: "transport_step env s t = (c, t1)" by fastforce
  with stale_step [OF Cons.prems(1) _ s] Cons.prems(2) have "stale_flights t1" "ht_breaker t1 = ht_breaker t"
    by auto
  with Cons.IH [of t1] Cons.prems(2) s show ?case by (auto split: prod.splits)
qed simp

lemma transport_run_append:
  "snd (transport_run env (xs @ ys) t) = snd (transport_run env ys (snd (transport_run env xs t)))"
  by (induction xs arbitrary: t) (simp_all add: case_prod_unfold)

lemma generation_inv_new:
  "transport_new env re rt config = Done (Ok t) \<Longrightarrow> generation_inv 0 t"
  by (auto simp: transport_new_def bind_exec_Ok_iff generation_inv_def)

text \<open>
  When nothing comes between the comparison of the generations and the report, nor between the parts
  of a network change: after the change the breaker starts afresh, and the requests that were in flight leave
  it alone for as long as they only fail, time out or are cancelled.  What holds without that
  condition is proved in \<^verbatim>\<open>Transport_Races\<close>.  (The generation has 64 bits, and must not come round.)
\<close>

theorem old_failures_ignored:
  assumes "transport_new env re rt config = Done (Ok t0)" and "list_all old_traffic later"
    and "changes earlier + 1 < 2 ^ 64"
  shows "ht_breaker (snd (transport_run env (earlier @ NetworkChange reported # later) t0)) =
    map_option cb_reset (ht_breaker (snd (transport_run env earlier t0)))"
proof -
  obtain cs t where e: "transport_run env earlier t0 = (cs, t)" by fastforce
  define t1 where "t1 = snd (transport_network_changed env reported t)"
  have g: "generation_inv (changes earlier) t"
    using generation_inv_run [OF generation_inv_new [OF assms(1)] _ e] assms(3) by simp
  have s: "transport_step env (NetworkChange reported) t = (Waits, t1)" by (simp add: t1_def)
  have "generation_inv (Suc (changes earlier)) t1"
    using generation_inv_step [OF g _ s] assms(3) by (simp add: changes_def)
  then have "unat (ht_generation t1) = Suc (changes earlier)" by (simp add: generation_inv_def)
  moreover have "unat (fl_gen f) \<le> changes earlier" if "ht_flights t1 n = Some f" for n f
    using g that by (simp add: generation_inv_def t1_def transport_network_changed_fields)
  ultimately have "stale_flights t1" by (fastforce simp: stale_flights_def)
  from stale_run [OF this assms(2)] s show ?thesis
    by (simp add: transport_run_append e t1_def transport_network_changed_fields case_prod_unfold)
qed

definition plain_transport :: "circuit_breaker option \<Rightarrow> http_transport" where
  "plain_transport cb =
     \<lparr>ht_client = \<lparr>hc_calls = [], hc_retry = None\<rparr>, ht_config = default_http_client_config,
      ht_dns = None, ht_breaker = cb, ht_metrics = mc_new, ht_adaptive = None, ht_poisoned = False,
      ht_generation = 0, ht_pending = Map.empty, ht_next_id = 1, ht_global = 0, ht_fresh = 1,
      ht_cancelled = {}, ht_semaphore = None, ht_queue = None, ht_flights = Map.empty\<rparr>"

theorem old_failures_ignored_witness:
  "\<exists>t0. transport_new permissive_env (\<lambda>_. None) False
      (default_http_client_config\<lparr>http_circuit_breaker :=
         Some (default_circuit_breaker_config\<lparr>failure_threshold := 1\<rparr>), http_max_concurrency := 0\<rparr>)
      = Done (Ok t0) \<and>
    ht_breaker (snd (transport_run permissive_env
      ([Begin 5 0 0 0 0 0 (get_request ''/x'')] @ NetworkChange None
        # [Complete 6 9 0 (Err (RequestTimeout 1))]) t0)) =
    map_option cb_reset (ht_breaker (snd (transport_run permissive_env
      [Begin 5 0 0 0 0 0 (get_request ''/x'')] t0)))"
proof -
  let ?cfg = "default_http_client_config\<lparr>http_circuit_breaker :=
         Some (default_circuit_breaker_config\<lparr>failure_threshold := 1\<rparr>), http_max_concurrency := 0\<rparr>"
  obtain t0 where t0: "transport_new permissive_env (\<lambda>_. None) False ?cfg = Done (Ok t0)"
    by (auto simp: transport_new_def build_middleware_client_def permissive_env_def permissive_tls_def
      bind_exec_def build_tls_config_def default_http_client_config_def default_tls_config_def
      pins_configured_def certificate_calls_def ca_cert_pem_calls_def ca_cert_path_calls_def
      identity_pem_calls_def identity_path_calls_def proxy_calls_def auth_calls_def Let_def)
  have c: "changes [Begin 5 0 0 0 0 0 (get_request ''/x'')] + 1 < 2 ^ 64" by (simp add: changes_def)
  have o': "list_all old_traffic [Complete 6 9 0 (Err (RequestTimeout 1))]" by simp
  from t0 old_failures_ignored [OF t0 o' c, of None] show ?thesis by blast
qed

subsection \<open>Cancelled requests and the breaker\<close>

text \<open>A request that is cancelled before it ends, on a transport without the queue.\<close>

definition cancelled_probe :: "nat \<Rightarrow> u64 \<Rightarrow> nat \<Rightarrow> http_request \<Rightarrow> u64 \<Rightarrow> transport_input list" where
  "cancelled_probe n rid token req now_ms =
     [Begin now_ms 0 0 n rid token req, CancelAll, ObserveCancel now_ms 0 n]"

lemma cancelled_probe_run:
  assumes "ht_queue t = None" and "ht_flights t n = None"
    and t'_def: "t' = snd (transport_run env (cancelled_probe n rid token req now_ms) t)"
  shows "ht_queue t' = None \<and> ht_flights t' n = None \<and>
    ht_breaker t' = map_option (\<lambda>cb. snd (before_request now_ms cb)) (ht_breaker t)"
proof -
  obtain c t1 where b: "begin_request now_ms 0 0 n rid token req t = (c, t1)" by fastforce
  note f = begin_request_cases [OF b]
  have t': "t' = snd (observe_cancel now_ms 0 n (cancel_all t1))"
    using assms(2) by (simp add: t'_def cancelled_probe_def b case_prod_unfold)
  have q: "ht_queue (cancel_all t1) = None" using f(3) assms(1) by (simp add: cancel_all_def)
  show ?thesis
  proof (cases "ht_flights t1 n")
    case None
    then have "t' = cancel_all t1" by (simp add: t' observe_cancel_def)
    with f(1) q None show ?thesis by simp
  next
    case (Some g)
    with f(4) assms(2) have "fl_global g = ht_global t1" by auto
    then have "fl_global g \<in> ht_cancelled (cancel_all t1)" by (simp add: cancel_all_def)
    with Some q have "t' = record_metrics False (elapsed_us 0 g) (land n g (cancel_all t1))"
      by (auto simp: t' observe_cancel_def Let_def)
    with f(1) q show ?thesis by simp
  qed
qed

lemma cancelled_probes_run:
  assumes "ht_queue t = None" and "ht_flights t n = None" and "ht_breaker t = Some cb"
    and t'_def: "t' = snd (transport_run env (concat (map (cancelled_probe n rid token req) ts)) t)"
  shows "ht_flights t' n = None \<and> ht_breaker t' = Some (cb_run (half_open_probes ts) cb)"
  unfolding t'_def using assms(1-3)
proof (induction ts arbitrary: t cb)
  case Nil
  then show ?case by (simp add: half_open_probes_def)
next
  case (Cons ms ts)
  let ?t1 = "snd (transport_run env (cancelled_probe n rid token req ms) t)"
  have "ht_queue ?t1 = None" "ht_flights ?t1 n = None"
    "ht_breaker ?t1 = Some (snd (before_request ms cb))"
    using cancelled_probe_run [OF Cons.prems(1,2) refl, of env rid token req ms] Cons.prems(3) by simp_all
  from Cons.IH [OF this] show ?case by (simp add: transport_run_append half_open_probes_def)
qed

text \<open>
  Requests that are cancelled while the breaker is half open use up its probes without reporting
  an outcome: after as many of them as probes are allowed, every later request is rejected, at any
  time, until the network changes.
\<close>

theorem cancelled_probes_block_breaker:
  assumes "ht_queue t = None" and "ht_flights t n = None"
    and "ht_breaker t = Some cb" and "cb_st cb = HalfOpen"
    and "unat (half_open_max_requests (cb_config cb)) \<le> unat (half_open_requests cb) + length ts"
    and "unat (half_open_requests cb) + length ts < 2 ^ 32"
  shows "fst (begin_request now_ms now_us us m rid2 token2 req2
      (snd (transport_run env (concat (map (cancelled_probe n rid token req) ts)) t)))
    = Returned (Err CircuitBreakerOpen)"
proof -
  let ?t = "snd (transport_run env (concat (map (cancelled_probe n rid token req) ts)) t)"
  let ?cb = "cb_run (half_open_probes ts) cb"
  have b: "ht_breaker ?t = Some ?cb" using cancelled_probes_run [OF assms(1-3) refl] by blast
  have cfg: "cb_config ?cb = cb_config cb"
    using cb_run_config by blast
  have "cb_st ?cb = HalfOpen" "unat (half_open_requests ?cb) = unat (half_open_requests cb) + length ts"
    using half_open_run [OF assms(4,6)] by simp_all
  then have "\<not> fst (before_request now_ms ?cb)"
    using assms(5) cfg by (simp add: before_request_def Let_def word_le_nat_alt)
  then show ?thesis by (auto simp: begin_request_def b case_prod_unfold Let_def)
qed

theorem cancelled_probes_block_breaker_witness:
  "fst (begin_request 9000000 0 0 1 0 0 (get_request ''/x'')
      (snd (transport_run permissive_env (concat (map (cancelled_probe 0 0 0 (get_request ''/x'')) [1, 2, 3, 4, 5]))
        (plain_transport (Some (cb_new default_circuit_breaker_config\<lparr>cb_st := HalfOpen\<rparr>))))))
    = Returned (Err CircuitBreakerOpen)"
  by (rule cancelled_probes_block_breaker [where cb = "cb_new default_circuit_breaker_config\<lparr>cb_st := HalfOpen\<rparr>"])
    (simp_all add: plain_transport_def cb_new_def default_circuit_breaker_config_def)

subsection \<open>The metrics of requests\<close>

fun is_returned :: "call \<Rightarrow> bool" where
  "is_returned (Returned _) = True"
| "is_returned _ = False"

fun is_observe :: "transport_input \<Rightarrow> bool" where
  "is_observe (ObserveCancel _ _ _) = True"
| "is_observe _ = False"

text \<open>How often a step counts a request.\<close>

definition counted :: "bool \<Rightarrow> transport_input \<Rightarrow> call \<Rightarrow> nat" where
  "counted queued s c =
     (if is_returned c then (if queued \<and> is_observe s then 2 else 1) else 0)"

fun counted_all :: "bool \<Rightarrow> transport_input list \<Rightarrow> call list \<Rightarrow> nat" where
  "counted_all queued (s # ss) (c # cs) = counted queued s c + counted_all queued ss cs"
| "counted_all queued _ _ = 0"

lemma requests_recorded [simp]:
  "http_requests_total (record_http_request ok us m) = http_requests_total m + 1"
  by (simp add: record_http_request_def Let_def)

lemma step_counts:
  assumes "transport_step env s t = (c, t')"
  shows "http_requests_total (ht_metrics t') =
      http_requests_total (ht_metrics t) + of_nat (counted (ht_queue t \<noteq> None) s c) \<and>
    (ht_queue t' = None \<longleftrightarrow> ht_queue t = None)"
proof (cases s)
  case (Begin now_ms now_us us n rid token req)
  show ?thesis
  proof (cases "ht_flights t n = None")
    case True
    with assms Begin have b: "begin_request now_ms now_us us n rid token req t = (c, t')" by simp
    from begin_request_cases(3,4) [OF b] Begin show ?thesis by (auto simp: counted_def)
  qed (use assms Begin in \<open>auto simp: counted_def\<close>)
next
  case (Enter n)
  with assms show ?thesis
    by (auto simp: counted_def enter_request_def split: option.splits nat.splits)
next
  case (Complete now_ms now_us n result)
  with assms have f: "finish_request now_ms now_us n result t = (c, t')" by simp
  have "ht_queue t' = ht_queue t"
    using f by (auto simp: finish_request_def settle_eq Let_def record_metrics_def land_def
      cleanup_pending_request_def transport_record_rtt_def split: option.splits if_splits sum.splits exec.splits)
  with finish_request_cases [OF f] Complete show ?thesis
    by (auto simp: counted_def dest!: settle_cases)
next
  case (ObserveCancel now_ms now_us n)
  with assms have o': "observe_cancel now_ms now_us n t = (c, t')" by simp
  show ?thesis
  proof (cases "c = Waits \<and> t' = t")
    case False
    with observe_cancel_cases [OF o'] obtain f where f: "ht_flights t n = Some f"
      "if ht_queue t \<noteq> None
       then settle now_ms now_us f (Err (Internal queue_cancelled))
              (record_metrics False (elapsed_us now_us f) (land n f t)) = (c, t')
       else (\<exists>m. c = Returned (Err (Internal m))) \<and> t' = record_metrics False (elapsed_us now_us f) (land n f t)"
      by blast
    show ?thesis
    proof (cases "ht_queue t = None")
      case True
      with f ObserveCancel show ?thesis by (auto simp: counted_def record_metrics_def)
    next
      case queued: False
      with f(2) have s: "settle now_ms now_us f (Err (Internal queue_cancelled))
        (record_metrics False (elapsed_us now_us f) (land n f t)) = (c, t')" by simp
      from settle_cases [OF s] settle_queue [OF s] queued ObserveCancel show ?thesis
        by (auto simp: counted_def record_metrics_def)
    qed
  qed (use ObserveCancel in \<open>simp add: counted_def\<close>)
next
  case (NetworkChange reported)
  with assms show ?thesis by (auto simp: counted_def transport_network_changed_fields)
qed (use assms in \<open>auto simp: counted_def cancel_all_def cancel_request_def allocate_pending_request_def
  next_request_id_def new_token_def insert_pending_request_def set_adaptive_timeout_def
  disable_adaptive_timeout_def split: option.splits if_splits\<close>)

text \<open>
  C10. The number of requests in the metrics is exactly the number of calls that returned, whichever
  way they did, except that a call cancelled on a transport with the queue is counted twice (up to
  wrapping at 64 bits).
\<close>

theorem requests_counted:
  assumes "transport_run env ss t = (cs, t')"
  shows "http_requests_total (ht_metrics t') =
    http_requests_total (ht_metrics t) + of_nat (counted_all (ht_queue t \<noteq> None) ss cs)"
  using assms
proof (induction ss arbitrary: t cs)
  case (Cons s ss)
  obtain c t1 where s: "transport_step env s t = (c, t1)" by fastforce
  obtain cs2 where r: "transport_run env ss t1 = (cs2, t')" "cs = c # cs2"
    using Cons.prems s by (auto split: prod.splits)
  from Cons.IH [OF r(1)] step_counts [OF s] r(2) show ?case by (simp add: algebra_simps)
qed simp

theorem requests_counted_witness:
  "http_requests_total (ht_metrics (snd (transport_run permissive_env (cancelled_probe 0 0 0 (get_request ''/x'') 5)
     (plain_transport None)))) = 1"
proof -
  let ?ss = "cancelled_probe 0 0 0 (get_request ''/x'') 5"
  obtain cs t' where r: "transport_run permissive_env ?ss (plain_transport None) = (cs, t')" by fastforce
  have "cs = [Waits, Waits, Returned (Err (Internal ''request cancelled''))]"
    using r by (auto simp: cancelled_probe_def plain_transport_def begin_request_def apply_adaptive_def
      get_request_def default_request_def Let_def observe_cancel_def cancel_all_def record_metrics_def land_def)
  with requests_counted [OF r] r show ?thesis
    by (simp add: cancelled_probe_def counted_def plain_transport_def mc_new_def)
qed

subsection \<open>Cancelled requests and the queue\<close>

text \<open>
  Cancelling a request that waits in the queue fails its call but does not withdraw it: the
  worker takes it and sends it all the same.
\<close>

theorem cancelled_request_is_sent:
  assumes "ht_queue t = Some q" and "pq_high q = []" and "pq_low q = []" and "pq_spawned q = []"
    and "pq_waiting q = []" and "0 < pq_permits q" and "0 < queue_capacity (pq_config q)"
    and "ht_breaker t = None" and "ht_flights t n = None" and "req_timeout_ms req = Some ms"
    and "ht_pending t rid = Some token"
    and "transport_run env [Begin now_ms 0 us n rid token req, Enter n, CancelRequest rid,
        ObserveCancel now_ms 0 n, QueueWork Take, QueueWork (Acquire 0), QueueWork Grant] t = (cs, t')"
  shows "cs ! 3 = Returned (Err (Internal queue_cancelled)) \<and>
    (\<exists>q'. ht_queue t' = Some q' \<and> n \<in> qt_id ` set (pq_running q'))"
proof -
  obtain fl where b: "begin_request now_ms 0 us n rid token req t =
      (Waits, t\<lparr>ht_flights := (ht_flights t)(n \<mapsto> fl)\<rparr>)"
    and fl: "fl_id fl = rid" "fl_token fl = token" "fl_entered fl = False"
      "fl_request fl = req" "fl_gen fl = ht_generation t"
    using assms(1,8,10) by (simp add: begin_request_def apply_adaptive_def)
  define p where "p = pq_task q n (req_priority req) (Some ms)"
  define q1 where "q1 = (if qt_priority p \<le> High then q\<lparr>pq_high := [p]\<rparr> else q\<lparr>pq_low := [p]\<rparr>)"
  have sub: "pq_submit p q = Some q1" using assms(2,3,7) by (simp add: pq_submit_def q1_def)
  define t2 where "t2 = t\<lparr>ht_queue := Some q1, ht_flights := (ht_flights t)(n \<mapsto> fl\<lparr>fl_entered := True\<rparr>)\<rparr>"
  have e: "enter_request n (t\<lparr>ht_flights := (ht_flights t)(n \<mapsto> fl)\<rparr>) = t2"
    using assms(1,10) fl sub by (simp add: enter_request_def t2_def p_def)
  define t3 where "t3 = snd (cancel_request rid t2)"
  have t3: "token \<in> ht_cancelled t3" "ht_queue t3 = Some q1"
    "ht_flights t3 n = Some (fl\<lparr>fl_entered := True\<rparr>)"
    using assms(11) by (simp_all add: t3_def cancel_request_def t2_def)
  obtain c t4 where o': "observe_cancel now_ms 0 n t3 = (c, t4)" by fastforce
  have s: "settle now_ms 0 (fl\<lparr>fl_entered := True\<rparr>) (Err (Internal queue_cancelled))
      (record_metrics False (elapsed_us 0 (fl\<lparr>fl_entered := True\<rparr>)) (land n (fl\<lparr>fl_entered := True\<rparr>) t3)) = (c, t4)"
    using o' t3 fl(2) by (simp add: observe_cancel_def Let_def)
  have c: "c = Returned (Err (Internal queue_cancelled))" "ht_queue t4 = Some q1"
    using settle_queue [OF s] t3(2) by simp_all
  have "p \<in> set (pq_running (pq_grant (pq_acquire 0 (pq_take q1))))"
    using assms(2-6) by (auto simp: q1_def pq_take_def pq_acquire_def pq_grant_def)
  then have "n \<in> qt_id ` set (pq_running (pq_grant (pq_acquire 0 (pq_take q1))))"
    by (force simp: p_def pq_task_def)
  moreover have "cs = [Waits, Waits, Waits, c, Waits, Waits, Waits] \<and>
      ht_queue t' = Some (pq_grant (pq_acquire 0 (pq_take q1)))"
    using assms(9,12) c(2) o' by (auto simp: b e is_submit_def simp flip: t3_def)
  ultimately show ?thesis using c(1) by simp
qed

theorem cancelled_request_is_sent_witness:
  "\<exists>q'. ht_queue (snd (transport_run permissive_env [Begin 1 0 0 4 7 3 (get_request ''/x''\<lparr>req_timeout_ms := Some 9\<rparr>),
        Enter 4, CancelRequest 7, ObserveCancel 1 0 4, QueueWork Take, QueueWork (Acquire 0), QueueWork Grant]
      (plain_transport None\<lparr>ht_queue := Some (pq_new default_queue_config), ht_pending := [7 \<mapsto> 3]\<rparr>)))
      = Some q' \<and> 4 \<in> qt_id ` set (pq_running q')"
proof -
  define t where "t = plain_transport None\<lparr>ht_queue := Some (pq_new default_queue_config), ht_pending := [7 \<mapsto> 3]\<rparr>"
  define req where "req = get_request ''/x''\<lparr>req_timeout_ms := Some 9\<rparr>"
  define ss where "ss = [Begin 1 0 0 4 7 3 req, Enter 4, CancelRequest 7, ObserveCancel 1 0 4,
    QueueWork Take, QueueWork (Acquire 0), QueueWork Grant]"
  have t: "ht_queue t = Some (pq_new default_queue_config)" "ht_breaker t = None"
    "ht_flights t 4 = None" "ht_pending t 7 = Some 3"
    by (simp_all add: t_def plain_transport_def)
  have q: "pq_high (pq_new default_queue_config) = []" "pq_low (pq_new default_queue_config) = []"
    "pq_spawned (pq_new default_queue_config) = []" "pq_waiting (pq_new default_queue_config) = []"
    "0 < pq_permits (pq_new default_queue_config)"
    "0 < queue_capacity (pq_config (pq_new default_queue_config))"
    by (simp_all add: pq_new_def default_queue_config_def)
  have r: "req_timeout_ms req = Some 9" by (simp add: req_def)
  obtain cs t' where run: "transport_run permissive_env ss t = (cs, t')" by fastforce
  from cancelled_request_is_sent [OF t(1) q t(2,3) r t(4) run [unfolded ss_def]]
  have "\<exists>q'. ht_queue t' = Some q' \<and> 4 \<in> qt_id ` set (pq_running q')" by blast
  with run show ?thesis by (simp add: ss_def req_def t_def)
qed

end
