(* ===== verification/Transport_Limits.thy ===== *)
theory Transport_Limits
  imports Http_Transport
begin

section \<open>The concurrency limit of the transport\<close>

text \<open>
  The two limiters of \<^verbatim>\<open>http_client.rs\<close>, the queue and the semaphore, keep the contract \<open>limited_steps\<close>
  in every run of the transport, so \<open>queue_depth\<close> is exact.
\<close>

definition entered :: "http_transport \<Rightarrow> nat set" where
  "entered t = {n. \<exists>f. ht_flights t n = Some f \<and> fl_entered f}"

definition limited_running :: "http_transport \<Rightarrow> nat" where
  "limited_running t =
     (case ht_queue t of
        Some q \<Rightarrow> length (pq_running q)
      | None \<Rightarrow> if ht_semaphore t = None then 0 else card (entered t))"

definition limiter_free :: "http_transport \<Rightarrow> nat" where
  "limiter_free t =
     (case ht_queue t of
        Some q \<Rightarrow> available_permits q
      | None \<Rightarrow> (case ht_semaphore t of Some k \<Rightarrow> k | None \<Rightarrow> 0))"

definition limiter_limit :: "http_transport \<Rightarrow> nat" where
  "limiter_limit t =
     (if ht_queue t = None \<and> ht_semaphore t = None then 0 else unat (http_max_concurrency (ht_config t)))"

definition limits_ok :: "http_transport \<Rightarrow> bool" where
  "limits_ok t \<longleftrightarrow> finite (entered t) \<and>
     (case ht_queue t of
        Some q \<Rightarrow> pq_inv q \<and> ht_semaphore t = None \<and>
          max_concurrency (pq_config q) = unat (http_max_concurrency (ht_config t))
      | None \<Rightarrow> (case ht_semaphore t of
                   Some k \<Rightarrow> card (entered t) + k = unat (http_max_concurrency (ht_config t))
                 | None \<Rightarrow> True))"

text \<open>A step that leaves the limiters alone.\<close>

definition same_limits :: "http_transport \<Rightarrow> http_transport \<Rightarrow> bool" where
  "same_limits t t' \<longleftrightarrow> ht_queue t' = ht_queue t \<and> ht_semaphore t' = ht_semaphore t \<and>
     http_max_concurrency (ht_config t') = http_max_concurrency (ht_config t) \<and> entered t' = entered t"

lemma same_limits_refl [simp]: "same_limits t t"
  by (simp add: same_limits_def)

lemma same_limits_ok: "same_limits t t' \<Longrightarrow> limits_ok t \<Longrightarrow> limits_ok t'"
  by (auto simp: same_limits_def limits_ok_def split: option.splits)

lemma same_limits_trans: "same_limits a b \<Longrightarrow> same_limits b c \<Longrightarrow> same_limits a c"
  by (simp add: same_limits_def)

lemma same_limits_limit: "same_limits t t' \<Longrightarrow> limiter_limit t' = limiter_limit t"
  by (simp add: same_limits_def limiter_limit_def)

lemma same_bookkeeping:
  "same_limits t (record_metrics ok us t)"
  "same_limits t (cleanup_pending_request rid t)"
  "same_limits t (cancel_all t)"
  "same_limits t (snd (cancel_request rid t))"
  "same_limits t (snd (allocate_pending_request t))"
  "same_limits t (or_same (set_adaptive_timeout mn mx m w t) t)"
  "same_limits t (or_same (disable_adaptive_timeout t) t)"
  "same_limits t (snd (transport_network_changed env reported t))"
  by (auto simp: same_limits_def entered_def record_metrics_def cleanup_pending_request_def cancel_all_def
    cancel_request_def allocate_pending_request_def next_request_id_def new_token_def
    insert_pending_request_def set_adaptive_timeout_def disable_adaptive_timeout_def
    transport_network_changed_eq Let_def split: option.splits exec.splits sum.splits)

lemma same_record_rtt:
  assumes "transport_record_rtt ms t = (r, t')"
  shows "same_limits t t'" and "r = Done t'' \<Longrightarrow> same_limits t t''"
  using assms
  by (auto simp: transport_record_rtt_def same_limits_def entered_def split: if_splits option.splits exec.splits)

lemma same_settle: "same_limits t (snd (settle now_ms now_us f result t))"
proof -
  let ?t = "cleanup_pending_request (fl_id f) t"
  have b: "same_limits x (x\<lparr>ht_breaker := cb\<rparr>)" for x cb by (simp add: same_limits_def entered_def)
  note m = same_limits_trans [OF _ same_bookkeeping(1)]
  show ?thesis
  proof (cases result)
    case (Inl e)
    then show ?thesis using m same_bookkeeping(2) same_limits_trans [OF same_bookkeeping(2) b]
      by (simp add: settle_eq Let_def)
  next
    case (Inr resp)
    obtain r t2 where a: "transport_record_rtt (resp_elapsed_ms resp) ?t = (r, t2)" by fastforce
    note s = same_limits_trans [OF same_bookkeeping(2)]
    show ?thesis
      using Inr a s [OF same_record_rtt(1) [OF a]] m [OF same_limits_trans [OF s [OF same_record_rtt(2) [OF a]] b]]
      by (simp add: settle_eq Let_def split: exec.splits)
  qed
qed

lemma entered_land: "entered (land n f t) = entered t - {n}"
  by (auto simp: entered_def land_def)

lemma land_ok:
  assumes "limits_ok t" and "ht_flights t n = Some f"
  shows "limits_ok (land n f t)" and "limiter_limit (land n f t) = limiter_limit t"
proof -
  have e: "fl_entered f \<longleftrightarrow> n \<in> entered t" using assms(2) by (simp add: entered_def)
  have c: "Suc (card (entered t - {n})) = card (entered t)" if "n \<in> entered t" "finite (entered t)"
    using card_Suc_Diff1 [OF that(2,1)] .
  from assms(1) show "limits_ok (land n f t)"
    unfolding limits_ok_def entered_land
    using c by (auto simp: land_def e split: option.splits)
  show "limiter_limit (land n f t) = limiter_limit t" by (auto simp: limiter_limit_def land_def)
qed

lemma enter_free:
  assumes "limits_ok t" and "ht_flights t n = Some f" and "\<not> fl_entered f"
  shows "n \<notin> entered t"
    and "entered (t\<lparr>ht_flights := (ht_flights t)(n \<mapsto> f\<lparr>fl_entered := True\<rparr>)\<rparr>) = insert n (entered t)"
  using assms by (auto simp: entered_def)

lemma enter_queue:
  assumes "limits_ok t" and "ht_queue t = Some q" and "pq_submit p q = Some q'"
  shows "limits_ok (t\<lparr>ht_queue := Some q', ht_flights := (ht_flights t)(n \<mapsto> f\<lparr>fl_entered := True\<rparr>)\<rparr>)"
proof -
  have "pq_inv q' \<and> pq_config q' = pq_config q"
    using pq_inv_step [of q "Submit p"] pq_config_step [of "Submit p" q] assms by (simp add: limits_ok_def)
  moreover have "entered (t\<lparr>ht_queue := Some q', ht_flights := (ht_flights t)(n \<mapsto> f\<lparr>fl_entered := True\<rparr>)\<rparr>)
      \<subseteq> insert n (entered t)" by (auto simp: entered_def)
  ultimately show ?thesis using assms by (auto simp: limits_ok_def intro: finite_subset)
qed

lemma enter_semaphore:
  assumes "limits_ok t" and "ht_queue t = None" and "ht_semaphore t = Some (Suc k)"
    and "ht_flights t n = Some f" and "\<not> fl_entered f"
  shows "limits_ok (t\<lparr>ht_semaphore := Some k, ht_flights := (ht_flights t)(n \<mapsto> f\<lparr>fl_entered := True\<rparr>)\<rparr>)"
proof -
  have "entered (t\<lparr>ht_semaphore := Some k, ht_flights := (ht_flights t)(n \<mapsto> f\<lparr>fl_entered := True\<rparr>)\<rparr>)
      = insert n (entered t)" by (auto simp: entered_def)
  with assms enter_free(1) [OF assms(1,4,5)] show ?thesis by (simp add: limits_ok_def)
qed

lemma enter_ok:
  assumes "limits_ok t"
  shows "limits_ok (enter_request n t)" and "limiter_limit (enter_request n t) = limiter_limit t"
  using assms
  by (auto simp: enter_request_def limiter_limit_def enter_queue enter_semaphore split: option.splits nat.splits)

lemma begin_ok:
  assumes "limits_ok t" and "ht_flights t n = None"
  shows "limits_ok (snd (begin_request now_ms now_us us n rid token req t))"
    and "limiter_limit (snd (begin_request now_ms now_us us n rid token req t)) = limiter_limit t"
proof -
  define t1 where "t1 = (case ht_breaker t of None \<Rightarrow> t
    | Some cb \<Rightarrow> t\<lparr>ht_breaker := Some (snd (before_request now_ms cb))\<rparr>)"
  have t1: "same_limits t t1" by (auto simp: t1_def same_limits_def entered_def split: option.splits)
  obtain r t2 where a: "apply_adaptive req t1 = (r, t2)" by fastforce
  have "same_limits t1 t2"
    using a by (auto simp: apply_adaptive_def same_limits_def entered_def split: if_splits option.splits exec.splits)
  with t1 have t2: "same_limits t t2" by (rule same_limits_trans)
  have rej: "same_limits t (record_metrics False us (cleanup_pending_request rid t1))"
    by (rule same_limits_trans [OF same_limits_trans [OF t1 same_bookkeeping(2)] same_bookkeeping(1)])
  define fl where "fl req' = \<lparr>fl_id = rid, fl_token = token, fl_global = ht_global t2, fl_start_us = now_us,
    fl_gen = ht_generation t, fl_request = req',
    fl_entered = (ht_queue t2 = None \<and> ht_semaphore t2 = None)\<rparr>" for req'
  have fly: "limits_ok (t2\<lparr>ht_flights := (ht_flights t2)(n \<mapsto> fl req')\<rparr>)" for req'
  proof -
    have "limits_ok t2" by (rule same_limits_ok [OF t2 assms(1)])
    moreover have "n \<notin> entered t2" using t2 assms(2) by (simp add: same_limits_def entered_def)
    moreover have "entered (t2\<lparr>ht_flights := (ht_flights t2)(n \<mapsto> fl req')\<rparr>)
        = (if ht_queue t2 = None \<and> ht_semaphore t2 = None then insert n (entered t2) else entered t2 - {n})"
      by (auto simp: entered_def fl_def)
    ultimately show ?thesis by (auto simp: limits_ok_def split: option.splits)
  qed
  have lim: "limiter_limit (t2\<lparr>ht_flights := (ht_flights t2)(n \<mapsto> fl req')\<rparr>) = limiter_limit t" for req'
  proof -
    have "limiter_limit (t2\<lparr>ht_flights := (ht_flights t2)(n \<mapsto> fl req')\<rparr>) = limiter_limit t2"
      by (simp add: limiter_limit_def)
    then show ?thesis using same_limits_limit [OF t2] by simp
  qed
  have cases: "begin_request now_ms now_us us n rid token req t =
      (Returned (Err CircuitBreakerOpen), record_metrics False us (cleanup_pending_request rid t1)) \<or>
    begin_request now_ms now_us us n rid token req t = (Panicked, t2) \<or>
    (\<exists>req'. begin_request now_ms now_us us n rid token req t =
      (Waits, t2\<lparr>ht_flights := (ht_flights t2)(n \<mapsto> fl req')\<rparr>))"
  proof -
    define ok where "ok = (case ht_breaker t of None \<Rightarrow> True | Some cb \<Rightarrow> fst (before_request now_ms cb))"
    have "begin_request now_ms now_us us n rid token req t =
      (if \<not> ok
       then (Returned (Err CircuitBreakerOpen), record_metrics False us (cleanup_pending_request rid t1))
       else (case r of
               Panic \<Rightarrow> (Panicked, t2)
             | Done req' \<Rightarrow> (Waits, t2\<lparr>ht_flights := (ht_flights t2)(n \<mapsto> fl req')\<rparr>)))"
      using a by (auto simp: begin_request_def ok_def t1_def fl_def case_prod_unfold split: option.splits exec.splits)
    then show ?thesis by (cases r) auto
  qed
  show "limits_ok (snd (begin_request now_ms now_us us n rid token req t))"
    using cases fly same_limits_ok [OF rej assms(1)] same_limits_ok [OF t2 assms(1)] by auto
  show "limiter_limit (snd (begin_request now_ms now_us us n rid token req t)) = limiter_limit t"
    using cases lim same_limits_limit [OF rej] same_limits_limit [OF t2] by auto
qed

text \<open>The end of a flight.\<close>

lemma finish_ok:
  assumes "limits_ok t"
  shows "limits_ok (snd (finish_request now_ms now_us n result t)) \<and>
    limiter_limit (snd (finish_request now_ms now_us n result t)) = limiter_limit t"
proof (cases "ht_flights t n")
  case (Some f)
  note l = land_ok [OF assms Some]
  have s: "same_limits (land n f t) (snd (settle now_ms now_us f result (land n f t)))" by (rule same_settle)
  show ?thesis
    using same_limits_ok [OF s l(1)] same_limits_limit [OF s] l(2) assms
    by (simp add: finish_request_def Some)
qed (use assms in \<open>simp add: finish_request_def\<close>)

lemma observe_ok:
  assumes "limits_ok t"
  shows "limits_ok (snd (observe_cancel now_ms now_us n t)) \<and>
    limiter_limit (snd (observe_cancel now_ms now_us n t)) = limiter_limit t"
proof (cases "ht_flights t n")
  case (Some f)
  note l = land_ok [OF assms Some]
  let ?t = "record_metrics False (elapsed_us now_us f) (land n f t)"
  have r: "same_limits (land n f t) ?t" by (rule same_bookkeeping)
  have s: "same_limits (land n f t) (snd (settle now_ms now_us f (Err (Internal queue_cancelled)) ?t))"
    by (rule same_limits_trans [OF r same_settle])
  show ?thesis
    using same_limits_ok [OF s l(1)] same_limits_limit [OF s] same_limits_ok [OF r l(1)] same_limits_limit [OF r]
      l(2) assms
    by (simp add: observe_cancel_def Some Let_def)
qed (use assms in \<open>simp add: observe_cancel_def\<close>)

lemma queue_work_ok:
  assumes "limits_ok t"
  shows "limits_ok (t\<lparr>ht_queue := map_option (pq_step s) (ht_queue t)\<rparr>) \<and>
    limiter_limit (t\<lparr>ht_queue := map_option (pq_step s) (ht_queue t)\<rparr>) = limiter_limit t"
  using assms pq_inv_step [of _ s]
  by (auto simp: limits_ok_def limiter_limit_def entered_def split: option.splits)

lemma limits_step:
  assumes "limits_ok t"
  shows "limits_ok (snd (transport_step env s t)) \<and>
    limiter_limit (snd (transport_step env s t)) = limiter_limit t"
proof (cases s)
  case (Begin now_ms now_us us n rid token req)
  with assms begin_ok [OF assms, of n] show ?thesis by simp
next
  case (QueueWork w)
  with assms queue_work_ok [OF assms, of w] show ?thesis by simp
qed (use assms in \<open>simp_all add: enter_ok finish_ok observe_ok same_bookkeeping [THEN same_limits_ok]
  same_bookkeeping [THEN same_limits_limit]\<close>)

lemma limits_accounted: "limits_ok t \<Longrightarrow> limited_running t + limiter_free t = limiter_limit t"
  by (auto simp: limits_ok_def limited_running_def limiter_free_def limiter_limit_def pq_inv_def
    available_permits_def split: option.splits)

interpretation transport: limited_steps "\<lambda>s t. snd (transport_step env s t)" limited_running limiter_free
  limiter_limit limits_ok for env
  by unfold_locales (simp_all add: limits_step limits_accounted)

lemma snd_transport_run: "snd (transport_run env ss t) = fold (\<lambda>s t. snd (transport_step env s t)) ss t"
  by (induction ss arbitrary: t) (simp_all add: case_prod_unfold)

lemma limits_new:
  assumes "transport_new env re rt config = Done (Ok t)"
  shows "limits_ok t" and "limiter_limit t = unat (http_max_concurrency config)" and "ht_config t = config"
  using assms pq_inv_new [of "transport_queue_config config"]
  by (auto simp: transport_new_def bind_exec_Ok_iff limits_ok_def limiter_limit_def entered_def
    pq_new_def transport_queue_config_def word_gt_0 split: if_splits)

text \<open>
  C26. \<open>queue_depth\<close> is exact: whatever requests, cancellations, network changes and schedules of the
  queue a transport went through, it is the number of requests that hold a slot, and that is never
  above \<open>max_concurrency\<close>.  No path, panics and cancellations included, loses or doubles a slot.
\<close>

theorem queue_depth_exact:
  assumes "transport_new env re rt config = Done (Ok t)"
  shows "queue_depth (snd (transport_run env' ss t)) = limited_running (snd (transport_run env' ss t)) \<and>
    queue_depth (snd (transport_run env' ss t)) \<le> unat (http_max_concurrency config)"
proof -
  let ?t = "snd (transport_run env' ss t)"
  note n = limits_new [OF assms]
  have ok: "limits_ok ?t" unfolding snd_transport_run by (rule transport.run_inv [OF n(1)])
  have "limiter_limit ?t = unat (http_max_concurrency config)"
    unfolding snd_transport_run using transport.run_limit [OF n(1)] n(2) by simp
  moreover have "queue_depth ?t = limiter_limit ?t - limiter_free ?t"
    by (auto simp: queue_depth_def limiter_limit_def limiter_free_def split: option.splits)
  ultimately show ?thesis using limits_accounted [OF ok] by linarith
qed

theorem queue_depth_exact_witness:
  "\<exists>t. transport_new permissive_env (\<lambda>_. None) False (default_http_client_config\<lparr>http_max_concurrency := 2\<rparr>)
      = Done (Ok t) \<and>
    queue_depth (snd (transport_run permissive_env
      [Begin 5 0 0 0 0 0 (get_request ''/x''), Enter 0, Begin 5 0 0 1 0 0 (get_request ''/y'')] t)) \<le> 2"
proof -
  let ?cfg = "default_http_client_config\<lparr>http_max_concurrency := 2\<rparr>"
  obtain t where t: "transport_new permissive_env (\<lambda>_. None) False ?cfg = Done (Ok t)"
    by (auto simp: transport_new_def build_middleware_client_def permissive_env_def permissive_tls_def
      bind_exec_def build_tls_config_def default_http_client_config_def default_tls_config_def
      pins_configured_def certificate_calls_def ca_cert_pem_calls_def ca_cert_path_calls_def
      identity_pem_calls_def identity_path_calls_def proxy_calls_def auth_calls_def Let_def)
  with queue_depth_exact [OF t, of permissive_env
      "[Begin 5 0 0 0 0 0 (get_request ''/x''), Enter 0, Begin 5 0 0 1 0 0 (get_request ''/y'')]"]
  show ?thesis by auto
qed

subsection \<open>Invariants of the transport's steps\<close>

text \<open>
  The interface between the transport and the bindings that drive it: a property of the transport that
  the steps in use keep, \<open>allowed\<close> says which.  A binding reaches a transport in no other way.
\<close>

locale transport_steps =
  fixes P :: "http_transport \<Rightarrow> bool" and allowed :: "transport_input \<Rightarrow> bool"
  assumes stepped: "allowed inp \<Longrightarrow> P t \<Longrightarrow> P (snd (transport_step env inp t))"
    and token: "P t \<Longrightarrow> P (snd (new_token t))"
    and counted: "P t \<Longrightarrow> P (t\<lparr>ht_metrics := m\<rparr>)"
begin

lemma operations:
  assumes "P t"
  shows "allowed CancelAll \<Longrightarrow> P (cancel_all t)"
    "allowed (CancelRequest rid) \<Longrightarrow> P (snd (cancel_request rid t))"
    "allowed AllocateRequest \<Longrightarrow> P (snd (allocate_pending_request t))"
    "allowed (NetworkChange reported) \<Longrightarrow> P (snd (transport_network_changed env reported t))"
    "allowed (SetAdaptive mn mx f n) \<Longrightarrow> set_adaptive_timeout mn mx f n t = Done t' \<Longrightarrow> P t'"
    "allowed DisableAdaptive \<Longrightarrow> disable_adaptive_timeout t = Done t' \<Longrightarrow> P t'"
  using stepped [OF _ assms, of CancelAll undefined] stepped [OF _ assms, of "CancelRequest rid" undefined]
    stepped [OF _ assms, of AllocateRequest undefined] stepped [OF _ assms, of "NetworkChange reported" env]
    stepped [OF _ assms, of "SetAdaptive mn mx f n" undefined] stepped [OF _ assms, of DisableAdaptive undefined]
  by simp_all

end

end
