(* ===== verification/Transport_Races.thy ===== *)
theory Transport_Races
  imports Http_Transport
begin

section \<open>Network changes between the steps of a failing request\<close>

text \<open>
  \<^verbatim>\<open>Http_Transport\<close> lets a failing request compare the generations and report to the breaker, and a
  network change increment the generation and reset the breaker, each in one step.  The code does
  neither: \<open>execute_with_token\<close> reads the generation and then calls \<open>on_failure\<close>
  (\<^verbatim>\<open>http_client.rs\<close> 483-486), and \<open>network_changed\<close> increments it and then resets the breaker
  (\<^verbatim>\<open>http_client.rs\<close> 159-162) by four stores, the last three outside the breaker's lock
  (\<^verbatim>\<open>circuit_breaker.rs\<close> 113-119).  Here all of these are steps of their own, interleaved freely with each other
  and with the remaining steps of the transport.
\<close>

subsection \<open>The machine\<close>

text \<open>
  \<open>rt_reports\<close> holds the requests that found their generation current and have not yet told the
  breaker; \<open>rt_changes\<close> the network changes under way, each with the stores it has still to make.
\<close>

record racing =
  rt_transport :: http_transport
  rt_reports :: "nat \<rightharpoonup> flight"
  rt_changes :: "nat \<rightharpoonup> reset_store list"

definition racing_new :: "http_transport \<Rightarrow> racing" where
  "racing_new t = \<lparr>rt_transport = t, rt_reports = Map.empty, rt_changes = Map.empty\<rparr>"

text \<open>
  Steps: a whole step of the transport; request \<open>n\<close> ends in an error, or sees its cancellation on the
  queue's path, and compares the generations; it reports; thread \<open>k\<close> goes on with its network change.
\<close>

datatype race_input =
    Whole transport_input
  | CheckFailure nat nat
  | CheckCancelled nat nat
  | Report u64 nat
  | Change nat "os_proxies option"

text \<open>The transport's steps that are cut up.\<close>

fun is_cut :: "transport_input \<Rightarrow> http_transport \<Rightarrow> bool" where
  "is_cut (Complete _ _ _ result) t = (\<not> is_ok result)"
| "is_cut (ObserveCancel _ _ _) t = (ht_queue t \<noteq> None)"
| "is_cut (NetworkChange _) t = True"
| "is_cut _ t = False"

definition check_flight :: "nat \<Rightarrow> nat \<Rightarrow> flight \<Rightarrow> http_transport \<Rightarrow> racing \<Rightarrow> racing" where
  "check_flight now_us n f t s =
     (case failure_check now_us f t of (current, t1) \<Rightarrow>
        s\<lparr>rt_transport := t1, rt_reports := (if current then (rt_reports s)(n \<mapsto> f) else rt_reports s)\<rparr>)"

fun race_step :: "lib_env \<Rightarrow> race_input \<Rightarrow> racing \<Rightarrow> racing" where
  "race_step env (Whole i) s =
     (if is_cut i (rt_transport s) then s
      else s\<lparr>rt_transport := snd (transport_step env i (rt_transport s))\<rparr>)"
| "race_step env (CheckFailure now_us n) s =
     (case ht_flights (rt_transport s) n of
        None \<Rightarrow> s
      | Some f \<Rightarrow>
          if fl_entered f \<and> rt_reports s n = None
          then check_flight now_us n f (land n f (rt_transport s)) s else s)"
| "race_step env (CheckCancelled now_us n) s =
     (let t = rt_transport s
      in case ht_flights t n of
           None \<Rightarrow> s
         | Some f \<Rightarrow>
             if ht_queue t \<noteq> None \<and> (fl_token f \<in> ht_cancelled t \<or> fl_global f \<in> ht_cancelled t) \<and>
                rt_reports s n = None
             then check_flight now_us n f (record_metrics False (elapsed_us now_us f) (land n f t)) s
             else s)"
| "race_step env (Report now_ms n) s =
     (case rt_reports s n of
        None \<Rightarrow> s
      | Some f \<Rightarrow>
          s\<lparr>rt_transport := failure_report now_ms (rt_transport s), rt_reports := (rt_reports s)(n := None)\<rparr>)"
| "race_step env (Change k reported) s =
     (let t = rt_transport s
      in case rt_changes s k of
           None \<Rightarrow>
             s\<lparr>rt_transport := bump_generation t, rt_changes := (rt_changes s)(k \<mapsto> reset_stores)\<rparr>
         | Some (st # sts) \<Rightarrow>
             s\<lparr>rt_transport := breaker_store st t, rt_changes := (rt_changes s)(k \<mapsto> sts)\<rparr>
         | Some [] \<Rightarrow>
             s\<lparr>rt_transport := snd (rebuild_transport env reported t), rt_changes := (rt_changes s)(k := None)\<rparr>)"

fun race_run :: "lib_env \<Rightarrow> race_input list \<Rightarrow> racing \<Rightarrow> racing" where
  "race_run env [] s = s"
| "race_run env (x # xs) s = race_run env xs (race_step env x s)"

lemma race_run_append: "race_run env (xs @ ys) s = race_run env ys (race_run env xs s)"
  by (induction xs arbitrary: s) simp_all

subsection \<open>The whole steps are uninterrupted runs\<close>

text \<open>What a step of the transport is when nothing comes between its parts.\<close>

fun uninterrupted :: "nat \<Rightarrow> transport_input \<Rightarrow> http_transport \<Rightarrow> race_input list" where
  "uninterrupted k (Complete now_ms now_us n (Inl e)) t = [CheckFailure now_us n, Report now_ms n]"
| "uninterrupted k (ObserveCancel now_ms now_us n) t =
     (if ht_queue t = None then [Whole (ObserveCancel now_ms now_us n)]
      else [CheckCancelled now_us n, Report now_ms n])"
| "uninterrupted k (NetworkChange reported) t = replicate 6 (Change k reported)"
| "uninterrupted k i t = [Whole i]"

lemma check_then_report:
  "rt_reports s n = None \<Longrightarrow>
     race_step env (Report now_ms n) (check_flight now_us n f t s) =
     s\<lparr>rt_transport := snd (settle now_ms now_us f (Err e) t)\<rparr>"
  by (auto simp: check_flight_def settle_def case_prod_unfold fun_upd_idem)

lemma undisturbed_change:
  assumes "rt_changes s k = None"
  shows "race_run env (replicate 6 (Change k reported)) s =
    s\<lparr>rt_transport := snd (transport_network_changed env reported (rt_transport s))\<rparr>"
  using assms
  by (simp add: eval_nat_numeral reset_stores_def transport_network_changed_def fun_upd_idem)

lemma whole_steps_are_runs:
  assumes "\<forall>n. rt_reports s n = None" and "rt_changes s k = None"
  shows "race_run env (uninterrupted k i (rt_transport s)) s =
    s\<lparr>rt_transport := snd (transport_step env i (rt_transport s))\<rparr>"
proof (cases i)
  case (Complete now_ms now_us n result)
  then show ?thesis
    using assms(1) check_then_report [of s n env now_ms now_us _ "land n _ (rt_transport s)"]
    by (cases result) (auto simp: finish_request_def split: option.splits)
next
  case (ObserveCancel now_ms now_us n)
  then show ?thesis
    using assms(1)
      check_then_report [of s n env now_ms now_us _ "record_metrics False _ (land n _ (rt_transport s))"]
    by (auto simp: observe_cancel_def Let_def split: option.splits)
next
  case (NetworkChange reported)
  then show ?thesis using undisturbed_change [OF assms(2)] by simp
qed simp_all


subsection \<open>What the breaker is told\<close>

text \<open>The calls and stores on the breaker, in the order in which a run makes them.\<close>

datatype breaker_event = Asked u64 | Succeeded | Reported u64 nat flight | Stored reset_store

fun breaker_apply :: "breaker_event \<Rightarrow> circuit_breaker \<Rightarrow> circuit_breaker" where
  "breaker_apply (Asked now_ms) cb = snd (before_request now_ms cb)"
| "breaker_apply Succeeded cb = on_success cb"
| "breaker_apply (Reported now_ms n f) cb = on_failure now_ms cb"
| "breaker_apply (Stored st) cb = cb_store st cb"

lemma breaker_apply_fun:
  "breaker_apply (Asked now_ms) = (\<lambda>cb. snd (before_request now_ms cb))"
  "breaker_apply Succeeded = on_success"
  "breaker_apply (Reported now_ms n f) = on_failure now_ms"
  "breaker_apply (Stored st) = cb_store st"
  by auto

fun breaker_events :: "lib_env \<Rightarrow> race_input \<Rightarrow> racing \<Rightarrow> breaker_event list" where
  "breaker_events env (Whole (Begin now_ms now_us us n rid token req)) s =
     (if ht_flights (rt_transport s) n = None then [Asked now_ms] else [])"
| "breaker_events env (Whole (Complete now_ms now_us n (Inr resp))) s =
     (if fst (transport_step env (Complete now_ms now_us n (Ok resp)) (rt_transport s)) = Returned (Ok resp)
      then [Succeeded] else [])"
| "breaker_events env (Report now_ms n) s =
     (case rt_reports s n of None \<Rightarrow> [] | Some f \<Rightarrow> [Reported now_ms n f])"
| "breaker_events env (Change k reported) s =
     (case rt_changes s k of Some (st # sts) \<Rightarrow> [Stored st] | _ \<Rightarrow> [])"
| "breaker_events env _ s = []"

fun race_events :: "lib_env \<Rightarrow> race_input list \<Rightarrow> racing \<Rightarrow> breaker_event list" where
  "race_events env [] s = []"
| "race_events env (x # xs) s = breaker_events env x s @ race_events env xs (race_step env x s)"

lemma check_flight_fields [simp]:
  "ht_breaker (rt_transport (check_flight now_us n f t s)) = ht_breaker t"
  "ht_generation (rt_transport (check_flight now_us n f t s)) = ht_generation t"
  "ht_flights (rt_transport (check_flight now_us n f t s)) = ht_flights t"
  "rt_reports (check_flight now_us n f t s) =
     (if fl_gen f = ht_generation t then (rt_reports s)(n \<mapsto> f) else rt_reports s)"
  by (auto simp: check_flight_def failure_check_def Let_def)

lemma rebuild_transport_fields [simp]:
  "ht_breaker (snd (rebuild_transport env reported t)) = ht_breaker t"
  "ht_generation (snd (rebuild_transport env reported t)) = ht_generation t"
  "ht_flights (snd (rebuild_transport env reported t)) = ht_flights t"
  by (auto simp: rebuild_transport_def Let_def split: exec.splits sum.splits)

lemma part_fields [simp]:
  "ht_breaker (bump_generation t) = ht_breaker t"
  "ht_generation (bump_generation t) = ht_generation t + 1"
  "ht_flights (bump_generation t) = ht_flights t"
  "ht_breaker (breaker_store st t) = map_option (cb_store st) (ht_breaker t)"
  "ht_generation (breaker_store st t) = ht_generation t"
  "ht_flights (breaker_store st t) = ht_flights t"
  "ht_breaker (failure_report now_ms t) = map_option (on_failure now_ms) (ht_breaker t)"
  "ht_generation (failure_report now_ms t) = ht_generation t"
  "ht_flights (failure_report now_ms t) = ht_flights t"
  by (simp_all add: bump_generation_def breaker_store_def failure_report_def)

lemma settle_ok:
  assumes "settle now_ms now_us f (Ok resp) t = (c, t')"
  shows "c = Returned (Ok resp) \<and> ht_breaker t' = map_option on_success (ht_breaker t) \<or>
    c = Panicked \<and> ht_breaker t' = ht_breaker t"
proof -
  obtain r t2 where a: "transport_record_rtt (resp_elapsed_ms resp) (cleanup_pending_request (fl_id f) t) = (r, t2)"
    by fastforce
  from assms transport_record_rtt_fields(1-4) [OF a] transport_record_rtt_fields(5) [OF a]
  show ?thesis by (auto simp: settle_def a split: exec.splits)
qed

text \<open>The generations in flight; the steps that are not cut up let nobody in with an earlier one.\<close>

definition carried :: "http_transport \<Rightarrow> u64 set" where
  "carried t = {fl_gen f | n f. ht_flights t n = Some f}"

lemma carriedI: "ht_flights t n = Some f \<Longrightarrow> fl_gen f \<in> carried t"
  by (auto simp: carried_def)

lemma carried_delete: "ht_flights t' = (ht_flights t)(n := None) \<Longrightarrow> carried t' \<subseteq> carried t"
  by (auto simp: carried_def split: if_splits)

lemma uncut_step:
  assumes "\<not> is_cut i t" and "transport_step env i t = (c, t')"
  shows "ht_generation t' = ht_generation t \<and> carried t' \<subseteq> insert (ht_generation t) (carried t)"
proof (cases i)
  case (Begin now_ms now_us us n rid token req)
  show ?thesis
  proof (cases "ht_flights t n = None")
    case True
    with assms(2) Begin have b: "begin_request now_ms now_us us n rid token req t = (c, t')" by simp
    from begin_request_cases(4) [OF b] begin_request_cases(2) [OF b] show ?thesis
      by (auto simp: carried_def split: if_splits, blast+)
  qed (use assms Begin in auto)
next
  case (Enter n)
  have "carried (enter_request n t) \<subseteq> carried t"
    by (auto simp: carried_def dest!: enter_gen)
  with assms Enter show ?thesis by auto
next
  case (Complete now_ms now_us n result)
  with assms(2) have "finish_request now_ms now_us n result t = (c, t')" by simp
  from finish_request_cases [OF this] show ?thesis
    by (auto dest!: settle_cases dest: carried_delete [THEN subsetD])
next
  case (ObserveCancel now_ms now_us n)
  with assms have "observe_cancel now_ms now_us n t = (c, t')" "ht_queue t = None" by simp_all
  from observe_cancel_cases [OF this(1)] this(2) show ?thesis
    by (auto simp: carried_def split: if_splits, blast+)
qed (use assms in \<open>auto simp: carried_def split: if_splits, blast+\<close>)

lemma uncut_step_breaker:
  assumes "\<not> is_cut i t"
  shows "ht_breaker (snd (transport_step env i t)) =
    map_option (fold breaker_apply (breaker_events env (Whole i) (racing_new t))) (ht_breaker t)"
proof -
  obtain c t' where s: "transport_step env i t = (c, t')" by fastforce
  show ?thesis
  proof (cases i)
    case (Begin now_ms now_us us n rid token req)
    show ?thesis
    proof (cases "ht_flights t n = None")
      case True
      with s Begin have b: "begin_request now_ms now_us us n rid token req t = (c, t')" by simp
      from begin_request_cases(1) [OF b] True Begin b show ?thesis
        by (simp add: racing_new_def fun_eq_iff cong: option.map_cong)
    qed (use s Begin in \<open>auto simp: racing_new_def option.map_id\<close>)
  next
    case (Complete now_ms now_us n result)
    with assms obtain resp where r: "result = Ok resp" by (cases result) auto
    with Complete s have "finish_request now_ms now_us n (Ok resp) t = (c, t')" by simp
    from finish_request_cases [OF this] s Complete r show ?thesis
      by (auto simp: racing_new_def option.map_id breaker_apply_fun dest!: settle_ok simp del: transport_step.simps)
  next
    case (ObserveCancel now_ms now_us n)
    with assms s have "observe_cancel now_ms now_us n t = (c, t')" "ht_queue t = None" by simp_all
    from observe_cancel_cases [OF this(1)] this(2) s ObserveCancel show ?thesis
      by (auto simp: option.map_id split: if_splits simp del: transport_step.simps)
  qed (use assms in \<open>auto simp: option.map_id\<close>)
qed


lemma race_step_breaker:
  "ht_breaker (rt_transport (race_step env x s)) =
     map_option (fold breaker_apply (breaker_events env x s)) (ht_breaker (rt_transport s))"
proof (cases x)
  case (Whole i)
  have "breaker_events env (Whole i) (racing_new (rt_transport s)) = breaker_events env (Whole i) s"
    by (cases "(env, Whole i, s)" rule: breaker_events.cases) (auto simp: racing_new_def)
  then show ?thesis
  proof (cases "is_cut i (rt_transport s)")
    case True
    with Whole show ?thesis
      by (cases "(env, Whole i, s)" rule: breaker_events.cases) (auto simp: option.map_id)
  next
    case False
    with Whole \<open>breaker_events env (Whole i) (racing_new (rt_transport s)) = breaker_events env (Whole i) s\<close>
      uncut_step_breaker [OF False, of env]
    show ?thesis by simp
  qed
qed (auto simp: Let_def option.map_id breaker_apply_fun split: option.splits list.splits)

lemma race_run_breaker:
  "ht_breaker (rt_transport (race_run env xs s)) =
     map_option (fold breaker_apply (race_events env xs s)) (ht_breaker (rt_transport s))"
  by (induction xs arbitrary: s)
    (simp_all add: race_step_breaker option.map_comp o_def option.map_ident id_def)

text \<open>Before the change: nobody in flight carries a generation yet to come.\<close>

lemma race_step_carried:
  "carried (rt_transport (race_step env x s)) \<subseteq>
     insert (ht_generation (rt_transport s)) (carried (rt_transport s))"
proof (cases x)
  case (Whole i)
  then show ?thesis
    using uncut_step [of i "rt_transport s" env] by (cases "transport_step env i (rt_transport s)") auto
next
  case (CheckFailure now_us n)
  then show ?thesis
    by (auto simp: carried_def split: option.splits if_splits)
next
  case (CheckCancelled now_us n)
  then show ?thesis
    by (auto simp: carried_def Let_def split: option.splits if_splits)
qed (auto simp: carried_def Let_def split: option.splits list.splits)

lemma race_step_generation:
  "ht_generation (rt_transport (race_step env x s)) = ht_generation (rt_transport s) \<or>
   ht_generation (rt_transport (race_step env x s)) = ht_generation (rt_transport s) + 1"
proof (cases x)
  case (Whole i)
  then show ?thesis
    using uncut_step [of i "rt_transport s" env] by (cases "transport_step env i (rt_transport s)") auto
qed (auto simp: Let_def split: option.splits list.splits)

definition no_later_flight :: "nat \<Rightarrow> racing \<Rightarrow> bool" where
  "no_later_flight m s \<longleftrightarrow> unat (ht_generation (rt_transport s)) \<le> m \<and>
     (\<forall>g \<in> carried (rt_transport s). unat g \<le> unat (ht_generation (rt_transport s)))"

lemma generation_grows:
  assumes "unat (ht_generation (rt_transport s)) \<le> m" and "Suc m < 2 ^ 64"
  shows "unat (ht_generation (rt_transport s)) \<le> unat (ht_generation (rt_transport (race_step env x s))) \<and>
    unat (ht_generation (rt_transport (race_step env x s))) \<le> Suc m"
proof -
  have "unat (ht_generation (rt_transport s) + 1) = Suc (unat (ht_generation (rt_transport s)))"
    using assms by (intro unat_plus_one [THEN trans]) simp_all
  then show ?thesis using race_step_generation [of env x s] assms(1) by auto
qed

lemma no_later_flight_step:
  assumes "no_later_flight m s" and "Suc m < 2 ^ 64"
  shows "no_later_flight (Suc m) (race_step env x s)"
  using assms race_step_carried [of env x s] generation_grows [of s m env x]
  unfolding no_later_flight_def by fastforce

lemma no_later_flight_run:
  "no_later_flight m s \<Longrightarrow> m + length xs < 2 ^ 64 \<Longrightarrow>
     no_later_flight (m + length xs) (race_run env xs s)"
proof (induction xs arbitrary: m s)
  case (Cons x xs)
  from Cons.IH [OF no_later_flight_step [OF Cons.prems(1)], of env x] Cons.prems(2) show ?case by simp
qed simp

text \<open>After it: a report yet to be made was pending then, or is of a request begun since.\<close>

definition reports_since :: "(nat \<rightharpoonup> flight) \<Rightarrow> u64 \<Rightarrow> racing \<Rightarrow> bool" where
  "reports_since pending g s \<longleftrightarrow> g < ht_generation (rt_transport s) \<and>
     (\<forall>n f. rt_reports s n = Some f \<longrightarrow> pending n = Some f \<or> g < fl_gen f)"

lemma reports_since_step:
  assumes "reports_since pending g s" and "unat (ht_generation (rt_transport s)) \<le> m" and "Suc m < 2 ^ 64"
  shows "reports_since pending g (race_step env x s)"
proof -
  have "g < ht_generation (rt_transport (race_step env x s))"
    using assms(1) generation_grows [OF assms(2,3), of env x]
    by (simp add: reports_since_def word_less_nat_alt)
  moreover have "pending n = Some f \<or> g < fl_gen f"
    if "rt_reports (race_step env x s) n = Some f" for n f
    using assms(1) that unfolding reports_since_def
    by (cases x) (auto simp: Let_def split: option.splits list.splits if_splits)
  ultimately show ?thesis by (simp add: reports_since_def)
qed

lemma reports_since_events:
  assumes "reports_since pending g s" and "Reported now_ms n f \<in> set (breaker_events env x s)"
  shows "pending n = Some f \<or> g < fl_gen f"
  using assms unfolding reports_since_def
  by (cases "(env, x, s)" rule: breaker_events.cases) (auto split: option.splits list.splits if_splits, metis)

lemma reports_since_run:
  "reports_since pending g s \<Longrightarrow> unat (ht_generation (rt_transport s)) \<le> m \<Longrightarrow> m + length xs < 2 ^ 64 \<Longrightarrow>
     Reported now_ms n f \<in> set (race_events env xs s) \<Longrightarrow> pending n = Some f \<or> g < fl_gen f"
proof (induction xs arbitrary: m s)
  case (Cons x xs)
  have m: "Suc m < 2 ^ 64" using Cons.prems(3) by simp
  from Cons.prems(4) consider "Reported now_ms n f \<in> set (breaker_events env x s)"
    | "Reported now_ms n f \<in> set (race_events env xs (race_step env x s))" by auto
  then show ?case
  proof cases
    case 1
    with Cons.prems(1) show ?thesis by (rule reports_since_events)
  next
    case 2
    have "reports_since pending g (race_step env x s)"
      using Cons.prems(1,2) m by (rule reports_since_step)
    from Cons.IH [OF this, of "Suc m"] generation_grows [OF Cons.prems(2) m, of env x] Cons.prems(3) 2
    show ?thesis by simp
  qed
qed simp


subsection \<open>Which failures count\<close>

text \<open>
  C4. Whatever comes between the steps of requests and network changes: once a change has
  incremented the generation, the breaker is told of the failure of a request begun before only if
  that request had compared the generations before the increment and was about to report.  Every
  request in flight at the change carries a generation no later than the old one, every other
  failure the breaker hears of is of a request begun since, and the breaker is moved by the calls and
  stores listed and by nothing else.  (The generation has 64 bits and must not come round.)
\<close>

theorem only_current_failures_count:
  assumes "transport_new lib re rt config = Done (Ok t0)"
    and "length xs + length ys + 1 < 2 ^ 64"
    and "race_run env xs (racing_new t0) = s" and "rt_changes s k = None"
  shows "(\<forall>n f. ht_flights (rt_transport s) n = Some f \<longrightarrow> fl_gen f \<le> ht_generation (rt_transport s)) \<and>
    (\<forall>now_ms n f. Reported now_ms n f \<in> set (race_events env (Change k reported # ys) s) \<longrightarrow>
       rt_reports s n = Some f \<or> ht_generation (rt_transport s) < fl_gen f) \<and>
    ht_breaker (rt_transport (race_run env (Change k reported # ys) s)) =
      map_option (fold breaker_apply (race_events env (Change k reported # ys) s))
        (ht_breaker (rt_transport s))"
proof -
  let ?g = "ht_generation (rt_transport s)"
  define s1 where "s1 = race_step env (Change k reported) s"
  have "ht_generation t0 = 0" "ht_flights t0 = Map.empty"
    using assms(1) by (auto simp: transport_new_def bind_exec_Ok_iff)
  then have "no_later_flight 0 (racing_new t0)"
    by (simp add: no_later_flight_def racing_new_def carried_def)
  from no_later_flight_run [OF this, of xs env] assms(2) have s: "no_later_flight (length xs) s"
    unfolding assms(3) by simp
  have old: "fl_gen f \<le> ?g" if "ht_flights (rt_transport s) n = Some f" for n f
    using s carriedI [OF that] by (simp add: no_later_flight_def word_le_nat_alt)
  have g1: "ht_generation (rt_transport s1) = ?g + 1" "rt_reports s1 = rt_reports s"
    "breaker_events env (Change k reported) s = []"
    using assms(4) by (simp_all add: s1_def)
  have le: "unat ?g \<le> length xs" using s by (simp add: no_later_flight_def)
  then have u: "unat (?g + 1) = Suc (unat ?g)"
    using assms(2) by (intro unat_plus_one [THEN trans]) simp_all
  then have "reports_since (rt_reports s) ?g s1"
    by (simp add: reports_since_def g1 word_less_nat_alt)
  from reports_since_run [OF this, of "Suc (length xs)" ys _ _ _ env] u le assms(2)
  have "rt_reports s n = Some f \<or> ?g < fl_gen f"
    if "Reported now_ms n f \<in> set (race_events env ys s1)" for now_ms n f
    using that by (simp add: g1)
  then show ?thesis
    using old g1(3) race_run_breaker [of env "Change k reported # ys" s]
    by (simp add: s1_def del: race_run.simps)
qed

text \<open>
  A request fails, finds its generation current, and is overtaken by a network change; another fails
  after it.  The first one's report is the only failure the reset breaker hears of, and opens it.
\<close>

definition overtaken :: "racing \<Rightarrow> race_input list \<Rightarrow> race_input list \<Rightarrow> bool" where
  "overtaken s0 xs ys \<longleftrightarrow>
     (let s = race_run permissive_env xs s0
      in rt_changes s 3 = None \<and> dom (rt_reports s) = {0} \<and>
         map (\<lambda>e. case e of Reported _ n _ \<Rightarrow> Some n | _ \<Rightarrow> None)
           (race_events permissive_env (Change 3 None # ys) s) = [None, None, None, None, Some 0] \<and>
         map_option cb_st (ht_breaker (rt_transport (race_run permissive_env (Change 3 None # ys) s)))
           = Some Open)"

theorem only_current_failures_count_witness:
  "\<exists>t0. transport_new permissive_env (\<lambda>_. None) False
      (default_http_client_config\<lparr>http_circuit_breaker :=
         Some (default_circuit_breaker_config\<lparr>failure_threshold := 1\<rparr>), http_max_concurrency := 0\<rparr>)
      = Done (Ok t0) \<and>
    overtaken (racing_new t0)
      [Whole (Begin 5 0 0 0 0 0 (get_request ''/x'')), Whole (Begin 5 0 0 1 1 1 (get_request ''/y'')),
       CheckFailure 9 0]
      [Change 3 None, Change 3 None, Change 3 None, Change 3 None, CheckFailure 9 1, Report 9 1, Report 9 0]"
proof -
  let ?cfg = "default_http_client_config\<lparr>http_circuit_breaker :=
         Some (default_circuit_breaker_config\<lparr>failure_threshold := 1\<rparr>), http_max_concurrency := 0\<rparr>"
  let ?xs = "[Whole (Begin 5 0 0 0 0 0 (get_request ''/x'')), Whole (Begin 5 0 0 1 1 1 (get_request ''/y'')),
       CheckFailure 9 0]"
  let ?ys = "[Change 3 None, Change 3 None, Change 3 None, Change 3 None, CheckFailure 9 1, Report 9 1, Report 9 0]"
  obtain t0 where t0: "transport_new permissive_env (\<lambda>_. None) False ?cfg = Done (Ok t0)"
    by (auto simp: transport_new_def build_middleware_client_def permissive_env_def permissive_tls_def
      bind_exec_def build_tls_config_def default_http_client_config_def default_tls_config_def
      pins_configured_def certificate_calls_def ca_cert_pem_calls_def ca_cert_path_calls_def
      identity_pem_calls_def identity_path_calls_def proxy_calls_def auth_calls_def Let_def)
  have t: "ht_breaker t0 = Some (cb_new (default_circuit_breaker_config\<lparr>failure_threshold := 1\<rparr>))"
    "ht_flights t0 = Map.empty" "ht_generation t0 = 0" "ht_adaptive t0 = None" "\<not> ht_poisoned t0"
    "ht_queue t0 = None" "ht_semaphore t0 = None"
    using t0 by (auto simp: transport_new_def bind_exec_Ok_iff)
  define s where "s = race_run permissive_env ?xs (racing_new t0)"
  have s: "rt_changes s = Map.empty" "dom (rt_reports s) = {0}" "ht_generation (rt_transport s) = 0"
    "ht_breaker (rt_transport s) = ht_breaker t0" "ht_queue (rt_transport s) = None"
    "\<exists>f. ht_flights (rt_transport s) = [1 \<mapsto> f] \<and> fl_gen f = 0 \<and> fl_entered f"
    using t by (auto simp: s_def racing_new_def begin_request_def apply_adaptive_def before_request_def
      cb_new_def Let_def check_flight_def failure_check_def land_def record_metrics_def
      cleanup_pending_request_def get_request_def)
  obtain f where f: "rt_reports s = [0 \<mapsto> f]" using s(2) by (metis dom_eq_singleton_conv)
  have e: "map (\<lambda>e. case e of Reported _ n _ \<Rightarrow> Some n | _ \<Rightarrow> None)
      (race_events permissive_env (Change 3 None # ?ys) s) = [None, None, None, None, Some 0]"
    "fold breaker_apply (race_events permissive_env (Change 3 None # ?ys) s) (the (ht_breaker t0)) =
      on_failure 9 (cb_reset (the (ht_breaker t0)))"
    using s f by (auto simp: reset_stores_def Let_def cb_reset_def)
  have l: "length ?xs + length ?ys + 1 < 2 ^ 64" by simp
  have "rt_changes s 3 = None" using s(1) by simp
  from only_current_failures_count [OF t0 l s_def [symmetric] this, of None]
  have b: "map_option cb_st (ht_breaker (rt_transport (race_run permissive_env (Change 3 None # ?ys) s))) = Some Open"
    using e(2) t(1) s(4) by (simp add: cb_ops cb_new_def del: race_run.simps race_events.simps)
  have "overtaken (racing_new t0) ?xs ?ys"
    unfolding overtaken_def Let_def s_def [symmetric] e(1) b using s(1,2) by simp
  with t0 show ?thesis by blast
qed

subsection \<open>Two races\<close>

text \<open>
  The report of a request that is overtaken by a network change hits the reset breaker: with a
  threshold of one it opens it for the new network, though the request belongs to the old one.
\<close>

theorem late_report_opens_breaker:
  assumes "rt_reports s n = Some f" and "rt_changes s k = None"
    and "ht_breaker (rt_transport s) = Some cb" and "failure_threshold (cb_config cb) \<le> 1"
  shows "map_option cb_st (ht_breaker (rt_transport
    (race_run env (replicate 6 (Change k reported) @ [Report now_ms n]) s))) = Some Open"
proof -
  let ?r = "race_run env (replicate 6 (Change k reported)) s"
  have "ht_breaker (rt_transport ?r) = Some (cb_reset cb)" "rt_reports ?r = rt_reports s"
    using assms(2,3) by (simp_all add: undisturbed_change transport_network_changed_fields)
  with assms(1,4) show ?thesis
    by (simp add: race_run_append failure_report_def on_failure_def cb_reset_eq Let_def)
qed

text \<open>
  The stores of the reset are not one step: the state is closed while the old count still stands, so
  one failure told between the two opens the breaker whatever its threshold, and the remaining
  stores leave it open.
\<close>

theorem half_reset_opens_breaker:
  assumes "rt_reports s n = Some f" and "rt_changes s k = None"
    and "ht_breaker (rt_transport s) = Some cb"
    and "failure_threshold (cb_config cb) \<le> failure_count cb + 1"
  shows "map_option cb_st (ht_breaker (rt_transport (race_run env
    ([Change k reported, Change k reported, Report now_ms n] @ replicate 4 (Change k reported)) s)))
      = Some Open"
  using assms by (simp add: eval_nat_numeral reset_stores_def on_failure_def Let_def)

end
