(* ===== verification/Ffi_Core.thy ===== *)
theory Ffi_Core
  imports Ws_Messages Handle_Registry Utf8
begin

section \<open>What the C interfaces share\<close>

text \<open>
  Models \<^verbatim>\<open>catcher-core/src/ffi_types.rs\<close>, \<^verbatim>\<open>catcher-ffi/src/lib.rs\<close> and the helpers that
  \<^verbatim>\<open>http_ffi.rs\<close>, \<^verbatim>\<open>sse_ffi.rs\<close>, \<^verbatim>\<open>ws_ffi.rs\<close> and \<^verbatim>\<open>quality_ffi.rs\<close> repeat: strings in and out,
  the memory that crosses the boundary, results and callbacks.  A pointer argument is \<open>None\<close> when it is
  null and otherwise what it points to; memory that Rust hands out is an address of a heap that records
  what was allocated there, and an operation on the heap that the allocator does not define is \<open>None\<close>.
\<close>

subsection \<open>Strings and byte slices\<close>

text \<open>The text of \<open>serde_json\<close>, base64, the table of Unicode upper case, and the parser of header maps.\<close>

record ffi_env =
  fe_text :: "json \<Rightarrow> string"
  fe_base64 :: "bytes \<Rightarrow> string"
  fe_upper :: "string \<Rightarrow> string"
  fe_headers :: "string \<Rightarrow> header_map option"

definition nul :: char where
  "nul = CHR 0x00"

definition no_nul :: "string \<Rightarrow> bool" where
  "no_nul s \<longleftrightarrow> nul \<notin> set s"

definition strip_nul :: "string \<Rightarrow> string" where
  "strip_nul s = filter (\<lambda>c. c \<noteq> nul) s"

text \<open>\<open>CString::new(s).unwrap_or_default()\<close>.\<close>

definition cstring_new :: "string \<Rightarrow> string option" where
  "cstring_new s = (if no_nul s then Some s else None)"

definition cstring_or_default :: "string \<Rightarrow> string" where
  "cstring_or_default s = (case cstring_new s of Some t \<Rightarrow> t | None \<Rightarrow> '''')"

text \<open>\<open>FfiString::to_string_lossy\<close>, and \<open>CStr::to_str\<close> with a default.\<close>

definition to_string_lossy :: "string option \<Rightarrow> string \<Rightarrow> string" where
  "to_string_lossy s d =
     (case s of
        None \<Rightarrow> d
      | Some t \<Rightarrow> if t = [] then d else if utf8_valid t then t else d)"

definition cstr_or :: "string \<Rightarrow> string \<Rightarrow> string" where
  "cstr_or d s = (if utf8_valid s then s else d)"

definition read_body_bytes :: "bytes option \<Rightarrow> bytes" where
  "read_body_bytes body = (case body of None \<Rightarrow> [] | Some b \<Rightarrow> b)"

definition parse_headers_json :: "ffi_env \<Rightarrow> string option \<Rightarrow> header_map" where
  "parse_headers_json env s =
     (case s of
        None \<Rightarrow> []
      | Some t \<Rightarrow>
          if \<not> utf8_valid t then []
          else if t = [] then []
          else (case fe_headers env t of Some h \<Rightarrow> h | None \<Rightarrow> []))"

definition error_json :: "string \<Rightarrow> json" where
  "error_json msg = JObj [(''error'', JStr msg)]"

lemma no_nul_strip [simp]: "no_nul (strip_nul s)"
  by (simp add: no_nul_def strip_nul_def)

lemma strip_no_nul [simp]: "no_nul s \<Longrightarrow> strip_nul s = s"
  by (auto simp: no_nul_def strip_nul_def filter_id_conv)

lemma cstring_strip [simp]: "cstring_or_default (strip_nul s) = strip_nul s"
  by (simp add: cstring_or_default_def cstring_new_def)

subsection \<open>Memory that crosses the boundary\<close>

text \<open>An allocation is a C string, with its terminator, or a boxed slice of bytes.\<close>

datatype allocation = CStringAlloc string | BoxedBytes bytes

definition alloc_size :: "allocation \<Rightarrow> nat" where
  "alloc_size a = (case a of CStringAlloc s \<Rightarrow> Suc (length s) | BoxedBytes b \<Rightarrow> length b)"

record ffi_heap =
  fh_cells :: "nat \<rightharpoonup> allocation"
  fh_next :: nat

definition heap_ok :: "ffi_heap \<Rightarrow> bool" where
  "heap_ok h \<longleftrightarrow> 0 < fh_next h \<and> (\<forall>p. fh_cells h p \<noteq> None \<longrightarrow> 0 < p \<and> p < fh_next h)"

text \<open>\<open>into_raw\<close>: an address never handed out before; the address 0 is null.\<close>

definition into_raw :: "allocation \<Rightarrow> ffi_heap \<Rightarrow> nat \<times> ffi_heap" where
  "into_raw a h =
     (fh_next h, h\<lparr>fh_cells := (fh_cells h)(fh_next h \<mapsto> a), fh_next := Suc (fh_next h)\<rparr>)"

text \<open>\<open>CString::from_raw\<close> and \<open>Vec::from_raw_parts\<close>, dropped at once.\<close>

definition free_cstring :: "nat \<Rightarrow> ffi_heap \<Rightarrow> ffi_heap option" where
  "free_cstring p h =
     (case fh_cells h p of
        Some (CStringAlloc _) \<Rightarrow> Some (h\<lparr>fh_cells := (fh_cells h)(p := None)\<rparr>)
      | _ \<Rightarrow> None)"

definition free_vec :: "nat \<Rightarrow> nat \<Rightarrow> ffi_heap \<Rightarrow> ffi_heap option" where
  "free_vec p len h =
     (case fh_cells h p of
        Some a \<Rightarrow> if alloc_size a = len then Some (h\<lparr>fh_cells := (fh_cells h)(p := None)\<rparr>) else None
      | None \<Rightarrow> None)"

subsection \<open>Results\<close>

record ffi_result =
  fr_error_code :: "32 word"
  fr_error_message :: nat
  fr_data :: nat
  fr_data_len :: nat

definition ffi_ok :: "nat \<Rightarrow> nat \<Rightarrow> ffi_result" where
  "ffi_ok p len = \<lparr>fr_error_code = 0, fr_error_message = 0, fr_data = p, fr_data_len = len\<rparr>"

definition ffi_error :: "32 word \<Rightarrow> string \<Rightarrow> ffi_heap \<Rightarrow> ffi_result \<times> ffi_heap" where
  "ffi_error code msg h =
     (case into_raw (CStringAlloc (case cstring_new (strip_nul msg) of
                                     Some t \<Rightarrow> t
                                   | None \<Rightarrow> ''error message contained null bytes'')) h of
        (p, h') \<Rightarrow>
          (\<lparr>fr_error_code = code, fr_error_message = p, fr_data = 0, fr_data_len = 0\<rparr>, h'))"

text \<open>\<open>catcher_free_result\<close>, which drops the result, and \<open>catcher_free_event_data\<close>.\<close>

definition catcher_free_result :: "ffi_result \<Rightarrow> ffi_heap \<Rightarrow> ffi_heap option" where
  "catcher_free_result r h =
     (if fr_error_message r = 0 then Some h else free_cstring (fr_error_message r) h)"

definition catcher_free_event_data :: "nat \<Rightarrow> nat \<Rightarrow> ffi_heap \<Rightarrow> ffi_heap option" where
  "catcher_free_event_data event_type event_data h =
     Option.bind (if event_type = 0 then Some h else free_cstring event_type h)
       (\<lambda>h'. if event_data = 0 then Some h' else free_cstring event_data h')"

definition catcher_free_data :: "nat \<Rightarrow> nat \<Rightarrow> ffi_heap \<Rightarrow> ffi_heap option" where
  "catcher_free_data p len h = (if p = 0 then Some h else free_vec p len h)"

subsection \<open>Callbacks\<close>

text \<open>What a callback is called with: the addresses of two C strings and the length of the second.\<close>

record callback_args =
  ca_event :: nat
  ca_data :: nat
  ca_len :: nat

definition invoke_callback :: "ffi_env \<Rightarrow> string \<Rightarrow> json \<Rightarrow> ffi_heap \<Rightarrow> callback_args \<times> ffi_heap" where
  "invoke_callback env event_name js h =
     (let c_event = cstring_or_default (strip_nul event_name);
          c_json = cstring_or_default (strip_nul (fe_text env js))
      in case into_raw (CStringAlloc c_event) h of (p, h1) \<Rightarrow>
         (case into_raw (CStringAlloc c_json) h1 of (q, h2) \<Rightarrow>
            (\<lparr>ca_event = p, ca_data = q, ca_len = length c_json\<rparr>, h2)))"

lemma into_raw_ok:
  assumes "heap_ok h" and "into_raw a h = (p, h')"
  shows "heap_ok h'" and "0 < p" and "fh_cells h p = None" and "fh_cells h' = (fh_cells h)(p \<mapsto> a)"
  using assms by (auto simp: heap_ok_def into_raw_def less_Suc_eq split: if_splits)

text \<open>An allocation and its release cancel out.\<close>

definition same_cells :: "ffi_heap \<Rightarrow> ffi_heap \<Rightarrow> bool" where
  "same_cells h h' \<longleftrightarrow> fh_cells h' = fh_cells h"

text \<open>
  Every callback hands over exactly two C strings, the event name and the JSON text, free of NUL
  and of the announced length.  \<open>catcher_free_event_data\<close> on what the callback got releases just these
  two and leaves the heap as it was before the callback; doing it twice is a double free.
\<close>

theorem callback_memory:
  assumes "heap_ok h" and "invoke_callback env event_name js h = (a, h')"
  shows "heap_ok h' \<and>
    fh_cells h' (ca_event a) = Some (CStringAlloc (strip_nul event_name)) \<and>
    fh_cells h' (ca_data a) = Some (CStringAlloc (strip_nul (fe_text env js))) \<and>
    ca_len a = length (strip_nul (fe_text env js)) \<and>
    (\<exists>h2. catcher_free_event_data (ca_event a) (ca_data a) h' = Some h2 \<and> same_cells h h2 \<and>
       catcher_free_event_data (ca_event a) (ca_data a) h2 = None)"
proof -
  obtain p h1 where 1: "into_raw (CStringAlloc (strip_nul event_name)) h = (p, h1)" by fastforce
  obtain q where 2: "into_raw (CStringAlloc (strip_nul (fe_text env js))) h1 = (q, h')"
    and a: "a = \<lparr>ca_event = p, ca_data = q, ca_len = length (strip_nul (fe_text env js))\<rparr>"
    using assms(2) 1 by (auto simp: invoke_callback_def Let_def split: prod.splits)
  note i1 = into_raw_ok [OF assms(1) 1]
  note i2 = into_raw_ok [OF i1(1) 2]
  have "p \<noteq> q" using i1(4) i2(3) by auto
  then show ?thesis
    using i1 i2 a
    by (auto simp: catcher_free_event_data_def free_cstring_def same_cells_def fun_eq_iff)
qed

definition plain_ffi_env :: ffi_env where
  "plain_ffi_env = \<lparr>fe_text = (\<lambda>_. [CHR ''1'', CHR 0x00]), fe_base64 = (\<lambda>_. ''''), fe_upper = map ascii_upper,
     fe_headers = (\<lambda>_. None)\<rparr>"

theorem callback_memory_witness:
  "heap_ok (snd (invoke_callback plain_ffi_env ''e'' JNull \<lparr>fh_cells = Map.empty, fh_next = 1\<rparr>))"
proof -
  have "heap_ok \<lparr>fh_cells = Map.empty, fh_next = 1\<rparr>" by (simp add: heap_ok_def)
  from callback_memory [OF this, of plain_ffi_env "''e''" JNull] show ?thesis
    by (metis prod.collapse)
qed

subsection \<open>What a host may expect of destroyed handles\<close>

text \<open>
  What the host observes of the callbacks of its handles; \<open>Destroyed\<close> is the moment at which an
  identifier is marked.  After it the host may free its data: no callback for the handle may begin
  later, and none may still be running.  \<open>watch\<close> runs a monitor over a log.
\<close>

datatype host_event =
    CallBegins u64 string json u64
  | CallEnds u64
  | Destroyed u64

fun watch :: "('m \<Rightarrow> 'e \<Rightarrow> 'm option) \<Rightarrow> 'm \<Rightarrow> 'e list \<Rightarrow> 'm option" where
  "watch f m [] = Some m"
| "watch f m (e # es) = (case f m e of Some m' \<Rightarrow> watch f m' es | None \<Rightarrow> None)"

lemma watch_append:
  "watch f m (xs @ ys) = (case watch f m xs of Some m' \<Rightarrow> watch f m' ys | None \<Rightarrow> None)"
  by (induction xs arbitrary: m) (auto split: option.splits)

text \<open>The monitor of a handle: how many of its callbacks are running, and whether it is destroyed.\<close>

fun gate :: "u64 \<Rightarrow> nat \<times> bool \<Rightarrow> host_event \<Rightarrow> (nat \<times> bool) option" where
  "gate i (n, d) (CallBegins j _ _ _) = (if i = j then if d then None else Some (Suc n, d) else Some (n, d))"
| "gate i (n, d) (CallEnds j) = (if i = j then if n = 0 then None else Some (n - 1, d) else Some (n, d))"
| "gate i (n, d) (Destroyed j) = (if i = j then if n = 0 then Some (n, True) else None else Some (n, d))"

fun begins :: "u64 \<Rightarrow> host_event list \<Rightarrow> nat" where
  "begins i [] = 0"
| "begins i (CallBegins j _ _ _ # es) = (if i = j then 1 else 0) + begins i es"
| "begins i (_ # es) = begins i es"

fun ends :: "u64 \<Rightarrow> host_event list \<Rightarrow> nat" where
  "ends i [] = 0"
| "ends i (CallEnds j # es) = (if i = j then 1 else 0) + ends i es"
| "ends i (_ # es) = ends i es"

lemma gate_counts:
  "watch (gate i) (n, d) es = Some (n', d') \<Longrightarrow> n + begins i es = n' + ends i es"
proof (induction es arbitrary: n d)
  case (Cons e es)
  show ?case using Cons.prems
    by (cases e) (auto split: if_splits option.splits dest: Cons.IH)
qed simp

lemma gate_destroyed: "watch (gate i) (n, True) es = Some v \<Longrightarrow> begins i es = 0"
proof (induction es arbitrary: n)
  case (Cons e es)
  show ?case using Cons.prems
    by (cases e) (auto split: if_splits option.splits dest: Cons.IH)
qed simp

lemma gate_meaning:
  assumes "watch (gate i) (0, False) (xs @ Destroyed i # ys) = Some v"
  shows "begins i xs = ends i xs \<and> begins i ys = 0"
proof -
  from assms obtain n d where x: "watch (gate i) (0, False) xs = Some (n, d)" "n = 0"
    and y: "watch (gate i) (0, True) ys = Some v"
    by (auto simp: watch_append split: option.splits if_splits)
  from gate_counts [OF x(1)] gate_destroyed [OF y] x(2) show ?thesis by simp
qed

text \<open>The callbacks of a handle that begin after its first destroy, and what all its callbacks carry.\<close>

fun late :: "u64 \<Rightarrow> host_event list \<Rightarrow> nat" where
  "late i [] = 0"
| "late i (Destroyed j # es) = (if i = j then begins i es else late i es)"
| "late i (_ # es) = late i es"

fun calls_for :: "u64 \<Rightarrow> host_event list \<Rightarrow> (string \<times> json) list" where
  "calls_for i [] = []"
| "calls_for i (CallBegins j name js ud # es) = (if i = j then [(name, js)] else []) @ calls_for i es"
| "calls_for i (_ # es) = calls_for i es"

lemma begins_append [simp]: "begins i (xs @ ys) = begins i xs + begins i ys"
  by (induction i xs rule: begins.induct) auto

lemma calls_for_append [simp]: "calls_for i (xs @ ys) = calls_for i xs @ calls_for i ys"
  by (induction i xs rule: calls_for.induct) auto

lemma late_append:
  "late i (es @ [CallBegins j name js ud]) = late i es + (if i = j \<and> Destroyed i \<in> set es then 1 else 0)"
  "late i (es @ [CallEnds j]) = late i es"
  "late i (es @ [Destroyed j]) = late i es"
  by (induction i es rule: late.induct) auto

lemma late_split: "begins i ys \<le> late i (xs @ Destroyed i # ys)"
  by (induction i xs rule: late.induct) auto

end
