(* ===== verification/Msgpack_Codec.thy ===== *)
theory Msgpack_Codec
  imports Ffi_Core Client_Builder "HOL-Library.AList"
begin

section \<open>MessagePack and JSON values\<close>

text \<open>
  Models \<^verbatim>\<open>catcher-ws/src/codec.rs\<close>, the functions \<open>catcher_pack\<close>, \<open>catcher_unpack\<close> and
  \<open>catcher_free_data\<close> of \<^verbatim>\<open>catcher-ffi/src/lib.rs\<close> and their counterparts in \<^verbatim>\<open>catcher-uniffi\<close> and
  \<^verbatim>\<open>catcher-napi-ws\<close>.  The values of \<open>rmpv\<close> have the constructors the code matches on; reading and
  writing bytes and text are arguments.  A JSON object is a map: a later key replaces an earlier one.
\<close>

subsection \<open>From MessagePack to JSON\<close>

text \<open>A string that is not UTF-8 is \<open>None\<close>; an integer is within \<open>i64\<close> or \<open>u64\<close>.\<close>

datatype rmpv =
    MNil
  | MBool bool
  | MInt int
  | MF32 f64
  | MF64 f64
  | MString "string option"
  | MBinary bytes
  | MArray "rmpv list"
  | MMap "(rmpv \<times> rmpv) list"
  | MExt int bytes

definition i64_range :: "int \<Rightarrow> bool" where
  "i64_range i \<longleftrightarrow> - (2 ^ 63) \<le> i \<and> i < 2 ^ 63"

definition u64_range :: "int \<Rightarrow> bool" where
  "u64_range i \<longleftrightarrow> 0 \<le> i \<and> i < 2 ^ 64"

text \<open>\<open>json!(f)\<close>: JSON has no infinities and no NaN.\<close>

definition json_float :: "f64 \<Rightarrow> json" where
  "json_float f = (case f of Fin r \<Rightarrow> JFloat f | _ \<Rightarrow> JNull)"

definition json_bytes :: "bytes \<Rightarrow> json" where
  "json_bytes b = JArr (map JWord b)"

definition json_object :: "(string \<times> json) list \<Rightarrow> json" where
  "json_object fs = JObj (fold (\<lambda>(k, v). AList.update k v) fs [])"

definition map_key :: "(rmpv \<Rightarrow> string) \<Rightarrow> rmpv \<Rightarrow> string" where
  "map_key debug k =
     (case k of
        MString (Some s) \<Rightarrow> s
      | MString None \<Rightarrow> ''''
      | other \<Rightarrow> debug other)"

fun rmpv_to_json :: "(rmpv \<Rightarrow> string) \<Rightarrow> rmpv \<Rightarrow> json" where
  "rmpv_to_json debug MNil = JNull"
| "rmpv_to_json debug (MBool b) = JBool b"
| "rmpv_to_json debug (MInt i) =
     (if i64_range i then JNum i else if u64_range i then JNum i else JNull)"
| "rmpv_to_json debug (MF32 f) = json_float f"
| "rmpv_to_json debug (MF64 f) = json_float f"
| "rmpv_to_json debug (MString (Some s)) = JStr s"
| "rmpv_to_json debug (MString None) = JStr ''''"
| "rmpv_to_json debug (MBinary b) = json_bytes b"
| "rmpv_to_json debug (MArray xs) = JArr (map (rmpv_to_json debug) xs)"
| "rmpv_to_json debug (MMap kvs) =
     json_object (map (\<lambda>(k, v). (map_key debug k, rmpv_to_json debug v)) kvs)"
| "rmpv_to_json debug (MExt t b) = json_bytes b"

subsection \<open>The codec and its C interface\<close>

record codec_env =
  ce_json_parse :: "string \<Rightarrow> string + json"
  ce_to_vec :: "json \<Rightarrow> string + bytes"
  ce_read_value :: "bytes \<Rightarrow> string + rmpv"
  ce_debug :: "rmpv \<Rightarrow> string"
  ce_text :: "json \<Rightarrow> string"

definition pack :: "codec_env \<Rightarrow> json \<Rightarrow> catcher_error + bytes" where
  "pack env v = map_err EncodeError (ce_to_vec env v)"

definition unpack_value :: "codec_env \<Rightarrow> bytes \<Rightarrow> catcher_error + json" where
  "unpack_value env d =
     bind_res (map_err DecodeError (ce_read_value env d)) (\<lambda>m. Ok (rmpv_to_json (ce_debug env) m))"

definition catcher_pack :: "codec_env \<Rightarrow> string option \<Rightarrow> ffi_heap \<Rightarrow> ffi_result \<times> ffi_heap" where
  "catcher_pack env json_input h =
     (case json_input of
        None \<Rightarrow> ffi_error 1 ''null input'' h
      | Some s \<Rightarrow>
          if \<not> utf8_valid s then ffi_error 1 ''invalid UTF-8 in input'' h
          else (case ce_json_parse env s of
                  Inl e \<Rightarrow> ffi_error 2 e h
                | Inr v \<Rightarrow>
                    (case pack env v of
                       Inl e \<Rightarrow> ffi_error 3 (display e) h
                     | Inr d \<Rightarrow>
                         (case into_raw (BoxedBytes d) h of (p, h') \<Rightarrow> (ffi_ok p (length d), h')))))"

definition catcher_unpack :: "codec_env \<Rightarrow> bytes option \<Rightarrow> ffi_heap \<Rightarrow> ffi_result \<times> ffi_heap" where
  "catcher_unpack env d h =
     (if read_body_bytes d = [] then ffi_error 1 ''null or empty data'' h
      else (case unpack_value env (read_body_bytes d) of
              Inl e \<Rightarrow> ffi_error 2 (display e) h
            | Inr v \<Rightarrow>
                (let json_str = ce_text env v; alloc_len = length json_str + 1
                 in case into_raw (CStringAlloc (cstring_or_default json_str)) h of
                      (p, h') \<Rightarrow> (ffi_ok p alloc_len, h'))))"

text \<open>The same for the bindings, whose errors are texts.\<close>

datatype uniffi_error = Network string | Config string

definition uniffi_pack :: "codec_env \<Rightarrow> string \<Rightarrow> uniffi_error + bytes" where
  "uniffi_pack env json_input =
     bind_res (map_err (\<lambda>e. Config (''invalid JSON: '' @ e)) (ce_json_parse env json_input)) (\<lambda>v.
     map_err (\<lambda>e. Config (display e)) (pack env v))"

definition uniffi_unpack :: "codec_env \<Rightarrow> bytes \<Rightarrow> uniffi_error + string" where
  "uniffi_unpack env d =
     bind_res (map_err (\<lambda>e. Config (display e)) (unpack_value env d)) (\<lambda>v. Ok (ce_text env v))"

subsection \<open>The round trip\<close>

text \<open>
  How \<open>rmp_serde\<close> writes a JSON value, as the value that \<open>rmpv\<close> reads back; what a JSON value of
  \<open>serde_json\<close> can be.
\<close>

fun msgpack_value :: "json \<Rightarrow> rmpv" where
  "msgpack_value JNull = MNil"
| "msgpack_value (JBool b) = MBool b"
| "msgpack_value (JNum i) = MInt i"
| "msgpack_value (JFloat f) = MF64 f"
| "msgpack_value (JStr s) = MString (Some s)"
| "msgpack_value (JArr xs) = MArray (map msgpack_value xs)"
| "msgpack_value (JObj fs) = MMap (map (\<lambda>(k, v). (MString (Some k), msgpack_value v)) fs)"

fun json_ok :: "json \<Rightarrow> bool" where
  "json_ok (JNum i) = (i64_range i \<or> u64_range i)"
| "json_ok (JFloat f) = (case f of Fin _ \<Rightarrow> True | _ \<Rightarrow> False)"
| "json_ok (JArr xs) = list_all json_ok xs"
| "json_ok (JObj fs) = (distinct (map fst fs) \<and> list_all (\<lambda>(k, v). json_ok v) fs)"
| "json_ok _ = True"

lemma update_fresh: "k \<notin> fst ` set al \<Longrightarrow> AList.update k v al = al @ [(k, v)]"
  by (induction al) auto

lemma object_distinct:
  assumes "distinct (map fst fs)" shows "json_object fs = JObj fs"
proof -
  have "distinct (map fst (acc @ fs)) \<Longrightarrow> fold (\<lambda>(k, v). AList.update k v) fs acc = acc @ fs" for acc
  proof (induction fs arbitrary: acc)
    case (Cons f fs)
    obtain k v where f: "f = (k, v)" by fastforce
    have "AList.update k v acc = acc @ [(k, v)]" using Cons.prems f by (intro update_fresh) auto
    with Cons.IH [of "acc @ [(k, v)]"] Cons.prems f show ?case by simp
  qed simp
  from this [of "[]"] assms show ?thesis by (simp add: json_object_def)
qed

lemma json_through_msgpack: "json_ok v \<Longrightarrow> rmpv_to_json debug (msgpack_value v) = v"
proof (induction v rule: msgpack_value.induct)
  case (6 xs)
  then show ?case by (auto simp: list_all_iff intro: map_idI)
next
  case (7 fs)
  have "map (\<lambda>(k, v). (map_key debug k, rmpv_to_json debug v))
      (map (\<lambda>(k, v). (MString (Some k), msgpack_value v)) fs) = fs"
    using 7 by (auto simp: list_all_iff map_key_def intro!: map_idI)
  with 7 show ?case by (simp only: msgpack_value.simps rmpv_to_json.simps object_distinct json_ok.simps)
qed (auto simp: json_float_def split: f64.splits)

text \<open>
  A JSON value survives the codec: what \<open>catcher_pack\<close> makes of its text is turned back by
  \<open>catcher_unpack\<close> into a text of the same value, given that \<open>rmpv\<close> reads what \<open>rmp_serde\<close> writes.
\<close>

theorem codec_roundtrip:
  assumes "\<forall>v d. ce_to_vec env v = Inr d \<longrightarrow> d \<noteq> [] \<and> ce_read_value env d = Inr (msgpack_value v)"
    and "utf8_valid s" and "ce_json_parse env s = Inr v" and "json_ok v" and "no_nul (ce_text env v)"
    and "catcher_pack env (Some s) h = (r, h1)" and "ce_to_vec env v = Inr d"
  shows "\<exists>r' h2. fh_cells h1 (fr_data r) = Some (BoxedBytes d) \<and>
    catcher_unpack env (Some d) h1 = (r', h2) \<and> fr_error_code r' = 0 \<and>
    fh_cells h2 (fr_data r') = Some (CStringAlloc (ce_text env v))"
proof -
  have d: "fh_cells h1 (fr_data r) = Some (BoxedBytes d)"
    using assms(2,3,6,7) by (auto simp: catcher_pack_def pack_def map_err_def into_raw_def ffi_ok_def)
  from assms(1,7) have l: "d \<noteq> []" "ce_read_value env d = Inr (msgpack_value v)" by auto
  then have "unpack_value env d = Ok v"
    by (simp add: unpack_value_def map_err_def json_through_msgpack [OF assms(4)])
  with l(1) assms(5) d show ?thesis
    by (simp add: catcher_unpack_def read_body_bytes_def Let_def into_raw_def ffi_ok_def
      cstring_or_default_def cstring_new_def)
qed

definition tiny_codec :: codec_env where
  "tiny_codec =
     \<lparr>ce_json_parse = (\<lambda>s. if s = ''[1]'' then Inr (JArr [JNum 1]) else Inl ''expected value''),
      ce_to_vec = (\<lambda>v. if v = JNull then Inr [192] else if v = JArr [JNum 1] then Inr [145, 1]
                       else Inl ''unsupported''),
      ce_read_value = (\<lambda>d. if d = [192] then Inr MNil else if d = [145, 1] then Inr (MArray [MInt 1])
                           else Inl ''marker''),
      ce_debug = (\<lambda>_. ''''), ce_text = (\<lambda>v. if v = JNull then ''null'' else ''[1]'')\<rparr>"

definition empty_heap :: ffi_heap where
  "empty_heap = \<lparr>fh_cells = Map.empty, fh_next = 1\<rparr>"

lemma tiny_codec_law:
  "\<forall>v d. ce_to_vec tiny_codec v = Inr d \<longrightarrow> d \<noteq> [] \<and> ce_read_value tiny_codec d = Inr (msgpack_value v)"
  by (auto simp: tiny_codec_def)

theorem codec_roundtrip_witness:
  "\<exists>r' h2. catcher_unpack tiny_codec (Some [145, 1]) (snd (catcher_pack tiny_codec (Some ''[1]'') empty_heap))
     = (r', h2) \<and> fh_cells h2 (fr_data r') = Some (CStringAlloc ''[1]'')"
proof -
  obtain r h1 where p: "catcher_pack tiny_codec (Some ''[1]'') empty_heap = (r, h1)" by fastforce
  have u: "utf8_valid ''[1]''" by (rule ascii_valid) (simp add: byte_def)
  have v: "ce_json_parse tiny_codec ''[1]'' = Inr (JArr [JNum 1])" "json_ok (JArr [JNum 1])"
    "no_nul (ce_text tiny_codec (JArr [JNum 1]))" "ce_to_vec tiny_codec (JArr [JNum 1]) = Inr [145, 1]"
    "ce_text tiny_codec (JArr [JNum 1]) = ''[1]''"
    by (simp_all add: tiny_codec_def i64_range_def no_nul_def nul_def)
  from codec_roundtrip [OF tiny_codec_law u v(1-3) p v(4)] p v(5) show ?thesis by auto
qed

text \<open>How a call of the codec can end: with an error, or with an allocation and its exact size.\<close>

inductive codec_outcome :: "ffi_heap \<Rightarrow> ffi_result \<times> ffi_heap \<Rightarrow> bool" for h where
  failed: "code \<noteq> 0 \<Longrightarrow> codec_outcome h (ffi_error code msg h)"
| boxed: "into_raw a h = (p, h') \<Longrightarrow> codec_outcome h (ffi_ok p (alloc_size a), h')"

lemma codec_outcomes:
  "codec_outcome h (catcher_pack env s h)"
  "\<forall>v. no_nul (ce_text env v) \<Longrightarrow> codec_outcome h (catcher_unpack env d h)"
proof -
  have box: "into_raw (BoxedBytes b) h = (p, h') \<Longrightarrow> codec_outcome h (ffi_ok p (length b), h')" for b p h'
    using boxed [of "BoxedBytes b"] by (simp add: alloc_size_def)
  have cs: "into_raw (CStringAlloc t) h = (p, h') \<Longrightarrow> codec_outcome h (ffi_ok p (Suc (length t)), h')" for t p h'
    using boxed [of "CStringAlloc t"] by (simp add: alloc_size_def)
  show "codec_outcome h (catcher_pack env s h)"
    by (auto simp: catcher_pack_def intro: failed box split: option.split sum.split prod.split)
  show "codec_outcome h (catcher_unpack env d h)" if "\<forall>v. no_nul (ce_text env v)"
    using that
    by (auto simp: catcher_unpack_def Let_def cstring_or_default_def cstring_new_def intro: failed cs
      split: sum.split prod.split)
qed

text \<open>
  The results of the codec own their data, and only \<open>catcher_free_data\<close> with the reported length
  releases it: on a success it restores the heap, and \<open>catcher_free_result\<close> releases nothing; on an
  error \<open>catcher_free_result\<close> restores the heap.
\<close>

theorem codec_memory:
  assumes "heap_ok h" and "\<forall>v. no_nul (ce_text env v)"
    and "(r, h') = catcher_pack env s h \<or> (r, h') = catcher_unpack env d h"
  shows "(fr_error_code r = 0 \<longrightarrow>
      (\<exists>h2. catcher_free_data (fr_data r) (fr_data_len r) h' = Some h2 \<and> same_cells h h2) \<and>
      catcher_free_result r h' = Some h' \<and> fh_cells h' (fr_data r) \<noteq> None) \<and>
    (fr_error_code r \<noteq> 0 \<longrightarrow>
      (\<exists>h2. catcher_free_result r h' = Some h2 \<and> same_cells h h2))"
proof -
  have err: "(\<exists>h2. catcher_free_result r h' = Some h2 \<and> same_cells h h2) \<and> fr_error_code r = code"
    if "(r, h') = ffi_error code msg h" for code msg
    using that into_raw_ok [OF assms(1)]
    by (fastforce simp: ffi_error_def catcher_free_result_def free_cstring_def same_cells_def fun_eq_iff
      split: prod.splits)
  have ok: "(\<exists>h2. catcher_free_data (fr_data r) (fr_data_len r) h' = Some h2 \<and> same_cells h h2) \<and>
      catcher_free_result r h' = Some h' \<and> fh_cells h' (fr_data r) \<noteq> None \<and> fr_error_code r = 0"
    if "into_raw a h = (p, h')" "r = ffi_ok p (alloc_size a)" for a p
    using that into_raw_ok [OF assms(1) that(1)]
    by (simp add: ffi_ok_def catcher_free_data_def catcher_free_result_def free_vec_def same_cells_def fun_eq_iff)
  have "codec_outcome h (r, h')"
    using assms(3) codec_outcomes(1) [of h env s] codec_outcomes(2) [OF assms(2), of h d] by auto
  then show ?thesis
  proof cases
    case (failed code msg)
    then show ?thesis using err [of code msg] by simp
  next
    case (boxed a p)
    then show ?thesis using ok [of a p] by simp
  qed
qed

theorem codec_memory_witness:
  "\<exists>h2. catcher_free_data (fr_data (fst (catcher_pack tiny_codec (Some ''[1]'') empty_heap))) 2
      (snd (catcher_pack tiny_codec (Some ''[1]'') empty_heap)) = Some h2 \<and> same_cells empty_heap h2"
proof -
  have h: "heap_ok empty_heap" by (simp add: heap_ok_def empty_heap_def)
  have t: "\<forall>v. no_nul (ce_text tiny_codec v)" by (simp add: tiny_codec_def no_nul_def nul_def)
  have u: "utf8_valid ''[1]''" by (rule ascii_valid) (simp add: byte_def)
  obtain r h' where p: "catcher_pack tiny_codec (Some ''[1]'') empty_heap = (r, h')" by fastforce
  moreover have "fr_error_code r = 0" "fr_data_len r = 2"
    using p u by (auto simp: catcher_pack_def pack_def map_err_def tiny_codec_def into_raw_def ffi_ok_def)
  ultimately show ?thesis using codec_memory [OF h t, of r h' "Some ''[1]''" None] by auto
qed

end
