(* ===== verification/Ws_Ffi.thy ===== *)
theory Ws_Ffi
  imports Ffi_Core Ws_Connection
begin

section \<open>The C interface of the WebSocket client\<close>

text \<open>
  Models \<^verbatim>\<open>catcher-ws/src/ffi/ws_ffi.rs\<close>: handles are identifiers of the registry, and each client has
  a task that connects, registers the handle and forwards the events of the connection to the host's
  callback.  Host threads, forwarding tasks and connection tasks interleave; an operation of this theory
  is one atomic step of one of them.  The callback runs with the read lock of the set of destroyed
  identifiers held, so it has a beginning and an end, and whatever takes the write lock waits while one
  is running.  The connection behind a handle is the \<open>ws_manager\<close> of Ws_Connection.
\<close>

subsection \<open>State\<close>

text \<open>Where a forwarding task is; \<open>Calling\<close> has what follows the callback.\<close>

datatype task_phase = Connecting | Connected | Registering | Receiving | Calling bool | Unregistering | Over

record ws_task =
  wt_config :: ws_client_config
  wt_user_data :: u64
  wt_phase :: task_phase
  wt_manager :: "ws_manager option"
  wt_received :: nat

record ws_ffi =
  wf_registry :: "u64 registry"
  wf_cancelled :: "u64 set"
  wf_tasks :: "u64 \<rightharpoonup> ws_task"
  wf_heap :: ffi_heap
  wf_log :: "host_event list"

definition ws_ffi_start :: "ffi_heap \<Rightarrow> ws_ffi" where
  "ws_ffi_start h =
     \<lparr>wf_registry = hr_new, wf_cancelled = {}, wf_tasks = Map.empty, wf_heap = h, wf_log = []\<rparr>"

text \<open>The libraries, with the parser of configurations.\<close>

record 'v wsf_env =
  wse_ffi :: ffi_env
  wse_ws :: "'v ws_env"
  wse_config :: "string \<Rightarrow> ws_client_config option"

definition set_task :: "u64 \<Rightarrow> ws_task \<Rightarrow> ws_ffi \<Rightarrow> ws_ffi" where
  "set_task i t s = s\<lparr>wf_tasks := (wf_tasks s)(i \<mapsto> t)\<rparr>"

definition calling :: "ws_ffi \<Rightarrow> bool" where
  "calling s \<longleftrightarrow> (\<exists>i t b. wf_tasks s i = Some t \<and> wt_phase t = Calling b)"

definition is_ws_cancelled :: "u64 \<Rightarrow> ws_ffi \<Rightarrow> bool" where
  "is_ws_cancelled i s \<longleftrightarrow> i \<in> wf_cancelled s"

text \<open>\<open>mark_ws_cancelled\<close> waits for the write lock: \<open>None\<close> while a callback is running.\<close>

definition mark_ws_cancelled :: "u64 \<Rightarrow> ws_ffi \<Rightarrow> ws_ffi option" where
  "mark_ws_cancelled i s =
     (if calling s then None
      else Some (s\<lparr>wf_cancelled := insert i (wf_cancelled s), wf_log := wf_log s @ [Destroyed i]\<rparr>))"

definition invoke_event_callback :: "'v wsf_env \<Rightarrow> u64 \<Rightarrow> string \<Rightarrow> json \<Rightarrow> u64 \<Rightarrow> ws_ffi \<Rightarrow> ws_ffi" where
  "invoke_event_callback env i name js ud s =
     s\<lparr>wf_heap := snd (invoke_callback (wse_ffi env) name js (wf_heap s)),
       wf_log := wf_log s @ [CallBegins i name js ud]\<rparr>"

text \<open>Up to the call of the host; with the answer whether the handle is still active.\<close>

definition invoke_event_callback_if_active ::
  "'v wsf_env \<Rightarrow> u64 \<Rightarrow> string \<Rightarrow> json \<Rightarrow> u64 \<Rightarrow> ws_ffi \<Rightarrow> bool \<times> ws_ffi" where
  "invoke_event_callback_if_active env i name js ud s =
     (if i \<in> wf_cancelled s then (False, s) else (True, invoke_event_callback env i name js ud s))"

subsection \<open>Creation and the forwarding task\<close>

definition catcher_ws_create :: "'v wsf_env \<Rightarrow> string option \<Rightarrow> u64 \<Rightarrow> ws_ffi \<Rightarrow> u64 \<times> ws_ffi" where
  "catcher_ws_create env config_json ud s =
     (case config_json of
        None \<Rightarrow> (0, s)
      | Some js \<Rightarrow>
          (case wse_config env (cstr_or '''' js) of
             None \<Rightarrow> (0, s)
           | Some config \<Rightarrow>
               if ws_urls config = []
               then (0, let s1 = invoke_event_callback env 0 ''ws_error'' (error_json ''urls cannot be empty'') ud s
                        in s1\<lparr>wf_log := wf_log s1 @ [CallEnds 0]\<rparr>)
               else (case hr_next_id (wf_registry s) of
                       (i, r) \<Rightarrow>
                         (i, set_task i \<lparr>wt_config = config, wt_user_data = ud, wt_phase = Connecting,
                                         wt_manager = None, wt_received = 0\<rparr>
                               (s\<lparr>wf_registry := r\<rparr>)))))"

text \<open>The connection attempt ends; a panic ends the task.\<close>

definition connect_done ::
  "'v wsf_env \<Rightarrow> u64 \<Rightarrow> (nat \<Rightarrow> task_result) \<Rightarrow> nat list \<Rightarrow> ws_ffi \<Rightarrow> ws_ffi" where
  "connect_done env i res order s =
     (case wf_tasks s i of
        Some t \<Rightarrow>
          if wt_phase t = Connecting
          then (case ws_connect (wse_ws env) (wt_config t) res order of
                  Panic \<Rightarrow> set_task i (t\<lparr>wt_phase := Over\<rparr>) s
                | Done (Inr m) \<Rightarrow> set_task i (t\<lparr>wt_phase := Connected, wt_manager := Some m\<rparr>) s
                | Done (Inl e) \<Rightarrow>
                    (case invoke_event_callback_if_active env i ''ws_error'' (error_json (display e))
                            (wt_user_data t) s of
                       (active, s1) \<Rightarrow>
                         set_task i (t\<lparr>wt_phase := (if active then Calling False else Over)\<rparr>) s1))
          else s
      | None \<Rightarrow> s)"

text \<open>\<open>handle.close(1000, "destroy")\<close> and the drop of the handle.\<close>

definition close_and_drop :: "ws_manager \<Rightarrow> ws_manager" where
  "close_and_drop m = (snd (post (CmdClose 1000 ''destroy'') m))\<lparr>wm_open := False\<rparr>"

definition check_cancelled :: "u64 \<Rightarrow> ws_ffi \<Rightarrow> ws_ffi" where
  "check_cancelled i s =
     (case wf_tasks s i of
        Some t \<Rightarrow>
          if wt_phase t = Connected
          then (if is_ws_cancelled i s
                then set_task i (t\<lparr>wt_phase := Over, wt_manager := map_option close_and_drop (wt_manager t)\<rparr>) s
                else set_task i (t\<lparr>wt_phase := Registering\<rparr>) s)
          else s
      | None \<Rightarrow> s)"

definition register_handle :: "u64 \<Rightarrow> ws_ffi \<Rightarrow> ws_ffi" where
  "register_handle i s =
     (case wf_tasks s i of
        Some t \<Rightarrow>
          if wt_phase t = Registering
          then set_task i (t\<lparr>wt_phase := Receiving\<rparr>)
                 (s\<lparr>wf_registry := hr_insert_with_id i i (wf_registry s)\<rparr>)
          else s
      | None \<Rightarrow> s)"

text \<open>\<open>rx.recv()\<close> and the callback; the channel is closed once the connection task has ended.\<close>

definition receive_event :: "'v wsf_env \<Rightarrow> u64 \<Rightarrow> ws_ffi \<Rightarrow> ws_ffi" where
  "receive_event env i s =
     (case wf_tasks s i of
        Some t \<Rightarrow>
          (case (wt_phase t, wt_manager t) of
             (Receiving, Some m) \<Rightarrow>
               if wt_received t < length (wm_events m)
               then (case invoke_event_callback_if_active env i ''ws_event''
                            (to_ffi_json (fe_base64 (wse_ffi env)) (wm_events m ! wt_received t))
                            (wt_user_data t) s of
                       (active, s1) \<Rightarrow>
                         set_task i (t\<lparr>wt_received := Suc (wt_received t),
                                       wt_phase := (if active then Calling True else Unregistering)\<rparr>) s1)
               else if task_ended m then set_task i (t\<lparr>wt_phase := Unregistering\<rparr>) s
               else s
           | _ \<Rightarrow> s)
      | None \<Rightarrow> s)"

text \<open>The host's callback returns.\<close>

definition callback_returns :: "u64 \<Rightarrow> ws_ffi \<Rightarrow> ws_ffi" where
  "callback_returns i s =
     (case wf_tasks s i of
        Some t \<Rightarrow>
          (case wt_phase t of
             Calling b \<Rightarrow>
               set_task i (t\<lparr>wt_phase := (if b then Receiving else Over)\<rparr>)
                 (s\<lparr>wf_log := wf_log s @ [CallEnds i]\<rparr>)
           | _ \<Rightarrow> s)
      | None \<Rightarrow> s)"

text \<open>An operation on the connection of a task.\<close>

definition on_manager :: "u64 \<Rightarrow> (ws_manager \<Rightarrow> ws_manager) \<Rightarrow> ws_ffi \<Rightarrow> ws_ffi" where
  "on_manager i f s =
     (case wf_tasks s i of
        Some t \<Rightarrow> set_task i (t\<lparr>wt_manager := map_option f (wt_manager t)\<rparr>) s
      | None \<Rightarrow> s)"

definition unregister_handle :: "u64 \<Rightarrow> ws_ffi \<Rightarrow> ws_ffi" where
  "unregister_handle i s =
     (case wf_tasks s i of
        Some t \<Rightarrow>
          if wt_phase t = Unregistering
          then (case hr_remove i (wf_registry s) of
                  (found, r) \<Rightarrow>
                    let s1 = set_task i (t\<lparr>wt_phase := Over\<rparr>) (s\<lparr>wf_registry := r\<rparr>)
                    in case found of
                         Some j \<Rightarrow> on_manager j (\<lambda>m. m\<lparr>wm_open := False\<rparr>) s1
                       | None \<Rightarrow> s1)
          else s
      | None \<Rightarrow> s)"

subsection \<open>The calls of the host\<close>

text \<open>A call through the registry; the result is an error when the handle is not found.\<close>

definition ffi_fail :: "32 word \<Rightarrow> string \<Rightarrow> ws_ffi \<Rightarrow> ffi_result \<times> ws_ffi" where
  "ffi_fail code msg s =
     (case ffi_error code msg (wf_heap s) of (r, h) \<Rightarrow> (r, s\<lparr>wf_heap := h\<rparr>))"

definition post_command :: "ws_command \<Rightarrow> u64 \<Rightarrow> ws_ffi \<Rightarrow> (catcher_error + unit) \<times> ws_ffi" where
  "post_command cmd j s =
     (case Option.bind (wf_tasks s j) wt_manager of
        Some m \<Rightarrow> (fst (post cmd m), on_manager j (\<lambda>m. snd (post cmd m)) s)
      | None \<Rightarrow> (Err (WsDisconnected 1006 ''connection closed''), s))"

definition through_registry :: "ws_command \<Rightarrow> u64 \<Rightarrow> ws_ffi \<Rightarrow> ffi_result \<times> ws_ffi" where
  "through_registry cmd i s =
     (case hr_get i (wf_registry s) of
        Some j \<Rightarrow>
          (case post_command cmd j s of
             (Inr _, s1) \<Rightarrow> (ffi_ok 0 0, s1)
           | (Inl e, s1) \<Rightarrow> ffi_fail 1 (display e) s1)
      | None \<Rightarrow> ffi_fail 1 ''handle not found'' s)"

definition catcher_ws_send_text :: "u64 \<Rightarrow> string option \<Rightarrow> ws_ffi \<Rightarrow> ffi_result \<times> ws_ffi" where
  "catcher_ws_send_text i message s =
     (if i = 0 then ffi_fail 1 ''null handle'' s
      else through_registry (CmdText (to_string_lossy message '''')) i s)"

definition catcher_ws_send_binary :: "u64 \<Rightarrow> bytes option \<Rightarrow> ws_ffi \<Rightarrow> ffi_result \<times> ws_ffi" where
  "catcher_ws_send_binary i d s =
     (if i = 0 then ffi_fail 1 ''null handle'' s
      else (case d of
              None \<Rightarrow> ffi_fail 1 ''null data pointer'' s
            | Some b \<Rightarrow> through_registry (CmdBinary b) i s))"

definition catcher_ws_close :: "u64 \<Rightarrow> u16 \<Rightarrow> string option \<Rightarrow> ws_ffi \<Rightarrow> ws_ffi" where
  "catcher_ws_close i code reason s =
     (if i = 0 then s
      else (case hr_get i (wf_registry s) of
              Some j \<Rightarrow> snd (post_command (CmdClose code (to_string_lossy reason ''normal'')) j s)
            | None \<Rightarrow> s))"

definition catcher_ws_network_changed :: "u64 \<Rightarrow> ws_ffi \<Rightarrow> ffi_result \<times> ws_ffi" where
  "catcher_ws_network_changed i s =
     (if i = 0 then ffi_fail 1 ''null handle'' s else through_registry CmdNetworkChanged i s)"

text \<open>\<open>catcher_ws_destroy\<close>: the mark, and what follows it.\<close>

definition destroy_mark :: "u64 \<Rightarrow> ws_ffi \<Rightarrow> ws_ffi option" where
  "destroy_mark i s = (if i = 0 then Some s else mark_ws_cancelled i s)"

definition destroy_release :: "u64 \<Rightarrow> ws_ffi \<Rightarrow> ws_ffi" where
  "destroy_release i s =
     (if i = 0 then s
      else (case hr_remove i (wf_registry s) of
              (Some j, r) \<Rightarrow> on_manager j close_and_drop (s\<lparr>wf_registry := r\<rparr>)
            | (None, r) \<Rightarrow> s\<lparr>wf_registry := r\<rparr>))"

subsection \<open>Runs\<close>

datatype ws_ffi_op =
    CreateWs "string option" u64
  | ConnectDone u64 "nat \<Rightarrow> task_result" "nat list"
  | CheckCancelled u64
  | RegisterHandle u64
  | ReceiveEvent u64
  | CallbackReturns u64
  | UnregisterHandle u64
  | SendText u64 "string option"
  | SendBinary u64 "bytes option"
  | CloseWs u64 u16 "string option"
  | NotifyNetwork u64
  | DestroyMark u64
  | DestroyRelease u64
  | ManagerStep u64 ws_input

text \<open>The connection task's own inputs; what the handle does is not among them.\<close>

fun own_input :: "ws_input \<Rightarrow> bool" where
  "own_input (Post _) = False"
| "own_input DropHandles = False"
| "own_input _ = True"

fun wf_step :: "'v wsf_env \<Rightarrow> ws_ffi_op \<Rightarrow> ws_ffi \<Rightarrow> ws_ffi" where
  "wf_step env (CreateWs config_json ud) s = snd (catcher_ws_create env config_json ud s)"
| "wf_step env (ConnectDone i res order) s = connect_done env i res order s"
| "wf_step env (CheckCancelled i) s = check_cancelled i s"
| "wf_step env (RegisterHandle i) s = register_handle i s"
| "wf_step env (ReceiveEvent i) s = receive_event env i s"
| "wf_step env (CallbackReturns i) s = callback_returns i s"
| "wf_step env (UnregisterHandle i) s = unregister_handle i s"
| "wf_step env (SendText i m) s = snd (catcher_ws_send_text i m s)"
| "wf_step env (SendBinary i d) s = snd (catcher_ws_send_binary i d s)"
| "wf_step env (CloseWs i code reason) s = catcher_ws_close i code reason s"
| "wf_step env (NotifyNetwork i) s = snd (catcher_ws_network_changed i s)"
| "wf_step env (DestroyMark i) s = (case destroy_mark i s of Some s' \<Rightarrow> s' | None \<Rightarrow> s)"
| "wf_step env (DestroyRelease i) s = destroy_release i s"
| "wf_step env (ManagerStep i inp) s =
     (case wf_tasks s i of
        Some t \<Rightarrow>
          if own_input inp
          then on_manager i (ws_step (wse_ws env) (wt_config t) inp) s else s
      | None \<Rightarrow> s)"

definition wf_run :: "'v wsf_env \<Rightarrow> ws_ffi_op list \<Rightarrow> ws_ffi \<Rightarrow> ws_ffi" where
  "wf_run env ops s = fold (wf_step env) ops s"

subsection \<open>Fresh identifiers\<close>

definition fresh_tasks :: "nat \<Rightarrow> ws_ffi \<Rightarrow> bool" where
  "fresh_tasks k s \<longleftrightarrow> reg_room (wf_registry s) k \<and>
     (\<forall>j. hr_next (wf_registry s) \<le> j \<longrightarrow> wf_tasks s j = None)"

lemma fresh_create:
  assumes "fresh_tasks (Suc k) s" and "hr_next_id (wf_registry s) = (i, r)"
  shows "i \<noteq> 0" and "wf_tasks s i = None"
    and "fresh_tasks k (set_task i t (s\<lparr>wf_registry := r\<rparr>))"
  using assms registry.next_fresh [of "wf_registry s" k i r]
  by (auto simp: fresh_tasks_def set_task_def)

lemma fresh_tasks_less: "fresh_tasks (Suc k) s \<Longrightarrow> fresh_tasks k s"
  by (simp add: fresh_tasks_def)

text \<open>Steps other than a creation keep the counter and create no task.\<close>

definition same_ids :: "ws_ffi \<Rightarrow> ws_ffi \<Rightarrow> bool" where
  "same_ids s s' \<longleftrightarrow> hr_next (wf_registry s') = hr_next (wf_registry s) \<and>
     (\<forall>j. wf_tasks s j = None \<longrightarrow> wf_tasks s' j = None)"

lemma same_ids_fresh: "same_ids s s' \<Longrightarrow> fresh_tasks (Suc k) s \<Longrightarrow> fresh_tasks k s'"
  by (simp add: same_ids_def fresh_tasks_def)

lemma same_ids_manager: "same_ids s (on_manager j f s)"
  by (auto simp: same_ids_def on_manager_def set_task_def split: option.splits)

lemma same_ids_trans: "same_ids a b \<Longrightarrow> same_ids b c \<Longrightarrow> same_ids a c"
  by (simp add: same_ids_def)

lemma same_ids_basic:
  "same_ids s (snd (ffi_fail code msg s))" "same_ids s (snd (post_command cmd j s))"
  "same_ids s (snd (invoke_event_callback_if_active env i name js ud s))"
  "wf_tasks s i = Some t0 \<Longrightarrow> same_ids s (set_task i t s)"
  by (auto simp: same_ids_def ffi_fail_def post_command_def invoke_event_callback_if_active_def
    invoke_event_callback_def on_manager_def set_task_def split: option.splits prod.splits)

lemma same_ids_through: "same_ids s (snd (through_registry cmd i s))"
proof -
  have p: "post_command cmd j s = (r, s1) \<Longrightarrow> same_ids s s1" for j r s1
    using same_ids_basic(2) [of s cmd j] by simp
  show ?thesis
    by (auto simp: through_registry_def same_ids_basic p split: option.split prod.split sum.split
      intro: same_ids_trans [OF p same_ids_basic(1)])
qed

lemma same_ids_task:
  "same_ids s (connect_done env i res order s)"
  "same_ids s (check_cancelled i s)" "same_ids s (register_handle i s)"
  "same_ids s (receive_event env i s)" "same_ids s (callback_returns i s)"
  "same_ids s (unregister_handle i s)" "same_ids s (destroy_release i s)"
  by (auto simp: same_ids_def connect_done_def check_cancelled_def register_handle_def receive_event_def
    callback_returns_def unregister_handle_def destroy_release_def set_task_def on_manager_def
    invoke_event_callback_if_active_def invoke_event_callback_def hr_remove_def hr_insert_with_id_def Let_def
    split: option.splits exec.splits sum.splits prod.splits task_phase.splits)

lemma same_ids_step:
  assumes "\<nexists>js ud. op = CreateWs js ud" shows "same_ids s (wf_step env op s)"
proof -
  have r: "same_ids s s" by (simp add: same_ids_def)
  have d: "destroy_mark i s = Some s' \<Longrightarrow> same_ids s s'" for i s'
    by (auto simp: destroy_mark_def mark_ws_cancelled_def same_ids_def split: if_splits)
  show ?thesis
    using assms r d
    by (cases op) (auto simp: same_ids_task same_ids_manager catcher_ws_send_text_def same_ids_basic
      same_ids_through catcher_ws_send_binary_def catcher_ws_close_def catcher_ws_network_changed_def
      split: option.splits)
qed

lemma fresh_step:
  assumes "fresh_tasks (Suc k) s" shows "fresh_tasks k (wf_step env op s)"
proof (cases "\<exists>js ud. op = CreateWs js ud")
  case True
  then obtain js ud where op: "op = CreateWs js ud" by blast
  have e: "fresh_tasks k (s\<lparr>wf_heap := h, wf_log := l\<rparr>)" for h l
    using assms by (simp add: fresh_tasks_def)
  obtain i r where n: "hr_next_id (wf_registry s) = (i, r)" by fastforce
  show ?thesis
    using fresh_tasks_less [OF assms] fresh_create(3) [OF assms n] e
    by (auto simp: op catcher_ws_create_def n Let_def invoke_event_callback_def split: option.splits)
qed (rule same_ids_fresh [OF same_ids_step assms])

subsection \<open>No callback after a destroy\<close>

definition calls_of :: "u64 \<Rightarrow> ws_ffi \<Rightarrow> nat" where
  "calls_of i s =
     (case wf_tasks s i of
        Some t \<Rightarrow> (case wt_phase t of Calling _ \<Rightarrow> 1 | _ \<Rightarrow> 0)
      | None \<Rightarrow> 0)"

definition gated :: "u64 \<Rightarrow> ws_ffi \<Rightarrow> bool" where
  "gated i s \<longleftrightarrow> watch (gate i) (0, False) (wf_log s) = Some (calls_of i s, i \<in> wf_cancelled s)"

definition quiet :: "ws_ffi \<Rightarrow> ws_ffi \<Rightarrow> bool" where
  "quiet s s' \<longleftrightarrow> wf_log s' = wf_log s \<and> wf_cancelled s' = wf_cancelled s \<and> (\<forall>i. calls_of i s' = calls_of i s)"

lemma quiet_gated: "quiet s s' \<Longrightarrow> gated i s \<Longrightarrow> gated i s'"
  by (simp add: quiet_def gated_def)

lemma quiet_trans: "quiet a b \<Longrightarrow> quiet b c \<Longrightarrow> quiet a c"
  by (simp add: quiet_def)

lemma quiet_manager: "quiet s (on_manager j f s)"
  by (auto simp: quiet_def on_manager_def set_task_def calls_of_def split: option.splits)

lemma quiet_basic:
  "quiet s s" "quiet s (snd (ffi_fail code msg s))" "quiet s (snd (post_command cmd j s))"
  "quiet s (s\<lparr>wf_registry := r\<rparr>)"
  by (auto simp: quiet_def ffi_fail_def post_command_def calls_of_def on_manager_def set_task_def
    split: option.splits prod.splits)

lemma quiet_through: "quiet s (snd (through_registry cmd i s))"
proof -
  have p: "post_command cmd j s = (r, s1) \<Longrightarrow> quiet s s1" for j r s1
    using quiet_basic(3) [of s cmd j] by simp
  show ?thesis
    by (auto simp: through_registry_def quiet_basic p split: option.split prod.split sum.split
      intro: quiet_trans [OF p quiet_basic(2)])
qed

lemma quiet_task:
  "quiet s (check_cancelled i s)" "quiet s (register_handle i s)"
  "quiet s (unregister_handle i s)" "quiet s (destroy_release i s)"
  by (auto simp: quiet_def check_cancelled_def register_handle_def unregister_handle_def
    destroy_release_def set_task_def on_manager_def calls_of_def Let_def
    split: option.splits prod.splits)

lemma gated_connect: "gated i s \<Longrightarrow> gated i (connect_done env j res order s)"
  by (auto simp: gated_def connect_done_def invoke_event_callback_if_active_def invoke_event_callback_def
    set_task_def calls_of_def watch_append split: option.splits exec.splits sum.splits)

lemma gated_receive: "gated i s \<Longrightarrow> gated i (receive_event env j s)"
  by (auto simp: gated_def receive_event_def invoke_event_callback_if_active_def invoke_event_callback_def
    set_task_def calls_of_def watch_append split: option.splits task_phase.splits)

lemma gated_returns: "gated i s \<Longrightarrow> gated i (callback_returns j s)"
  by (auto simp: gated_def callback_returns_def set_task_def calls_of_def watch_append
    split: option.splits task_phase.splits)

lemma gated_create:
  assumes "gated i s" and "i \<noteq> 0" and "fresh_tasks (Suc k) s"
  shows "gated i (snd (catcher_ws_create env js ud s))"
proof -
  obtain j r where n: "hr_next_id (wf_registry s) = (j, r)" by fastforce
  show ?thesis
    using assms fresh_create(2) [OF assms(3) n]
    by (auto simp: catcher_ws_create_def n Let_def invoke_event_callback_def gated_def calls_of_def
      set_task_def watch_append split: option.splits)
qed

lemma gated_mark: "gated i s \<Longrightarrow> destroy_mark j s = Some s' \<Longrightarrow> gated i s'"
proof -
  assume g: "gated i s" and d: "destroy_mark j s = Some s'"
  have "\<not> calling s \<Longrightarrow> calls_of i s = 0"
    by (auto simp: calling_def calls_of_def split: option.splits task_phase.splits)
  with g d show ?thesis
    by (auto simp: destroy_mark_def mark_ws_cancelled_def gated_def watch_append calls_of_def
      split: if_splits option.splits)
qed

lemma gated_step:
  assumes "gated i s" and "i \<noteq> 0" and "fresh_tasks (Suc k) s"
  shows "gated i (wf_step env op s)"
  using assms
  by (cases op)
    (auto simp: gated_create gated_connect gated_receive gated_returns catcher_ws_send_text_def
      catcher_ws_send_binary_def catcher_ws_close_def catcher_ws_network_changed_def
      split: option.splits
      intro: gated_mark quiet_gated [OF quiet_task(1)] quiet_gated [OF quiet_task(2)]
        quiet_gated [OF quiet_task(3)] quiet_gated [OF quiet_task(4)] quiet_gated [OF quiet_manager]
        quiet_gated [OF quiet_through] quiet_gated [OF quiet_basic(2)] quiet_gated [OF quiet_basic(3)])

lemma gated_run:
  assumes "gated i s" and "i \<noteq> 0" and "fresh_tasks (length ops) s"
  shows "gated i (wf_run env ops s)"
  using assms
proof (induction ops arbitrary: s)
  case (Cons op ops)
  then show ?case
    using gated_step [of i s "length ops" env op] fresh_step [of "length ops" s env op]
    by (simp add: wf_run_def)
qed (simp add: wf_run_def)

lemma fresh_start: "n < 2 ^ 64 - 1 \<Longrightarrow> fresh_tasks n (ws_ffi_start h)"
  by (simp add: fresh_tasks_def ws_ffi_start_def hr_new_def)

text \<open>
  C23. Destroying a WebSocket handle is a barrier.  Whatever the host threads, the forwarding tasks and
  the connections do, in whatever order: when the mark of \<open>catcher_ws_destroy\<close> is set, every callback
  of the handle that has begun has returned, and none begins afterwards, so that the host may free the
  data of the handle as soon as \<open>catcher_ws_destroy\<close> has returned.
\<close>

theorem ws_destroy_is_a_barrier:
  assumes "length ops < 2 ^ 64 - 1" and "i \<noteq> 0"
    and "wf_log (wf_run env ops (ws_ffi_start h)) = xs @ Destroyed i # ys"
  shows "begins i xs = ends i xs \<and> begins i ys = 0"
proof (rule gate_meaning)
  have "gated i (ws_ffi_start h)" by (simp add: gated_def ws_ffi_start_def calls_of_def)
  from gated_run [OF this assms(2) fresh_start [OF assms(1)], of env]
  show "watch (gate i) (0, False) (xs @ Destroyed i # ys) =
      Some (calls_of i (wf_run env ops (ws_ffi_start h)), i \<in> wf_cancelled (wf_run env ops (ws_ffi_start h)))"
    by (simp add: gated_def assms(3))
qed

definition quiet_wsf_env :: "unit wsf_env" where
  "quiet_wsf_env =
     \<lparr>wse_ffi = plain_ffi_env, wse_ws = copying_env, wse_config = (\<lambda>s. Some (default_ws_client_config\<lparr>ws_urls := [s]\<rparr>))\<rparr>"

subsection \<open>Destroying from inside a callback\<close>

definition in_callback :: "u64 \<Rightarrow> ws_ffi \<Rightarrow> bool" where
  "in_callback i s \<longleftrightarrow> calls_of i s = 1"

lemma in_callback_calling: "in_callback i s \<Longrightarrow> calling s"
  by (auto simp: in_callback_def calls_of_def calling_def split: option.splits task_phase.splits)

lemma quiet_callback: "quiet s s' \<Longrightarrow> in_callback i s \<Longrightarrow> in_callback i s'"
  by (simp add: quiet_def in_callback_def)

lemma in_callback_task:
  "in_callback i s \<Longrightarrow> in_callback i (connect_done env j res order s)"
  "in_callback i s \<Longrightarrow> in_callback i (receive_event env j s)"
  "in_callback i s \<Longrightarrow> j \<noteq> i \<Longrightarrow> in_callback i (callback_returns j s)"
  by (auto simp: in_callback_def calls_of_def connect_done_def receive_event_def callback_returns_def
      invoke_event_callback_if_active_def invoke_event_callback_def set_task_def
      split: option.splits task_phase.splits exec.splits sum.splits if_splits)

lemma in_callback_create:
  assumes "in_callback i s" and "fresh_tasks (Suc k) s"
  shows "in_callback i (snd (catcher_ws_create env js ud s))"
proof -
  obtain j r where n: "hr_next_id (wf_registry s) = (j, r)" by fastforce
  show ?thesis
    using assms fresh_create(2) [OF assms(2) n]
    by (auto simp: catcher_ws_create_def n Let_def invoke_event_callback_def in_callback_def calls_of_def
      set_task_def split: option.splits)
qed

lemma in_callback_step:
  assumes "in_callback i s" and "op \<noteq> CallbackReturns i" and "fresh_tasks (Suc k) s"
  shows "in_callback i (wf_step env op s)"
  using assms in_callback_calling [OF assms(1)]
  by (cases op)
    (auto simp: in_callback_create in_callback_task catcher_ws_send_text_def
      catcher_ws_send_binary_def catcher_ws_close_def catcher_ws_network_changed_def
      destroy_mark_def mark_ws_cancelled_def
      split: option.splits if_splits
      intro: quiet_callback [OF quiet_task(1)] quiet_callback [OF quiet_task(2)]
        quiet_callback [OF quiet_task(3)] quiet_callback [OF quiet_task(4)]
        quiet_callback [OF quiet_manager] quiet_callback [OF quiet_through]
        quiet_callback [OF quiet_basic(2)] quiet_callback [OF quiet_basic(3)])

text \<open>
  C27. While a callback of any handle is running, \<open>catcher_ws_destroy\<close> of any handle waits, whatever
  else happens, until that callback returns: a host that destroys a handle from inside a callback, the
  one just notified for example, waits for itself and never returns.
\<close>

theorem ws_destroy_waits_for_callbacks:
  assumes "in_callback i s" and "j \<noteq> 0" and "CallbackReturns i \<notin> set ops"
    and "fresh_tasks (length ops) s"
  shows "destroy_mark j (wf_run env ops s) = None"
  using assms
proof (induction ops arbitrary: s)
  case Nil
  then show ?case by (simp add: wf_run_def destroy_mark_def mark_ws_cancelled_def in_callback_calling)
next
  case (Cons op ops)
  then show ?case
    using in_callback_step [of i s op "length ops" env] fresh_step [of "length ops" s env op]
    by (auto simp: wf_run_def)
qed

definition busy_state :: ws_ffi where
  "busy_state =
     \<lparr>wf_registry = \<lparr>hr_map = Map.empty, hr_next = 2\<rparr>, wf_cancelled = {},
      wf_tasks = [1 \<mapsto> \<lparr>wt_config = default_ws_client_config, wt_user_data = 0, wt_phase = Calling False,
                      wt_manager = None, wt_received = 0\<rparr>],
      wf_heap = \<lparr>fh_cells = Map.empty, fh_next = 1\<rparr>, wf_log = []\<rparr>"

theorem ws_destroy_waits_for_callbacks_witness:
  "destroy_mark 1 (wf_run quiet_wsf_env [DestroyMark 1, CreateWs None 0, SendText 1 None] busy_state) = None"
proof (rule ws_destroy_waits_for_callbacks [of 1])
  show "fresh_tasks (length [DestroyMark 1, CreateWs None 0, SendText 1 None]) busy_state"
    by (auto simp: fresh_tasks_def busy_state_def word_le_nat_alt)
qed (simp_all add: in_callback_def calls_of_def busy_state_def)

subsection \<open>What a task owns\<close>

lemma open_offline: "wm_open (next_attempt m) = wm_open m" "wm_open (go_offline code reason m) = wm_open m"
  by (auto simp: next_attempt_def go_offline_def emit_def split: option.splits prod.splits)

lemma open_emit [simp]: "wm_open (emit evs m) = wm_open m" "wm_open (write_frames fs m) = wm_open m"
  by (simp_all add: emit_def write_frames_def)

lemma open_drain: "drain_channel m = (n, a, m') \<Longrightarrow> wm_open m' = wm_open m"
  by (rule drain_channel_frame)

lemma open_rebuild: "rebuild_client env config reported m = Done m' \<Longrightarrow> wm_open m' = wm_open m"
  by (auto simp: rebuild_client_def split: exec.splits prod.splits)

lemma open_changed:
  "wm_open (on_network_changed env config reported m) = wm_open m"
  "wm_open (end_backoff env config reported skip m) = wm_open m"
  by (auto simp: on_network_changed_def end_backoff_def Let_def open_rebuild
      dest: open_drain split: prod.splits exec.splits)

lemma open_connected: "wm_open (stream_connected env config url lat sink m) = wm_open m"
  by (auto simp: stream_connected_def Let_def open_offline go_online_def split: prod.splits option.splits)

lemma open_message:
  "wm_open (send_message env config out cmd m) = wm_open m"
  "wm_open (close_connection config out shutdown code reason m) = wm_open m"
  by (auto simp: send_message_def close_connection_def Let_def open_offline
      split: option.splits sum.splits send_status.splits)

lemma open_command: "wm_open (take_command env config out shutdown reported m) = wm_open m"
  by (auto simp: take_command_def online_command_def backoff_command_def open_message open_changed
      split: list.splits ws_command.splits)

lemma open_step: "own_input inp \<Longrightarrow> wm_open (ws_step env config inp m) = wm_open m"
  by (cases inp)
    (auto simp: open_command open_changed open_connected open_offline ping_tick_def incoming_def Let_def
      redial_ends_def dial_ends_def
      split: option.splits prod.splits exec.splits sum.splits ws_frame.splits ws_phase.splits
        tick_outcome.splits)

text \<open>
  What a task holds in each phase: the connection, and its entry in the registry.  Once the entry is
  gone, or was never made, only the task itself keeps the connection open.
\<close>

fun tidy_task :: "u64 \<Rightarrow> task_phase \<Rightarrow> ws_manager option \<Rightarrow> u64 option \<Rightarrow> bool" where
  "tidy_task i Connecting m r \<longleftrightarrow> m = None \<and> r = None"
| "tidy_task i (Calling b) m r \<longleftrightarrow>
     (if b then m \<noteq> None \<and> (r = Some i \<or> r = None \<and> \<not> wm_open (the m)) else m = None \<and> r = None)"
| "tidy_task i Connected m r \<longleftrightarrow> m \<noteq> None \<and> r = None"
| "tidy_task i Registering m r \<longleftrightarrow> m \<noteq> None \<and> r = None"
| "tidy_task i Receiving m r \<longleftrightarrow> m \<noteq> None \<and> (r = Some i \<or> r = None \<and> \<not> wm_open (the m))"
| "tidy_task i Unregistering m r \<longleftrightarrow> m \<noteq> None \<and> (r = Some i \<or> r = None \<and> \<not> wm_open (the m))"
| "tidy_task i Over m r \<longleftrightarrow> r = None \<and> (m \<noteq> None \<longrightarrow> \<not> wm_open (the m))"

definition tidy_at :: "u64 \<Rightarrow> ws_ffi \<Rightarrow> bool" where
  "tidy_at i s \<longleftrightarrow>
     (case wf_tasks s i of
        None \<Rightarrow> hr_get i (wf_registry s) = None
      | Some t \<Rightarrow> tidy_task i (wt_phase t) (wt_manager t) (hr_get i (wf_registry s)))"

definition tidy :: "ws_ffi \<Rightarrow> bool" where
  "tidy s \<longleftrightarrow> (\<forall>i. tidy_at i s)"

lemma tidyD: "tidy s \<Longrightarrow> tidy_at i s"
  by (simp add: tidy_def)

lemma tidy_registry: "tidy s \<Longrightarrow> hr_get i (wf_registry s) = Some j \<Longrightarrow> j = i"
  by (drule tidyD [of s i], cases "wf_tasks s i")
    (auto simp: tidy_at_def elim!: tidy_task.elims split: if_splits)

text \<open>A step that changes one task and its entry only.\<close>

lemma tidy_update:
  assumes "tidy s" and "\<And>j. j \<noteq> i \<Longrightarrow> wf_tasks s' j = wf_tasks s j"
    and "\<And>j. j \<noteq> i \<Longrightarrow> hr_get j (wf_registry s') = hr_get j (wf_registry s)" and "tidy_at i s'"
  shows "tidy s'"
  unfolding tidy_def
proof
  fix j show "tidy_at j s'"
    using assms tidyD [OF assms(1), of j] by (cases "j = i") (auto simp: tidy_at_def split: option.splits)
qed

lemma tidy_same: "tidy s \<Longrightarrow> wf_tasks s' = wf_tasks s \<Longrightarrow> hr_map (wf_registry s') = hr_map (wf_registry s) \<Longrightarrow> tidy s'"
  by (simp add: tidy_def tidy_at_def hr_get_def cong: option.case_cong)

lemma tidy_task_open:
  assumes "tidy_task i p m r" and "\<And>x. wm_open (f x) = wm_open x"
  shows "tidy_task i p (map_option f m) r"
  using assms by (cases m; cases p) (auto split: if_splits)

lemma tidy_manager:
  assumes "tidy s" and "\<And>x. wm_open (f x) = wm_open x" shows "tidy (on_manager j f s)"
proof (rule tidy_update [of s j])
  show "tidy_at j (on_manager j f s)"
    using tidyD [OF assms(1), of j] assms(2)
    by (auto simp: tidy_at_def on_manager_def set_task_def tidy_task_open split: option.splits)
qed (use assms in \<open>auto simp: on_manager_def set_task_def split: option.splits\<close>)

lemma open_post: "wm_open (snd (post cmd m)) = wm_open m"
  by (simp add: post_def)

lemma tidy_through: "tidy s \<Longrightarrow> tidy (snd (through_registry cmd i s))"
proof -
  assume t: "tidy s"
  have p: "tidy (snd (post_command cmd j s))" for j
    using t by (auto simp: post_command_def intro: tidy_manager simp: open_post split: option.split)
  have f: "tidy s1 \<Longrightarrow> tidy (snd (ffi_fail code msg s1))" for s1 code msg
    by (auto simp: ffi_fail_def intro: tidy_same split: prod.split)
  show ?thesis
    using t p f
    by (auto simp: through_registry_def split: option.split prod.split sum.split) (metis snd_conv)+
qed

lemma tidy_close: "tidy s \<Longrightarrow> tidy (catcher_ws_close i code reason s)"
  by (auto simp: catcher_ws_close_def post_command_def intro: tidy_manager simp: open_post
    split: option.splits)

lemma tidy_fail: "tidy s \<Longrightarrow> tidy (snd (ffi_fail code msg s))"
  by (auto simp: ffi_fail_def intro: tidy_same split: prod.split)

lemma tidy_connect: "tidy s \<Longrightarrow> tidy (connect_done env i res order s)"
proof (rule tidy_update [of s i])
  assume "tidy s"
  from tidyD [OF this, of i] show "tidy_at i (connect_done env i res order s)"
    by (auto simp: tidy_at_def connect_done_def set_task_def invoke_event_callback_if_active_def
      invoke_event_callback_def split: option.splits exec.splits sum.splits if_splits)
qed (auto simp: connect_done_def set_task_def invoke_event_callback_if_active_def
      invoke_event_callback_def split: option.splits exec.splits sum.splits)

lemma tidy_local:
  assumes "tidy s"
  shows "tidy (check_cancelled i s)" "tidy (register_handle i s)" "tidy (receive_event env i s)"
    "tidy (callback_returns i s)"
proof -
  note t = tidyD [OF assms, of i]
  show "tidy (check_cancelled i s)"
    by (rule tidy_update [of s i])
      (use assms t in \<open>auto simp: tidy_at_def check_cancelled_def set_task_def close_and_drop_def split: option.splits\<close>)
  show "tidy (register_handle i s)"
    by (rule tidy_update [of s i])
      (use assms t in \<open>auto simp: tidy_at_def register_handle_def set_task_def hr_get_def
        hr_insert_with_id_def split: option.splits\<close>)
  show "tidy (receive_event env i s)"
    by (rule tidy_update [of s i])
      (use assms t in \<open>auto simp: tidy_at_def receive_event_def set_task_def
        invoke_event_callback_if_active_def invoke_event_callback_def
        split: option.splits task_phase.splits if_splits\<close>)
  show "tidy (callback_returns i s)"
    by (rule tidy_update [of s i])
      (use assms t in \<open>auto simp: tidy_at_def callback_returns_def set_task_def
        split: option.splits task_phase.splits if_splits\<close>)
qed

lemma tidy_removed:
  assumes "tidy_at i s" and "hr_remove i (wf_registry s) = (Some i, r)"
    and "\<And>x. \<not> wm_open (f x)"
  shows "tidy_at i (on_manager i f (s\<lparr>wf_registry := r\<rparr>))"
  using assms
  by (auto simp: tidy_at_def on_manager_def set_task_def hr_remove_def hr_get_def
      elim!: tidy_task.elims split: option.splits if_splits)

lemma tidy_release: 
  assumes "tidy s" shows "tidy (destroy_release i s)"
proof (rule tidy_update [of s i])
  obtain r where r: "hr_remove i (wf_registry s) = (hr_get i (wf_registry s), r)"
    by (simp add: hr_remove_def hr_get_def)
  have "hr_get i (wf_registry s) = Some j \<Longrightarrow> j = i" for j by (rule tidy_registry [OF assms])
  with tidyD [OF assms, of i] r tidy_removed [of i s r close_and_drop]
  show "tidy_at i (destroy_release i s)"
    by (cases "hr_get i (wf_registry s)")
      (auto simp: destroy_release_def close_and_drop_def tidy_at_def hr_remove_def hr_get_def split: option.splits)
qed (use assms tidy_registry [OF assms] in
    \<open>auto simp: destroy_release_def on_manager_def set_task_def hr_remove_def hr_get_def split: option.splits\<close>)

lemma tidy_unregister: 
  assumes "tidy s" shows "tidy (unregister_handle i s)"
proof (rule tidy_update [of s i])
  from tidyD [OF assms, of i] show "tidy_at i (unregister_handle i s)"
    by (auto simp: unregister_handle_def tidy_at_def hr_remove_def hr_get_def on_manager_def set_task_def
      Let_def split: option.splits)
qed (use assms tidy_registry [OF assms] in
    \<open>auto simp: unregister_handle_def on_manager_def set_task_def hr_remove_def hr_get_def Let_def
      split: option.splits\<close>)

lemma tidy_create:
  assumes "tidy s" and "fresh_tasks (Suc k) s"
  shows "tidy (snd (catcher_ws_create env js ud s))"
proof -
  obtain i r where n: "hr_next_id (wf_registry s) = (i, r)" by fastforce
  have r: "hr_get j r = hr_get j (wf_registry s)" for j
    by (rule registry.next_get [OF n])
  have "tidy (set_task i \<lparr>wt_config = c, wt_user_data = ud, wt_phase = Connecting, wt_manager = None,
      wt_received = 0\<rparr> (s\<lparr>wf_registry := r\<rparr>))" for c
    using tidyD [OF assms(1), of i] fresh_create(2) [OF assms(2) n]
    by (intro tidy_update [OF assms(1), of i]) (auto simp: set_task_def r tidy_at_def)
  moreover have "tidy (s\<lparr>wf_heap := h, wf_log := l\<rparr>)" for h l
    by (rule tidy_same [OF assms(1)]) simp_all
  ultimately show ?thesis
    using assms(1) by (auto simp: catcher_ws_create_def n Let_def invoke_event_callback_def split: option.splits)
qed

lemma tidy_mark: "tidy s \<Longrightarrow> destroy_mark i s = Some s' \<Longrightarrow> tidy s'"
  by (auto simp: destroy_mark_def mark_ws_cancelled_def split: if_splits intro: tidy_same)

lemma tidy_step:
  assumes "tidy s" and "fresh_tasks (Suc k) s" shows "tidy (wf_step env op s)"
  using assms
  by (cases op)
    (auto simp: tidy_create tidy_connect tidy_local tidy_unregister tidy_release tidy_close tidy_through
      tidy_fail catcher_ws_send_text_def catcher_ws_send_binary_def catcher_ws_network_changed_def
      open_step split: option.split intro: tidy_mark tidy_manager)

lemma tidy_run:
  assumes "tidy s" and "fresh_tasks (length ops) s" shows "tidy (wf_run env ops s)"
  using assms
proof (induction ops arbitrary: s)
  case (Cons op ops)
  then show ?case
    using tidy_step [of s "length ops" env op] fresh_step [of "length ops" s env op]
    by (simp add: wf_run_def)
qed (simp add: wf_run_def)

lemma tidy_start: "tidy (ws_ffi_start h)"
  by (simp add: tidy_def tidy_at_def ws_ffi_start_def hr_get_def hr_new_def)

text \<open>
  C25. No forwarding task leaks its handle: when the task of a handle has ended, by a failed connection,
  a destroyed handle or the end of the connection, the registry has no entry for the handle, nothing
  keeps the channel of its connection open any more, and the calls of the host answer that the handle
  is not found, in every interleaving.
\<close>

theorem ws_ended_task_releases:
  assumes "length ops < 2 ^ 64 - 1" and "s = wf_run env ops (ws_ffi_start h)"
    and "wf_tasks s i = Some t" and "wt_phase t = Over" and "i \<noteq> 0"
  shows "hr_get i (wf_registry s) = None \<and> (\<forall>m. wt_manager t = Some m \<longrightarrow> \<not> wm_open m) \<and>
    catcher_ws_send_text i msg s = ffi_fail 1 ''handle not found'' s \<and> catcher_ws_close i code reason s = s"
proof -
  have "tidy_at i s"
    unfolding assms(2) by (rule tidyD, rule tidy_run [OF tidy_start fresh_start [OF assms(1)]])
  then show ?thesis
    using assms(3-5)
    by (auto simp: tidy_at_def catcher_ws_send_text_def through_registry_def catcher_ws_close_def)
qed

lemma start_id: "hr_next_id hr_new = (1, \<lparr>hr_map = Map.empty, hr_next = 2\<rparr>)"
  by (simp add: hr_next_id_def hr_new_def)

definition created :: "ws_client_config \<Rightarrow> u64 \<Rightarrow> task_phase \<Rightarrow> ws_manager option \<Rightarrow> ws_task" where
  "created config ud p m =
     \<lparr>wt_config = config, wt_user_data = ud, wt_phase = p, wt_manager = m, wt_received = 0\<rparr>"

lemma first_creation:
  assumes "wse_config env (cstr_or '''' js) = Some config" and "ws_urls config \<noteq> []"
  shows "snd (catcher_ws_create env (Some js) ud (ws_ffi_start h)) =
    (ws_ffi_start h)\<lparr>wf_registry := \<lparr>hr_map = Map.empty, hr_next = 2\<rparr>,
       wf_tasks := [1 \<mapsto> created config ud Connecting None]\<rparr>"
  using assms
  by (simp add: catcher_ws_create_def ws_ffi_start_def start_id set_task_def created_def)

lemma plain_connect:
  "ws_connect copying_env (default_ws_client_config\<lparr>ws_urls := [u]\<rparr>) res order =
     bind_exec (connect_one u (res 0))
       (\<lambda>(url, lat). Done (Ok (ws_start (default_ws_client_config\<lparr>ws_urls := [u]\<rparr>) native_ctx url lat)))"
proof -
  have "\<not> needs_reqwest_backend (default_ws_client_config\<lparr>ws_urls := [u]\<rparr>)"
    by (simp add: needs_reqwest_backend_def default_ws_client_config_def default_tls_config_def has_advanced_tls_def)
  moreover have "race_count (default_ws_client_config\<lparr>ws_urls := [u]\<rparr>) = 1"
    by (simp add: default_ws_client_config_def)
  ultimately show ?thesis
    by (simp add: ws_connect_def build_connect_context_def native_ctx_def bind_exec_def copying_env_def)
qed

theorem ws_ended_task_releases_witness:
  "\<exists>s. catcher_ws_send_text 1 (Some ''a'') s = ffi_fail 1 ''handle not found'' s \<and>
     s = wf_run quiet_wsf_env [CreateWs (Some ''ws://a'') 7, ConnectDone 1 (\<lambda>_. TaskPanicked ''p'') []]
       (ws_ffi_start \<lparr>fh_cells = Map.empty, fh_next = 1\<rparr>)"
proof -
  let ?config = "default_ws_client_config\<lparr>ws_urls := [''ws://a'']\<rparr>"
  let ?ops = "[CreateWs (Some ''ws://a'') 7, ConnectDone 1 (\<lambda>_. TaskPanicked ''p'') []]"
  define s where "s = wf_run quiet_wsf_env ?ops (ws_ffi_start \<lparr>fh_cells = Map.empty, fh_next = 1\<rparr>)"
  have p: "ws_connect (wse_ws quiet_wsf_env) ?config (\<lambda>_. TaskPanicked ''p'') [] = Panic"
    using plain_connect [of "''ws://a''" "\<lambda>_. TaskPanicked ''p''" "[]"] by (simp add: quiet_wsf_env_def connect_one_def bind_exec_def)
  have c: "wse_config quiet_wsf_env (cstr_or '''' ''ws://a'') = Some ?config"
    by (simp add: quiet_wsf_env_def cstr_or_def) (code_simp)
  have "s = snd (catcher_ws_create quiet_wsf_env (Some ''ws://a'') 7 (ws_ffi_start \<lparr>fh_cells = Map.empty, fh_next = 1\<rparr>))
     \<lparr>wf_tasks := [1 \<mapsto> created ?config 7 Over None]\<rparr>"
    unfolding s_def wf_run_def
    by (simp add: first_creation [OF c] connect_done_def created_def p set_task_def)
  then have t: "wf_tasks s 1 = Some (created ?config 7 Over None)" by simp
  have "catcher_ws_send_text 1 (Some ''a'') s = ffi_fail 1 ''handle not found'' s"
    using ws_ended_task_releases [OF _ s_def t] by (simp add: created_def)
  with s_def show ?thesis by blast
qed

lemma ws_connect_shape:
  assumes "ws_connect env config res order = Done (Ok m)"
  shows "ws_urls config \<noteq> []" and "wm_phase m = Online" and "wm_open m"
proof -
  show "ws_urls config \<noteq> []" using assms by (auto simp: ws_connect_def)
  with assms obtain ctx url lat where "m = ws_start config ctx url lat"
    by (auto simp: ws_connect_def bind_exec_def split: exec.splits sum.splits if_splits)
  then show "wm_phase m = Online" and "wm_open m"
    by (simp_all add: ws_start_def go_online_def Let_def emit_def)
qed

text \<open>
  A destroy can be lost: when it falls between the task's look at the mark and the registration of
  the handle, the handle is registered after \<open>catcher_ws_destroy\<close> has returned, the connection stays
  open, and calls on the destroyed handle succeed and put their message into the connection's queue.
\<close>

theorem ws_destroy_can_be_lost:
  assumes "wse_config env (cstr_or '''' js) = Some config"
    and "ws_connect (wse_ws env) config res order = Done (Ok m)"
    and "s = wf_run env [CreateWs (Some js) ud, ConnectDone 1 res order, CheckCancelled 1, DestroyMark 1,
      DestroyRelease 1, RegisterHandle 1] (ws_ffi_start h)"
  shows "Destroyed 1 \<in> set (wf_log s) \<and> hr_get 1 (wf_registry s) = Some 1 \<and>
    fst (catcher_ws_send_text 1 msg s) = ffi_ok 0 0 \<and>
    map_option wt_manager (wf_tasks (snd (catcher_ws_send_text 1 msg s)) 1) =
      Some (Some (m\<lparr>wm_queue := wm_queue m @ [CmdText (to_string_lossy msg '''')]\<rparr>))"
proof -
  note c = ws_connect_shape [OF assms(2)]
  have p: "fst (post x m) = Ok ()" "snd (post x m) = m\<lparr>wm_queue := wm_queue m @ [x]\<rparr>" for x
    using c by (simp_all add: post_def task_ended_def)
  have f0: "connect_done env 1 res order (snd (catcher_ws_create env (Some js) ud (ws_ffi_start h))) =
      \<lparr>wf_registry = \<lparr>hr_map = Map.empty, hr_next = 2\<rparr>, wf_cancelled = {},
       wf_tasks = [1 \<mapsto> created config ud Connected (Some m)], wf_heap = h, wf_log = []\<rparr>"
    by (simp add: first_creation [OF assms(1) c(1)] connect_done_def created_def assms(2) set_task_def)
      (simp add: ws_ffi_start_def)
  define st where "st = (\<lambda>p r c l. \<lparr>wf_registry = \<lparr>hr_map = r, hr_next = 2\<rparr>, wf_cancelled = c,
      wf_tasks = [1 \<mapsto> created config ud p (Some m)], wf_heap = h, wf_log = l\<rparr>)"
  have f: "connect_done env 1 res order (snd (catcher_ws_create env (Some js) ud (ws_ffi_start h))) =
      st Connected Map.empty {} []"
    by (simp add: st_def f0)
  have k: "check_cancelled 1 (st Connected Map.empty {} []) = st Registering Map.empty {} []"
    by (simp add: st_def check_cancelled_def is_ws_cancelled_def set_task_def created_def)
  have d: "destroy_mark 1 (st Registering Map.empty {} []) = Some (st Registering Map.empty {1} [Destroyed 1])"
    by (auto simp: st_def destroy_mark_def mark_ws_cancelled_def calling_def created_def split: if_splits)
  have r: "destroy_release 1 (st Registering Map.empty {1} [Destroyed 1]) = st Registering Map.empty {1} [Destroyed 1]"
    by (simp add: st_def destroy_release_def hr_remove_def)
  have g: "register_handle 1 (st Registering Map.empty {1} [Destroyed 1]) = st Receiving [1 \<mapsto> 1] {1} [Destroyed 1]"
    by (simp add: st_def register_handle_def set_task_def created_def hr_insert_with_id_def)
  have "s = st Receiving [1 \<mapsto> 1] {1} [Destroyed 1]"
    unfolding assms(3) wf_run_def by (simp add: f k d r g)
  then show ?thesis
    by (simp add: st_def catcher_ws_send_text_def through_registry_def post_command_def hr_get_def created_def p
      on_manager_def set_task_def)
qed

theorem ws_destroy_can_be_lost_witness:
  "fst (catcher_ws_send_text 1 (Some ''a'') (wf_run quiet_wsf_env [CreateWs (Some ''ws://a'') 7,
     ConnectDone 1 (\<lambda>_. ConnectedIn 5) [], CheckCancelled 1, DestroyMark 1, DestroyRelease 1, RegisterHandle 1]
     (ws_ffi_start \<lparr>fh_cells = Map.empty, fh_next = 1\<rparr>))) = ffi_ok 0 0"
proof -
  let ?config = "default_ws_client_config\<lparr>ws_urls := [''ws://a'']\<rparr>"
  have p: "ws_connect (wse_ws quiet_wsf_env) ?config (\<lambda>_. ConnectedIn 5) [] =
      Done (Ok (ws_start ?config native_ctx ''ws://a'' 5))"
    using plain_connect [of "''ws://a''" "\<lambda>_. ConnectedIn 5" "[]"]
    by (simp add: quiet_wsf_env_def connect_one_def bind_exec_def)
  have c: "wse_config quiet_wsf_env (cstr_or '''' ''ws://a'') = Some ?config"
    by (simp add: quiet_wsf_env_def cstr_or_def) (code_simp)
  show ?thesis
    using ws_destroy_can_be_lost [OF c p refl, of 7 "\<lparr>fh_cells = Map.empty, fh_next = 1\<rparr>" "Some ''a''"] by simp
qed

text \<open>
  A run with a callback: the first mark finds it running and waits, the second one is set after it has
  returned; the message that arrives later is taken from the connection and not told to the host.
\<close>

definition told_run :: "ws_ffi_op list" where
  "told_run = [CreateWs (Some ''ws://a'') 7, ConnectDone 1 (\<lambda>_. ConnectedIn 5) [], CheckCancelled 1,
     RegisterHandle 1, ReceiveEvent 1, DestroyMark 1, CallbackReturns 1, DestroyMark 1,
     ManagerStep 1 (Incoming (Some (TextFrame [120])) 0 SinkHangs), ReceiveEvent 1]"

lemma told_run_log:
  "\<exists>js. wf_log (wf_run quiet_wsf_env told_run (ws_ffi_start h)) =
     [CallBegins 1 ''ws_event'' js 7, CallEnds 1, Destroyed 1] \<and>
   map_option wt_phase (wf_tasks (wf_run quiet_wsf_env told_run (ws_ffi_start h)) 1) = Some Unregistering"
proof -
  let ?config = "default_ws_client_config\<lparr>ws_urls := [''ws://a'']\<rparr>"
  define m where "m = ws_start ?config native_ctx ''ws://a'' 5"
  have p: "ws_connect (wse_ws quiet_wsf_env) ?config (\<lambda>_. ConnectedIn 5) [] = Done (Ok m)"
    using plain_connect [of "''ws://a''" "\<lambda>_. ConnectedIn 5" "[]"]
    by (simp add: m_def quiet_wsf_env_def connect_one_def bind_exec_def)
  have c: "wse_config quiet_wsf_env (cstr_or '''' ''ws://a'') = Some ?config"
    by (simp add: quiet_wsf_env_def cstr_or_def) (code_simp)
  have m: "wm_phase m = Online" "wm_queue m = []" "wm_open m" "wm_hb m = None" "length (wm_events m) = 1"
    by (simp_all add: m_def ws_start_def go_online_def Let_def emit_def default_ws_client_config_def)
  define m' where "m' = ws_step (wse_ws quiet_wsf_env) ?config (Incoming (Some (TextFrame [120])) 0 SinkHangs) m"
  have m': "length (wm_events m') = 2"
    using m by (simp add: m'_def incoming_def data_event_def emit_def)
  define g where "g = (\<lambda>p mm rc cs hp l. \<lparr>wf_registry = \<lparr>hr_map = [1 \<mapsto> 1], hr_next = 2\<rparr>, wf_cancelled = cs,
    wf_tasks = [1 \<mapsto> \<lparr>wt_config = ?config, wt_user_data = 7, wt_phase = p, wt_manager = Some mm, wt_received = rc\<rparr>],
    wf_heap = hp, wf_log = l\<rparr>)"
  note gs = g_def set_task_def
  have s1: "wf_run quiet_wsf_env [CreateWs (Some ''ws://a'') 7, ConnectDone 1 (\<lambda>_. ConnectedIn 5) [],
      CheckCancelled 1, RegisterHandle 1] (ws_ffi_start h) = g Receiving m 0 {} h []"
    using p by (simp add: wf_run_def first_creation [OF c] connect_done_def created_def check_cancelled_def
      is_ws_cancelled_def register_handle_def hr_insert_with_id_def gs)
      (simp add: ws_ffi_start_def)
  obtain js h1 where s2: "receive_event quiet_wsf_env 1 (g Receiving m 0 {} h []) =
      g (Calling True) m 1 {} h1 [CallBegins 1 ''ws_event'' js 7]"
    using m(5) by (simp add: receive_event_def invoke_event_callback_if_active_def invoke_event_callback_def gs)
  have s3: "destroy_mark 1 (g (Calling True) m 1 {} h1 l) = None" for l
    by (auto simp: destroy_mark_def mark_ws_cancelled_def calling_def g_def)
  have s4: "callback_returns 1 (g (Calling True) m 1 {} h1 l) = g Receiving m 1 {} h1 (l @ [CallEnds 1])" for l
    by (simp add: callback_returns_def gs)
  have s5: "destroy_mark 1 (g Receiving m 1 {} h1 l) = Some (g Receiving m 1 {1} h1 (l @ [Destroyed 1]))" for l
    by (auto simp: destroy_mark_def mark_ws_cancelled_def calling_def g_def split: if_splits)
  have s6: "on_manager 1 (ws_step (wse_ws quiet_wsf_env) ?config (Incoming (Some (TextFrame [120])) 0 SinkHangs))
      (g Receiving m 1 {1} h1 l) = g Receiving m' 1 {1} h1 l" for l
    by (simp add: on_manager_def m'_def gs)
  have s7: "receive_event quiet_wsf_env 1 (g Receiving m' 1 {1} h1 l) = g Unregistering m' 2 {1} h1 l" for l
    using m' by (simp add: receive_event_def invoke_event_callback_if_active_def gs numeral_2_eq_2)
  have t: "wf_tasks (g Receiving m 1 {1} h1 l) 1 = Some \<lparr>wt_config = ?config, wt_user_data = 7,
      wt_phase = Receiving, wt_manager = Some m, wt_received = 1\<rparr>" for l
    by (simp add: g_def)
  have "wf_run quiet_wsf_env told_run (ws_ffi_start h) =
      wf_run quiet_wsf_env [ReceiveEvent 1, DestroyMark 1, CallbackReturns 1, DestroyMark 1,
        ManagerStep 1 (Incoming (Some (TextFrame [120])) 0 SinkHangs), ReceiveEvent 1] (g Receiving m 0 {} h [])"
    unfolding s1 [symmetric] by (simp add: told_run_def wf_run_def)
  then have "wf_run quiet_wsf_env told_run (ws_ffi_start h) =
      g Unregistering m' 2 {1} h1 [CallBegins 1 ''ws_event'' js 7, CallEnds 1, Destroyed 1]"
    by (simp add: wf_run_def s2 s3 s4 s5 t s6 s7 del: ws_step.simps One_nat_def)
  then show ?thesis by (simp add: g_def)
qed

theorem ws_destroy_is_a_barrier_witness:
  "\<exists>js. wf_log (wf_run quiet_wsf_env told_run (ws_ffi_start \<lparr>fh_cells = Map.empty, fh_next = 1\<rparr>)) =
      [CallBegins 1 ''ws_event'' js 7, CallEnds 1] @ Destroyed 1 # [] \<and>
    begins 1 [CallBegins 1 ''ws_event'' js 7, CallEnds 1] = 1 \<and>
    ends 1 [CallBegins 1 ''ws_event'' js 7, CallEnds 1] = 1 \<and>
    begins 1 ([] :: host_event list) = 0 \<and>
    map_option wt_phase (wf_tasks (wf_run quiet_wsf_env told_run
      (ws_ffi_start \<lparr>fh_cells = Map.empty, fh_next = 1\<rparr>)) 1) = Some Unregistering"
proof -
  let ?h = "\<lparr>fh_cells = Map.empty, fh_next = 1\<rparr>"
  obtain js where l: "wf_log (wf_run quiet_wsf_env told_run (ws_ffi_start ?h)) =
      [CallBegins 1 ''ws_event'' js 7, CallEnds 1] @ Destroyed 1 # []"
    "map_option wt_phase (wf_tasks (wf_run quiet_wsf_env told_run (ws_ffi_start ?h)) 1) = Some Unregistering"
    using told_run_log [of ?h] by auto
  have "length told_run < 2 ^ 64 - 1" by (simp add: told_run_def)
  from ws_destroy_is_a_barrier [OF this _ l(1)]
  have "begins 1 [CallBegins 1 ''ws_event'' js 7, CallEnds 1] = ends 1 [CallBegins 1 ''ws_event'' js 7, CallEnds 1]
    \<and> begins 1 ([] :: host_event list) = 0" by simp
  moreover have "begins 1 [CallBegins 1 ''ws_event'' js 7, CallEnds 1] = 1" by simp
  ultimately show ?thesis using l by (intro exI [of _ js]) simp
qed

end
