(* ===== verification/Sse_Ffi.thy ===== *)
theory Sse_Ffi
  imports Ffi_Core Sse_Client Http_Request
begin

section \<open>The C interface of the event streams\<close>

text \<open>
  Models \<^verbatim>\<open>catcher-http/src/ffi/sse_ffi.rs\<close>: the one-shot stream, and the persistent client with its
  forwarding task.  Host threads, forwarding tasks and the clients' own loops interleave; an operation
  is one atomic step of one of them.  The client behind a handle is locked by a mutex that the
  forwarding task holds while it waits for the next line; a call of the host that needs it is \<open>None\<close>
  while it would wait.  Unlike the WebSocket interface, the look at the mark and the callback are two
  steps.  What a client's loop does to the client is that of Sse_Client: it sends lines and errors, sets
  the state and the event id, and ends.
\<close>

subsection \<open>Events\<close>

definition build_sse_event_json :: "string \<Rightarrow> string \<Rightarrow> json" where
  "build_sse_event_json event_type d = JObj [(''type'', JStr event_type), (''data'', JStr d)]"

text \<open>What the forwarding loop reports for what it received; \<open>None\<close> is the end.\<close>

definition line_event :: "(catcher_error + string) option \<Rightarrow> json" where
  "line_event r =
     (case r of
        Some (Inr line) \<Rightarrow> build_sse_event_json ''data'' line
      | Some (Inl e) \<Rightarrow> build_sse_event_json ''error'' (display e)
      | None \<Rightarrow> build_sse_event_json ''close'' '''')"

subsection \<open>The one-shot stream\<close>

definition sse_stream_config ::
  "ffi_env \<Rightarrow> string option \<Rightarrow> string option \<Rightarrow> bytes option \<Rightarrow> string option \<Rightarrow> sse_client_config" where
  "sse_stream_config env mth url body headers_json =
     (let b = read_body_bytes body
      in \<lparr>sse_url = to_string_lossy url ''/'',
          sse_method = (if fe_upper env (to_string_lossy mth ''GET'') = ''GET'' then SseGet else SsePost),
          sse_headers = parse_headers_json env headers_json,
          sse_body = (if b = [] then None else Some (from_utf8_lossy (of_bytes b))),
          sse_reconnect = None, sse_timeout_ms = 30000, sse_circuit_breaker = None\<rparr>)"

text \<open>The events after the first, in order; the number bounds the polls.\<close>

fun forward_lines :: "nat \<Rightarrow> sse_stream \<Rightarrow> json list option" where
  "forward_lines 0 s = None"
| "forward_lines (Suc n) s =
     (case poll_next s of
        (Item (Inr line), s') \<Rightarrow> map_option ((#) (line_event (Some (Inr line)))) (forward_lines n s')
      | (Item (Inl e), s') \<Rightarrow> Some [line_event (Some (Inl e))]
      | (PendingPoll, s') \<Rightarrow> forward_lines n s'
      | (EndOfStream, s') \<Rightarrow> Some [line_event None])"

definition catcher_sse_stream ::
  "nat \<Rightarrow> ffi_env \<Rightarrow> u64 \<Rightarrow> string option \<Rightarrow> string option \<Rightarrow> bytes option \<Rightarrow> string option
    \<Rightarrow> (sse_client_config \<Rightarrow> sse_response) \<Rightarrow> json list option" where
  "catcher_sse_stream n env handle mth url body headers_json net =
     (if handle = 0 then Some []
      else
        let config = sse_stream_config env mth url body headers_json
        in case stream_connect config (net config) of
             Inr s \<Rightarrow> map_option ((#) (build_sse_event_json ''open'' '''')) (forward_lines n s)
           | Inl e \<Rightarrow> Some [line_event (Some (Inl e))])"

lemma forward_collected:
  "stream_collect n s = Some (map Ok ls, t) \<Longrightarrow>
     forward_lines n s = Some (map (\<lambda>l. line_event (Some (Ok l))) ls @ [line_event None])"
proof (induction n arbitrary: s ls t)
  case (Suc n)
  obtain r s' where p: "poll_next s = (r, s')" by fastforce
  show ?case
  proof (cases r)
    case (Item x)
    with Suc.prems p obtain xs where c: "stream_collect n s' = Some (xs, t)" and m: "map Ok ls = x # xs" by auto
    then obtain l ls' where l: "ls = l # ls'" "x = Ok l" "xs = map Ok ls'" by (cases ls) auto
    from Suc.IH [OF c [unfolded l(3)]] p Item l show ?thesis by simp
  next
    case PendingPoll
    with Suc p show ?thesis by auto
  next
    case EndOfStream
    with Suc.prems p show ?thesis by simp
  qed
qed simp

text \<open>
  The one-shot stream of the C interface terminates and calls the host exactly with \<open>open\<close>, then
  one \<open>data\<close> per content line of the body in order, then \<open>close\<close>, however the body is cut into chunks;
  a response that is not 200 or a request that fails is one \<open>error\<close> and nothing else.
\<close>

theorem sse_stream_calls:
  assumes "handle \<noteq> 0" and config: "config = sse_stream_config env mth url body headers_json"
  shows "(net config = SseResponse 200 src \<longrightarrow> list_all no_error src \<longrightarrow>
      (\<exists>n. catcher_sse_stream n env handle mth url body headers_json net =
         Some (build_sse_event_json ''open'' '''' #
               map (build_sse_event_json ''data'') (yields (all_lines (source_text src))) @
               [build_sse_event_json ''close'' '''']))) \<and>
    (\<forall>e. stream_connect config (net config) = Err e \<longrightarrow>
      catcher_sse_stream n env handle mth url body headers_json net =
        Some [build_sse_event_json ''error'' (display e)])"
proof (intro conjI impI allI)
  assume net: "net config = SseResponse 200 src" and src: "list_all no_error src"
  obtain s where s: "stream_connect config (SseResponse 200 src) = Ok s"
    and f: "st_pending s = []" "st_source s = src" "to_come s = all_lines (source_text src)"
    by (auto simp: stream_connect_def to_come_def)
  obtain n t where "stream_collect n s = Some (map Ok (yields (to_come s)), t)"
    using stream_collect_spec [of s "Suc (length (yields (to_come s)) + length src)"] src f(1,2) 
    by (auto simp del: stream_collect.simps)
  from forward_collected [OF this] show "\<exists>n. catcher_sse_stream n env handle mth url body headers_json net =
         Some (build_sse_event_json ''open'' '''' #
               map (build_sse_event_json ''data'') (yields (all_lines (source_text src))) @
               [build_sse_event_json ''close'' ''''])"
    using assms(1) s f(3) net
    by (intro exI [of _ n]) (simp add: catcher_sse_stream_def config [symmetric] line_event_def)
qed (use assms(1) in \<open>simp add: catcher_sse_stream_def config [symmetric] line_event_def\<close>)

definition one_line_body :: "body_poll list" where
  "one_line_body = [ReadyChunk ''data: a'']"

theorem sse_stream_calls_witness:
  "catcher_sse_stream 0 plain_ffi_env 1 None None None None (\<lambda>_. SseResponse 404 one_line_body) =
     Some [build_sse_event_json ''error'' (display (HttpError 404 []))]"
  using sse_stream_calls [of 1 "sse_stream_config plain_ffi_env None None None None" plain_ffi_env
    None None None None "\<lambda>_. SseResponse 404 one_line_body" one_line_body 0]
  by (simp add: stream_connect_def)

subsection \<open>The persistent client\<close>

text \<open>Where a forwarding task is: \<open>SseCleared\<close> has looked at the mark and is about to call the host.\<close>

datatype sse_phase =
    SseTop | SseLocking | SseReading | SseTaken "(catcher_error + string) option"
  | SseCleared json bool | SseCalling bool | SseOver

record sse_task =
  sf_user_data :: u64
  sf_phase :: sse_phase
  sf_sent :: "(catcher_error + string) list"
  sf_taken :: nat
  sf_ended :: bool
  sf_ready :: ready_state
  sf_event_id :: string
  sf_closed :: bool

record sse_ffi =
  se_registry :: "u64 registry"
  se_cancelled :: "u64 set"
  se_tasks :: "u64 \<rightharpoonup> sse_task"
  se_heap :: ffi_heap
  se_log :: "host_event list"

definition sse_ffi_start :: "ffi_heap \<Rightarrow> sse_ffi" where
  "sse_ffi_start h =
     \<lparr>se_registry = hr_new, se_cancelled = {}, se_tasks = Map.empty, se_heap = h, se_log = []\<rparr>"

definition is_sse_cancelled :: "u64 \<Rightarrow> sse_ffi \<Rightarrow> bool" where
  "is_sse_cancelled i s \<longleftrightarrow> i \<in> se_cancelled s"

definition mark_sse_cancelled :: "u64 \<Rightarrow> sse_ffi \<Rightarrow> sse_ffi" where
  "mark_sse_cancelled i s =
     s\<lparr>se_cancelled := insert i (se_cancelled s), se_log := se_log s @ [Destroyed i]\<rparr>"

definition invoke_sse_callback :: "ffi_env \<Rightarrow> u64 \<Rightarrow> json \<Rightarrow> u64 \<Rightarrow> sse_ffi \<Rightarrow> sse_ffi" where
  "invoke_sse_callback env i js ud s =
     s\<lparr>se_heap := snd (invoke_callback env ''sse_event'' js (se_heap s)),
       se_log := se_log s @ [CallBegins i ''sse_event'' js ud]\<rparr>"

definition on_task :: "u64 \<Rightarrow> (sse_task \<Rightarrow> sse_task) \<Rightarrow> sse_ffi \<Rightarrow> sse_ffi" where
  "on_task i f s =
     (case se_tasks s i of Some t \<Rightarrow> s\<lparr>se_tasks := (se_tasks s)(i \<mapsto> f t)\<rparr> | None \<Rightarrow> s)"

text \<open>
  \<open>catcher_sse_connect\<close>: \<open>SseClient::connect\<close> spawns the client's loop and always succeeds, so the host
  is told \<open>open\<close> before the client has connected and before it has the handle.
\<close>

definition new_sse_task :: "u64 \<Rightarrow> sse_task" where
  "new_sse_task ud =
     \<lparr>sf_user_data = ud, sf_phase = SseTop, sf_sent = [], sf_taken = 0, sf_ended = False,
      sf_ready = SseConnecting, sf_event_id = [], sf_closed = False\<rparr>"

definition catcher_sse_connect ::
  "ffi_env \<Rightarrow> (string \<Rightarrow> sse_client_config option) \<Rightarrow> string option \<Rightarrow> u64 \<Rightarrow> sse_ffi \<Rightarrow> u64 \<times> sse_ffi" where
  "catcher_sse_connect env parse config_json ud s =
     (case config_json of
        None \<Rightarrow> (0, s)
      | Some js \<Rightarrow>
          (case parse (cstr_or '''' js) of
             None \<Rightarrow> (0, s)
           | Some config \<Rightarrow>
               let s1 = invoke_sse_callback env 0 (build_sse_event_json ''open'' '''') ud s;
                   s2 = s1\<lparr>se_log := se_log s1 @ [CallEnds 0]\<rparr>
               in case hr_next_id (se_registry s2) of
                    (i, r) \<Rightarrow>
                      (i, s2\<lparr>se_registry := hr_insert_with_id i i r,
                             se_tasks := (se_tasks s2)(i \<mapsto> new_sse_task ud)\<rparr>)))"

text \<open>One step of a forwarding task.\<close>

definition forward_step :: "ffi_env \<Rightarrow> u64 \<Rightarrow> sse_ffi \<Rightarrow> sse_ffi" where
  "forward_step env i s =
     (case se_tasks s i of
        None \<Rightarrow> s
      | Some t \<Rightarrow>
          (case sf_phase t of
             SseTop \<Rightarrow> on_task i (sf_phase_update (\<lambda>_. if is_sse_cancelled i s then SseOver else SseLocking)) s
           | SseLocking \<Rightarrow> on_task i (sf_phase_update (\<lambda>_. SseReading)) s
           | SseReading \<Rightarrow>
               if sf_taken t < length (sf_sent t)
               then on_task i (\<lambda>t. t\<lparr>sf_phase := SseTaken (Some (sf_sent t ! sf_taken t)),
                                     sf_taken := Suc (sf_taken t)\<rparr>) s
               else if sf_ended t then on_task i (sf_phase_update (\<lambda>_. SseTaken None)) s
               else s
           | SseTaken r \<Rightarrow>
               on_task i (sf_phase_update (\<lambda>_. if is_sse_cancelled i s then SseOver
                                               else SseCleared (line_event r) (r \<noteq> None))) s
           | SseCleared js again \<Rightarrow>
               on_task i (sf_phase_update (\<lambda>_. SseCalling again))
                 (invoke_sse_callback env i js (sf_user_data t) s)
           | _ \<Rightarrow> s))"

text \<open>The host's callback returns.\<close>

definition sse_callback_returns :: "u64 \<Rightarrow> sse_ffi \<Rightarrow> sse_ffi" where
  "sse_callback_returns i s =
     (case se_tasks s i of
        None \<Rightarrow> s
      | Some t \<Rightarrow>
          (case sf_phase t of
             SseCalling again \<Rightarrow>
               on_task i (sf_phase_update (\<lambda>_. if again then SseTop else SseOver))
                 (s\<lparr>se_log := se_log s @ [CallEnds i]\<rparr>)
           | _ \<Rightarrow> s))"

subsection \<open>The calls of the host\<close>

definition locked :: "u64 \<Rightarrow> sse_ffi \<Rightarrow> bool" where
  "locked i s \<longleftrightarrow> map_option sf_phase (se_tasks s i) = Some SseReading"

fun ready_code :: "ready_state \<Rightarrow> 32 word" where
  "ready_code SseConnecting = 0"
| "ready_code SseOpen = 1"
| "ready_code SseClosed = 2"

definition catcher_sse_ready_state :: "u64 \<Rightarrow> sse_ffi \<Rightarrow> 32 word option" where
  "catcher_sse_ready_state i s =
     (if i = 0 then Some (- 1)
      else (case hr_get i (se_registry s) of
              None \<Rightarrow> Some (- 1)
            | Some j \<Rightarrow>
                if locked j s then None
                else map_option (\<lambda>t. ready_code (sf_ready t)) (se_tasks s j)))"

definition catcher_sse_last_event_id :: "u64 \<Rightarrow> sse_ffi \<Rightarrow> (nat \<times> sse_ffi) option" where
  "catcher_sse_last_event_id i s =
     (if i = 0 then Some (0, s)
      else (case hr_get i (se_registry s) of
              None \<Rightarrow> Some (0, s)
            | Some j \<Rightarrow>
                if locked j s then None
                else map_option
                  (\<lambda>t. case into_raw (CStringAlloc (cstring_or_default (sf_event_id t))) (se_heap s) of
                         (p, h) \<Rightarrow> (p, s\<lparr>se_heap := h\<rparr>))
                  (se_tasks s j)))"

definition close_client :: "sse_task \<Rightarrow> sse_task" where
  "close_client t = t\<lparr>sf_closed := True, sf_ready := SseClosed\<rparr>"

definition catcher_sse_close :: "u64 \<Rightarrow> sse_ffi \<Rightarrow> sse_ffi option" where
  "catcher_sse_close i s =
     (if i = 0 then Some s
      else (case hr_get i (se_registry s) of
              None \<Rightarrow> Some s
            | Some j \<Rightarrow> if locked j s then None else Some (on_task j close_client s)))"

text \<open>\<open>catcher_sse_destroy\<close>: the mark, then the close, which waits for the lock, and the removal.\<close>

definition sse_destroy_mark :: "u64 \<Rightarrow> sse_ffi \<Rightarrow> sse_ffi" where
  "sse_destroy_mark i s = (if i = 0 then s else mark_sse_cancelled i s)"

definition sse_destroy_rest :: "u64 \<Rightarrow> sse_ffi \<Rightarrow> sse_ffi option" where
  "sse_destroy_rest i s =
     (if i = 0 then Some s
      else map_option (\<lambda>s'. s'\<lparr>se_registry := snd (hr_remove i (se_registry s'))\<rparr>) (catcher_sse_close i s))"

subsection \<open>Runs\<close>

datatype sse_ffi_op =
    SseConnect "string option" u64
  | ForwardStep u64
  | SseCallbackReturns u64
  | AskReadyState u64
  | AskEventId u64
  | CloseSse u64
  | SseDestroyMark u64
  | SseDestroyRest u64
  | LoopSends u64 "catcher_error + string"
  | LoopReady u64 ready_state
  | LoopEventId u64 string
  | LoopEnds u64

text \<open>A call that would wait changes nothing; the host's thread is then still in it.\<close>

fun sse_step ::
  "ffi_env \<Rightarrow> (string \<Rightarrow> sse_client_config option) \<Rightarrow> sse_ffi_op \<Rightarrow> sse_ffi \<Rightarrow> sse_ffi" where
  "sse_step env parse (SseConnect js ud) s = snd (catcher_sse_connect env parse js ud s)"
| "sse_step env parse (ForwardStep i) s = forward_step env i s"
| "sse_step env parse (SseCallbackReturns i) s = sse_callback_returns i s"
| "sse_step env parse (AskReadyState i) s = s"
| "sse_step env parse (AskEventId i) s =
     (case catcher_sse_last_event_id i s of Some (_, s') \<Rightarrow> s' | None \<Rightarrow> s)"
| "sse_step env parse (CloseSse i) s = (case catcher_sse_close i s of Some s' \<Rightarrow> s' | None \<Rightarrow> s)"
| "sse_step env parse (SseDestroyMark i) s = sse_destroy_mark i s"
| "sse_step env parse (SseDestroyRest i) s = (case sse_destroy_rest i s of Some s' \<Rightarrow> s' | None \<Rightarrow> s)"
| "sse_step env parse (LoopSends i x) s =
     on_task i (\<lambda>t. if sf_ended t then t else t\<lparr>sf_sent := sf_sent t @ [x]\<rparr>) s"
| "sse_step env parse (LoopReady i r) s = on_task i (sf_ready_update (\<lambda>_. r)) s"
| "sse_step env parse (LoopEventId i x) s = on_task i (sf_event_id_update (\<lambda>_. x)) s"
| "sse_step env parse (LoopEnds i) s = on_task i (sf_ended_update (\<lambda>_. True)) s"

definition sse_run ::
  "ffi_env \<Rightarrow> (string \<Rightarrow> sse_client_config option) \<Rightarrow> sse_ffi_op list \<Rightarrow> sse_ffi \<Rightarrow> sse_ffi" where
  "sse_run env parse ops s = fold (sse_step env parse) ops s"

subsection \<open>At most one callback after a destroy\<close>

lemma on_task_simps [simp]:
  "se_log (on_task i f s) = se_log s" "se_cancelled (on_task i f s) = se_cancelled s"
  "se_registry (on_task i f s) = se_registry s"
  "se_tasks (on_task i f s) j = (if i = j then map_option f (se_tasks s i) else se_tasks s j)"
  by (auto simp: on_task_def split: option.splits)

lemma invoke_sse_simps [simp]:
  "se_tasks (invoke_sse_callback env i js ud s) = se_tasks s"
  "se_cancelled (invoke_sse_callback env i js ud s) = se_cancelled s"
  "se_registry (invoke_sse_callback env i js ud s) = se_registry s"
  "se_log (invoke_sse_callback env i js ud s) = se_log s @ [CallBegins i ''sse_event'' js ud]"
  by (simp_all add: invoke_sse_callback_def)

fun cleared :: "sse_phase \<Rightarrow> nat" where
  "cleared (SseCleared _ _) = 1"
| "cleared _ = 0"

definition cleared_at :: "u64 \<Rightarrow> sse_ffi \<Rightarrow> nat" where
  "cleared_at i s = (case se_tasks s i of Some t \<Rightarrow> cleared (sf_phase t) | None \<Rightarrow> 0)"

definition late_ok :: "u64 \<Rightarrow> sse_ffi \<Rightarrow> bool" where
  "late_ok i s \<longleftrightarrow> (i \<in> se_cancelled s \<longleftrightarrow> Destroyed i \<in> set (se_log s)) \<and>
     late i (se_log s) + cleared_at i s \<le> 1 \<and> (i \<notin> se_cancelled s \<longrightarrow> late i (se_log s) = 0)"

lemma late_forward: "late_ok i s \<Longrightarrow> late_ok i (forward_step env j s)"
  by (cases "se_tasks s j")
    (auto simp: late_ok_def forward_step_def cleared_at_def is_sse_cancelled_def late_append
      split: sse_phase.splits option.splits)

lemma cleared_le: "cleared p \<le> 1"
  by (cases p) auto

text \<open>Steps that neither call the host nor move a forwarding task.\<close>

definition same_view :: "sse_ffi \<Rightarrow> sse_ffi \<Rightarrow> bool" where
  "same_view s s' \<longleftrightarrow> se_log s' = se_log s \<and> se_cancelled s' = se_cancelled s \<and>
     (\<forall>i. map_option sf_phase (se_tasks s' i) = map_option sf_phase (se_tasks s i))"

lemma same_view_refl [simp]: "same_view s s"
  by (simp add: same_view_def)

lemma same_view_task: "(\<And>t. sf_phase (f t) = sf_phase t) \<Longrightarrow> same_view s (on_task i f s)"
  by (simp add: same_view_def option.map_comp o_def)

lemma same_view_close: "catcher_sse_close i s = Some s' \<Longrightarrow> same_view s s'"
  using same_view_task [of close_client s]
  by (auto simp: catcher_sse_close_def close_client_def split: if_splits option.splits)

lemma same_view_host:
  "same_view s (sse_step env parse (AskEventId i) s)" "same_view s (sse_step env parse (CloseSse i) s)"
  "same_view s (sse_step env parse (SseDestroyRest i) s)"
proof -
  have "catcher_sse_last_event_id i s = Some r \<Longrightarrow> same_view s (snd r)" for r
    by (auto simp: catcher_sse_last_event_id_def case_prod_unfold same_view_def split: if_splits option.splits)
  then show "same_view s (sse_step env parse (AskEventId i) s)"
    by (auto split: option.split)
  show "same_view s (sse_step env parse (CloseSse i) s)"
    by (auto split: option.split intro: same_view_close)
  have "same_view s s' \<Longrightarrow> same_view s (s'\<lparr>se_registry := r\<rparr>)" for s' r
    by (simp add: same_view_def)
  then show "same_view s (sse_step env parse (SseDestroyRest i) s)"
    by (auto simp: sse_destroy_rest_def split: option.split intro: same_view_close)
qed

lemma same_view_late: 
  assumes "same_view s s'" and "late_ok i s" shows "late_ok i s'"
proof -
  have "map_option sf_phase (se_tasks s' i) = map_option sf_phase (se_tasks s i)"
    using assms(1) by (simp add: same_view_def)
  then have "cleared_at i s' = cleared_at i s"
    by (auto simp: cleared_at_def split: option.splits)
  with assms show ?thesis by (simp add: late_ok_def same_view_def)
qed

lemma late_step:
  assumes "late_ok i s" and "i \<noteq> 0" shows "late_ok i (sse_step env parse op s)"
proof (cases op)
  case (SseConnect js ud)
  have l: "late i (se_log s @ [CallBegins 0 n j u, CallEnds 0]) = late i (se_log s)" for n j u
    using late_append(1) [of i "se_log s" 0 n j u] late_append(2) [of i "se_log s @ [CallBegins 0 n j u]" 0] assms(2)
    by simp
  show ?thesis
    using assms SseConnect
    by (auto simp: late_ok_def cleared_at_def catcher_sse_connect_def Let_def l new_sse_task_def
        split: option.splits prod.splits)
next
  case (ForwardStep j)
  then show ?thesis using late_forward [OF assms(1)] by simp
next
  case (SseDestroyMark j)
  have "cleared_at i s \<le> 1" using cleared_le by (auto simp: cleared_at_def simp del: One_nat_def split: option.split)
  with assms SseDestroyMark show ?thesis
    by (auto simp: late_ok_def sse_destroy_mark_def mark_sse_cancelled_def late_append cleared_at_def)
next
  case (AskEventId j)
  then show ?thesis using assms(1) same_view_late [OF same_view_host(1)] by simp
next
  case (CloseSse j)
  then show ?thesis using assms(1) same_view_late [OF same_view_host(2)] by simp
next
  case (SseDestroyRest j)
  then show ?thesis using assms(1) same_view_late [OF same_view_host(3)] by simp
qed (use assms in \<open>auto simp: late_ok_def cleared_at_def sse_callback_returns_def late_append
    split: option.splits sse_phase.splits\<close>)

lemma late_run: "late_ok i s \<Longrightarrow> i \<noteq> 0 \<Longrightarrow> late_ok i (sse_run env parse ops s)"
  by (induction ops arbitrary: s) (simp_all add: sse_run_def late_step)

text \<open>
  After an event stream is destroyed at most one more callback of it begins, in every interleaving:
  the one whose forwarding task had looked at the mark before it was set.
\<close>

theorem sse_at_most_one_late_call:
  assumes "i \<noteq> 0" and "se_log (sse_run env parse ops (sse_ffi_start h)) = xs @ Destroyed i # ys"
  shows "begins i ys \<le> 1"
proof -
  have "late_ok i (sse_ffi_start h)" by (simp add: late_ok_def sse_ffi_start_def cleared_at_def)
  from late_run [OF this assms(1), of env parse ops] have "late i (xs @ Destroyed i # ys) \<le> 1"
    by (simp add: late_ok_def assms(2))
  with late_split [of i ys xs] show ?thesis by simp
qed

text \<open>
  The late callback happens: when the destroy falls between the look at the mark and the call, the
  callback begins after \<open>catcher_sse_destroy\<close> has done everything and returned, with the host's data of
  the destroyed handle.
\<close>

theorem sse_callback_after_destroy:
  assumes "parse (cstr_or '''' js) = Some config"
    and "s = sse_run env parse [SseConnect (Some js) ud, LoopSends 1 x, ForwardStep 1, ForwardStep 1,
      ForwardStep 1, ForwardStep 1, SseDestroyMark 1, SseDestroyRest 1] (sse_ffi_start h)"
  shows "hr_get 1 (se_registry s) = None \<and> sse_destroy_rest 1 s = Some s \<and>
    se_log (sse_step env parse (ForwardStep 1) s) =
      [CallBegins 0 ''sse_event'' (build_sse_event_json ''open'' '''') ud, CallEnds 0, Destroyed 1,
       CallBegins 1 ''sse_event'' (line_event (Some x)) ud]"
proof -
  have c: "(hr_next_id (hr_new :: u64 registry)) = (1, \<lparr>hr_map = Map.empty, hr_next = 2\<rparr>)"
    by (simp add: hr_next_id_def hr_new_def)
  define h1 where "h1 = snd (invoke_callback env ''sse_event'' (build_sse_event_json ''open'' '''') h)"
  define st where "st = (\<lambda>p n r k l. \<lparr>se_registry = \<lparr>hr_map = r, hr_next = 2\<rparr>, se_cancelled = k,
      se_tasks = [1 \<mapsto> p (new_sse_task ud)\<lparr>sf_sent := [x], sf_taken := n\<rparr>], se_heap = h1,
      se_log = [CallBegins 0 ''sse_event'' (build_sse_event_json ''open'' '''') ud, CallEnds 0] @ l\<rparr>)"
  define ph :: "sse_phase \<Rightarrow> sse_task \<Rightarrow> sse_task" where "ph = (\<lambda>p. sf_phase_update (\<lambda>_. p))"
  have a: "sse_step env parse (LoopSends 1 x) (sse_step env parse (SseConnect (Some js) ud) (sse_ffi_start h))
      = st (ph SseTop) 0 [1 \<mapsto> 1] {} []"
    by (simp add: assms(1) catcher_sse_connect_def Let_def sse_ffi_start_def invoke_sse_callback_def
      hr_insert_with_id_def c st_def ph_def h1_def on_task_def new_sse_task_def)
  have b: "forward_step env 1 (st (ph SseTop) 0 [1 \<mapsto> 1] {} []) = st (ph SseLocking) 0 [1 \<mapsto> 1] {} []"
    "forward_step env 1 (st (ph SseLocking) 0 [1 \<mapsto> 1] {} []) = st (ph SseReading) 0 [1 \<mapsto> 1] {} []"
    "forward_step env 1 (st (ph SseReading) 0 [1 \<mapsto> 1] {} []) = st (ph (SseTaken (Some x))) 1 [1 \<mapsto> 1] {} []"
    "forward_step env 1 (st (ph (SseTaken (Some x))) 1 [1 \<mapsto> 1] {} []) =
      st (ph (SseCleared (line_event (Some x)) True)) 1 [1 \<mapsto> 1] {} []"
    by (simp_all add: forward_step_def st_def ph_def on_task_def is_sse_cancelled_def new_sse_task_def)
  have d: "sse_destroy_mark 1 (st (ph (SseCleared js' m)) 1 [1 \<mapsto> 1] {} []) =
      st (ph (SseCleared js' m)) 1 [1 \<mapsto> 1] {1} [Destroyed 1]" for js' m
    by (simp add: sse_destroy_mark_def mark_sse_cancelled_def st_def)
  have e: "sse_destroy_rest 1 (st (ph (SseCleared js' m)) 1 [1 \<mapsto> 1] {1} [Destroyed 1]) =
      Some (st (close_client \<circ> ph (SseCleared js' m)) 1 Map.empty {1} [Destroyed 1])" for js' m
    by (simp add: sse_destroy_rest_def catcher_sse_close_def st_def hr_get_def hr_remove_def locked_def
      ph_def on_task_def close_client_def new_sse_task_def)
  have s: "s = st (close_client \<circ> ph (SseCleared (line_event (Some x)) True)) 1 Map.empty {1} [Destroyed 1]"
    unfolding assms(2) sse_run_def by (simp add: a [simplified] b d e del: One_nat_def)
  show ?thesis
    by (simp add: s st_def sse_destroy_rest_def catcher_sse_close_def hr_get_def hr_remove_def forward_step_def
      close_client_def ph_def new_sse_task_def)
qed

definition parse_any :: "string \<Rightarrow> sse_client_config option" where
  "parse_any u = Some (default_sse_client_config\<lparr>sse_url := u\<rparr>)"

theorem sse_callback_after_destroy_witness:
  "\<exists>s. hr_get 1 (se_registry s) = None \<and> sse_destroy_rest 1 s = Some s \<and>
     begins 1 (se_log (sse_step plain_ffi_env parse_any (ForwardStep 1) s)) = 1"
proof -
  define s where "s = sse_run plain_ffi_env parse_any [SseConnect (Some ''u'') 7, LoopSends 1 (Ok ''data: a''),
    ForwardStep 1, ForwardStep 1, ForwardStep 1, ForwardStep 1, SseDestroyMark 1, SseDestroyRest 1]
    (sse_ffi_start \<lparr>fh_cells = Map.empty, fh_next = 1\<rparr>)"
  have p: "parse_any (cstr_or '''' ''u'') = Some (default_sse_client_config\<lparr>sse_url := cstr_or '''' ''u''\<rparr>)"
    by (simp add: parse_any_def)
  note w = sse_callback_after_destroy [OF p s_def]
  have "begins 1 (se_log (sse_step plain_ffi_env parse_any (ForwardStep 1) s)) = 1"
    by (simp only: w) simp
  with w show ?thesis by blast
qed

theorem sse_at_most_one_late_call_witness: "begins 1 ([] :: host_event list) \<le> 1"
  using sse_at_most_one_late_call [of 1 plain_ffi_env parse_any "[SseDestroyMark 1]"
      "\<lparr>fh_cells = Map.empty, fh_next = 1\<rparr>" "[]" "[]"]
  by (simp add: sse_run_def sse_destroy_mark_def mark_sse_cancelled_def sse_ffi_start_def)

subsection \<open>Idle streams block the host\<close>

definition idle :: "sse_task \<Rightarrow> bool" where
  "idle t \<longleftrightarrow> sf_phase t = SseReading \<and> sf_taken t = length (sf_sent t) \<and> \<not> sf_ended t"

definition waiting :: "u64 \<Rightarrow> nat \<Rightarrow> sse_ffi \<Rightarrow> bool" where
  "waiting i k s \<longleftrightarrow> hr_get i (se_registry s) = Some i \<and> (\<exists>t. se_tasks s i = Some t \<and> idle t) \<and>
     reg_room (se_registry s) k \<and> \<not> hr_next (se_registry s) \<le> i"

fun wakes :: "u64 \<Rightarrow> sse_ffi_op \<Rightarrow> bool" where
  "wakes i (LoopSends j _) \<longleftrightarrow> i = j"
| "wakes i (LoopEnds j) \<longleftrightarrow> i = j"
| "wakes i _ \<longleftrightarrow> False"

lemma waiting_locked: "waiting i k s \<Longrightarrow> locked i s"
  by (auto simp: waiting_def locked_def idle_def)

lemma waiting_on_task:
  assumes "waiting i (Suc k) s" and "\<And>t. se_tasks s i = Some t \<Longrightarrow> idle t \<Longrightarrow> i = j \<Longrightarrow> idle (f t)"
  shows "waiting i k (on_task j f s)"
  using assms by (auto simp: waiting_def)

lemma waiting_less: "waiting i (Suc k) s \<Longrightarrow> waiting i k s"
  by (auto simp: waiting_def)

lemma waiting_connect:
  assumes "waiting i (Suc k) s" shows "waiting i k (snd (catcher_sse_connect env parse js ud s))"
proof -
  obtain j r where n: "hr_next_id (se_registry s) = (j, r)" by fastforce
  have "\<not> hr_next r \<le> i \<and> j \<noteq> i \<and> reg_room r k"
    by (rule registry.next_keeps [OF _ n]) (use assms in \<open>auto simp: waiting_def\<close>)
  moreover have "hr_get l (hr_insert_with_id j j r) = (if j = l then Some j else hr_get l (se_registry s))" for l
    using registry.next_get [OF n] registry.put_get [of l j j r] by simp
  moreover have "hr_next (hr_insert_with_id j j r) = hr_next r" by (simp add: hr_insert_with_id_def)
  ultimately show ?thesis
    using assms by (auto simp: catcher_sse_connect_def Let_def n waiting_def split: option.split)
qed

lemma waiting_cong:
  assumes "waiting i (Suc k) s" and "se_registry s' = se_registry s" and "se_tasks s' i = se_tasks s i"
  shows "waiting i k s'"
  using assms by (auto simp: waiting_def)

lemma waiting_forward:
  assumes "waiting i (Suc k) s" shows "waiting i k (forward_step env j s)"
proof (cases "j = i")
  case True
  with assms have "forward_step env j s = s"
    by (auto simp: waiting_def idle_def forward_step_def)
  with waiting_less [OF assms] show ?thesis by simp
next
  case False
  show ?thesis
    by (rule waiting_cong [OF assms])
      (use False in \<open>auto simp: forward_step_def split: option.split sse_phase.split\<close>)
qed

lemma waiting_close:
  assumes "waiting i (Suc k) s" and "catcher_sse_close j s = Some s'"
  shows "se_registry s' = se_registry s \<and> se_tasks s' i = se_tasks s i"
proof -
  have "locked i s" using waiting_locked [OF assms(1)] .
  with assms(2) show ?thesis
    by (auto simp: catcher_sse_close_def split: if_splits option.splits)
qed

lemma waiting_step:
  assumes w: "waiting i (Suc k) s" and "\<not> wakes i op" and "i \<noteq> 0"
  shows "waiting i k (sse_step env parse op s)"
proof (cases op)
  case (SseConnect js ud)
  then show ?thesis using waiting_connect [OF w] by simp
next
  case (ForwardStep j)
  then show ?thesis using waiting_forward [OF w] by simp
next
  case (SseCallbackReturns j)
  have "se_tasks (sse_callback_returns j s) i = se_tasks s i"
    using w by (auto simp: sse_callback_returns_def waiting_def idle_def split: option.split sse_phase.split)
  moreover have "se_registry (sse_callback_returns j s) = se_registry s"
    by (auto simp: sse_callback_returns_def split: option.split sse_phase.split)
  ultimately show ?thesis using waiting_cong [OF w] SseCallbackReturns by simp
next
  case (AskEventId j)
  have "catcher_sse_last_event_id j s = Some (p, s') \<Longrightarrow>
      se_registry s' = se_registry s \<and> se_tasks s' i = se_tasks s i" for p s'
    by (auto simp: catcher_sse_last_event_id_def case_prod_unfold split: if_splits option.splits)
  then show ?thesis using AskEventId w waiting_less [OF w] 
    by (auto split: option.split intro: waiting_cong)
next
  case (CloseSse j)
  then show ?thesis using waiting_close [OF w, of j] waiting_less [OF w] w
    by (auto split: option.split intro: waiting_cong)
next
  case (SseDestroyRest j)
  show ?thesis
  proof (cases "sse_destroy_rest j s")
    case None
    with SseDestroyRest waiting_less [OF w] show ?thesis by simp
  next
    case (Some s')
    have "j \<noteq> i"
      using Some w waiting_locked [OF w] assms(3)
      by (auto simp: sse_destroy_rest_def catcher_sse_close_def waiting_def split: if_splits option.splits)
    then have "hr_get i (se_registry s') = hr_get i (se_registry s) \<and>
        hr_next (se_registry s') = hr_next (se_registry s) \<and> se_tasks s' i = se_tasks s i"
      using Some waiting_close [OF w, of j]
      by (auto simp: sse_destroy_rest_def hr_get_def hr_remove_def split: if_splits option.splits)
    with Some SseDestroyRest w show ?thesis by (auto simp: waiting_def)
  qed
next
  case (LoopSends j x)
  with w assms(2) show ?thesis by (auto intro!: waiting_on_task)
next
  case (LoopEnds j)
  with w assms(2) show ?thesis by (auto intro!: waiting_on_task)
qed (use waiting_less [OF w] in \<open>auto intro!: waiting_on_task [OF w] waiting_cong [OF w]
    simp: idle_def sse_destroy_mark_def mark_sse_cancelled_def\<close>)

text \<open>
  While a forwarding task waits for a line of an idle stream it holds the client's lock, so that
  \<open>catcher_sse_close\<close>, \<open>catcher_sse_ready_state\<close>, \<open>catcher_sse_last_event_id\<close> and the rest of
  \<open>catcher_sse_destroy\<close> wait with it, whatever anybody else does, until the stream itself sends a line
  or ends: a silent stream cannot be closed.
\<close>

theorem sse_idle_stream_blocks_host:
  assumes "waiting i (length ops) s" and "i \<noteq> 0" and "list_all (\<lambda>op. \<not> wakes i op) ops"
  shows "let s' = sse_run env parse ops s
    in catcher_sse_close i s' = None \<and> sse_destroy_rest i s' = None \<and>
       catcher_sse_ready_state i s' = None \<and> catcher_sse_last_event_id i s' = None"
proof -
  have "waiting i 0 (sse_run env parse ops s)"
    using assms
  proof (induction ops arbitrary: s)
    case (Cons op ops)
    then show ?case
      using waiting_step [of i "length ops" s op env parse] by (simp add: sse_run_def)
  qed (simp add: sse_run_def)
  with waiting_locked [OF this] assms(2) show ?thesis
    by (simp add: Let_def catcher_sse_close_def sse_destroy_rest_def catcher_sse_ready_state_def
      catcher_sse_last_event_id_def waiting_def)
qed

definition idle_state :: sse_ffi where
  "idle_state =
     \<lparr>se_registry = \<lparr>hr_map = [1 \<mapsto> 1], hr_next = 2\<rparr>, se_cancelled = {},
      se_tasks = [1 \<mapsto> (new_sse_task 0)\<lparr>sf_phase := SseReading\<rparr>],
      se_heap = \<lparr>fh_cells = Map.empty, fh_next = 1\<rparr>, se_log = []\<rparr>"

theorem sse_idle_stream_blocks_host_witness:
  "catcher_sse_close 1 (sse_run plain_ffi_env parse_any [CloseSse 1, LoopReady 1 SseOpen, SseDestroyMark 1] idle_state) = None"
proof -
  have "waiting 1 (length [CloseSse 1, LoopReady 1 SseOpen, SseDestroyMark 1]) idle_state"
    by (simp add: waiting_def idle_state_def hr_get_def idle_def new_sse_task_def word_le_nat_alt)
  from sse_idle_stream_blocks_host [OF this, of plain_ffi_env parse_any] show ?thesis by (simp add: Let_def)
qed

subsection \<open>Lines reach the host in order\<close>

abbreviation call_of :: "(catcher_error + string) option \<Rightarrow> string \<times> json" where
  "call_of r \<equiv> (''sse_event'', line_event r)"

definition forwarded :: "sse_task \<Rightarrow> nat \<Rightarrow> (string \<times> json) list" where
  "forwarded t n = map (\<lambda>x. call_of (Some x)) (take n (sf_sent t))"

lemma forwarded_before:
  assumes "c @ [x] = forwarded t n" shows "\<exists>n. c = forwarded t n"
proof -
  have "c = take (length c) (c @ [x])" by simp
  also have "\<dots> = forwarded t (min (length c) n)"
    unfolding assms by (simp add: forwarded_def take_map)
  finally show ?thesis ..
qed

text \<open>The callbacks of a handle, given where its forwarding task is.\<close>

fun in_order :: "sse_task \<Rightarrow> sse_phase \<Rightarrow> (string \<times> json) list \<Rightarrow> bool" where
  "in_order t SseTop c \<longleftrightarrow> c = forwarded t (sf_taken t)"
| "in_order t SseLocking c \<longleftrightarrow> c = forwarded t (sf_taken t)"
| "in_order t SseReading c \<longleftrightarrow> c = forwarded t (sf_taken t)"
| "in_order t (SseTaken (Some x)) c \<longleftrightarrow> c @ [call_of (Some x)] = forwarded t (sf_taken t)"
| "in_order t (SseTaken None) c \<longleftrightarrow> c = forwarded t (sf_taken t) \<and> sf_taken t = length (sf_sent t) \<and> sf_ended t"
| "in_order t (SseCleared js True) c \<longleftrightarrow> c @ [(''sse_event'', js)] = forwarded t (sf_taken t)"
| "in_order t (SseCleared js False) c \<longleftrightarrow>
     c = forwarded t (sf_taken t) \<and> js = line_event None \<and> sf_taken t = length (sf_sent t) \<and> sf_ended t"
| "in_order t (SseCalling True) c \<longleftrightarrow> c = forwarded t (sf_taken t)"
| "in_order t (SseCalling False) c \<longleftrightarrow>
     c = forwarded t (length (sf_sent t)) @ [call_of None] \<and> sf_ended t"
| "in_order t SseOver c \<longleftrightarrow>
     (\<exists>n. c = forwarded t n) \<or> c = forwarded t (length (sf_sent t)) @ [call_of None] \<and> sf_ended t"

definition ordered :: "u64 \<Rightarrow> sse_ffi \<Rightarrow> bool" where
  "ordered i s \<longleftrightarrow>
     (case se_tasks s i of
        None \<Rightarrow> calls_for i (se_log s) = []
      | Some t \<Rightarrow> sf_taken t \<le> length (sf_sent t) \<and> in_order t (sf_phase t) (calls_for i (se_log s)))"

text \<open>What the client's loop does to a task keeps the order.\<close>

definition loop_change :: "(sse_task \<Rightarrow> sse_task) \<Rightarrow> bool" where
  "loop_change f \<longleftrightarrow> (\<forall>t. sf_phase (f t) = sf_phase t \<and> sf_taken (f t) = sf_taken t \<and>
     (sf_ended t \<longrightarrow> sf_ended (f t) \<and> sf_sent (f t) = sf_sent t) \<and> (\<exists>xs. sf_sent (f t) = sf_sent t @ xs))"

lemma in_order_loop:
  assumes "loop_change f" and "sf_taken t \<le> length (sf_sent t)" and "in_order t p c"
  shows "in_order (f t) p c"
proof -
  from assms(1) obtain xs where f: "sf_taken (f t) = sf_taken t" "sf_sent (f t) = sf_sent t @ xs"
    "sf_ended t \<Longrightarrow> sf_ended (f t) \<and> xs = []"
    unfolding loop_change_def by (metis append_self_conv)
  have n: "n \<le> length (sf_sent t) \<Longrightarrow> forwarded (f t) n = forwarded t n" for n
    by (simp add: forwarded_def f(2))
  have m: "forwarded t n = forwarded t (min n (length (sf_sent t)))" for n
    by (simp add: forwarded_def min_def)
  have "forwarded (f t) (min n (length (sf_sent t))) = forwarded t n" for n
    using n [of "min n (length (sf_sent t))"] m [of n] by simp
  then have o: "\<exists>k. forwarded t n = forwarded (f t) k" for n by metis
  from assms(2,3) f n o show ?thesis
    by (cases rule: in_order.cases [of "(t, p, c)"]) auto
qed

lemma ordered_loop:
  assumes "ordered i s" and "loop_change f" shows "ordered i (on_task j f s)"
proof (cases "i = j \<and> se_tasks s i \<noteq> None")
  case True
  then obtain t where t: "se_tasks s i = Some t" by auto
  with assms(1) have o: "sf_taken t \<le> length (sf_sent t)" "in_order t (sf_phase t) (calls_for i (se_log s))"
    by (auto simp: ordered_def)
  have l: "sf_phase (f t) = sf_phase t" "sf_taken (f t) = sf_taken t" "\<exists>xs. sf_sent (f t) = sf_sent t @ xs"
    using assms(2) by (auto simp: loop_change_def)
  then have "sf_taken (f t) \<le> length (sf_sent (f t))" using o(1) by auto
  with in_order_loop [OF assms(2) o] t True l show ?thesis by (simp add: ordered_def)
qed (use assms(1) in \<open>auto simp: ordered_def split: option.splits\<close>)

lemma ordered_cong:
  assumes "ordered i s" and "calls_for i (se_log s') = calls_for i (se_log s)" and "se_tasks s' i = se_tasks s i"
  shows "ordered i s'"
  using assms by (simp add: ordered_def cong: option.case_cong)

lemma ordered_close:
  assumes "ordered i s" and "catcher_sse_close j s = Some s'" shows "ordered i s'"
proof -
  have "loop_change close_client" by (simp add: loop_change_def close_client_def)
  with assms ordered_loop [OF assms(1)] show ?thesis
    by (auto simp: catcher_sse_close_def split: if_splits option.splits)
qed

lemma ordered_forward:
  assumes "ordered i s" shows "ordered i (forward_step env j s)"
proof (cases "i = j")
  case False
  show ?thesis
    by (rule ordered_cong [OF assms])
      (use False in \<open>auto simp: forward_step_def split: option.split sse_phase.split\<close>)
next
  case True
  show ?thesis
  proof (cases "se_tasks s i")
    case None
    then show ?thesis using assms True by (simp add: forward_step_def)
  next
    case (Some t)
    with assms have o: "sf_taken t \<le> length (sf_sent t)" "in_order t (sf_phase t) (calls_for i (se_log s))"
      by (auto simp: ordered_def)
    have k: "forwarded (t\<lparr>sf_phase := p, sf_taken := m\<rparr>) n = forwarded t n"
      "forwarded (t\<lparr>sf_phase := p\<rparr>) n = forwarded t n"
      "forwarded (sf_phase_update q t) n = forwarded t n" for p q m n
      by (simp_all add: forwarded_def)
    have suc: "m < length (sf_sent t) \<Longrightarrow> forwarded t (Suc m) = forwarded t m @ [call_of (Some (sf_sent t ! m))]" for m
      by (simp add: forwarded_def take_Suc_conv_app_nth)
    show ?thesis
    proof (cases "sf_phase t")
      case (SseTaken r)
      then show ?thesis using o Some True forwarded_before
        by (cases r) (auto simp: forward_step_def ordered_def k)
    next
      case (SseCleared js m)
      then show ?thesis using o Some True
        by (cases m) (auto simp: forward_step_def ordered_def k)
    qed (use o Some True suc in \<open>auto simp: forward_step_def ordered_def k\<close>)
  qed
qed

lemma ordered_returns:
  assumes "ordered i s" shows "ordered i (sse_callback_returns j s)"
proof (cases "i = j")
  case False
  show ?thesis
    by (rule ordered_cong [OF assms])
      (use False in \<open>auto simp: sse_callback_returns_def split: option.split sse_phase.split\<close>)
next
  case True
  have k: "forwarded (sf_phase_update q t) n = forwarded t n" for q t n
    by (simp add: forwarded_def)
  show ?thesis
  proof (cases "se_tasks s i")
    case (Some t)
    then show ?thesis
    proof (cases "sf_phase t")
      case (SseCalling m)
      with assms Some True show ?thesis
        by (cases m) (auto simp: sse_callback_returns_def ordered_def k)
    qed (use assms True in \<open>simp_all add: sse_callback_returns_def\<close>)
  qed (use assms True in \<open>simp add: sse_callback_returns_def\<close>)
qed

definition fresh_streams :: "nat \<Rightarrow> sse_ffi \<Rightarrow> bool" where
  "fresh_streams k s \<longleftrightarrow> reg_room (se_registry s) k \<and>
     (\<forall>j. hr_next (se_registry s) \<le> j \<longrightarrow> se_tasks s j = None)"

definition keeps_ids :: "sse_ffi \<Rightarrow> sse_ffi \<Rightarrow> bool" where
  "keeps_ids s s' \<longleftrightarrow> hr_next (se_registry s') = hr_next (se_registry s) \<and>
     (\<forall>j. se_tasks s j = None \<longrightarrow> se_tasks s' j = None)"

lemma keeps_ids_fresh: "keeps_ids s s' \<Longrightarrow> fresh_streams (Suc k) s \<Longrightarrow> fresh_streams k s'"
  by (simp add: keeps_ids_def fresh_streams_def)

lemma connect_new_id:
  assumes "fresh_streams (Suc k) s" and "hr_next_id (se_registry s) = (j, r)"
  shows "j \<noteq> 0" and "se_tasks s j = None" and "reg_room (hr_insert_with_id j v r) k"
    and "hr_next r \<le> l \<Longrightarrow> se_tasks s l = None \<and> l \<noteq> j"
  using assms registry.next_fresh [of "se_registry s" k j r]
  by (auto simp: fresh_streams_def hr_insert_with_id_def)

lemma keeps_ids_step:
  assumes "\<nexists>js ud. op = SseConnect js ud" shows "keeps_ids s (sse_step env parse op s)"
proof (cases op)
  case (ForwardStep j)
  then show ?thesis
    by (auto simp: keeps_ids_def forward_step_def split: option.split sse_phase.split)
next
  case (SseCallbackReturns j)
  then show ?thesis
    by (auto simp: keeps_ids_def sse_callback_returns_def split: option.split sse_phase.split)
next
  case (AskEventId j)
  then show ?thesis
    by (auto simp: keeps_ids_def catcher_sse_last_event_id_def case_prod_unfold split: option.split)
next
  case (CloseSse j)
  then show ?thesis by (auto simp: keeps_ids_def catcher_sse_close_def split: option.split)
next
  case (SseDestroyRest j)
  then show ?thesis
    by (auto simp: keeps_ids_def sse_destroy_rest_def catcher_sse_close_def hr_remove_def split: option.split)
qed (use assms in \<open>auto simp: keeps_ids_def sse_destroy_mark_def mark_sse_cancelled_def\<close>)

lemma connect_shape:
  obtains "snd (catcher_sse_connect env parse config_json ud s) = s"
  | h j r where "hr_next_id (se_registry s) = (j, r)"
    "snd (catcher_sse_connect env parse config_json ud s) = s\<lparr>se_heap := h, se_registry := hr_insert_with_id j j r,
       se_tasks := (se_tasks s)(j \<mapsto> new_sse_task ud),
       se_log := se_log s @ [CallBegins 0 ''sse_event'' (build_sse_event_json ''open'' '''') ud, CallEnds 0]\<rparr>"
proof -
  obtain j r where n: "hr_next_id (se_registry s) = (j, r)" by fastforce
  show ?thesis
  proof (cases "\<exists>c. config_json = Some c \<and> parse (cstr_or '''' c) \<noteq> None")
    case True
    then show ?thesis
      using that(2) [OF n, of "snd (invoke_callback env ''sse_event'' (build_sse_event_json ''open'' '''') (se_heap s))"]
      by (auto simp: catcher_sse_connect_def Let_def invoke_sse_callback_def n)
  next
    case False
    then show ?thesis using that(1)
      by (cases config_json) (auto simp: catcher_sse_connect_def)
  qed
qed

lemma fresh_streams_step:
  assumes "fresh_streams (Suc k) s" shows "fresh_streams k (sse_step env parse op s)"
proof (cases "\<exists>js ud. op = SseConnect js ud")
  case True
  then obtain js ud where op: "op = SseConnect js ud" by blast
  show ?thesis
  proof (cases rule: connect_shape [of env parse js ud s])
    case 1
    then show ?thesis using assms by (simp add: op fresh_streams_def)
  next
    case (2 h j r)
    have "hr_next (hr_insert_with_id j v r) = hr_next r" for v by (simp add: hr_insert_with_id_def)
    with 2 connect_new_id [OF assms 2(1)] show ?thesis by (simp add: op fresh_streams_def)
  qed
qed (rule keeps_ids_fresh [OF keeps_ids_step assms])

lemma ordered_step:
  assumes "ordered i s" and "i \<noteq> 0" and "fresh_streams (Suc k) s"
  shows "ordered i (sse_step env parse op s)"
proof (cases op)
  case (SseConnect js ud)
  show ?thesis
  proof (cases rule: connect_shape [of env parse js ud s])
    case (2 h j r)
    have "ordered j s \<Longrightarrow> calls_for j (se_log s) = []"
      using connect_new_id(2) [OF assms(3) 2(1)] by (simp add: ordered_def)
    moreover have "i \<noteq> j \<Longrightarrow> ordered i (snd (catcher_sse_connect env parse js ud s))"
      by (rule ordered_cong [OF assms(1)]) (use assms(2) in \<open>simp_all add: 2(2)\<close>)
    ultimately show ?thesis using 2(2) assms(1,2) SseConnect
      by (cases "i = j") (simp_all add: ordered_def new_sse_task_def forwarded_def)
  qed (use assms SseConnect in simp)
next
  case (AskEventId j)
  have "catcher_sse_last_event_id j s = Some (p, s') \<Longrightarrow> ordered i s'" for p s'
    using assms(1) by (auto simp: catcher_sse_last_event_id_def case_prod_unfold
      split: if_splits option.splits intro: ordered_cong)
  with AskEventId assms(1) show ?thesis by (auto split: option.split)
next
  case (CloseSse j)
  with assms(1) ordered_close show ?thesis by (auto split: option.split)
next
  case (SseDestroyRest j)
  have "ordered i s' \<Longrightarrow> ordered i (s'\<lparr>se_registry := r\<rparr>)" for s' r
    by (rule ordered_cong) simp_all
  with SseDestroyRest assms(1) ordered_close [OF assms(1)] show ?thesis
    by (auto simp: sse_destroy_rest_def split: option.split)
next
  case (SseDestroyMark j)
  with assms(1) show ?thesis
    by (auto simp: sse_destroy_mark_def mark_sse_cancelled_def intro: ordered_cong)
qed (use assms ordered_forward ordered_returns in \<open>auto intro!: ordered_loop [OF assms(1)] simp: loop_change_def\<close>)

lemma ordered_run:
  assumes "ordered i s" and "i \<noteq> 0" and "fresh_streams (length ops) s"
  shows "ordered i (sse_run env parse ops s)"
  using assms
proof (induction ops arbitrary: s)
  case (Cons op ops)
  then show ?case
    using ordered_step [of i s "length ops" env parse op] fresh_streams_step [of "length ops" s env parse op]
    by (simp add: sse_run_def)
qed (simp add: sse_run_def)

lemma in_order_shape:
  assumes "in_order t p c"
  shows "\<exists>n. c = forwarded t n \<or> c = forwarded t (length (sf_sent t)) @ [call_of None] \<and> sf_ended t"
  using assms forwarded_before [of c _ t]
  by (cases rule: in_order.cases [of "(t, p, c)"]) auto

text \<open>
  C24. What the host's callback is told of a persistent stream is, in every interleaving, a prefix of what
  the client's loop sent, in order and without gaps or repetitions, each content line as \<open>data\<close> and each
  failure as \<open>error\<close>, and \<open>close\<close> only after everything was reported and the loop has ended.
\<close>

theorem sse_lines_in_order:
  assumes "length ops < 2 ^ 64 - 1" and "i \<noteq> 0" and "s = sse_run env parse ops (sse_ffi_start h)"
    and "se_tasks s i = Some t"
  shows "(\<exists>n. calls_for i (se_log s) = map (\<lambda>x. (''sse_event'', line_event (Some x))) (take n (sf_sent t))) \<or>
    calls_for i (se_log s) =
      map (\<lambda>x. (''sse_event'', line_event (Some x))) (sf_sent t) @ [(''sse_event'', line_event None)] \<and> sf_ended t"
proof -
  have "ordered i (sse_ffi_start h)" by (simp add: ordered_def sse_ffi_start_def)
  moreover have "fresh_streams (length ops) (sse_ffi_start h)"
    using assms(1) by (simp add: fresh_streams_def sse_ffi_start_def hr_new_def)
  ultimately have "ordered i s" unfolding assms(3) using assms(2) by (intro ordered_run)
  then have "in_order t (sf_phase t) (calls_for i (se_log s))" using assms(4) by (simp add: ordered_def)
  from in_order_shape [OF this] show ?thesis by (auto simp: forwarded_def)
qed

theorem sse_lines_in_order_witness:
  "\<exists>s t. se_tasks s 1 = Some t \<and>
     (\<exists>n. calls_for 1 (se_log s) = map (\<lambda>x. (''sse_event'', line_event (Some x))) (take n [Ok ''data: a'', Ok ''data: b''])) \<and>
     s = sse_run plain_ffi_env parse_any [SseConnect (Some ''u'') 7, LoopSends 1 (Ok ''data: a''),
           LoopSends 1 (Ok ''data: b'')] (sse_ffi_start \<lparr>fh_cells = Map.empty, fh_next = 1\<rparr>)"
proof -
  let ?ops = "[SseConnect (Some ''u'') 7, LoopSends 1 (Ok ''data: a''), LoopSends 1 (Ok ''data: b'')]"
  define s where "s = sse_run plain_ffi_env parse_any ?ops (sse_ffi_start \<lparr>fh_cells = Map.empty, fh_next = 1\<rparr>)"
  define t where "t = (new_sse_task 7)\<lparr>sf_sent := [Ok ''data: a'', Ok ''data: b'']\<rparr>"
  have t: "se_tasks s 1 = Some t"
    by (simp add: s_def t_def sse_run_def catcher_sse_connect_def parse_any_def Let_def sse_ffi_start_def
      hr_next_id_def hr_new_def new_sse_task_def)
  have l: "sf_sent t = [Ok ''data: a'', Ok ''data: b'']" "\<not> sf_ended t"
    by (simp_all add: t_def new_sse_task_def)
  from sse_lines_in_order [OF _ _ s_def t] l
  have "\<exists>n. calls_for 1 (se_log s) = map (\<lambda>x. (''sse_event'', line_event (Some x))) (take n [Ok ''data: a'', Ok ''data: b''])"
    by simp
  with t s_def show ?thesis by blast
qed

end
