(* ===== verification/Http_Ffi.thy ===== *)
theory Http_Ffi
  imports Ffi_Core Transport_Limits "HOL-Library.Sublist"
begin

section \<open>The C interface of the HTTP client\<close>

text \<open>
  Models \<^verbatim>\<open>catcher-http/src/ffi/http_ffi.rs\<close>: handles are identifiers of a registry of transports, a call
  spawns a task that runs the request and then calls the host.  Host threads, tasks and the network
  interleave; an operation is one atomic step of one of them.  A task keeps its transport alive after
  the handle is gone, so transports have a store of their own.  A task that runs a request goes
  through the parts of \<open>execute_with_token\<close> of Http_Transport, with its own number as the flight.
  The look at the set of destroyed handles and the call of the host are two steps.
\<close>

subsection \<open>Results as JSON\<close>

definition header_json :: "header_map \<Rightarrow> json" where
  "header_json h = JObj (map (\<lambda>(k, v). (k, JStr v)) h)"

definition response_fields :: "ffi_env \<Rightarrow> u16 \<Rightarrow> header_map \<Rightarrow> bytes \<Rightarrow> u64 \<Rightarrow> (string \<times> json) list" where
  "response_fields env st h body ms =
     [(''status'', JWord st), (''headers'', header_json h), (''body_base64'', JStr (fe_base64 env body)),
      (''elapsed_ms'', JWord ms)]"

definition response_to_json :: "ffi_env \<Rightarrow> http_response \<Rightarrow> json" where
  "response_to_json env r =
     JObj (response_fields env (resp_status r) (resp_headers r) (resp_body r) (resp_elapsed_ms r))"

text \<open>The answer of a server with an error status is a response; \<open>e.to_string()\<close> is \<open>display e\<close>.\<close>

definition http_result_to_json :: "ffi_env \<Rightarrow> catcher_error + http_response \<Rightarrow> json" where
  "http_result_to_json env r =
     (case r of
        Inr resp \<Rightarrow> response_to_json env resp
      | Inl (HttpError st body) \<Rightarrow> JObj (response_fields env st [] (as_bytes body) 0)
      | Inl e \<Rightarrow> error_json (display e))"

text \<open>The result of \<open>catcher_http_execute_with_id\<close>.\<close>

definition id_result_to_json :: "ffi_env \<Rightarrow> u64 \<Rightarrow> catcher_error + http_response \<Rightarrow> json" where
  "id_result_to_json env rid r =
     (case r of
        Inr resp \<Rightarrow>
          JObj (response_fields env (resp_status resp) (resp_headers resp) (resp_body resp)
                  (resp_elapsed_ms resp) @ [(''request_id'', JWord rid)])
      | Inl (HttpError st body) \<Rightarrow>
          JObj (response_fields env st [] (as_bytes body) 0 @ [(''request_id'', JWord rid)])
      | Inl e \<Rightarrow>
          if sublist ''cancelled'' (display e)
          then JObj [(''type'', JStr ''cancelled''), (''request_id'', JWord rid)]
          else JObj [(''error'', JStr (display e)), (''request_id'', JWord rid)])"

definition stream_event_call :: "ffi_env \<Rightarrow> u64 \<Rightarrow> stream_event \<Rightarrow> string \<times> json" where
  "stream_event_call env rid ev =
     (case ev of
        StreamHeaders st h \<Rightarrow>
          (''stream_headers'', JObj [(''status'', JWord st), (''headers'', header_json h), (''request_id'', JWord rid)])
      | StreamChunk b \<Rightarrow>
          (''stream_chunk'', JObj [(''data_base64'', JStr (fe_base64 env b)), (''request_id'', JWord rid)])
      | StreamDone \<Rightarrow> (''stream_done'', JObj [(''request_id'', JWord rid)])
      | StreamError msg \<Rightarrow> (''stream_error'', JObj [(''error'', JStr msg), (''request_id'', JWord rid)]))"

subsection \<open>Requests from C arguments\<close>

definition timeout_of :: "32 word \<Rightarrow> u64 option" where
  "timeout_of ms = (if 0 < ms then Some (ucast ms) else None)"

definition parse_method :: "ffi_env \<Rightarrow> string option \<Rightarrow> string + http_method" where
  "parse_method env mth =
     (let m = fe_upper env (to_string_lossy mth ''GET'')
      in if m = ''GET'' then Inr GET
         else if m = ''POST'' then Inr POST
         else if m = ''PUT'' then Inr PUT
         else if m = ''DELETE'' then Inr DELETE
         else if m = ''PATCH'' then Inr PATCH
         else Inl m)"

definition body_of :: "bytes option \<Rightarrow> bytes option" where
  "body_of body = (case body of Some b \<Rightarrow> if b = [] then None else Some b | None \<Rightarrow> None)"

definition content_type_of :: "string option \<Rightarrow> string option" where
  "content_type_of ct = (let s = to_string_lossy ct '''' in if s = [] then None else Some s)"

definition execute_request ::
  "ffi_env \<Rightarrow> http_method \<Rightarrow> string option \<Rightarrow> bytes option \<Rightarrow> string option \<Rightarrow> string option \<Rightarrow> 32 word
    \<Rightarrow> http_request" where
  "execute_request env m url body ct headers_json ms =
     default_request\<lparr>req_method := m, req_url := to_string_lossy url ''/'',
       req_headers := parse_headers_json env headers_json, req_body := body_of body,
       req_content_type := content_type_of ct, req_timeout_ms := timeout_of ms\<rparr>"

text \<open>A part of a multipart form.\<close>

record ffi_part =
  fp_name :: "string option"
  fp_value :: "string option"
  fp_content_type :: "string option"
  fp_data :: "bytes option"

definition text_or :: "string \<Rightarrow> string option \<Rightarrow> string" where
  "text_or d s = (case s of None \<Rightarrow> d | Some t \<Rightarrow> cstr_or d t)"

definition add_part :: "multipart_form \<Rightarrow> ffi_part \<Rightarrow> multipart_form" where
  "add_part f p =
     (case fp_name p of
        None \<Rightarrow> f
      | Some n \<Rightarrow>
          let name = cstr_or '''' n
          in if name = [] then f
             else if read_body_bytes (fp_data p) = [] then form_text f name (text_or '''' (fp_value p))
             else form_file f name (text_or ''file'' (fp_value p))
                    (text_or ''application/octet-stream'' (fp_content_type p)) (read_body_bytes (fp_data p)))"

definition multipart_method :: "string option \<Rightarrow> http_method" where
  "multipart_method mth =
     (case mth of
        None \<Rightarrow> POST
      | Some m \<Rightarrow> let s = cstr_or ''POST'' m in if s = ''PUT'' then PUT else if s = ''PATCH'' then PATCH else POST)"

definition multipart_request ::
  "ffi_env \<Rightarrow> string option \<Rightarrow> string option \<Rightarrow> ffi_part list \<Rightarrow> string option \<Rightarrow> u64 \<Rightarrow> http_request" where
  "multipart_request env mth url parts headers_json ms =
     default_request\<lparr>req_method := multipart_method mth, req_url := to_string_lossy url '''',
       req_headers := parse_headers_json env headers_json,
       req_multipart := Some (fold (\<lambda>p f. add_part f p) parts []),
       req_timeout_ms := (if 0 < ms then Some ms else None)\<rparr>"

subsection \<open>State\<close>

text \<open>
  What a task runs: \<open>execute\<close>, \<open>execute_with_token\<close> with its id and token, or a stream.  A task is about
  to begin a request (for the first time or again after a 421), has it in flight, or has calls to make;
  \<open>TaskCleared\<close> has looked at the mark and is about to call.
\<close>

datatype task_kind = PlainTask | IdTask u64 nat | StreamTask u64

datatype http_phase =
    TaskStarting bool
  | TaskInFlight bool
  | TaskReporting "(string \<times> json) list"
  | TaskCleared string json "(string \<times> json) list"
  | TaskCalling "(string \<times> json) list"

record http_task =
  hk_handle :: u64
  hk_user_data :: u64
  hk_kind :: task_kind
  hk_request :: http_request
  hk_phase :: http_phase

record http_ffi =
  hf_registry :: "u64 registry"
  hf_transports :: "u64 \<rightharpoonup> http_transport"
  hf_cancelled :: "u64 set"
  hf_tasks :: "nat \<rightharpoonup> http_task"
  hf_next_task :: nat
  hf_heap :: ffi_heap
  hf_log :: "host_event list"

definition http_ffi_start :: "ffi_heap \<Rightarrow> http_ffi" where
  "http_ffi_start h =
     \<lparr>hf_registry = hr_new, hf_transports = Map.empty, hf_cancelled = {}, hf_tasks = Map.empty,
      hf_next_task = 0, hf_heap = h, hf_log = []\<rparr>"

text \<open>The libraries, the parsers and the errors of the resolver.\<close>

record hff_env =
  hfe_ffi :: ffi_env
  hfe_lib :: lib_env
  hfe_resolver_error :: "dns_config \<Rightarrow> catcher_error option"
  hfe_config :: "string \<Rightarrow> http_client_config option"

definition mark_http_cancelled :: "u64 \<Rightarrow> http_ffi \<Rightarrow> http_ffi" where
  "mark_http_cancelled i s =
     s\<lparr>hf_cancelled := insert i (hf_cancelled s), hf_log := hf_log s @ [Destroyed i]\<rparr>"

definition is_http_cancelled :: "u64 \<Rightarrow> http_ffi \<Rightarrow> bool" where
  "is_http_cancelled i s \<longleftrightarrow> i \<in> hf_cancelled s"

definition invoke_http_callback :: "hff_env \<Rightarrow> u64 \<Rightarrow> string \<Rightarrow> json \<Rightarrow> u64 \<Rightarrow> http_ffi \<Rightarrow> http_ffi" where
  "invoke_http_callback env i name js ud s =
     s\<lparr>hf_heap := snd (invoke_callback (hfe_ffi env) name js (hf_heap s)),
       hf_log := hf_log s @ [CallBegins i name js ud]\<rparr>"

text \<open>
  A callback from inside a call of the host, made before that call returns: it is logged with the
  identifier 0, for the call and no handle, as the code makes it before it looks the handle up.
\<close>

definition callback_at_once :: "hff_env \<Rightarrow> string \<Rightarrow> json \<Rightarrow> u64 \<Rightarrow> http_ffi \<Rightarrow> http_ffi" where
  "callback_at_once env name js ud s =
     (let s1 = invoke_http_callback env 0 name js ud s in s1\<lparr>hf_log := hf_log s1 @ [CallEnds 0]\<rparr>)"

definition put_transport :: "u64 \<Rightarrow> http_transport \<Rightarrow> http_ffi \<Rightarrow> http_ffi" where
  "put_transport i t s = s\<lparr>hf_transports := (hf_transports s)(i \<mapsto> t)\<rparr>"

text \<open>\<open>REGISTRY.get\<close>.\<close>

definition lookup :: "u64 \<Rightarrow> http_ffi \<Rightarrow> (u64 \<times> http_transport) option" where
  "lookup i s =
     (case hr_get i (hf_registry s) of
        Some j \<Rightarrow> map_option (Pair j) (hf_transports s j)
      | None \<Rightarrow> None)"

definition spawn :: "u64 \<Rightarrow> u64 \<Rightarrow> task_kind \<Rightarrow> http_request \<Rightarrow> http_ffi \<Rightarrow> http_ffi" where
  "spawn i ud kind req s =
     s\<lparr>hf_tasks := (hf_tasks s)(hf_next_task s \<mapsto>
         \<lparr>hk_handle = i, hk_user_data = ud, hk_kind = kind, hk_request = req, hk_phase = TaskStarting True\<rparr>),
       hf_next_task := Suc (hf_next_task s)\<rparr>"

subsection \<open>The calls of the host\<close>

text \<open>A panic must not cross the boundary: it aborts the process, which is \<open>Panic\<close>.\<close>

definition catcher_http_client_create :: "hff_env \<Rightarrow> string option \<Rightarrow> http_ffi \<Rightarrow> (u64 \<times> http_ffi) exec" where
  "catcher_http_client_create env config_json s =
     (case config_json of
        None \<Rightarrow> Done (0, s)
      | Some js \<Rightarrow>
          (case hfe_config env (cstr_or '''' js) of
             None \<Rightarrow> Done (0, s)
           | Some config \<Rightarrow>
               (case transport_new (hfe_lib env) (hfe_resolver_error env) False config of
                  Panic \<Rightarrow> Panic
                | Done (Inl e) \<Rightarrow> Done (0, s)
                | Done (Inr t) \<Rightarrow>
                    (case hr_next_id (hf_registry s) of
                       (i, r) \<Rightarrow>
                         Done (i, put_transport i t (s\<lparr>hf_registry := hr_insert_with_id i i r\<rparr>))))))"

text \<open>\<open>catcher_http_client_destroy\<close>: the mark, and what follows it.\<close>

definition http_destroy_mark :: "u64 \<Rightarrow> http_ffi \<Rightarrow> http_ffi" where
  "http_destroy_mark i s = (if i = 0 then s else mark_http_cancelled i s)"

definition http_destroy_rest :: "u64 \<Rightarrow> http_ffi \<Rightarrow> http_ffi" where
  "http_destroy_rest i s =
     (if i = 0 then s
      else let s1 = (case lookup i s of Some (j, t) \<Rightarrow> put_transport j (cancel_all t) s | None \<Rightarrow> s)
           in s1\<lparr>hf_registry := snd (hr_remove i (hf_registry s1))\<rparr>)"

definition catcher_http_get ::
  "hff_env \<Rightarrow> u64 \<Rightarrow> string option \<Rightarrow> string option \<Rightarrow> 32 word \<Rightarrow> u64 \<Rightarrow> http_ffi \<Rightarrow> http_ffi" where
  "catcher_http_get env i url headers_json ms ud s =
     (if i = 0 then s
      else case lookup i s of
             None \<Rightarrow> s
           | Some (j, t) \<Rightarrow>
               spawn i ud PlainTask
                 (default_request\<lparr>req_method := GET, req_url := to_string_lossy url ''/'',
                    req_headers := parse_headers_json (hfe_ffi env) headers_json,
                    req_timeout_ms := timeout_of ms\<rparr>) s)"

definition catcher_http_post ::
  "hff_env \<Rightarrow> u64 \<Rightarrow> string option \<Rightarrow> bytes option \<Rightarrow> string option \<Rightarrow> string option \<Rightarrow> 32 word \<Rightarrow> u64
    \<Rightarrow> http_ffi \<Rightarrow> http_ffi" where
  "catcher_http_post env i url body ct headers_json ms ud s =
     (if i = 0 then s
      else case lookup i s of
             None \<Rightarrow> s
           | Some (j, t) \<Rightarrow>
               spawn i ud PlainTask
                 (default_request\<lparr>req_method := POST, req_url := to_string_lossy url ''/'',
                    req_headers := parse_headers_json (hfe_ffi env) headers_json,
                    req_body := Some (read_body_bytes body),
                    req_content_type := Some (to_string_lossy ct ''application/octet-stream''),
                    req_timeout_ms := timeout_of ms\<rparr>) s)"

definition catcher_http_execute ::
  "hff_env \<Rightarrow> u64 \<Rightarrow> string option \<Rightarrow> string option \<Rightarrow> bytes option \<Rightarrow> string option \<Rightarrow> string option
    \<Rightarrow> 32 word \<Rightarrow> u64 \<Rightarrow> http_ffi \<Rightarrow> http_ffi" where
  "catcher_http_execute env i mth url body ct headers_json ms ud s =
     (if i = 0 then s
      else (case parse_method (hfe_ffi env) mth of
              Inl m \<Rightarrow> callback_at_once env ''http_result'' (error_json (''Unsupported HTTP method: '' @ m)) ud s
            | Inr m \<Rightarrow>
                (case lookup i s of
                   None \<Rightarrow> s
                 | Some (j, t) \<Rightarrow>
                     spawn i ud PlainTask (execute_request (hfe_ffi env) m url body ct headers_json ms) s)))"

definition catcher_http_execute_with_id ::
  "hff_env \<Rightarrow> u64 \<Rightarrow> string option \<Rightarrow> string option \<Rightarrow> bytes option \<Rightarrow> string option \<Rightarrow> string option
    \<Rightarrow> 32 word \<Rightarrow> u64 \<Rightarrow> http_ffi \<Rightarrow> u64 \<times> http_ffi" where
  "catcher_http_execute_with_id env i mth url body ct headers_json ms ud s =
     (if i = 0 then (0, s)
      else (case parse_method (hfe_ffi env) mth of
              Inl m \<Rightarrow>
                (0, callback_at_once env ''http_result'' (error_json (''Unsupported HTTP method: '' @ m)) ud s)
            | Inr m \<Rightarrow>
                (case lookup i s of
                   None \<Rightarrow> (0, s)
                 | Some (j, t) \<Rightarrow>
                     (case allocate_pending_request t of
                        ((rid, token), t1) \<Rightarrow>
                          (rid, spawn i ud (IdTask rid token)
                                  (execute_request (hfe_ffi env) m url body ct headers_json ms)
                                  (put_transport j t1 s))))))"

definition catcher_http_execute_stream ::
  "hff_env \<Rightarrow> u64 \<Rightarrow> string option \<Rightarrow> string option \<Rightarrow> bytes option \<Rightarrow> string option \<Rightarrow> string option
    \<Rightarrow> 32 word \<Rightarrow> u64 \<Rightarrow> http_ffi \<Rightarrow> u64 \<times> http_ffi" where
  "catcher_http_execute_stream env i mth url body ct headers_json ms ud s =
     (if i = 0 then (0, s)
      else (case parse_method (hfe_ffi env) mth of
              Inl m \<Rightarrow>
                (0, callback_at_once env ''stream_error'' (error_json (''Unsupported method: '' @ m)) ud s)
            | Inr m \<Rightarrow>
                (case lookup i s of
                   None \<Rightarrow> (0, s)
                 | Some (j, t) \<Rightarrow>
                     (case allocate_pending_request t of
                        ((rid, token), t1) \<Rightarrow>
                          (rid, spawn i ud (StreamTask rid)
                                  (execute_request (hfe_ffi env) m url body ct headers_json ms)
                                  (put_transport j t1 s))))))"

definition catcher_http_multipart ::
  "hff_env \<Rightarrow> u64 \<Rightarrow> string option \<Rightarrow> string option \<Rightarrow> ffi_part list \<Rightarrow> string option \<Rightarrow> u64 \<Rightarrow> bool \<Rightarrow> u64
    \<Rightarrow> http_ffi \<Rightarrow> http_ffi" where
  "catcher_http_multipart env i mth url parts headers_json ms has_callback ud s =
     (if i = 0 \<or> \<not> has_callback then s
      else case lookup i s of
             None \<Rightarrow> s
           | Some (j, t) \<Rightarrow>
               spawn i ud PlainTask (multipart_request (hfe_ffi env) mth url parts headers_json ms) s)"

definition catcher_http_cancel_request :: "u64 \<Rightarrow> u64 \<Rightarrow> http_ffi \<Rightarrow> 32 word \<times> http_ffi" where
  "catcher_http_cancel_request i rid s =
     (if i = 0 then (- 1, s)
      else case lookup i s of
             None \<Rightarrow> (- 1, s)
           | Some (j, t) \<Rightarrow>
               (case cancel_request rid t of
                  (found, t1) \<Rightarrow> (if found then 0 else - 1, put_transport j t1 s)))"

text \<open>A string handed out to the host.\<close>

definition hand_out :: "hff_env \<Rightarrow> json \<Rightarrow> http_ffi \<Rightarrow> nat \<times> http_ffi" where
  "hand_out env js s =
     (case into_raw (CStringAlloc (cstring_or_default (fe_text (hfe_ffi env) js))) (hf_heap s) of
        (p, h) \<Rightarrow> (p, s\<lparr>hf_heap := h\<rparr>))"

fun cb_state_name :: "cb_state \<Rightarrow> string" where
  "cb_state_name Closed = ''Closed''"
| "cb_state_name Open = ''Open''"
| "cb_state_name HalfOpen = ''HalfOpen''"

definition catcher_http_circuit_breaker_state :: "hff_env \<Rightarrow> u64 \<Rightarrow> http_ffi \<Rightarrow> nat \<times> http_ffi" where
  "catcher_http_circuit_breaker_state env i s =
     (if i = 0 then (0, s)
      else hand_out env
             (case Option.bind (lookup i s) (\<lambda>(j, t). circuit_breaker_state t) of
                Some st \<Rightarrow> JStr (cb_state_name st)
              | None \<Rightarrow> JObj [(''state'', JStr ''disabled'')]) s)"

definition metrics_json :: "metrics_snapshot \<Rightarrow> json" where
  "metrics_json m =
     JObj [(''http_requests'', JWord (ms_http_requests m)), (''http_success_rate'', JFloat (ms_http_success_rate m)),
       (''http_avg_latency_us'', JWord (ms_http_avg_latency_us m)), (''http_retries'', JWord (ms_http_retries m)),
       (''ws_connect_success_rate'', JFloat (ms_ws_connect_success_rate m)),
       (''ws_disconnects'', JWord (ms_ws_disconnects m)), (''ws_messages_sent'', JWord (ms_ws_messages_sent m)),
       (''ws_messages_received'', JWord (ms_ws_messages_received m)), (''cb_open_count'', JWord (ms_cb_open_count m)),
       (''queue_timeouts'', JWord (ms_queue_timeouts m))]"

definition catcher_http_metrics :: "hff_env \<Rightarrow> u64 \<Rightarrow> http_ffi \<Rightarrow> nat \<times> http_ffi" where
  "catcher_http_metrics env i s =
     (if i = 0 then (0, s)
      else hand_out env
             (case lookup i s of
                Some (j, t) \<Rightarrow> metrics_json (metrics_snapshot (ht_metrics t))
              | None \<Rightarrow> JObj []) s)"

definition catcher_http_network_changed ::
  "hff_env \<Rightarrow> os_proxies option \<Rightarrow> u64 \<Rightarrow> http_ffi \<Rightarrow> 32 word exec \<times> http_ffi" where
  "catcher_http_network_changed env reported i s =
     (if i = 0 then (Done 1, s)
      else case lookup i s of
             None \<Rightarrow> (Done 1, s)
           | Some (j, t) \<Rightarrow>
               (case transport_network_changed (hfe_lib env) reported t of
                  (r, t1) \<Rightarrow>
                    (case r of Panic \<Rightarrow> Panic | Done (Inr _) \<Rightarrow> Done 0 | Done (Inl _) \<Rightarrow> Done 2,
                     put_transport j t1 s)))"

definition catcher_http_client_cancel_all :: "u64 \<Rightarrow> http_ffi \<Rightarrow> http_ffi" where
  "catcher_http_client_cancel_all i s =
     (if i = 0 then s
      else case lookup i s of Some (j, t) \<Rightarrow> put_transport j (cancel_all t) s | None \<Rightarrow> s)"

definition catcher_http_adaptive_timeout_config ::
  "u64 \<Rightarrow> 32 word \<Rightarrow> 32 word \<Rightarrow> 32 word \<Rightarrow> 32 word \<Rightarrow> 32 word \<Rightarrow> http_ffi \<Rightarrow> http_ffi exec" where
  "catcher_http_adaptive_timeout_config i enabled mn mx scaled window s =
     (if i = 0 then Done s
      else case lookup i s of
             None \<Rightarrow> Done s
           | Some (j, t) \<Rightarrow>
               (case (if enabled \<noteq> 0
                      then set_adaptive_timeout (ucast mn) (ucast mx)
                             (f64_div (f64_of_nat (unat scaled)) (f64_of_nat 1000)) (unat window) t
                      else disable_adaptive_timeout t) of
                  Panic \<Rightarrow> Panic
                | Done t1 \<Rightarrow> Done (put_transport j t1 s)))"

subsection \<open>The tasks\<close>

definition set_phase :: "nat \<Rightarrow> http_phase \<Rightarrow> http_ffi \<Rightarrow> http_ffi" where
  "set_phase k p s =
     (case hf_tasks s k of
        Some t \<Rightarrow> s\<lparr>hf_tasks := (hf_tasks s)(k \<mapsto> t\<lparr>hk_phase := p\<rparr>)\<rparr>
      | None \<Rightarrow> s)"

definition misdirected :: "catcher_error + http_response \<Rightarrow> bool" where
  "misdirected r = (case r of Inl (HttpError st _) \<Rightarrow> st = 421 | _ \<Rightarrow> False)"

text \<open>What follows a call of \<open>execute_with_token\<close>: \<open>execute\<close> makes a second one after a 421.\<close>

definition task_result ::
  "hff_env \<Rightarrow> os_proxies option \<Rightarrow> bool \<Rightarrow> catcher_error + http_response \<Rightarrow> nat \<Rightarrow> http_task
    \<Rightarrow> http_transport \<Rightarrow> http_ffi \<Rightarrow> http_ffi" where
  "task_result env reported first r k t tr s =
     (case hk_kind t of
        StreamTask _ \<Rightarrow> s
      | IdTask rid _ \<Rightarrow>
          set_phase k (TaskReporting [(''http_result'', id_result_to_json (hfe_ffi env) rid r)])
            (put_transport (hk_handle t) tr s)
      | PlainTask \<Rightarrow>
          if first \<and> misdirected r
          then (case transport_network_changed (hfe_lib env) reported tr of
                  (Panic, tr1) \<Rightarrow> set_phase k (TaskReporting []) (put_transport (hk_handle t) tr1 s)
                | (Done (Inl e), tr1) \<Rightarrow>
                    set_phase k (TaskReporting [(''http_result'', http_result_to_json (hfe_ffi env) (Inl e))])
                      (put_transport (hk_handle t) tr1 s)
                | (Done (Inr _), tr1) \<Rightarrow>
                    set_phase k (TaskStarting False)
                      (put_transport (hk_handle t)
                        (tr1\<lparr>ht_metrics := increment_http_retries (ht_metrics tr1)\<rparr>) s))
          else set_phase k (TaskReporting [(''http_result'', http_result_to_json (hfe_ffi env) r)])
                 (put_transport (hk_handle t) tr s))"

text \<open>The answer of a step of the transport; a panic ends the task without a call.\<close>

definition task_after ::
  "hff_env \<Rightarrow> os_proxies option \<Rightarrow> bool \<Rightarrow> call \<Rightarrow> nat \<Rightarrow> http_task \<Rightarrow> http_transport \<Rightarrow> http_ffi \<Rightarrow> http_ffi" where
  "task_after env reported first c k t tr s =
     (case c of
        Returned r \<Rightarrow> task_result env reported first r k t tr s
      | Panicked \<Rightarrow> set_phase k (TaskReporting []) (put_transport (hk_handle t) tr s)
      | Waits \<Rightarrow> set_phase k (TaskInFlight first) (put_transport (hk_handle t) tr s))"

definition task_begin ::
  "hff_env \<Rightarrow> os_proxies option \<Rightarrow> u64 \<Rightarrow> nat \<Rightarrow> u64 \<Rightarrow> nat \<Rightarrow> http_ffi \<Rightarrow> http_ffi" where
  "task_begin env reported now_ms now_us us k s =
     (case hf_tasks s k of
        None \<Rightarrow> s
      | Some t \<Rightarrow>
          (case (hk_phase t, hf_transports s (hk_handle t)) of
             (TaskStarting first, Some tr) \<Rightarrow>
               (case hk_kind t of
                  StreamTask _ \<Rightarrow> s
                | PlainTask \<Rightarrow>
                    (case new_token tr of (token, tr1) \<Rightarrow>
                       (case transport_step (hfe_lib env) (Begin now_ms now_us us k 0 token (hk_request t)) tr1 of
                          (c, tr2) \<Rightarrow> task_after env reported first c k t tr2 s))
                | IdTask rid token \<Rightarrow>
                    (case transport_step (hfe_lib env) (Begin now_ms now_us us k rid token (hk_request t)) tr of
                       (c, tr2) \<Rightarrow> task_after env reported first c k t tr2 s))
           | _ \<Rightarrow> s))"

fun for_flight :: "nat \<Rightarrow> transport_input \<Rightarrow> bool" where
  "for_flight k (Enter n) \<longleftrightarrow> n = k"
| "for_flight k (Complete _ _ n _) \<longleftrightarrow> n = k"
| "for_flight k (ObserveCancel _ _ n) \<longleftrightarrow> n = k"
| "for_flight k _ \<longleftrightarrow> False"

definition task_wait :: "hff_env \<Rightarrow> os_proxies option \<Rightarrow> transport_input \<Rightarrow> nat \<Rightarrow> http_ffi \<Rightarrow> http_ffi" where
  "task_wait env reported inp k s =
     (case hf_tasks s k of
        None \<Rightarrow> s
      | Some t \<Rightarrow>
          (case (hk_phase t, hf_transports s (hk_handle t)) of
             (TaskInFlight first, Some tr) \<Rightarrow>
               if for_flight k inp
               then (case transport_step (hfe_lib env) inp tr of
                       (c, tr1) \<Rightarrow> task_after env reported first c k t tr1 s)
               else s
           | _ \<Rightarrow> s))"

text \<open>
  A stream: what the network answers, cancellations of its tokens included, is an argument.  The
  result of the stream is thrown away.
\<close>

definition stream_begin ::
  "hff_env \<Rightarrow> string \<Rightarrow> (wire_request \<Rightarrow> (client_error + raw_response) option) \<Rightarrow> stream_item list \<Rightarrow> nat
    \<Rightarrow> http_ffi \<Rightarrow> http_ffi" where
  "stream_begin env boundary send items k s =
     (case hf_tasks s k of
        None \<Rightarrow> s
      | Some t \<Rightarrow>
          (case (hk_phase t, hk_kind t, hf_transports s (hk_handle t)) of
             (TaskStarting first, StreamTask rid, Some tr) \<Rightarrow>
               set_phase k (TaskReporting (map (stream_event_call (hfe_ffi env) rid)
                 (fst (execute_stream boundary send (ht_config tr) (hk_request t) items)))) s
           | _ \<Rightarrow> s))"

text \<open>\<open>invoke_http_callback_if_active\<close>: the look at the mark, the call, and its return.\<close>

definition task_report :: "nat \<Rightarrow> http_ffi \<Rightarrow> http_ffi" where
  "task_report k s =
     (case hf_tasks s k of
        None \<Rightarrow> s
      | Some t \<Rightarrow>
          (case hk_phase t of
             TaskReporting ((name, js) # calls) \<Rightarrow>
               set_phase k (if is_http_cancelled (hk_handle t) s then TaskReporting calls
                            else TaskCleared name js calls) s
           | _ \<Rightarrow> s))"

definition task_call :: "hff_env \<Rightarrow> nat \<Rightarrow> http_ffi \<Rightarrow> http_ffi" where
  "task_call env k s =
     (case hf_tasks s k of
        None \<Rightarrow> s
      | Some t \<Rightarrow>
          (case hk_phase t of
             TaskCleared name js calls \<Rightarrow>
               set_phase k (TaskCalling calls) (invoke_http_callback env (hk_handle t) name js (hk_user_data t) s)
           | _ \<Rightarrow> s))"

definition task_returns :: "nat \<Rightarrow> http_ffi \<Rightarrow> http_ffi" where
  "task_returns k s =
     (case hf_tasks s k of
        None \<Rightarrow> s
      | Some t \<Rightarrow>
          (case hk_phase t of
             TaskCalling calls \<Rightarrow>
               set_phase k (TaskReporting calls) (s\<lparr>hf_log := hf_log s @ [CallEnds (hk_handle t)]\<rparr>)
           | _ \<Rightarrow> s))"

subsection \<open>Runs\<close>

text \<open>The arguments of a call that carries a whole request, and the three operations that take them.\<close>

record call_args =
  ar_method :: "string option"
  ar_url :: "string option"
  ar_body :: "bytes option"
  ar_content_type :: "string option"
  ar_headers :: "string option"
  ar_timeout :: "32 word"
  ar_user_data :: u64

datatype http_ffi_op =
    CreateHttp "string option"
  | HttpDestroyMark u64
  | HttpDestroyRest u64
  | CallGet u64 call_args
  | CallPost u64 call_args
  | CallExecute u64 call_args
  | CallWithId u64 call_args
  | CallStream u64 call_args
  | CallMultipart u64 call_args "ffi_part list" u64 bool
  | CancelOne u64 u64
  | AskBreaker u64
  | AskMetrics u64
  | NetworkChanged u64 "os_proxies option"
  | CancelAllOf u64
  | ConfigureAdaptive u64 "32 word" "32 word" "32 word" "32 word" "32 word"
  | TaskBegin nat "os_proxies option" u64 nat u64
  | TaskWait nat "os_proxies option" transport_input
  | StreamBegin nat string "wire_request \<Rightarrow> (client_error + raw_response) option" "stream_item list"
  | TaskReport nat
  | TaskCall nat
  | TaskReturns nat

fun hf_step :: "hff_env \<Rightarrow> http_ffi_op \<Rightarrow> http_ffi \<Rightarrow> http_ffi exec" where
  "hf_step env (CreateHttp js) s =
     (case catcher_http_client_create env js s of Done (_, s') \<Rightarrow> Done s' | Panic \<Rightarrow> Panic)"
| "hf_step env (HttpDestroyMark i) s = Done (http_destroy_mark i s)"
| "hf_step env (HttpDestroyRest i) s = Done (http_destroy_rest i s)"
| "hf_step env (CallGet i a) s =
     Done (catcher_http_get env i (ar_url a) (ar_headers a) (ar_timeout a) (ar_user_data a) s)"
| "hf_step env (CallPost i a) s =
     Done (catcher_http_post env i (ar_url a) (ar_body a) (ar_content_type a) (ar_headers a) (ar_timeout a)
       (ar_user_data a) s)"
| "hf_step env (CallExecute i a) s =
     Done (catcher_http_execute env i (ar_method a) (ar_url a) (ar_body a) (ar_content_type a) (ar_headers a)
       (ar_timeout a) (ar_user_data a) s)"
| "hf_step env (CallWithId i a) s =
     Done (snd (catcher_http_execute_with_id env i (ar_method a) (ar_url a) (ar_body a) (ar_content_type a)
       (ar_headers a) (ar_timeout a) (ar_user_data a) s))"
| "hf_step env (CallStream i a) s =
     Done (snd (catcher_http_execute_stream env i (ar_method a) (ar_url a) (ar_body a) (ar_content_type a)
       (ar_headers a) (ar_timeout a) (ar_user_data a) s))"
| "hf_step env (CallMultipart i a parts ms has_callback) s =
     Done (catcher_http_multipart env i (ar_method a) (ar_url a) parts (ar_headers a) ms has_callback
       (ar_user_data a) s)"
| "hf_step env (CancelOne i rid) s = Done (snd (catcher_http_cancel_request i rid s))"
| "hf_step env (AskBreaker i) s = Done (snd (catcher_http_circuit_breaker_state env i s))"
| "hf_step env (AskMetrics i) s = Done (snd (catcher_http_metrics env i s))"
| "hf_step env (NetworkChanged i reported) s =
     (case catcher_http_network_changed env reported i s of (Done _, s') \<Rightarrow> Done s' | (Panic, _) \<Rightarrow> Panic)"
| "hf_step env (CancelAllOf i) s = Done (catcher_http_client_cancel_all i s)"
| "hf_step env (ConfigureAdaptive i enabled mn mx scaled window) s =
     catcher_http_adaptive_timeout_config i enabled mn mx scaled window s"
| "hf_step env (TaskBegin k reported now_ms now_us us) s = Done (task_begin env reported now_ms now_us us k s)"
| "hf_step env (TaskWait k reported inp) s = Done (task_wait env reported inp k s)"
| "hf_step env (StreamBegin k boundary send items) s = Done (stream_begin env boundary send items k s)"
| "hf_step env (TaskReport k) s = Done (task_report k s)"
| "hf_step env (TaskCall k) s = Done (task_call env k s)"
| "hf_step env (TaskReturns k) s = Done (task_returns k s)"

fun hf_run :: "hff_env \<Rightarrow> http_ffi_op list \<Rightarrow> http_ffi \<Rightarrow> http_ffi exec" where
  "hf_run env [] s = Done s"
| "hf_run env (op # ops) s = (case hf_step env op s of Done s' \<Rightarrow> hf_run env ops s' | Panic \<Rightarrow> Panic)"

text \<open>An invariant of the steps, with a budget for the identifiers.\<close>

lemma hf_run_induct:
  assumes "hf_run env ops s = Done s'" and "P (length ops) s"
    and "\<And>k op s s'. P (Suc k) s \<Longrightarrow> hf_step env op s = Done s' \<Longrightarrow> P k s'"
  shows "P 0 s'"
  using assms(1,2)
proof (induction ops arbitrary: s)
  case (Cons op ops)
  then obtain s1 where "hf_step env op s = Done s1" "hf_run env ops s1 = Done s'"
    by (auto split: exec.splits)
  with Cons.IH Cons.prems(2) assms(3) show ?case by fastforce
qed simp

subsection \<open>Frames\<close>

lemma put_transport_simps [simp]:
  "hf_log (put_transport i t s) = hf_log s" "hf_cancelled (put_transport i t s) = hf_cancelled s"
  "hf_tasks (put_transport i t s) = hf_tasks s" "hf_registry (put_transport i t s) = hf_registry s"
  "hf_next_task (put_transport i t s) = hf_next_task s"
  "hf_transports (put_transport i t s) = (hf_transports s)(i \<mapsto> t)"
  by (simp_all add: put_transport_def)

lemma set_phase_simps [simp]:
  "hf_log (set_phase k p s) = hf_log s" "hf_cancelled (set_phase k p s) = hf_cancelled s"
  "hf_registry (set_phase k p s) = hf_registry s" "hf_transports (set_phase k p s) = hf_transports s"
  "hf_next_task (set_phase k p s) = hf_next_task s"
  "hf_tasks (set_phase k p s) =
     (case hf_tasks s k of Some t \<Rightarrow> (hf_tasks s)(k \<mapsto> t\<lparr>hk_phase := p\<rparr>) | None \<Rightarrow> hf_tasks s)"
  by (auto simp: set_phase_def split: option.split)

lemma spawn_simps [simp]:
  "hf_log (spawn i ud kd req s) = hf_log s" "hf_cancelled (spawn i ud kd req s) = hf_cancelled s"
  "hf_registry (spawn i ud kd req s) = hf_registry s" "hf_transports (spawn i ud kd req s) = hf_transports s"
  by (simp_all add: spawn_def)

lemma hand_out_simps [simp]:
  "hf_log (snd (hand_out env js s)) = hf_log s" "hf_cancelled (snd (hand_out env js s)) = hf_cancelled s"
  "hf_tasks (snd (hand_out env js s)) = hf_tasks s" "hf_registry (snd (hand_out env js s)) = hf_registry s"
  "hf_transports (snd (hand_out env js s)) = hf_transports s"
  "hf_next_task (snd (hand_out env js s)) = hf_next_task s"
  by (simp_all add: hand_out_def case_prod_unfold)

subsection \<open>What holds of a transport holds of every handle's\<close>









subsection \<open>What the host sees\<close>

text \<open>
  The steps, seen from the host: its log, the destroyed handles and where the tasks are.  Everything
  the transports do is one of these.
\<close>

type_synonym host_view = "(nat \<rightharpoonup> http_task) \<times> u64 set \<times> host_event list"

definition view_of :: "http_ffi \<Rightarrow> host_view" where
  "view_of s = (hf_tasks s, hf_cancelled s, hf_log s)"

fun is_cleared :: "http_phase \<Rightarrow> bool" where
  "is_cleared (TaskCleared _ _ _) = True"
| "is_cleared _ = False"

inductive host_step :: "host_view \<Rightarrow> host_view \<Rightarrow> bool" where
  silent: "host_step (ts, c, l) (ts, c, l)"
| marked: "host_step (ts, c, l) (ts, insert i c, l @ [Destroyed i])"
| at_once: "host_step (ts, c, l) (ts, c, l @ [CallBegins 0 name js ud, CallEnds 0])"
| spawned: "\<not> is_cleared (hk_phase t) \<Longrightarrow> host_step (ts, c, l) (ts(k \<mapsto> t), c, l)"
| moved: "ts k = Some t \<Longrightarrow> \<not> is_cleared p \<Longrightarrow> host_step (ts, c, l) (ts(k \<mapsto> t\<lparr>hk_phase := p\<rparr>), c, l)"
| looked: "ts k = Some t \<Longrightarrow> hk_handle t \<notin> c \<Longrightarrow> host_step (ts, c, l) (ts(k \<mapsto> t\<lparr>hk_phase := p\<rparr>), c, l)"
| called: "ts k = Some t \<Longrightarrow> hk_phase t = TaskCleared name js calls \<Longrightarrow>
    host_step (ts, c, l) (ts(k \<mapsto> t\<lparr>hk_phase := TaskCalling calls\<rparr>), c,
      l @ [CallBegins (hk_handle t) name js (hk_user_data t)])"
| returned: "ts k = Some t \<Longrightarrow> hk_phase t = TaskCalling calls \<Longrightarrow>
    host_step (ts, c, l) (ts(k \<mapsto> t\<lparr>hk_phase := TaskReporting calls\<rparr>), c, l @ [CallEnds (hk_handle t)])"

inductive_cases host_stepE: "host_step (ts, c, l) v"

lemma silent_view: "hf_tasks s' = hf_tasks s \<Longrightarrow> hf_cancelled s' = hf_cancelled s \<Longrightarrow> hf_log s' = hf_log s
    \<Longrightarrow> host_step (view_of s) (view_of s')"
  by (simp add: view_of_def host_step.silent)

lemma moved_view:
  assumes "hf_tasks s k = Some t" and "\<not> is_cleared p" and "hf_tasks s1 = hf_tasks s"
    and "hf_cancelled s1 = hf_cancelled s" and "hf_log s1 = hf_log s"
  shows "host_step (view_of s) (view_of (set_phase k p s1))"
  using host_step.moved [of "hf_tasks s" k t p "hf_cancelled s" "hf_log s"] assms
  by (simp add: view_of_def)

lemma spawn_view: "hf_tasks s1 = hf_tasks s \<Longrightarrow> hf_cancelled s1 = hf_cancelled s \<Longrightarrow> hf_log s1 = hf_log s
    \<Longrightarrow> host_step (view_of s) (view_of (spawn i ud kd req s1))"
  by (simp add: view_of_def spawn_def host_step.spawned)

lemma at_once_view: "host_step (view_of s) (view_of (callback_at_once env name js ud s))"
  by (simp add: view_of_def callback_at_once_def invoke_http_callback_def Let_def host_step.at_once)

lemma result_view:
  assumes "hf_tasks s k = Some t" shows "host_step (view_of s) (view_of (task_result env reported first r k t tr s))"
  using assms
  by (auto simp: task_result_def intro: moved_view silent_view
    split: task_kind.split exec.split sum.split prod.split)

lemma after_view:
  assumes "hf_tasks s k = Some t" shows "host_step (view_of s) (view_of (task_after env reported first c k t tr s))"
  using assms by (cases c) (auto simp: task_after_def intro: moved_view result_view)

lemma task_view:
  "host_step (view_of s) (view_of (task_begin env reported now_ms now_us us k s))"
  "host_step (view_of s) (view_of (task_wait env reported inp k s))"
  "host_step (view_of s) (view_of (stream_begin env boundary send items k s))"
  by (auto simp: task_begin_def task_wait_def stream_begin_def case_prod_unfold simp del: transport_step.simps
    intro: after_view moved_view silent_view split: option.split http_phase.split task_kind.split)

lemma report_view:
  "host_step (view_of s) (view_of (task_report k s))" "host_step (view_of s) (view_of (task_call env k s))"
  "host_step (view_of s) (view_of (task_returns k s))"
proof -
  show "host_step (view_of s) (view_of (task_report k s))"
    using host_step.looked [of "hf_tasks s" k _ "hf_cancelled s" "hf_log s"]
      host_step.moved [of "hf_tasks s" k _ _ "hf_cancelled s" "hf_log s"] host_step.silent
    by (auto simp: task_report_def view_of_def is_http_cancelled_def
      split: option.split http_phase.split list.split)
  show "host_step (view_of s) (view_of (task_call env k s))"
    using host_step.called [of "hf_tasks s" k] host_step.silent
    by (auto simp: task_call_def view_of_def invoke_http_callback_def split: option.split http_phase.split)
  show "host_step (view_of s) (view_of (task_returns k s))"
    using host_step.returned [of "hf_tasks s" k] host_step.silent
    by (auto simp: task_returns_def view_of_def split: option.split http_phase.split)
qed

lemma request_view:
  "host_step (view_of s) (view_of (catcher_http_get env i url hs ms ud s))"
  "host_step (view_of s) (view_of (catcher_http_post env i url body ct hs ms ud s))"
  "host_step (view_of s) (view_of (catcher_http_execute env i mth url body ct hs ms ud s))"
  "host_step (view_of s) (view_of (snd (catcher_http_execute_with_id env i mth url body ct hs ms ud s)))"
  "host_step (view_of s) (view_of (snd (catcher_http_execute_stream env i mth url body ct hs ms ud s)))"
  "host_step (view_of s) (view_of (catcher_http_multipart env i mth url parts hs ms' hc ud s))"
  by (auto simp: catcher_http_get_def catcher_http_post_def catcher_http_execute_def
    catcher_http_execute_with_id_def catcher_http_execute_stream_def catcher_http_multipart_def
    case_prod_unfold intro: spawn_view silent_view at_once_view split: option.split sum.split)

lemma call_view:
  "catcher_http_client_create env js s = Done (i, s') \<Longrightarrow> host_step (view_of s) (view_of s')"
  "host_step (view_of s) (view_of (http_destroy_rest i s))"
  "host_step (view_of s) (view_of (snd (catcher_http_cancel_request i rid s)))"
  "host_step (view_of s) (view_of (catcher_http_client_cancel_all i s))"
  "catcher_http_network_changed env reported i s = (Done c, s') \<Longrightarrow> host_step (view_of s) (view_of s')"
  "catcher_http_adaptive_timeout_config i enabled mn mx scaled window s = Done s' \<Longrightarrow>
     host_step (view_of s) (view_of s')"
  "host_step (view_of s) (view_of (snd (catcher_http_circuit_breaker_state env i s)))"
  "host_step (view_of s) (view_of (snd (catcher_http_metrics env i s)))"
  by (auto simp: catcher_http_client_create_def http_destroy_rest_def catcher_http_cancel_request_def
    catcher_http_client_cancel_all_def catcher_http_network_changed_def Let_def
    catcher_http_adaptive_timeout_config_def catcher_http_circuit_breaker_state_def catcher_http_metrics_def
    case_prod_unfold intro!: silent_view split: option.splits exec.splits sum.splits if_splits prod.splits)

lemma step_view:
  assumes "hf_step env op s = Done s'" shows "host_step (view_of s) (view_of s')"
proof (cases op)
  case (HttpDestroyMark i)
  with assms host_step.marked [of "hf_tasks s" "hf_cancelled s" "hf_log s" i] show ?thesis
    by (auto simp: http_destroy_mark_def mark_http_cancelled_def view_of_def intro: host_step.silent)
qed (use assms in \<open>auto simp: task_view report_view request_view call_view split: exec.splits prod.splits
    dest: call_view(1,5,6)\<close>)

subsection \<open>Late callbacks\<close>

definition about_to_call :: "u64 \<Rightarrow> host_view \<Rightarrow> nat set" where
  "about_to_call i v = {k. \<exists>t. fst v k = Some t \<and> hk_handle t = i \<and> is_cleared (hk_phase t)}"

definition budget :: "u64 \<Rightarrow> host_view \<Rightarrow> nat" where
  "budget i v = begins i (snd (snd v)) + card (about_to_call i v)"

lemma host_step_finite: "host_step v v' \<Longrightarrow> finite (dom (fst v)) \<Longrightarrow> finite (dom (fst v'))"
  by (induction rule: host_step.induct) auto

lemma finite_about: "finite (dom (fst v)) \<Longrightarrow> finite (about_to_call i v)"
  by (rule finite_subset [of _ "dom (fst v)"]) (auto simp: about_to_call_def)

text \<open>Once a handle is destroyed, every call that begins uses up a task that had looked before.\<close>

lemma host_step_budget:
  assumes "host_step v v'" and "finite (dom (fst v))" and "i \<in> fst (snd v)" and "i \<noteq> 0"
  shows "i \<in> fst (snd v') \<and> budget i v' \<le> budget i v"
  using assms
proof (induction rule: host_step.induct)
  case (called ts k t name js calls c l)
  let ?v = "(ts, c, l)" and ?v' = "(ts(k \<mapsto> t\<lparr>hk_phase := TaskCalling calls\<rparr>), c, l @ [CallBegins (hk_handle t) name js (hk_user_data t)])"
  have "about_to_call i ?v' = about_to_call i ?v - {k}"
    using called.hyps by (auto simp: about_to_call_def)
  moreover have "hk_handle t = i \<Longrightarrow> k \<in> about_to_call i ?v"
    using called.hyps by (simp add: about_to_call_def)
  ultimately show ?case
    using called finite_about [of ?v i] card_Diff1_less [of "about_to_call i ?v" k]
      card_Diff1_le [of "about_to_call i ?v" k]
    by (cases "hk_handle t = i") (auto simp: budget_def)
next
  case (looked ts k t c l p)
  then have "hk_handle t \<noteq> i" by auto
  then have "about_to_call i (ts(k \<mapsto> t\<lparr>hk_phase := p\<rparr>), c, l) \<subseteq> about_to_call i (ts, c, l)"
    using looked.hyps by (auto simp: about_to_call_def split: if_splits)
  with looked show ?case
    using card_mono [OF finite_about [of "(ts, c, l)" i]] by (simp add: budget_def)
next
  case (spawned t ts c l k)
  then have "about_to_call i (ts(k \<mapsto> t), c, l) \<subseteq> about_to_call i (ts, c, l)"
    by (auto simp: about_to_call_def split: if_splits)
  with spawned show ?case
    using card_mono [OF finite_about [of "(ts, c, l)" i]] by (simp add: budget_def)
next
  case (moved ts k t p c l)
  then have "about_to_call i (ts(k \<mapsto> t\<lparr>hk_phase := p\<rparr>), c, l) \<subseteq> about_to_call i (ts, c, l)"
    by (auto simp: about_to_call_def split: if_splits)
  with moved show ?case
    using card_mono [OF finite_about [of "(ts, c, l)" i]] by (simp add: budget_def)
next
  case (returned ts k t calls c l)
  then have "about_to_call i (ts(k \<mapsto> t\<lparr>hk_phase := TaskReporting calls\<rparr>), c, l') \<subseteq> about_to_call i (ts, c, l)" for l'
    by (auto simp: about_to_call_def split: if_splits)
  with returned show ?case
    using card_mono [OF finite_about [of "(ts, c, l)" i]] by (simp add: budget_def)
qed (auto simp: budget_def about_to_call_def)

lemma finite_step: "hf_step env op s = Done s' \<Longrightarrow> finite (dom (hf_tasks s)) \<Longrightarrow> finite (dom (hf_tasks s'))"
  using host_step_finite [OF step_view] by (fastforce simp: view_of_def)

lemma finite_run: "hf_run env ops (http_ffi_start h) = Done s \<Longrightarrow> finite (dom (hf_tasks s))"
  by (rule hf_run_induct [of env ops "http_ffi_start h" s "\<lambda>_ s. finite (dom (hf_tasks s))"])
    (auto simp: http_ffi_start_def finite_step)

text \<open>
  C29. After a client is destroyed the only callbacks of it that can still begin are those of tasks that
  had looked at the mark just before it was set, one for each such task, in every interleaving; all
  other requests in flight end in silence.  (A later call of the host with an unsupported method is
  answered by a callback on the spot; that one belongs to the call and is not counted here.)
\<close>

theorem http_late_calls:
  assumes "hf_run env ops (http_ffi_start h) = Done s" and "i \<in> hf_cancelled s" and "i \<noteq> 0"
    and "hf_run env ops' s = Done s'"
  shows "begins i (hf_log s') \<le> begins i (hf_log s) + card (about_to_call i (view_of s))"
proof -
  define P where "P = (\<lambda>x :: http_ffi. finite (dom (fst (view_of x))) \<and> i \<in> fst (snd (view_of x)) \<and>
    budget i (view_of x) \<le> budget i (view_of s))"
  have "P s" using finite_run [OF assms(1)] assms(2) by (simp add: P_def) (simp add: view_of_def)
  moreover have "P y" if "P x" and "hf_step env op x = Done y" for op x y
    using that(1) host_step_finite [OF step_view [OF that(2)]] host_step_budget [OF step_view [OF that(2)] _ _ assms(3)]
    unfolding P_def by (meson order_trans)
  ultimately have "P s'"
    using hf_run_induct [OF assms(4), of "\<lambda>_. P"] by blast
  then have "budget i (view_of s') \<le> budget i (view_of s)" by (simp add: P_def)
  moreover have "begins i (hf_log x) \<le> budget i (view_of x)" for x by (simp add: budget_def view_of_def)
  moreover have "budget i (view_of s) = begins i (hf_log s) + card (about_to_call i (view_of s))"
    by (simp add: budget_def view_of_def)
  ultimately show ?thesis by (metis order_trans)
qed

definition plain_args :: call_args where
  "plain_args = \<lparr>ar_method = None, ar_url = None, ar_body = None, ar_content_type = None, ar_headers = None,
     ar_timeout = 0, ar_user_data = 0\<rparr>"

definition hff_example :: hff_env where
  "hff_example = \<lparr>hfe_ffi = plain_ffi_env, hfe_lib = permissive_env, hfe_resolver_error = (\<lambda>_. None),
     hfe_config = (\<lambda>_. None)\<rparr>"

theorem http_late_calls_witness:
  "\<exists>s s'. hf_run hff_example [HttpDestroyMark 1] (http_ffi_start \<lparr>fh_cells = Map.empty, fh_next = 1\<rparr>) = Done s \<and>
     hf_run hff_example [CallGet 1 plain_args, TaskReport 0, TaskCall 0] s = Done s' \<and> begins 1 (hf_log s') \<le> 0"
proof -
  let ?h = "\<lparr>fh_cells = Map.empty, fh_next = 1\<rparr> :: ffi_heap"
  obtain s where s: "hf_run hff_example [HttpDestroyMark 1] (http_ffi_start ?h) = Done s" by simp
  then have c: "1 \<in> hf_cancelled s" "hf_log s = [Destroyed 1]" "hf_tasks s = Map.empty"
    by (auto simp: http_destroy_mark_def mark_http_cancelled_def http_ffi_start_def)
  obtain s' where s': "hf_run hff_example [CallGet 1 plain_args, TaskReport 0, TaskCall 0] s = Done s'" by simp
  have "about_to_call 1 (view_of s) = {}" by (simp add: about_to_call_def view_of_def c(3))
  with http_late_calls [OF s c(1) _ s'] c(2) have "begins 1 (hf_log s') \<le> 0" by simp
  with s s' show ?thesis by blast
qed

subsection \<open>Destroyed handles\<close>

definition dead :: "u64 \<Rightarrow> nat \<Rightarrow> http_ffi \<Rightarrow> bool" where
  "dead i k s \<longleftrightarrow> hr_get i (hf_registry s) = None \<and> reg_room (hf_registry s) k \<and> \<not> hr_next (hf_registry s) \<le> i"

lemma dead_same: "dead i (Suc k) s \<Longrightarrow> hf_registry s' = hf_registry s \<Longrightarrow> dead i k s'"
  by (simp add: dead_def)

lemma dead_create:
  assumes "dead i (Suc k) s" and "catcher_http_client_create env js s = Done (j, s')"
  shows "dead i k s'"
proof (cases "hf_registry s' = hf_registry s")
  case True
  then show ?thesis by (rule dead_same [OF assms(1)])
next
  case False
  obtain j r where n: "hr_next_id (hf_registry s) = (j, r)" by fastforce
  have "\<not> hr_next r \<le> i \<and> j \<noteq> i \<and> reg_room r k"
    by (rule registry.next_keeps [OF _ n]) (use assms(1) in \<open>auto simp: dead_def\<close>)
  moreover from assms(2) False have "hf_registry s' = hr_insert_with_id j j r"
    by (auto simp: catcher_http_client_create_def n split: option.splits exec.splits sum.splits)
  ultimately show ?thesis
    using assms(1) registry.next_get [OF n] registry.put_get [of i j j r]
    by (simp add: dead_def) (simp add: hr_insert_with_id_def)
qed

lemma registry_result: "hf_registry (task_result env reported first r k t tr s) = hf_registry s"
  by (auto simp: task_result_def split: task_kind.split exec.split sum.split prod.split)

lemma registry_after: "hf_registry (task_after env reported first c k t tr s) = hf_registry s"
  by (cases c) (auto simp: task_after_def registry_result)

lemma registry_same:
  assumes "\<nexists>js. op = CreateHttp js" and "\<nexists>i. op = HttpDestroyRest i" and "hf_step env op s = Done s'"
  shows "hf_registry s' = hf_registry s"
  using assms
  by (cases op)
    (auto simp: http_destroy_mark_def mark_http_cancelled_def catcher_http_get_def catcher_http_post_def
      catcher_http_execute_def catcher_http_execute_with_id_def catcher_http_execute_stream_def
      catcher_http_multipart_def catcher_http_cancel_request_def catcher_http_circuit_breaker_state_def
      catcher_http_metrics_def catcher_http_network_changed_def catcher_http_client_cancel_all_def
      catcher_http_adaptive_timeout_config_def task_begin_def task_wait_def stream_begin_def task_report_def
      task_call_def task_returns_def callback_at_once_def invoke_http_callback_def Let_def case_prod_unfold
      registry_after simp del: transport_step.simps
      split: option.splits sum.splits exec.splits http_phase.splits task_kind.splits list.splits if_splits)

lemma registry_destroyed:
  "hf_registry (http_destroy_rest j s) = (if j = 0 then hf_registry s else snd (hr_remove j (hf_registry s)))"
  by (simp add: http_destroy_rest_def Let_def split: option.split)

lemma dead_step:
  assumes "dead i (Suc k) s" and "hf_step env op s = Done s'" shows "dead i k s'"
proof -
  consider js where "op = CreateHttp js" | j where "op = HttpDestroyRest j"
    | "\<nexists>js. op = CreateHttp js" "\<nexists>j. op = HttpDestroyRest j" by blast
  then show ?thesis
  proof cases
    case 1
    with assms(2) obtain j where "catcher_http_client_create env js s = Done (j, s')"
      by (auto split: exec.splits prod.splits)
    then show ?thesis by (rule dead_create [OF assms(1)])
  next
    case (2 j)
    with assms show ?thesis
      by (auto simp: dead_def registry_destroyed hr_get_def hr_remove_def split: if_splits)
  next
    case 3
    show ?thesis by (rule dead_same [OF assms(1) registry_same [OF 3 assms(2)]])
  qed
qed

text \<open>
  C30. A destroyed client stays destroyed: its identifier is never given out again, and whatever happens
  later no call with the old handle reaches a transport or starts a task.  Exactly: the calls listed
  first leave everything as it is, in silence (the callback of a request never comes), and those with
  a result report failure.  The three calls that take a method do so when they support it; otherwise
  they call the host back with an error before they look the handle up, dead or alive.  The two that
  answer in a string still hand one out: a breaker that is disabled, no metrics.
\<close>

theorem destroyed_client_is_inert:
  assumes "reg_room (hf_registry s) (length ops)" and "\<not> hr_next (hf_registry s) \<le> i" and "i \<noteq> 0"
    and "hf_run env ops (http_destroy_rest i s) = Done s'"
  shows "list_all (\<lambda>op. hf_step env op s' = Done s')
      [CallGet i a, CallPost i a, CallMultipart i a parts ms hc, CancelOne i rid,
       NetworkChanged i reported, CancelAllOf i, ConfigureAdaptive i enabled mn mx scaled window,
       HttpDestroyRest i] \<and>
    (case parse_method (hfe_ffi env) (ar_method a) of
       Inr m \<Rightarrow> list_all (\<lambda>op. hf_step env op s' = Done s') [CallExecute i a, CallWithId i a, CallStream i a]
     | Inl m \<Rightarrow>
         list_all (\<lambda>op. hf_step env op s' = Done (callback_at_once env ''http_result''
             (error_json (''Unsupported HTTP method: '' @ m)) (ar_user_data a) s'))
           [CallExecute i a, CallWithId i a] \<and>
         hf_step env (CallStream i a) s' = Done (callback_at_once env ''stream_error''
           (error_json (''Unsupported method: '' @ m)) (ar_user_data a) s')) \<and>
    fst (catcher_http_execute_with_id env i (ar_method a) (ar_url a) (ar_body a) (ar_content_type a)
      (ar_headers a) (ar_timeout a) (ar_user_data a) s') = 0 \<and>
    fst (catcher_http_execute_stream env i (ar_method a) (ar_url a) (ar_body a) (ar_content_type a)
      (ar_headers a) (ar_timeout a) (ar_user_data a) s') = 0 \<and>
    fst (catcher_http_cancel_request i rid s') = - 1 \<and>
    fst (catcher_http_network_changed env reported i s') = Done 1 \<and>
    catcher_http_circuit_breaker_state env i s' = hand_out env (JObj [(''state'', JStr ''disabled'')]) s' \<and>
    catcher_http_metrics env i s' = hand_out env (JObj []) s'"
proof -
  have "dead i (length ops) (http_destroy_rest i s)"
    using assms(1-3) by (simp add: dead_def registry_destroyed hr_get_def hr_remove_def)
  from hf_run_induct [OF assms(4), of "dead i", OF this dead_step] have g: "hr_get i (hf_registry s') = None"
    by (simp add: dead_def)
  then have l: "lookup i s' = None" by (simp add: lookup_def)
  have "http_destroy_rest i s' = s'"
    using g assms(3) by (simp add: http_destroy_rest_def l hr_remove_def hr_get_def fun_upd_idem)
  with assms(3) l show ?thesis
    by (simp add: catcher_http_get_def catcher_http_post_def
      catcher_http_execute_def catcher_http_execute_with_id_def catcher_http_execute_stream_def
      catcher_http_multipart_def catcher_http_cancel_request_def catcher_http_network_changed_def
      catcher_http_client_cancel_all_def catcher_http_adaptive_timeout_config_def
      catcher_http_circuit_breaker_state_def catcher_http_metrics_def split: sum.split)
qed

definition one_client :: http_ffi where
  "one_client = (http_ffi_start \<lparr>fh_cells = Map.empty, fh_next = 1\<rparr>)
     \<lparr>hf_registry := \<lparr>hr_map = Map.empty, hr_next = 2\<rparr>\<rparr>"

text \<open>Afterwards a supported method does nothing; an unsupported one calls back.\<close>

theorem destroyed_client_is_inert_witness:
  "\<exists>s'. hf_run hff_example [CreateHttp None, HttpDestroyMark 1] (http_destroy_rest 1 one_client) = Done s' \<and>
     hf_step hff_example (CallExecute 1 plain_args) s' = Done s' \<and>
     hf_step hff_example (CallExecute 1 (plain_args\<lparr>ar_method := Some ''HEAD''\<rparr>)) s' =
       Done (callback_at_once hff_example ''http_result'' (error_json ''Unsupported HTTP method: HEAD'') 0 s')"
proof -
  let ?ops = "[CreateHttp None, HttpDestroyMark 1]"
  obtain s' where s': "hf_run hff_example ?ops (http_destroy_rest 1 one_client) = Done s'"
    by (simp add: catcher_http_client_create_def)
  have m: "parse_method (hfe_ffi hff_example) (ar_method plain_args) = Inr GET"
    by (simp add: parse_method_def plain_args_def to_string_lossy_def hff_example_def plain_ffi_env_def
      ascii_upper_def is_lower_def)
  have h: "parse_method (hfe_ffi hff_example) (ar_method (plain_args\<lparr>ar_method := Some ''HEAD''\<rparr>)) = Inl ''HEAD''"
    by (simp add: hff_example_def plain_ffi_env_def plain_args_def parse_method_def to_string_lossy_def)
      (code_simp)
  have r: "reg_room (hf_registry one_client) (length ?ops)" "\<not> hr_next (hf_registry one_client) \<le> 1"
    by (simp_all add: one_client_def word_le_nat_alt)
  note d = destroyed_client_is_inert [OF r _ s', of _ "[]" 0 False 0 None 0 0 0 0 0]
  have "hf_step hff_example (CallExecute 1 plain_args) s' = Done s'"
    using d [of plain_args] by (simp add: m del: hf_step.simps)
  moreover have "hf_step hff_example (CallExecute 1 (plain_args\<lparr>ar_method := Some ''HEAD''\<rparr>)) s' =
       Done (callback_at_once hff_example ''http_result'' (error_json ''Unsupported HTTP method: HEAD'') 0 s')"
    using d [of "plain_args\<lparr>ar_method := Some ''HEAD''\<rparr>"] unfolding h
    by (simp add: plain_args_def del: hf_step.simps)
  ultimately show ?thesis using s' by blast
qed

subsection \<open>Streams\<close>

fun own_step :: "nat \<Rightarrow> http_ffi_op \<Rightarrow> bool" where
  "own_step k (TaskBegin n _ _ _ _) \<longleftrightarrow> n = k"
| "own_step k (TaskWait n _ _) \<longleftrightarrow> n = k"
| "own_step k (StreamBegin n _ _ _) \<longleftrightarrow> n = k"
| "own_step k (TaskReport n) \<longleftrightarrow> n = k"
| "own_step k (TaskCall n) \<longleftrightarrow> n = k"
| "own_step k (TaskReturns n) \<longleftrightarrow> n = k"
| "own_step k _ \<longleftrightarrow> False"

definition streaming :: "nat \<Rightarrow> http_ffi \<Rightarrow> bool" where
  "streaming k s \<longleftrightarrow> (\<exists>t rid. hf_tasks s k = Some t \<and> hk_kind t = StreamTask rid \<and>
     (\<forall>b. hk_phase t \<noteq> TaskInFlight b))"

lemma streaming_step:
  assumes "streaming k s" and "own_step k op" and "hf_step env op s = Done s'"
  shows "streaming k s' \<and> hf_transports s' = hf_transports s \<and> hf_registry s' = hf_registry s"
  using assms
  by (cases op)
    (auto simp: streaming_def task_begin_def task_wait_def stream_begin_def task_report_def task_call_def
      task_returns_def invoke_http_callback_def set_phase_def
      split: http_phase.splits option.splits list.splits)

text \<open>
  A stream started over the C interface never gives back its entry among the pending requests: after
  any steps of its task, the last included, \<open>catcher_http_cancel_request\<close> still finds the request and
  reports success.
\<close>

theorem stream_entry_is_never_removed:
  assumes "hr_get i (hf_registry s) = Some i" and "hf_transports s i = Some t" and "i \<noteq> 0"
    and "parse_method (hfe_ffi env) mth = Inr m"
    and "catcher_http_execute_stream env i mth url body ct hs ms ud s = (rid, s1)"
    and "list_all (own_step (hf_next_task s)) ops" and "hf_run env ops s1 = Done s2"
  shows "fst (catcher_http_cancel_request i rid s2) = 0 \<and> rid = ht_next_id t"
proof -
  let ?k = "hf_next_task s"
  have l: "lookup i s = Some (i, t)" using assms(1,2) by (simp add: lookup_def)
  obtain token t1 where a: "allocate_pending_request t = ((ht_next_id t, token), t1)"
    by (simp add: allocate_pending_request_def next_request_id_def new_token_def)
  then have p: "ht_pending t1 (ht_next_id t) = Some token"
    by (auto simp: allocate_pending_request_def next_request_id_def new_token_def insert_pending_request_def)
  have s1: "rid = ht_next_id t" "hf_transports s1 i = Some t1" "hf_registry s1 = hf_registry s" "streaming ?k s1"
    using assms(3-5) by (auto simp: catcher_http_execute_stream_def l a streaming_def spawn_def)
  have "streaming ?k s2 \<and> hf_transports s2 = hf_transports s1 \<and> hf_registry s2 = hf_registry s1"
    using assms(6,7) s1(4)
  proof (induction ops arbitrary: s1)
    case (Cons op ops)
    then obtain x where x: "hf_step env op s1 = Done x" "hf_run env ops x = Done s2"
      by (auto split: exec.splits)
    with Cons.prems streaming_step [of ?k s1 op env x] have "streaming ?k x" 
      "hf_transports x = hf_transports s1" "hf_registry x = hf_registry s1" by auto
    with Cons.IH [OF _ x(2)] Cons.prems(1) show ?case by simp
  qed simp
  with s1 p assms(1,3) show ?thesis
    by (simp add: catcher_http_cancel_request_def lookup_def cancel_request_def)
qed

theorem stream_entry_is_never_removed_witness:
  "\<exists>s rid s1 s2. catcher_http_execute_stream hff_example 1 None None None None None 0 0 s = (rid, s1) \<and>
     hf_run hff_example [StreamBegin 0 '''' (\<lambda>_. None) [], TaskReport 0, TaskCall 0, TaskReturns 0] s1 = Done s2 \<and>
     fst (catcher_http_cancel_request 1 rid s2) = 0"
proof -
  let ?ops = "[StreamBegin 0 '''' (\<lambda>_. None) [], TaskReport 0, TaskCall 0, TaskReturns 0]"
  obtain t where "transport_new permissive_env (\<lambda>_. None) False default_http_client_config = Done (Ok t)"
    by (auto simp: transport_new_def build_middleware_client_def permissive_env_def permissive_tls_def
      bind_exec_def build_tls_config_def default_http_client_config_def default_tls_config_def
      pins_configured_def certificate_calls_def ca_cert_pem_calls_def ca_cert_path_calls_def
      identity_pem_calls_def identity_path_calls_def proxy_calls_def auth_calls_def Let_def)
  define s where "s = one_client\<lparr>hf_registry := \<lparr>hr_map = [1 \<mapsto> 1], hr_next = 2\<rparr>, hf_transports := [1 \<mapsto> t]\<rparr>"
  have r: "hr_get 1 (hf_registry s) = Some 1" "hf_transports s 1 = Some t" "hf_next_task s = 0"
    by (simp_all add: s_def hr_get_def one_client_def http_ffi_start_def)
  have m: "parse_method (hfe_ffi hff_example) None = Inr GET"
    by (simp add: parse_method_def to_string_lossy_def hff_example_def plain_ffi_env_def
      ascii_upper_def is_lower_def)
  obtain rid s1 where e: "catcher_http_execute_stream hff_example 1 None None None None None 0 0 s = (rid, s1)"
    by fastforce
  obtain s2 where run: "hf_run hff_example ?ops s1 = Done s2" by simp
  have "fst (catcher_http_cancel_request 1 rid s2) = 0"
    using stream_entry_is_never_removed [OF r(1,2) _ m e _ run, THEN conjunct1] r(3) by simp
  with e run show ?thesis by blast
qed

text \<open>Two ways in which the C functions tell something else than what happened.\<close>

lemma empty_file_becomes_text:
  assumes "utf8_valid n" and "n \<noteq> []" and "utf8_valid v"
  shows "add_part f \<lparr>fp_name = Some n, fp_value = Some v, fp_content_type = Some ct, fp_data = Some []\<rparr> =
    f @ [TextPart n v]"
  using assms by (simp add: add_part_def cstr_or_def read_body_bytes_def form_text_def text_or_def)

lemma failure_reported_as_cancellation:
  assumes "\<forall>st body. e \<noteq> HttpError st body" and "sublist ''cancelled'' (display e)"
  shows "id_result_to_json env rid (Err e) = JObj [(''type'', JStr ''cancelled''), (''request_id'', JWord rid)]"
  using assms by (cases e) (simp_all add: id_result_to_json_def)

end
