(* ===== verification/Quality_Ffi.thy ===== *)
theory Quality_Ffi
  imports Ffi_Core Network_Quality
begin

section \<open>The C interface of the network quality\<close>

text \<open>
  Models \<^verbatim>\<open>catcher-http/src/ffi/quality_ffi.rs\<close> and the task of \<open>QualitySubscription\<close>.  One evaluator is
  shared by all calls behind an asynchronous mutex; every \<open>catcher_evaluate_quality\<close> is a task that takes
  the lock, measures, evaluates, releases the lock and calls the host.  A subscription is a box on the
  heap of Rust with a task of its own; the table of live boxes guards their release against pointers
  that the host makes up.  Host threads and tasks interleave; an operation is one atomic step.
\<close>

subsection \<open>What the host is told\<close>

fun level_name :: "network_quality_level \<Rightarrow> string" where
  "level_name Excellent = ''Excellent''"
| "level_name Good = ''Good''"
| "level_name Fair = ''Fair''"
| "level_name Poor = ''Poor''"
| "level_name Bad = ''Bad''"

fun connection_name :: "connection_type \<Rightarrow> string" where
  "connection_name Wifi = ''Wifi''"
| "connection_name Cellular = ''Cellular''"
| "connection_name Ethernet = ''Ethernet''"
| "connection_name Vpn = ''Vpn''"
| "connection_name Unknown = ''Unknown''"

definition result_fields :: "network_quality_result \<Rightarrow> (string \<times> json) list" where
  "result_fields q =
     [(''level'', JStr (level_name (nq_level q))), (''avg_rtt_ms'', JWord (nq_avg_rtt_ms q)),
      (''jitter_ms'', JWord (nq_jitter_ms q)), (''packet_loss_rate'', JFloat (nq_packet_loss_rate q)),
      (''connection_type'', JStr (connection_name (nq_connection_type q)))]"

definition quality_json :: "(catcher_error + u64) \<Rightarrow> network_quality_result \<Rightarrow> json" where
  "quality_json m q =
     JObj (result_fields q @ (case m of Inl e \<Rightarrow> [(''error'', JStr (display e))] | Inr _ \<Rightarrow> []))"

definition history_json :: "rtt_snapshot \<Rightarrow> network_quality_level \<Rightarrow> json" where
  "history_json s l =
     JObj [(''rtt_samples'',
              JObj [(''avg_rtt_ms'', JWord (avg_rtt_ms s)), (''min_rtt_ms'', JWord (min_rtt_ms s)),
                    (''max_rtt_ms'', JWord (max_rtt_ms s)), (''jitter_ms'', JWord (jitter_ms s)),
                    (''sample_count'', JNum (int (sample_count s)))]),
           (''current_level'', JStr (level_name l))]"

definition busy_json :: json where
  "busy_json = JObj [(''rtt_samples'', JNull), (''current_level'', JStr ''busy'')]"

definition change_json :: "quality_event \<Rightarrow> json" where
  "change_json ev =
     JObj [(''level'', JStr (level_name (ev_level ev))),
           (''previous_level'', case ev_previous ev of None \<Rightarrow> JNull | Some p \<Rightarrow> JStr (level_name p)),
           (''trend'', JStr (ev_trend ev)), (''avg_rtt_ms'', JWord (ev_avg_rtt_ms ev)),
           (''jitter_ms'', JWord (ev_jitter_ms ev)), (''sample_count'', JNum (int (ev_sample_count ev)))]"

subsection \<open>State\<close>

datatype eval_phase = EvalQueued | EvalMeasuring | EvalReporting json | EvalCalling | EvalOver

datatype sub_phase = SubLooping | SubReporting json | SubCalling | SubOver

text \<open>
  A task: an evaluation of a host with the caller's data, or a subscription, which also has its own
  evaluator and whether it was aborted.
\<close>

datatype quality_task =
    Evaluation string u64 eval_phase
  | Subscribed string u64 subscription sub_phase bool

text \<open>
  \<open>qf_holder\<close> is the task that holds the lock of the shared evaluator; \<open>qf_boxes\<close> the live boxes with
  the task of each; \<open>qf_freeing\<close> what threads in \<open>catcher_quality_unsubscribe\<close> have taken from the table
  and not yet released.  \<open>qf_measured\<close> records the measurements of the shared evaluator.
\<close>

record quality_ffi =
  qf_evaluator :: evaluator
  qf_holder :: "u64 option"
  qf_tasks :: "u64 \<rightharpoonup> quality_task"
  qf_boxes :: "nat \<rightharpoonup> u64"
  qf_subscriptions :: "nat list"
  qf_freeing :: "nat list"
  qf_heap :: ffi_heap
  qf_log :: "host_event list"
  qf_measured :: "(u64 \<times> head_result) list"

definition quality_ffi_start :: "ffi_heap \<Rightarrow> quality_ffi" where
  "quality_ffi_start h =
     \<lparr>qf_evaluator = nq_new 50, qf_holder = None, qf_tasks = Map.empty, qf_boxes = Map.empty,
      qf_subscriptions = [], qf_freeing = [], qf_heap = h, qf_log = [], qf_measured = []\<rparr>"

definition set_task :: "u64 \<Rightarrow> quality_task \<Rightarrow> quality_ffi \<Rightarrow> quality_ffi" where
  "set_task k t s = s\<lparr>qf_tasks := (qf_tasks s)(k \<mapsto> t)\<rparr>"

definition invoke_quality_callback ::
  "ffi_env \<Rightarrow> string \<Rightarrow> u64 \<Rightarrow> json \<Rightarrow> u64 \<Rightarrow> quality_ffi \<Rightarrow> quality_ffi" where
  "invoke_quality_callback env event_name k js ud s =
     s\<lparr>qf_heap := snd (invoke_callback env event_name js (qf_heap s)),
       qf_log := qf_log s @ [CallBegins k event_name js ud]\<rparr>"

text \<open>The process aborts, or does what the allocator does not define.\<close>

datatype outcome = Proceeds quality_ffi | Aborts | Undefined

subsection \<open>Evaluations\<close>

text \<open>The identifier of a spawned task is the runtime's choice; it never offers one that is in use.\<close>

definition catcher_evaluate_quality :: "u64 \<Rightarrow> string option \<Rightarrow> u64 \<Rightarrow> quality_ffi \<Rightarrow> quality_ffi" where
  "catcher_evaluate_quality k h ud s =
     (if qf_tasks s k \<noteq> None then s
      else set_task k (Evaluation (to_string_lossy h ''https://www.example.com'') ud EvalQueued) s)"

text \<open>
  The steps of its task: the lock, the response of the host, the call.  \<open>EvaluationLocks\<close> is the moment
  at which the task is given the permit of the asynchronous mutex, and \<open>EvalMeasuring\<close> begins there.  The
  mutex gives it to the first waiter when it is released, before that task runs again, so that
  \<open>try_lock\<close> answers busy from then on, as here; that waiters are served in the order of their arrival,
  and that nobody gets in between, is left open.
\<close>

definition evaluation_locks :: "u64 \<Rightarrow> quality_ffi \<Rightarrow> quality_ffi" where
  "evaluation_locks k s =
     (case qf_tasks s k of
        Some (Evaluation h ud EvalQueued) \<Rightarrow>
          if qf_holder s = None
          then set_task k (Evaluation h ud EvalMeasuring) (s\<lparr>qf_holder := Some k\<rparr>) else s
      | _ \<Rightarrow> s)"

definition evaluation_measures :: "u64 \<Rightarrow> head_result \<Rightarrow> quality_ffi \<Rightarrow> quality_ffi" where
  "evaluation_measures k r s =
     (case qf_tasks s k of
        Some (Evaluation h ud EvalMeasuring) \<Rightarrow>
          (case measure_http_rtt h ''/'' r (qf_evaluator s) of
             Panic \<Rightarrow> set_task k (Evaluation h ud EvalOver) (s\<lparr>qf_holder := None\<rparr>)
           | Done (m, e) \<Rightarrow>
               (case evaluate e of (q, e') \<Rightarrow>
                  set_task k (Evaluation h ud (EvalReporting (quality_json m q)))
                    (s\<lparr>qf_evaluator := e', qf_holder := None, qf_measured := qf_measured s @ [(k, r)]\<rparr>)))
      | _ \<Rightarrow> s)"

definition evaluation_reports :: "ffi_env \<Rightarrow> u64 \<Rightarrow> quality_ffi \<Rightarrow> quality_ffi" where
  "evaluation_reports env k s =
     (case qf_tasks s k of
        Some (Evaluation h ud (EvalReporting js)) \<Rightarrow>
          set_task k (Evaluation h ud EvalCalling) (invoke_quality_callback env ''quality_result'' k js ud s)
      | _ \<Rightarrow> s)"

text \<open>\<open>catcher_quality_history\<close>: \<open>try_lock\<close>, and a C string for the caller.\<close>

definition catcher_quality_history :: "ffi_env \<Rightarrow> quality_ffi \<Rightarrow> nat \<times> quality_ffi" where
  "catcher_quality_history env s =
     (let (js, e) = (if qf_holder s = None
                     then (case nq_rtt_snapshot (qf_evaluator s) of (snap, e1) \<Rightarrow>
                            (case evaluate e1 of (q, e2) \<Rightarrow> (history_json snap (nq_level q), e2)))
                     else (busy_json, qf_evaluator s))
      in case into_raw (CStringAlloc (cstring_or_default (fe_text env js))) (qf_heap s) of
           (p, h) \<Rightarrow> (p, s\<lparr>qf_evaluator := e, qf_heap := h\<rparr>))"

subsection \<open>Subscriptions\<close>

text \<open>
  \<open>catcher_quality_subscribe\<close>.  \<open>QualitySubscription::start\<close> spawns on the runtime of the calling thread;
  on a thread without one this panics, and a panic cannot leave an \<open>extern "C"\<close> function.  An interval of
  zero panics inside the task, which is then over.  The address of the box is the allocator's choice: not
  null and not that of a live box.  \<open>Box::into_raw\<close> and the entry into the table are one step: only
  the subscribing thread knows the address before it is entered.
\<close>

definition catcher_quality_subscribe ::
  "bool \<Rightarrow> u64 \<Rightarrow> nat \<Rightarrow> string option \<Rightarrow> 32 word \<Rightarrow> u64 \<Rightarrow> quality_ffi \<Rightarrow> outcome" where
  "catcher_quality_subscribe on_runtime k p h every_ms ud s =
     (if \<not> on_runtime then Aborts
      else if qf_tasks s k \<noteq> None \<or> p = 0 \<or> qf_boxes s p \<noteq> None then Proceeds s
      else Proceeds (set_task k (Subscribed (to_string_lossy h ''https://www.example.com'') ud sub_start
                                   (if every_ms = 0 then SubOver else SubLooping) False)
             (s\<lparr>qf_boxes := (qf_boxes s)(p \<mapsto> k), qf_subscriptions := qf_subscriptions s @ [p]\<rparr>)))"

text \<open>A tick whose measurement ended, the call about it, and the return of a call of either kind.\<close>

definition subscription_measures :: "u64 \<Rightarrow> head_result \<Rightarrow> quality_ffi \<Rightarrow> quality_ffi" where
  "subscription_measures k r s =
     (case qf_tasks s k of
        Some (Subscribed h ud sub SubLooping ab) \<Rightarrow>
          (case quality_tick h r sub of
             Panic \<Rightarrow> set_task k (Subscribed h ud sub SubOver ab) s
           | Done (None, sub') \<Rightarrow> set_task k (Subscribed h ud sub' SubLooping ab) s
           | Done (Some ev, sub') \<Rightarrow> set_task k (Subscribed h ud sub' (SubReporting (change_json ev)) ab) s)
      | _ \<Rightarrow> s)"

definition subscription_reports :: "ffi_env \<Rightarrow> u64 \<Rightarrow> quality_ffi \<Rightarrow> quality_ffi" where
  "subscription_reports env k s =
     (case qf_tasks s k of
        Some (Subscribed h ud sub (SubReporting js) ab) \<Rightarrow>
          set_task k (Subscribed h ud sub SubCalling ab)
            (invoke_quality_callback env ''quality_change'' k js ud s)
      | _ \<Rightarrow> s)"

definition quality_callback_returns :: "u64 \<Rightarrow> quality_ffi \<Rightarrow> quality_ffi" where
  "quality_callback_returns k s =
     (case qf_tasks s k of
        Some (Evaluation h ud EvalCalling) \<Rightarrow>
          set_task k (Evaluation h ud EvalOver) (s\<lparr>qf_log := qf_log s @ [CallEnds k]\<rparr>)
      | Some (Subscribed h ud sub SubCalling ab) \<Rightarrow>
          set_task k (Subscribed h ud sub (if ab then SubOver else SubLooping) ab)
            (s\<lparr>qf_log := qf_log s @ [CallEnds k]\<rparr>)
      | _ \<Rightarrow> s)"

text \<open>
  \<open>catcher_quality_unsubscribe\<close>: the table under its lock, then the box.  \<open>QualitySubscription::unsubscribe\<close>
  aborts the task, which ends it where it waits and lets it run on to its next wait otherwise.
\<close>

definition unsubscribe_removes :: "nat \<Rightarrow> quality_ffi \<Rightarrow> quality_ffi" where
  "unsubscribe_removes p s =
     (if p = 0 \<or> p \<notin> set (qf_subscriptions s) then s
      else s\<lparr>qf_subscriptions := remove1 p (qf_subscriptions s), qf_freeing := p # qf_freeing s\<rparr>)"

definition abort_subscription :: "u64 \<Rightarrow> quality_ffi \<Rightarrow> quality_ffi" where
  "abort_subscription k s =
     (case qf_tasks s k of
        Some (Subscribed h ud sub ph ab) \<Rightarrow>
          set_task k (Subscribed h ud sub (if ph = SubLooping then SubOver else ph) True) s
      | _ \<Rightarrow> s)"

definition unsubscribe_frees :: "nat \<Rightarrow> quality_ffi \<Rightarrow> outcome" where
  "unsubscribe_frees p s =
     (if p \<notin> set (qf_freeing s) then Proceeds s
      else (case qf_boxes s p of
              None \<Rightarrow> Undefined
            | Some k \<Rightarrow>
                Proceeds (abort_subscription k
                  (s\<lparr>qf_freeing := remove1 p (qf_freeing s), qf_boxes := (qf_boxes s)(p := None),
                     qf_log := qf_log s @ [Destroyed k]\<rparr>))))"

subsection \<open>Runs\<close>

datatype quality_op =
    Evaluate u64 "string option" u64
  | EvaluationLocks u64
  | EvaluationMeasures u64 head_result
  | EvaluationReports u64
  | AskHistory
  | Subscribe bool u64 nat "string option" "32 word" u64
  | SubscriptionMeasures u64 head_result
  | SubscriptionReports u64
  | QualityCallbackReturns u64
  | UnsubscribeRemoves nat
  | UnsubscribeFrees nat

fun quality_step :: "ffi_env \<Rightarrow> quality_op \<Rightarrow> quality_ffi \<Rightarrow> outcome" where
  "quality_step env (Evaluate k h ud) s = Proceeds (catcher_evaluate_quality k h ud s)"
| "quality_step env (EvaluationLocks k) s = Proceeds (evaluation_locks k s)"
| "quality_step env (EvaluationMeasures k r) s = Proceeds (evaluation_measures k r s)"
| "quality_step env (EvaluationReports k) s = Proceeds (evaluation_reports env k s)"
| "quality_step env AskHistory s = Proceeds (snd (catcher_quality_history env s))"
| "quality_step env (Subscribe on_runtime k p h iv ud) s = catcher_quality_subscribe on_runtime k p h iv ud s"
| "quality_step env (SubscriptionMeasures k r) s = Proceeds (subscription_measures k r s)"
| "quality_step env (SubscriptionReports k) s = Proceeds (subscription_reports env k s)"
| "quality_step env (QualityCallbackReturns k) s = Proceeds (quality_callback_returns k s)"
| "quality_step env (UnsubscribeRemoves p) s = Proceeds (unsubscribe_removes p s)"
| "quality_step env (UnsubscribeFrees p) s = unsubscribe_frees p s"

fun quality_ffi_run :: "ffi_env \<Rightarrow> quality_op list \<Rightarrow> quality_ffi \<Rightarrow> outcome" where
  "quality_ffi_run env [] s = Proceeds s"
| "quality_ffi_run env (op # ops) s =
     (case quality_step env op s of Proceeds s' \<Rightarrow> quality_ffi_run env ops s' | x \<Rightarrow> x)"

lemma quality_run_invariant:
  assumes "\<And>op s s'. P s \<Longrightarrow> quality_step env op s = Proceeds s' \<Longrightarrow> P s'"
  shows "P s \<Longrightarrow> quality_ffi_run env ops s = Proceeds s' \<Longrightarrow> P s'"
  by (induction ops arbitrary: s) (auto split: outcome.splits intro: assms)

lemma set_task_simps [simp]:
  "qf_evaluator (set_task k t s) = qf_evaluator s" "qf_holder (set_task k t s) = qf_holder s"
  "qf_tasks (set_task k t s) = (qf_tasks s)(k \<mapsto> t)" "qf_boxes (set_task k t s) = qf_boxes s"
  "qf_subscriptions (set_task k t s) = qf_subscriptions s" "qf_freeing (set_task k t s) = qf_freeing s"
  "qf_log (set_task k t s) = qf_log s" "qf_measured (set_task k t s) = qf_measured s"
  by (simp_all add: set_task_def)

lemma invoke_quality_simps [simp]:
  "qf_evaluator (invoke_quality_callback env n k js ud s) = qf_evaluator s"
  "qf_holder (invoke_quality_callback env n k js ud s) = qf_holder s"
  "qf_tasks (invoke_quality_callback env n k js ud s) = qf_tasks s"
  "qf_boxes (invoke_quality_callback env n k js ud s) = qf_boxes s"
  "qf_subscriptions (invoke_quality_callback env n k js ud s) = qf_subscriptions s"
  "qf_freeing (invoke_quality_callback env n k js ud s) = qf_freeing s"
  "qf_log (invoke_quality_callback env n k js ud s) = qf_log s @ [CallBegins k n js ud]"
  "qf_measured (invoke_quality_callback env n k js ud s) = qf_measured s"
  by (simp_all add: invoke_quality_callback_def)

lemma abort_simps [simp]:
  "qf_evaluator (abort_subscription k s) = qf_evaluator s"
  "qf_boxes (abort_subscription k s) = qf_boxes s"
  "qf_subscriptions (abort_subscription k s) = qf_subscriptions s"
  "qf_freeing (abort_subscription k s) = qf_freeing s"
  "qf_log (abort_subscription k s) = qf_log s" "qf_measured (abort_subscription k s) = qf_measured s"
  by (simp_all add: abort_subscription_def split: option.split quality_task.split)

lemma history_simps [simp]:
  "qf_tasks (snd (catcher_quality_history env s)) = qf_tasks s"
  "qf_boxes (snd (catcher_quality_history env s)) = qf_boxes s"
  "qf_subscriptions (snd (catcher_quality_history env s)) = qf_subscriptions s"
  "qf_freeing (snd (catcher_quality_history env s)) = qf_freeing s"
  "qf_log (snd (catcher_quality_history env s)) = qf_log s"
  "qf_measured (snd (catcher_quality_history env s)) = qf_measured s"
  by (simp_all add: catcher_quality_history_def case_prod_unfold Let_def)


lemmas quality_step_splits =
  option.splits quality_task.splits eval_phase.splits sub_phase.splits if_splits

subsection \<open>The boxes\<close>








text \<open>
  A handle may be stale without its address being dead: when the allocator places a second subscription
  where the first one was, unsubscribing the first a second time ends the second.
\<close>

theorem stale_unsubscribe_ends_another:
  assumes "p \<noteq> 0" and "k \<noteq> j" and "iv \<noteq> 0"
  shows "\<exists>s t. quality_ffi_run env [Subscribe True k p h iv ud, UnsubscribeRemoves p, UnsubscribeFrees p,
        Subscribe True j p h iv ud] (quality_ffi_start hp) = Proceeds s \<and>
      qf_tasks s j = Some (Subscribed (to_string_lossy h ''https://www.example.com'') ud sub_start SubLooping False) \<and>
      quality_ffi_run env [UnsubscribeRemoves p, UnsubscribeFrees p] s = Proceeds t \<and>
      qf_tasks t j = Some (Subscribed (to_string_lossy h ''https://www.example.com'') ud sub_start SubOver True)"
  using assms
  by (auto simp: catcher_quality_subscribe_def quality_ffi_start_def unsubscribe_removes_def
      unsubscribe_frees_def abort_subscription_def set_task_def)

theorem stale_unsubscribe_ends_another_witness:
  "\<exists>s. quality_ffi_run plain_ffi_env [Subscribe True 1 8 None 5 0, UnsubscribeRemoves 8, UnsubscribeFrees 8,
        Subscribe True 2 8 None 5 0] (quality_ffi_start \<lparr>fh_cells = Map.empty, fh_next = 1\<rparr>) = Proceeds s"
  using stale_unsubscribe_ends_another [where p = 8 and k = 1 and j = 2 and iv = 5 and env = plain_ffi_env and h = None and ud = 0
      and hp = "\<lparr>fh_cells = Map.empty, fh_next = 1\<rparr>"]
  by auto

subsection \<open>Callbacks of a subscription\<close>

text \<open>
  The calls of a subscription and its last possible one: its calls are the changes of a run of the
  monitor over what it measured, in order, where the last change may still be on its way; after the
  unsubscription no measurement starts.
\<close>

definition change_call :: "quality_event \<Rightarrow> string \<times> json" where
  "change_call ev = (''quality_change'', change_json ev)"

fun on_its_way :: "sub_phase \<Rightarrow> (string \<times> json) list" where
  "on_its_way (SubReporting js) = [(''quality_change'', js)]"
| "on_its_way _ = []"

text \<open>The responses that the task \<open>k\<close> measures in a run, as the operations give them.\<close>

definition looping :: "u64 \<Rightarrow> quality_ffi \<Rightarrow> bool" where
  "looping k s \<longleftrightarrow>
     (case qf_tasks s k of Some (Subscribed _ _ _ SubLooping _) \<Rightarrow> True | _ \<Rightarrow> False)"

fun taken_now :: "quality_op \<Rightarrow> quality_ffi \<Rightarrow> u64 \<Rightarrow> head_result list" where
  "taken_now (SubscriptionMeasures j r) s k = (if j = k \<and> looping k s then [r] else [])"
| "taken_now _ s k = []"

fun taken :: "ffi_env \<Rightarrow> u64 \<Rightarrow> quality_op list \<Rightarrow> quality_ffi \<Rightarrow> head_result list" where
  "taken env k [] s = []"
| "taken env k (op # ops) s =
     taken_now op s k @ (case quality_step env op s of Proceeds s' \<Rightarrow> taken env k ops s' | _ \<Rightarrow> [])"

definition monitored ::
  "string \<Rightarrow> head_result list \<Rightarrow> subscription \<Rightarrow> (string \<times> json) list \<Rightarrow> bool" where
  "monitored h rs sub cs \<longleftrightarrow>
     (\<exists>evs. quality_run h rs sub_start = Done (evs, sub) \<and> map change_call evs = cs)"

fun sub_ok :: "u64 \<Rightarrow> host_event list \<Rightarrow> head_result list \<Rightarrow> quality_task option \<Rightarrow> bool" where
  "sub_ok k l rs None = (rs = [] \<and> calls_for k l = [] \<and> Destroyed k \<notin> set l \<and> late k l = 0)"
| "sub_ok k l rs (Some (Evaluation _ _ _)) = (Destroyed k \<notin> set l \<and> late k l = 0)"
| "sub_ok k l rs (Some (Subscribed h _ sub ph ab)) =
     ((ab \<longleftrightarrow> Destroyed k \<in> set l) \<and> (ab \<longrightarrow> ph \<noteq> SubLooping) \<and> (\<not> ab \<longrightarrow> late k l = 0) \<and>
      late k l + length (on_its_way ph) \<le> 1 \<and>
      monitored h rs sub (calls_for k l @ on_its_way ph))"

fun subscribed :: "quality_task option \<Rightarrow> bool" where
  "subscribed (Some (Subscribed _ _ _ _ _)) = True"
| "subscribed _ = False"

definition subs_ok :: "(u64 \<Rightarrow> head_result list) \<Rightarrow> quality_ffi \<Rightarrow> bool" where
  "subs_ok ms s \<longleftrightarrow> (\<forall>k. sub_ok k (qf_log s) (ms k) (qf_tasks s k)) \<and>
     (\<forall>p k. qf_boxes s p = Some k \<longrightarrow> subscribed (qf_tasks s k))"

lemma quality_run_snoc:
  "quality_run h rs sub = Done (evs, sub') \<Longrightarrow>
     quality_run h (rs @ [r]) sub =
       (case quality_tick h r sub' of
          Panic \<Rightarrow> Panic
        | Done (ev, sub'') \<Rightarrow> Done (evs @ (case ev of None \<Rightarrow> [] | Some x \<Rightarrow> [x]), sub''))"
  by (induction rs arbitrary: sub evs) (auto split: exec.splits option.splits)

lemma log_of_others:
  "k \<noteq> j \<Longrightarrow> sub_ok k (l @ [CallBegins j n js ud]) rs t = sub_ok k l rs t"
  "sub_ok k (l @ [CallEnds j]) rs t = sub_ok k l rs t"
  "k \<noteq> j \<Longrightarrow> sub_ok k (l @ [Destroyed j]) rs t = sub_ok k l rs t"
  by (cases "(k, l, rs, t)" rule: sub_ok.cases; simp add: late_append)+

text \<open>A step of one task: the task after it, and the events of that task that it adds to the log.\<close>

fun concerns :: "u64 \<Rightarrow> host_event \<Rightarrow> bool" where
  "concerns k (CallBegins j _ _ _) = (k = j)"
| "concerns k (CallEnds j) = (k = j)"
| "concerns k (Destroyed j) = (k = j)"

lemma sub_ok_others:
  assumes "list_all (concerns j) es" and "k \<noteq> j"
  shows "sub_ok k (l @ es) rs t = sub_ok k l rs t"
  using assms(1)
proof (induction es rule: rev_induct)
  case (snoc e es)
  with assms(2) show ?case
    by (cases e; simp add: log_of_others del: append_assoc sub_ok.simps flip: append_assoc)
qed simp

lemma subs_touch:
  assumes "subs_ok ms s" and "qf_tasks s' = (qf_tasks s)(k \<mapsto> t)" and "qf_log s' = qf_log s @ es"
    and "list_all (concerns k) es" and "\<And>j. j \<noteq> k \<Longrightarrow> ms' j = ms j"
    and "sub_ok k (qf_log s @ es) (ms' k) (Some t)"
    and "subscribed (qf_tasks s k) \<longrightarrow> subscribed (Some t)"
    and "\<And>p j. qf_boxes s' p = Some j \<Longrightarrow> qf_boxes s p = Some j \<or> j = k \<and> subscribed (Some t)"
  shows "subs_ok ms' s'"
  using assms unfolding subs_ok_def by (metis fun_upd_apply sub_ok_others)

lemma subs_same:
  assumes "subs_ok ms s" and "qf_tasks s' = qf_tasks s" and "qf_log s' = qf_log s" and "qf_boxes s' = qf_boxes s"
  shows "subs_ok ms s'"
  using assms by (simp add: subs_ok_def)

lemma subs_ok_at: "subs_ok ms s \<Longrightarrow> qf_tasks s k = t \<Longrightarrow> sub_ok k (qf_log s) (ms k) t"
  by (auto simp: subs_ok_def)

text \<open>The steps that touch one task, each with the task before and after.\<close>

lemma monitored_measure:
  assumes "monitored h rs sub cs"
  shows "\<exists>ev sub'. quality_tick h r sub = Done (ev, sub') \<and>
    monitored h (rs @ [r]) sub' (cs @ (case ev of None \<Rightarrow> [] | Some x \<Rightarrow> [change_call x]))"
proof -
  from assms obtain evs where run: "quality_run h rs sub_start = Done (evs, sub)"
    and calls: "map change_call evs = cs" by (auto simp: monitored_def)
  from quality_run_chain [of sub_start h "rs @ [r]"] obtain evs2 sub2 where
    "quality_run h (rs @ [r]) sub_start = Done (evs2, sub2)"
    by (auto simp: sub_start_def nq_inv_def nq_new_def)
  with quality_run_snoc [OF run, of r] obtain ev sub' where q: "quality_tick h r sub = Done (ev, sub')"
    by (auto split: exec.splits)
  with quality_run_snoc [OF run, of r]
  have "quality_run h (rs @ [r]) sub_start = Done (evs @ (case ev of None \<Rightarrow> [] | Some x \<Rightarrow> [x]), sub')" by simp
  moreover have "map change_call (evs @ (case ev of None \<Rightarrow> [] | Some x \<Rightarrow> [x])) =
      cs @ (case ev of None \<Rightarrow> [] | Some x \<Rightarrow> [change_call x])"
    using calls by (simp split: option.split)
  ultimately show ?thesis using q unfolding monitored_def by blast
qed

lemma measured_ok:
  assumes "sub_ok k l rs (Some (Subscribed h ud sub SubLooping ab))"
  shows "\<exists>ev sub'. quality_tick h r sub = Done (ev, sub') \<and>
    sub_ok k l (rs @ [r]) (Some (Subscribed h ud sub'
           (case ev of None \<Rightarrow> SubLooping | Some x \<Rightarrow> SubReporting (change_json x)) ab))"
proof -
  have m: "monitored h rs sub (calls_for k l)" using assms by simp
  then obtain ev sub' where q: "quality_tick h r sub = Done (ev, sub')"
    "monitored h (rs @ [r]) sub' (calls_for k l @ (case ev of None \<Rightarrow> [] | Some x \<Rightarrow> [change_call x]))"
    using monitored_measure by blast
  with assms show ?thesis by (cases ev) (auto simp: change_call_def)
qed

lemma reported_ok:
  "sub_ok k l rs (Some (Subscribed h ud sub (SubReporting js) ab)) \<Longrightarrow>
     sub_ok k (l @ [CallBegins k ''quality_change'' js ud]) rs (Some (Subscribed h ud sub SubCalling ab))"
  by (auto simp: late_append)

lemma aborted_ok:
  "sub_ok k l rs (Some (Subscribed h ud sub ph ab)) \<Longrightarrow>
     sub_ok k (l @ [Destroyed k]) rs (Some (Subscribed h ud sub (if ph = SubLooping then SubOver else ph) True))"
  by (cases "ph = SubLooping") (auto simp: late_append)

lemma subs_step_same:
  assumes ok: "subs_ok ms s" and step: "quality_step env op s = Proceeds s'"
    and other: "\<nexists>k r. op = SubscriptionMeasures k r"
  shows "subs_ok ms s'"
proof -
  note at = subs_ok_at [OF ok]
  note subs_touch = subs_touch [where ms = ms and ms' = ms]
  show ?thesis
  proof (cases op)
    case (SubscriptionMeasures k r)
    with other show ?thesis by blast
  next
    case (SubscriptionReports k)
    show ?thesis
    proof (cases "\<exists>h ud sub js ab. qf_tasks s k = Some (Subscribed h ud sub (SubReporting js) ab)")
      case True
      then obtain h ud sub js ab where t: "qf_tasks s k = Some (Subscribed h ud sub (SubReporting js) ab)" by blast
      from reported_ok [OF at [OF t]] t step SubscriptionReports show ?thesis
        by (intro subs_touch [OF ok]) (auto simp: subscription_reports_def simp del: sub_ok.simps)
    next
      case False
      with step SubscriptionReports have "s' = s"
        by (auto simp: subscription_reports_def split: option.splits quality_task.splits sub_phase.splits)
      with ok show ?thesis by simp
    qed
  next
    case (Evaluate k h ud)
    have "subs_ok ms (set_task k (Evaluation g ud EvalQueued) s)" if "qf_tasks s k = None" for g
      using at [OF that] that by (intro subs_touch [OF ok, where es = "[]"]) auto
    with ok step Evaluate show ?thesis by (auto simp: catcher_evaluate_quality_def)
  next
    case (EvaluationLocks k)
    have "subs_ok ms (set_task k (Evaluation h ud EvalMeasuring) (s\<lparr>qf_holder := Some k\<rparr>))"
      if "qf_tasks s k = Some (Evaluation h ud EvalQueued)" for h ud
      using at [OF that] that by (intro subs_touch [OF ok, where es = "[]"]) auto
    with ok step EvaluationLocks show ?thesis
      by (auto simp: evaluation_locks_def split: option.splits quality_task.splits eval_phase.splits if_splits)
  next
    case (EvaluationMeasures k r)
    have "subs_ok ms (set_task k (Evaluation h ud ph) t)"
      if "qf_tasks s k = Some (Evaluation h ud EvalMeasuring)" "qf_tasks t = qf_tasks s" "qf_log t = qf_log s"
        "qf_boxes t = qf_boxes s" for h ud ph t
      using at [OF that(1)] that by (intro subs_touch [OF ok, where es = "[]"]) auto
    with ok step EvaluationMeasures show ?thesis
      by (auto simp: evaluation_measures_def split: option.splits quality_task.splits eval_phase.splits
          exec.splits prod.splits)
  next
    case (EvaluationReports k)
    have "subs_ok ms (set_task k (Evaluation h ud EvalCalling) (invoke_quality_callback env ''quality_result'' k js ud s))"
      if "qf_tasks s k = Some (Evaluation h ud (EvalReporting js))" for h ud js
      using at [OF that] that by (intro subs_touch [OF ok]) (auto simp: late_append)
    with ok step EvaluationReports show ?thesis
      by (auto simp: evaluation_reports_def split: option.splits quality_task.splits eval_phase.splits)
  next
    case AskHistory
    with step show ?thesis by (auto intro!: subs_same [OF ok])
  next
    case (Subscribe on_runtime k p h iv ud)
    have "subs_ok ms (set_task k (Subscribed g ud sub_start ph False)
        (s\<lparr>qf_boxes := (qf_boxes s)(p \<mapsto> k), qf_subscriptions := qf_subscriptions s @ [p]\<rparr>))"
      if "qf_tasks s k = None" "ph = SubOver \<or> ph = SubLooping" for g ph
      using at [OF that(1)] that by (intro subs_touch [OF ok, where es = "[]"])
        (auto simp: monitored_def intro!: exI [of _ "[]"] split: if_splits)
    with ok step Subscribe show ?thesis
      by (auto simp: catcher_quality_subscribe_def split: if_splits)
  next
    case (QualityCallbackReturns k)
    have "subs_ok ms (set_task k (Evaluation h ud EvalOver) (s\<lparr>qf_log := qf_log s @ [CallEnds k]\<rparr>))"
      if "qf_tasks s k = Some (Evaluation h ud EvalCalling)" for h ud
      using at [OF that] that by (intro subs_touch [OF ok]) (auto simp: late_append)
    moreover have "subs_ok ms (set_task k (Subscribed h ud sub (if ab then SubOver else SubLooping) ab)
        (s\<lparr>qf_log := qf_log s @ [CallEnds k]\<rparr>))"
      if "qf_tasks s k = Some (Subscribed h ud sub SubCalling ab)" for h ud sub ab
      using at [OF that] that by (intro subs_touch [OF ok]) (auto simp: late_append)
    ultimately show ?thesis using ok step QualityCallbackReturns
      by (auto simp: quality_callback_returns_def split: option.splits quality_task.splits eval_phase.splits
          sub_phase.splits)
  next
    case (UnsubscribeRemoves p)
    with step show ?thesis by (auto simp: unsubscribe_removes_def intro!: subs_same [OF ok] split: if_splits)
  next
    case (UnsubscribeFrees p)
    have "subs_ok ms (abort_subscription k (s\<lparr>qf_freeing := fr, qf_boxes := (qf_boxes s)(p := None),
        qf_log := qf_log s @ [Destroyed k]\<rparr>))" if p: "qf_boxes s p = Some k" for k fr
    proof -
      have "subscribed (qf_tasks s k)" using ok p by (auto simp: subs_ok_def)
      then obtain h ud sub ph ab where t: "qf_tasks s k = Some (Subscribed h ud sub ph ab)"
        by (auto elim: subscribed.elims)
      from aborted_ok [OF at [OF t]] t show ?thesis
        by (intro subs_touch [OF ok]) (auto simp: abort_subscription_def simp del: sub_ok.simps split: if_splits)
    qed
    with ok step UnsubscribeFrees show ?thesis
      by (auto simp: unsubscribe_frees_def split: if_splits option.splits)
  qed
qed

lemma subs_step:
  assumes ok: "subs_ok ms s" and step: "quality_step env op s = Proceeds s'"
  shows "subs_ok (\<lambda>k. ms k @ taken_now op s k) s'"
proof (cases "\<exists>k r. op = SubscriptionMeasures k r \<and> looping k s")
  case True
  then obtain k r where op: "op = SubscriptionMeasures k r" and l: "looping k s" by blast
  from l obtain h ud sub ab where t: "qf_tasks s k = Some (Subscribed h ud sub SubLooping ab)"
    by (auto simp: looping_def split: option.splits quality_task.splits sub_phase.splits)
  from measured_ok [OF subs_ok_at [OF ok t], of r] obtain ev sub' where
    q: "quality_tick h r sub = Done (ev, sub')" and
    now: "sub_ok k (qf_log s) (ms k @ [r]) (Some (Subscribed h ud sub'
      (case ev of None \<Rightarrow> SubLooping | Some x \<Rightarrow> SubReporting (change_json x)) ab))" by blast
  have "looping k s" using t by (simp add: looping_def)
  with t q step op now show ?thesis
    by (intro subs_touch [OF ok, where es = "[]" and k = k])
      (auto simp: subscription_measures_def simp del: sub_ok.simps split: option.splits)
next
  case False
  then have "taken_now op s k = []" for k by (cases op) auto
  moreover have "subs_ok ms s'"
  proof (cases "\<exists>k r. op = SubscriptionMeasures k r")
    case True
    with False step have "s' = s"
      by (auto simp: subscription_measures_def looping_def
        split: option.splits quality_task.splits sub_phase.splits)
    with ok show ?thesis by simp
  qed (use subs_step_same [OF ok step] in blast)
  ultimately show ?thesis by simp
qed

lemma subs_run_from:
  "subs_ok ms s \<Longrightarrow> quality_ffi_run env ops s = Proceeds s' \<Longrightarrow> subs_ok (\<lambda>k. ms k @ taken env k ops s) s'"
proof (induction ops arbitrary: ms s)
  case (Cons op ops)
  then obtain s1 where s1: "quality_step env op s = Proceeds s1" "quality_ffi_run env ops s1 = Proceeds s'"
    by (auto split: outcome.splits)
  from Cons.IH [OF subs_step [OF Cons.prems(1) s1(1)] s1(2)] s1(1) show ?case by simp
qed simp

lemma subs_run:
  assumes "quality_ffi_run env ops (quality_ffi_start h) = Proceeds s"
  shows "subs_ok (\<lambda>k. taken env k ops (quality_ffi_start h)) s"
proof -
  have "subs_ok (\<lambda>_. []) (quality_ffi_start h)" by (simp add: subs_ok_def quality_ffi_start_def)
  from subs_run_from [OF this assms] show ?thesis by simp
qed

text \<open>
  C33. What a subscription tells the host, in every interleaving with other subscriptions, evaluations and
  unsubscriptions: the task of the subscription is in the state of a monitor that has seen exactly the
  responses measured for it in this run, in order, and its calls are the level changes of that monitor,
  in order and each told once, at most the last still on its way.  So consecutive calls never carry
  the same level, and each names the level before it and the right trend.
\<close>

theorem quality_calls_are_changes:
  assumes "quality_ffi_run env ops (quality_ffi_start hp) = Proceeds s"
    and "qf_tasks s k = Some (Subscribed h ud sub ph ab)"
  shows "\<exists>evs. quality_run h (taken env k ops (quality_ffi_start hp)) sub_start = Done (evs, sub) \<and>
    calls_for k (qf_log s) @ on_its_way ph = map change_call evs \<and> change_chain None evs"
proof -
  from subs_ok_at [OF subs_run [OF assms(1)] assms(2)]
  obtain evs where run: "quality_run h (taken env k ops (quality_ffi_start hp)) sub_start = Done (evs, sub)"
    and calls: "map change_call evs = calls_for k (qf_log s) @ on_its_way ph" by (auto simp: monitored_def)
  have "change_chain None evs"
    using quality_run_chain [of sub_start h "taken env k ops (quality_ffi_start hp)"] run
    by (simp add: sub_start_def nq_inv_def nq_new_def)
  with run calls show ?thesis by metis
qed

definition empty_ffi_heap :: ffi_heap where
  "empty_ffi_heap = \<lparr>fh_cells = Map.empty, fh_next = 1\<rparr>"

text \<open>Two subscriptions measure by turns; the first one sees its level change and tells it.\<close>

definition two_monitors :: "quality_op list" where
  "two_monitors = [Subscribe True 1 8 None 5 0, Subscribe True 2 9 None 5 0,
     SubscriptionMeasures 1 (Responded 200 30), SubscriptionMeasures 2 (Responded 200 900),
     SubscriptionReports 1, SubscriptionMeasures 1 (Responded 200 5), QualityCallbackReturns 1,
     SubscriptionMeasures 1 (Responded 200 2000)]"

lemma two_levels:
  "(case quality_run ''https://www.example.com'' [Responded 200 30, Responded 200 2000] sub_start of
      Done (evs, sub) \<Rightarrow> map ev_level evs = [Excellent, Bad] | Panic \<Rightarrow> False)"
  by code_simp

theorem quality_calls_are_changes_witness:
  "\<exists>s sub ph ab evs.
     quality_ffi_run plain_ffi_env two_monitors (quality_ffi_start empty_ffi_heap) = Proceeds s \<and>
     qf_tasks s 1 = Some (Subscribed ''https://www.example.com'' 0 sub ph ab) \<and>
     taken plain_ffi_env 1 two_monitors (quality_ffi_start empty_ffi_heap) = [Responded 200 30, Responded 200 2000] \<and>
     quality_run ''https://www.example.com'' [Responded 200 30, Responded 200 2000] sub_start = Done (evs, sub) \<and>
     calls_for 1 (qf_log s) @ on_its_way ph = map change_call evs \<and> map ev_level evs = [Excellent, Bad]"
proof -
  let ?h = "''https://www.example.com''"
  from two_levels obtain ev1 sub1 ev2 sub2 where
    q: "quality_tick ?h (Responded 200 30) sub_start = Done (Some ev1, sub1)"
      "quality_tick ?h (Responded 200 2000) sub1 = Done (Some ev2, sub2)"
    and l: "ev_level ev1 = Excellent" "ev_level ev2 = Bad"
    by (auto split: exec.splits option.splits)
  obtain ev sub where q2: "quality_tick ?h (Responded 200 900) sub_start = Done (Some ev, sub)"
    by (simp add: quality_tick_def measure_http_rtt_def is_success_status_def record_rtt_def sub_start_def nq_new_def
        evaluate_def case_prod_unfold Let_def)
  note run = two_monitors_def catcher_quality_subscribe_def quality_ffi_start_def to_string_lossy_def
    subscription_measures_def subscription_reports_def quality_callback_returns_def looping_def q q2
  obtain s where s: "quality_ffi_run plain_ffi_env two_monitors (quality_ffi_start empty_ffi_heap) = Proceeds s"
    and t: "qf_tasks s 1 = Some (Subscribed ?h 0 sub2 (SubReporting (change_json ev2)) False)"
    by (simp add: run)
  have tk: "taken plain_ffi_env 1 two_monitors (quality_ffi_start empty_ffi_heap) =
      [Responded 200 30, Responded 200 2000]"
    by (simp add: run)
  from quality_calls_are_changes [OF s t] obtain evs where e:
    "quality_run ?h [Responded 200 30, Responded 200 2000] sub_start = Done (evs, sub2)"
    "calls_for 1 (qf_log s) @ on_its_way (SubReporting (change_json ev2)) = map change_call evs"
    unfolding tk by blast
  moreover have "map ev_level evs = [Excellent, Bad]" using e(1) q l by auto
  ultimately show ?thesis using s t tk
    by (intro exI [of _ s] exI [of _ sub2] exI [of _ "SubReporting (change_json ev2)"] exI [of _ False]
      exI [of _ evs] conjI) assumption+
qed

text \<open>
  After \<open>catcher_quality_unsubscribe\<close> has ended a subscription at most one more callback of it
  begins, in every interleaving: the one whose measurement had already ended.
\<close>

theorem unsubscribed_at_most_one_late_call:
  assumes "quality_ffi_run env ops (quality_ffi_start h) = Proceeds s"
    and "qf_log s = xs @ Destroyed k # ys"
  shows "begins k ys \<le> 1"
proof -
  have "late k (qf_log s) \<le> 1"
    using subs_ok_at [OF subs_run [OF assms(1)] refl, of k]
    by (cases "(k, qf_log s, taken env k ops (quality_ffi_start h), qf_tasks s k)" rule: sub_ok.cases) auto
  with late_split [of k ys xs] assms(2) show ?thesis by simp
qed

theorem unsubscribed_at_most_one_late_call_witness:
  "\<exists>s. quality_ffi_run plain_ffi_env
      [Subscribe True 1 8 None 5 0, SubscriptionMeasures 1 (Responded 200 30), UnsubscribeRemoves 8, UnsubscribeFrees 8,
       SubscriptionReports 1] (quality_ffi_start empty_ffi_heap) = Proceeds s \<and>
     (\<exists>js. qf_log s = [Destroyed 1, CallBegins 1 ''quality_change'' js 0] \<and>
           begins 1 [CallBegins 1 ''quality_change'' js 0] \<le> 1)"
proof -
  obtain ev sub where q: "quality_tick ''https://www.example.com'' (Responded 200 30) sub_start = Done (Some ev, sub)"
    by (simp add: quality_tick_def measure_http_rtt_def is_success_status_def record_rtt_def sub_start_def nq_new_def
        evaluate_def case_prod_unfold Let_def)
  obtain s where r: "quality_ffi_run plain_ffi_env
      [Subscribe True 1 8 None 5 0, SubscriptionMeasures 1 (Responded 200 30), UnsubscribeRemoves 8, UnsubscribeFrees 8,
       SubscriptionReports 1] (quality_ffi_start empty_ffi_heap) = Proceeds s"
    and l: "qf_log s = [] @ Destroyed 1 # [CallBegins 1 ''quality_change'' (change_json ev) 0]"
    using q by (simp add: catcher_quality_subscribe_def quality_ffi_start_def to_string_lossy_def set_task_def
        subscription_measures_def unsubscribe_removes_def unsubscribe_frees_def abort_subscription_def
        subscription_reports_def)
  from unsubscribed_at_most_one_late_call [OF r l] r l show ?thesis by auto
qed

subsection \<open>Evaluations share one window\<close>

text \<open>The reference: what a measurement returns, the samples among measurements, and the quality of a window.\<close>

definition reached :: "head_result \<Rightarrow> u64 list" where
  "reached r = (case r of NoResponse _ \<Rightarrow> []
     | Responded st rtt \<Rightarrow> if is_success_status st \<or> st = 404 then [rtt] else [])"

definition measured :: "string \<Rightarrow> head_result \<Rightarrow> catcher_error + u64" where
  "measured h r = (case r of
       NoResponse msg \<Rightarrow> Inl (Internal (''HEAD '' @ h @ ''/'' @ '': '' @ msg))
     | Responded st rtt \<Rightarrow> if is_success_status st \<or> st = 404 then Inr rtt else Inl (HttpError st []))"

definition samples :: "(u64 \<times> head_result) list \<Rightarrow> u64 list" where
  "samples ms = concat (map (\<lambda>(_, r). reached r) ms)"

definition window_snapshot :: "u64 list \<Rightarrow> rtt_snapshot" where
  "window_snapshot ws = (if ws = [] then default_rtt_snapshot else snapshot_of ws)"

definition quality_of :: "u64 list \<Rightarrow> network_quality_result" where
  "quality_of ws = (let s = window_snapshot ws in
     \<lparr>nq_level = classify_quality s, nq_avg_rtt_ms = avg_rtt_ms s, nq_jitter_ms = jitter_ms s,
      nq_packet_loss_rate = packet_loss_rate s, nq_connection_type = Unknown\<rparr>)"

definition report_after :: "string \<Rightarrow> (u64 \<times> head_result) list \<Rightarrow> head_result \<Rightarrow> json" where
  "report_after h ms r = quality_json (measured h r) (quality_of (last_n 50 (samples ms)))"

lemma samples_snoc [simp]: "samples (ms @ [(k, r)]) = samples ms @ reached r"
  by (simp add: samples_def)

definition window_is :: "u64 list \<Rightarrow> evaluator \<Rightarrow> bool" where
  "window_is xs e \<longleftrightarrow> nq_inv e \<and> nq_window_size e = 50 \<and> connection_type e = Unknown \<and>
     sliding_window e = last_n 50 xs"

lemma record_window:
  assumes "window_is xs e"
  shows "\<exists>e'. record_rtt e rtt = Done e' \<and> window_is (xs @ [rtt]) e'"
proof -
  have "last_n 50 xs = [] \<longleftrightarrow> xs = []" using length_last_n [of 50 xs] by (simp flip: length_0_conv del: length_last_n add: length_last_n min_def split: if_splits)
  with assms show ?thesis by (auto simp: window_is_def record_rtt_def nq_inv_def Let_def last_n_snoc)
qed

lemma measure_window:
  assumes "window_is xs e"
  shows "\<exists>e'. measure_http_rtt h ''/'' r e = Done (measured h r, e') \<and> window_is (xs @ reached r) e'"
proof (cases r)
  case (Responded st rtt)
  obtain e' where "record_rtt e rtt = Done e'" "window_is (xs @ [rtt]) e'"
    using record_window [OF assms] by blast
  with Responded assms show ?thesis
    by (cases "is_success_status st \<or> st = 404") (simp_all add: measure_http_rtt_def measured_def reached_def)
qed (use assms in \<open>simp add: measure_http_rtt_def measured_def reached_def\<close>)

lemma snapshot_window:
  assumes "window_is xs e"
  shows "fst (nq_rtt_snapshot e) = window_snapshot (last_n 50 xs) \<and> window_is xs (snd (nq_rtt_snapshot e))"
  using assms by (auto simp: window_is_def nq_rtt_snapshot_def nq_inv_def window_snapshot_def Let_def)

lemma evaluate_window:
  assumes "window_is xs e"
  shows "\<exists>e'. evaluate e = (quality_of (last_n 50 xs), e') \<and> window_is xs e'"
  using snapshot_window [OF assms]
  by (auto simp: evaluate_def case_prod_unfold quality_of_def Let_def window_is_def)

text \<open>What an evaluation has told or is about to tell.\<close>

definition reported :: "u64 \<Rightarrow> string \<Rightarrow> (u64 \<times> head_result) list \<Rightarrow> json \<Rightarrow> bool" where
  "reported k h ms js \<longleftrightarrow>
     (\<exists>pre r suf. ms = pre @ (k, r) # suf \<and> js = report_after h (pre @ [(k, r)]) r)"

lemma reported_snoc: "reported k h ms js \<Longrightarrow> reported k h (ms @ [x]) js"
  by (fastforce simp: reported_def)

lemma reported_now: "reported k h (ms @ [(k, r)]) (report_after h (ms @ [(k, r)]) r)"
  by (auto simp: reported_def)

fun eval_ok :: "u64 \<Rightarrow> host_event list \<Rightarrow> (u64 \<times> head_result) list \<Rightarrow> quality_task option \<Rightarrow> bool" where
  "eval_ok k l ms None = (calls_for k l = [])"
| "eval_ok k l ms (Some (Subscribed _ _ _ _ _)) = True"
| "eval_ok k l ms (Some (Evaluation h _ ph)) =
     (case ph of
        EvalQueued \<Rightarrow> calls_for k l = []
      | EvalMeasuring \<Rightarrow> calls_for k l = []
      | EvalReporting js \<Rightarrow> calls_for k l = [] \<and> reported k h ms js
      | _ \<Rightarrow> (\<exists>js. reported k h ms js \<and> calls_for k l = [(''quality_result'', js)]))"

definition measuring :: "quality_ffi \<Rightarrow> u64 \<Rightarrow> bool" where
  "measuring s k \<longleftrightarrow> (\<exists>h ud. qf_tasks s k = Some (Evaluation h ud EvalMeasuring))"

definition evals_ok :: "quality_ffi \<Rightarrow> bool" where
  "evals_ok s \<longleftrightarrow> window_is (samples (qf_measured s)) (qf_evaluator s) \<and>
     (\<forall>k. qf_holder s = Some k \<longleftrightarrow> measuring s k) \<and>
     (\<forall>k. eval_ok k (qf_log s) (qf_measured s) (qf_tasks s k))"

lemma eval_ok_others:
  assumes "list_all (concerns j) es" and "k \<noteq> j"
  shows "eval_ok k (l @ es) ms t = eval_ok k l ms t"
proof -
  have "calls_for k es = []" using assms(1)
  proof (induction es)
    case (Cons e es)
    then show ?case using assms(2) by (cases e) auto
  qed simp
  then show ?thesis by (cases "(k, l, ms, t)" rule: eval_ok.cases; simp split: eval_phase.split)
qed

lemma eval_ok_measured: "eval_ok k l ms t \<Longrightarrow> eval_ok k l (ms @ [x]) t"
  by (cases "(k, l, ms, t)" rule: eval_ok.cases) (auto dest: reported_snoc split: eval_phase.splits)

lemma evals_touch:
  assumes "evals_ok s" and "qf_tasks s' = (qf_tasks s)(k \<mapsto> t)" and "qf_log s' = qf_log s @ es"
    and "list_all (concerns k) es" and "qf_measured s' = qf_measured s" and "qf_evaluator s' = qf_evaluator s"
    and "eval_ok k (qf_log s @ es) (qf_measured s) (Some t)"
    and "qf_holder s' = qf_holder s" and "measuring s' k \<longleftrightarrow> measuring s k"
  shows "evals_ok s'"
proof -
  have "measuring s' j \<longleftrightarrow> measuring s j" for j
    using assms(2,9) by (cases "j = k") (auto simp: measuring_def)
  then show ?thesis using assms unfolding evals_ok_def
    by (auto simp: eval_ok_others)
qed

lemma eval_ok_calls: "calls_for k l' = calls_for k l \<Longrightarrow> eval_ok k l' ms t = eval_ok k l ms t"
  by (cases "(k, l, ms, t)" rule: eval_ok.cases) (auto split: eval_phase.split)

lemma evals_keep:
  assumes "evals_ok s"
    and "\<And>j. qf_tasks s' j = qf_tasks s j \<and> calls_for j (qf_log s') = calls_for j (qf_log s) \<or>
       subscribed (qf_tasks s' j) \<and> (qf_tasks s j = None \<or> subscribed (qf_tasks s j))"
    and "qf_measured s' = qf_measured s" and "qf_holder s' = qf_holder s"
    and "window_is (samples (qf_measured s)) (qf_evaluator s')"
  shows "evals_ok s'"
proof -
  have "measuring s' j \<longleftrightarrow> measuring s j" for j
    using assms(2) [of j] unfolding measuring_def by (metis option.distinct(1) subscribed.simps(3))
  moreover have "eval_ok j (qf_log s') (qf_measured s) (qf_tasks s' j)" for j
  proof (cases "qf_tasks s' j = qf_tasks s j \<and> calls_for j (qf_log s') = calls_for j (qf_log s)")
    case True
    with assms(1) show ?thesis by (simp add: evals_ok_def eval_ok_calls [of j _ "qf_log s"])
  next
    case False
    with assms(2) [of j] show ?thesis by (auto elim: subscribed.elims)
  qed
  ultimately show ?thesis using assms by (simp add: evals_ok_def)
qed

lemma evals_at: "evals_ok s \<Longrightarrow> qf_tasks s k = t \<Longrightarrow> eval_ok k (qf_log s) (qf_measured s) t"
  by (auto simp: evals_ok_def)

lemma evals_locks:
  assumes ok: "evals_ok s" shows "evals_ok (evaluation_locks k s)"
proof (cases "qf_holder s = None \<and> (\<exists>h ud. qf_tasks s k = Some (Evaluation h ud EvalQueued))")
  case True
  then obtain h ud where t: "qf_tasks s k = Some (Evaluation h ud EvalQueued)" and "qf_holder s = None" by blast
  with ok have none: "\<not> measuring s j" for j by (metis evals_ok_def option.distinct(1))
  let ?s = "set_task k (Evaluation h ud EvalMeasuring) (s\<lparr>qf_holder := Some k\<rparr>)"
  have "measuring ?s j \<longleftrightarrow> j = k" for j using none [of j] by (auto simp: measuring_def)
  with ok evals_at [OF ok t] have "evals_ok ?s" by (auto simp: evals_ok_def)
  with t \<open>qf_holder s = None\<close> show ?thesis by (simp add: evaluation_locks_def)
next
  case False
  then have "evaluation_locks k s = s"
    by (auto simp: evaluation_locks_def split: option.split quality_task.split eval_phase.split)
  with ok show ?thesis by simp
qed

lemma evals_measures:
  assumes ok: "evals_ok s" shows "evals_ok (evaluation_measures k r s)"
proof (cases "measuring s k")
  case True
  then obtain h ud where t: "qf_tasks s k = Some (Evaluation h ud EvalMeasuring)" by (auto simp: measuring_def)
  from ok True have one: "measuring s j \<longleftrightarrow> j = k" for j by (metis evals_ok_def option.inject)
  have "window_is (samples (qf_measured s)) (qf_evaluator s)" using ok by (simp add: evals_ok_def)
  from measure_window [OF this, of h r] obtain e where
    m: "measure_http_rtt h ''/'' r (qf_evaluator s) = Done (measured h r, e)"
    and e: "window_is (samples (qf_measured s @ [(k, r)])) e" by auto
  from evaluate_window [OF e] obtain e' where
    q: "evaluate e = (quality_of (last_n 50 (samples (qf_measured s @ [(k, r)]))), e')"
    and e': "window_is (samples (qf_measured s @ [(k, r)])) e'" by auto
  define js where "js = report_after h (qf_measured s @ [(k, r)]) r"
  let ?s = "set_task k (Evaluation h ud (EvalReporting js))
    (s\<lparr>qf_evaluator := e', qf_holder := None, qf_measured := qf_measured s @ [(k, r)]\<rparr>)"
  have "evaluation_measures k r s = ?s"
    using t m q by (simp add: evaluation_measures_def js_def report_after_def)
  moreover have "\<not> measuring ?s j" for j using one [of j] by (auto simp: measuring_def)
  moreover have "eval_ok j (qf_log s) (qf_measured s @ [(k, r)]) (qf_tasks ?s j)" for j
  proof (cases "j = k")
    case True
    with evals_at [OF ok t] show ?thesis
      by (simp add: js_def reported_now)
  next
    case False
    with evals_at [OF ok refl, of j] show ?thesis by (simp add: eval_ok_measured)
  qed
  ultimately show ?thesis using e' by (simp add: evals_ok_def)
next
  case False
  then have "evaluation_measures k r s = s"
    by (auto simp: evaluation_measures_def measuring_def split: option.split quality_task.split eval_phase.split)
  with ok show ?thesis by simp
qed

lemma evals_step:
  assumes ok: "evals_ok s" and step: "quality_step env op s = Proceeds s'"
  shows "evals_ok s'"
proof -
  note at = evals_at [OF ok]
  have win: "window_is (samples (qf_measured s)) (qf_evaluator s)" using ok by (simp add: evals_ok_def)
  show ?thesis
  proof (cases op)
    case (Evaluate k h ud)
    have "evals_ok (set_task k (Evaluation g ud EvalQueued) s)" if "qf_tasks s k = None" for g
      using at [OF that] that by (intro evals_touch [OF ok, where es = "[]"]) (auto simp: measuring_def)
    with ok step Evaluate show ?thesis by (auto simp: catcher_evaluate_quality_def)
  next
    case (EvaluationLocks k)
    with step evals_locks [OF ok] show ?thesis by auto
  next
    case (EvaluationMeasures k r)
    with step evals_measures [OF ok] show ?thesis by auto
  next
    case (EvaluationReports k)
    have "evals_ok (set_task k (Evaluation h ud EvalCalling) (invoke_quality_callback env ''quality_result'' k js ud s))"
      if "qf_tasks s k = Some (Evaluation h ud (EvalReporting js))" for h ud js
      using at [OF that] that by (intro evals_touch [OF ok]) (auto simp: measuring_def)
    with ok step EvaluationReports show ?thesis
      by (auto simp: evaluation_reports_def split: option.splits quality_task.splits eval_phase.splits)
  next
    case AskHistory
    have "window_is (samples (qf_measured s)) (qf_evaluator (snd (catcher_quality_history env s)))"
      using win snapshot_window [OF win] evaluate_window [of "samples (qf_measured s)" "snd (nq_rtt_snapshot (qf_evaluator s))"]
      by (auto simp: catcher_quality_history_def case_prod_unfold Let_def)
    moreover have "qf_holder (snd (catcher_quality_history env s)) = qf_holder s"
      by (simp add: catcher_quality_history_def case_prod_unfold Let_def)
    ultimately show ?thesis using step AskHistory by (auto intro!: evals_keep [OF ok])
  next
    case (Subscribe on_runtime k p h iv ud)
    with step ok show ?thesis
      by (auto simp: catcher_quality_subscribe_def win intro!: evals_keep [OF ok] split: if_splits)
  next
    case (SubscriptionMeasures k r)
    with step ok show ?thesis
      by (auto simp: subscription_measures_def win intro!: evals_keep [OF ok]
          split: option.splits quality_task.splits sub_phase.splits exec.splits)
  next
    case (SubscriptionReports k)
    with step ok show ?thesis
      by (auto simp: subscription_reports_def win intro!: evals_keep [OF ok]
          split: option.splits quality_task.splits sub_phase.splits)
  next
    case (QualityCallbackReturns k)
    have "evals_ok (set_task k (Evaluation h ud EvalOver) (s\<lparr>qf_log := qf_log s @ [CallEnds k]\<rparr>))"
      if "qf_tasks s k = Some (Evaluation h ud EvalCalling)" for h ud
      using at [OF that] that by (intro evals_touch [OF ok]) (auto simp: measuring_def)
    moreover have "evals_ok (set_task k (Subscribed h ud sub ph ab) (s\<lparr>qf_log := qf_log s @ [CallEnds k]\<rparr>))"
      if "qf_tasks s k = Some (Subscribed h ud sub SubCalling ab)" for h ud sub ph ab
      using that by (auto intro!: evals_keep [OF ok] simp: win)
    ultimately show ?thesis using ok step QualityCallbackReturns
      by (auto simp: quality_callback_returns_def split: option.splits quality_task.splits eval_phase.splits
          sub_phase.splits)
  next
    case (UnsubscribeRemoves p)
    with step ok show ?thesis by (auto simp: unsubscribe_removes_def win intro!: evals_keep [OF ok] split: if_splits)
  next
    case (UnsubscribeFrees p)
    have "evals_ok (abort_subscription k (s\<lparr>qf_freeing := fr, qf_boxes := bx,
        qf_log := qf_log s @ [Destroyed k]\<rparr>))" for k fr bx
    proof -
      have h: "qf_holder (abort_subscription k t) = qf_holder t" for t
        by (simp add: abort_subscription_def split: option.split quality_task.split)
      show ?thesis
        by (rule evals_keep [OF ok]) (auto simp: h win abort_subscription_def split: option.splits quality_task.splits)
    qed
    with ok step UnsubscribeFrees show ?thesis
      by (auto simp: unsubscribe_frees_def split: if_splits option.splits)
  qed
qed

lemma evals_run:
  assumes "quality_ffi_run env ops (quality_ffi_start h) = Proceeds s" shows "evals_ok s"
proof -
  have "evals_ok (quality_ffi_start h)"
    by (auto simp: evals_ok_def quality_ffi_start_def measuring_def window_is_def nq_inv_def nq_new_def samples_def)
  then show ?thesis using assms by (rule quality_run_invariant [where P = evals_ok, rotated]) (rule evals_step)
qed

text \<open>
  C32. Evaluations that run at the same time behave as if they ran one after the other: in every
  interleaving an evaluation calls its host at most once, with the result of its own measurement and the
  quality of the last 50 round trips that were recorded up to and including it; and a history taken at
  any moment is that of the last 50 recorded by then, or \<open>busy\<close> exactly when a measurement is under way.
\<close>

theorem evaluations_share_one_window:
  assumes "quality_ffi_run env ops (quality_ffi_start hp) = Proceeds s"
  shows "(\<forall>k h ud ph. qf_tasks s k = Some (Evaluation h ud ph) \<longrightarrow>
       calls_for k (qf_log s) = [] \<or>
       (\<exists>pre r suf. qf_measured s = pre @ (k, r) # suf \<and>
          calls_for k (qf_log s) =
            [(''quality_result'',
              quality_json (measured h r) (quality_of (last_n 50 (samples (pre @ [(k, r)])))))])) \<and>
    (\<exists>p. fst (catcher_quality_history env s) = p \<and>
       fh_cells (qf_heap (snd (catcher_quality_history env s))) p =
         Some (CStringAlloc (cstring_or_default (fe_text env
           (if \<exists>k h ud. qf_tasks s k = Some (Evaluation h ud EvalMeasuring) then busy_json
            else history_json (window_snapshot (last_n 50 (samples (qf_measured s))))
                   (classify_quality (window_snapshot (last_n 50 (samples (qf_measured s))))))))))"
proof -
  have ok: "evals_ok s" by (rule evals_run [OF assms])
  then have win: "window_is (samples (qf_measured s)) (qf_evaluator s)"
    and holder: "\<And>k. qf_holder s = Some k \<longleftrightarrow> measuring s k" by (simp_all add: evals_ok_def)
  have busy: "qf_holder s \<noteq> None \<longleftrightarrow> (\<exists>k h ud. qf_tasks s k = Some (Evaluation h ud EvalMeasuring))"
    using holder by (metis measuring_def not_Some_eq)
  note snap = snapshot_window [OF win]
  from snap obtain e where "evaluate (snd (nq_rtt_snapshot (qf_evaluator s))) =
      (quality_of (last_n 50 (samples (qf_measured s))), e)"
    using evaluate_window by blast
  then have "fh_cells (qf_heap (snd (catcher_quality_history env s))) (fst (catcher_quality_history env s)) =
      Some (CStringAlloc (cstring_or_default (fe_text env
        (if qf_holder s \<noteq> None then busy_json
         else history_json (window_snapshot (last_n 50 (samples (qf_measured s))))
                (classify_quality (window_snapshot (last_n 50 (samples (qf_measured s)))))))))"
    using snap by (simp add: catcher_quality_history_def case_prod_unfold Let_def into_raw_def quality_of_def)
  moreover have "calls_for k (qf_log s) = [] \<or>
       (\<exists>pre r suf. qf_measured s = pre @ (k, r) # suf \<and>
          calls_for k (qf_log s) = [(''quality_result'', report_after h (pre @ [(k, r)]) r)])"
    if "qf_tasks s k = Some (Evaluation h ud ph)" for k h ud ph
    using evals_at [OF ok that] by (cases ph) (auto simp: reported_def)
  ultimately show ?thesis unfolding busy report_after_def by blast
qed

theorem evaluations_share_one_window_witness:
  "\<exists>s pre r suf. quality_ffi_run plain_ffi_env
      [Evaluate 1 None 0, EvaluationLocks 1, EvaluationMeasures 1 (Responded 200 30), EvaluationReports 1]
      (quality_ffi_start empty_ffi_heap) = Proceeds s \<and> qf_measured s = pre @ (1, r) # suf \<and>
    calls_for 1 (qf_log s) =
      [(''quality_result'', quality_json (measured ''https://www.example.com'' r)
          (quality_of (last_n 50 (samples (pre @ [(1, r)])))))]"
proof -
  obtain m e where q: "measure_http_rtt ''https://www.example.com'' ''/'' (Responded 200 30) (nq_new 50) = Done (m, e)"
    by (simp add: measure_http_rtt_def is_success_status_def record_rtt_def nq_new_def Let_def)
  obtain q' e' where q': "evaluate e = (q', e')" by fastforce
  obtain s where r: "quality_ffi_run plain_ffi_env
      [Evaluate 1 None 0, EvaluationLocks 1, EvaluationMeasures 1 (Responded 200 30), EvaluationReports 1]
      (quality_ffi_start empty_ffi_heap) = Proceeds s"
    and t: "qf_tasks s 1 = Some (Evaluation ''https://www.example.com'' 0 EvalCalling)"
    and l: "calls_for 1 (qf_log s) \<noteq> []"
    using q q' by (simp add: catcher_evaluate_quality_def evaluation_locks_def evaluation_measures_def
        evaluation_reports_def quality_ffi_start_def to_string_lossy_def set_task_def invoke_quality_callback_def)
  from evaluations_share_one_window [OF r, THEN conjunct1, rule_format, OF t] r l show ?thesis by blast
qed

text \<open>
  The string that \<open>catcher_quality_history\<close> returns is documented to be freed with \<open>catcher_free_data\<close>,
  which wants the size of the allocation: with the length of the string, which is all that the caller can
  see, the release is not defined; with one byte more it is.
\<close>

theorem history_freed_by_length:
  assumes "fh_cells h p = Some (CStringAlloc t)" and "p \<noteq> 0"
  shows "catcher_free_data p (length t) h = None \<and> catcher_free_data p (Suc (length t)) h \<noteq> None"
  using assms by (simp add: catcher_free_data_def free_vec_def alloc_size_def)

theorem history_freed_by_length_witness:
  "catcher_free_data 1 2 \<lparr>fh_cells = [1 \<mapsto> CStringAlloc ''{}''], fh_next = 2\<rparr> = None"
  using history_freed_by_length [of "\<lparr>fh_cells = [1 \<mapsto> CStringAlloc ''{}''], fh_next = 2\<rparr>" 1 "''{}''"]
  by (simp del: One_nat_def add: numeral_2_eq_2)

end
