(* ===== verification/Node_Http.thy ===== *)
theory Node_Http
  imports Http_Ffi
begin

section \<open>The Node binding of the HTTP client\<close>

text \<open>
  Models \<^verbatim>\<open>catcher-napi-http/src/client.rs\<close> and \<^verbatim>\<open>helpers.rs\<close>: a \<open>JsHttpClient\<close> holds one transport; a request
  is a promise whose task runs \<open>execute\<close>, a streamed request a task that queues calls of a JavaScript
  function.  Calls from JavaScript, tasks and the network interleave; an operation is one atomic step.
\<close>

subsection \<open>What JavaScript sees\<close>

record js_http_response =
  js_status :: u16
  js_headers :: header_map
  js_body :: bytes
  js_elapsed_ms :: "32 word"

record request_options =
  ro_headers :: "header_map option"
  ro_timeout_ms :: "32 word option"
  ro_content_type :: "string option"

text \<open>Numbers that JavaScript gets as \<open>i64\<close>.\<close>

record js_metrics =
  jm_http_requests :: int
  jm_http_success_rate :: f64
  jm_http_avg_latency_us :: int
  jm_http_retries :: int
  jm_ws_connect_success_rate :: f64
  jm_ws_disconnects :: int
  jm_ws_messages_sent :: int
  jm_ws_messages_received :: int
  jm_cb_open_count :: int
  jm_queue_timeouts :: "32 word"

definition js_metrics_from :: "metrics_snapshot \<Rightarrow> js_metrics" where
  "js_metrics_from m =
     \<lparr>jm_http_requests = sint (ms_http_requests m), jm_http_success_rate = ms_http_success_rate m,
      jm_http_avg_latency_us = sint (ms_http_avg_latency_us m), jm_http_retries = sint (ms_http_retries m),
      jm_ws_connect_success_rate = ms_ws_connect_success_rate m, jm_ws_disconnects = sint (ms_ws_disconnects m),
      jm_ws_messages_sent = sint (ms_ws_messages_sent m),
      jm_ws_messages_received = sint (ms_ws_messages_received m), jm_cb_open_count = sint (ms_cb_open_count m),
      jm_queue_timeouts = ms_queue_timeouts m\<rparr>"

text \<open>\<open>to_uppercase\<close> and the names of the methods; the error is the reason of a \<open>napi::Error\<close>.\<close>

definition js_parse_method :: "ffi_env \<Rightarrow> string \<Rightarrow> string + http_method" where
  "js_parse_method env s =
     (let m = fe_upper env s
      in if m = ''GET'' then Inr GET
         else if m = ''POST'' then Inr POST
         else if m = ''PUT'' then Inr PUT
         else if m = ''DELETE'' then Inr DELETE
         else if m = ''PATCH'' then Inr PATCH
         else Inl (''Unknown HTTP method: '' @ m))"

definition stream_event_to_json :: "ffi_env \<Rightarrow> stream_event \<Rightarrow> json" where
  "stream_event_to_json env ev =
     (case ev of
        StreamHeaders st h \<Rightarrow>
          JObj [(''type'', JStr ''Headers''), (''status'', JWord st), (''headers'', header_json h)]
      | StreamChunk b \<Rightarrow> JObj [(''type'', JStr ''Chunk''), (''data'', JStr (fe_base64 env b))]
      | StreamDone \<Rightarrow> JObj [(''type'', JStr ''Done'')]
      | StreamError msg \<Rightarrow> JObj [(''type'', JStr ''Error''), (''message'', JStr msg)])"

definition js_request ::
  "http_method \<Rightarrow> string \<Rightarrow> bytes option \<Rightarrow> request_options option \<Rightarrow> http_request" where
  "js_request m url body options =
     default_request\<lparr>req_method := m, req_url := url,
       req_headers := (case options of Some opts \<Rightarrow> (case ro_headers opts of Some h \<Rightarrow> h | None \<Rightarrow> []) | None \<Rightarrow> []),
       req_body := body,
       req_content_type := Option.bind options ro_content_type,
       req_timeout_ms := map_option ucast (Option.bind options ro_timeout_ms)\<rparr>"

definition js_outcome :: "catcher_error + http_response \<Rightarrow> (string \<times> json) + js_http_response" where
  "js_outcome r =
     (case r of
        Inl e \<Rightarrow> Inl (to_napi_error e)
      | Inr resp \<Rightarrow>
          Inr \<lparr>js_status = resp_status resp, js_headers = resp_headers resp, js_body = resp_body resp,
               js_elapsed_ms = ucast (resp_elapsed_ms resp)\<rparr>)"

subsection \<open>State\<close>

text \<open>A promise whose task panicked is settled without a result.\<close>

datatype promise_phase =
    JsStarting bool
  | JsInFlight bool
  | JsSettled "((string \<times> json) + js_http_response) option"

datatype js_stream = StreamWaiting http_request | StreamCalls "json list"

record js_client =
  jc_transport :: http_transport
  jc_requests :: "nat \<rightharpoonup> http_request"
  jc_promises :: "nat \<rightharpoonup> promise_phase"
  jc_next :: nat
  jc_streams :: "nat \<rightharpoonup> js_stream"
  jc_log :: "(nat \<times> json) list"

text \<open>
  The constructor: parsing fails with an \<open>InvalidConfig\<close> error, building with the transport's.  Whether
  the thread has a runtime is up to the host.
\<close>

definition js_client_new ::
  "hff_env \<Rightarrow> bool \<Rightarrow> (string \<Rightarrow> string + http_client_config) \<Rightarrow> string
    \<Rightarrow> ((string \<times> json) + js_client) exec" where
  "js_client_new env in_runtime parse config_json =
     (case parse config_json of
        Inl msg \<Rightarrow> Done (Inl (to_napi_error (InvalidConfig msg)))
      | Inr config \<Rightarrow>
          (case transport_new (hfe_lib env) (hfe_resolver_error env) in_runtime config of
             Panic \<Rightarrow> Panic
           | Done (Inl e) \<Rightarrow> Done (Inl (to_napi_error e))
           | Done (Inr t) \<Rightarrow>
               Done (Inr \<lparr>jc_transport = t, jc_requests = Map.empty, jc_promises = Map.empty, jc_next = 0,
                          jc_streams = Map.empty, jc_log = []\<rparr>)))"

subsection \<open>Requests\<close>

text \<open>\<open>do_execute\<close> up to its first step, with \<open>get\<close> to \<open>patch\<close> as its methods.\<close>

definition js_execute ::
  "http_method \<Rightarrow> string \<Rightarrow> bytes option \<Rightarrow> request_options option \<Rightarrow> js_client \<Rightarrow> nat \<times> js_client" where
  "js_execute m url body options c =
     (jc_next c,
      c\<lparr>jc_requests := (jc_requests c)(jc_next c \<mapsto> js_request m url body options),
        jc_promises := (jc_promises c)(jc_next c \<mapsto> JsStarting True), jc_next := Suc (jc_next c)\<rparr>)"

definition js_get :: "string \<Rightarrow> request_options option \<Rightarrow> js_client \<Rightarrow> nat \<times> js_client" where
  "js_get url options = js_execute GET url None options"

definition js_post :: "string \<Rightarrow> bytes option \<Rightarrow> request_options option \<Rightarrow> js_client \<Rightarrow> nat \<times> js_client" where
  "js_post url body options = js_execute POST url body options"

definition js_put :: "string \<Rightarrow> bytes option \<Rightarrow> request_options option \<Rightarrow> js_client \<Rightarrow> nat \<times> js_client" where
  "js_put url body options = js_execute PUT url body options"

definition js_delete :: "string \<Rightarrow> request_options option \<Rightarrow> js_client \<Rightarrow> nat \<times> js_client" where
  "js_delete url options = js_execute DELETE url None options"

definition js_patch :: "string \<Rightarrow> bytes option \<Rightarrow> request_options option \<Rightarrow> js_client \<Rightarrow> nat \<times> js_client" where
  "js_patch url body options = js_execute PATCH url body options"

text \<open>\<open>HttpTransport::execute\<close> in the task of a promise, as in Http_Ffi.\<close>

definition promise_result ::
  "hff_env \<Rightarrow> os_proxies option \<Rightarrow> bool \<Rightarrow> catcher_error + http_response \<Rightarrow> http_transport
    \<Rightarrow> promise_phase \<times> http_transport" where
  "promise_result env reported first r t =
     (if first \<and> misdirected r
      then (case transport_network_changed (hfe_lib env) reported t of
              (Panic, t1) \<Rightarrow> (JsSettled None, t1)
            | (Done (Inl e), t1) \<Rightarrow> (JsSettled (Some (js_outcome (Inl e))), t1)
            | (Done (Inr _), t1) \<Rightarrow>
                (JsStarting False, t1\<lparr>ht_metrics := increment_http_retries (ht_metrics t1)\<rparr>))
      else (JsSettled (Some (js_outcome r)), t))"

definition promise_after ::
  "hff_env \<Rightarrow> os_proxies option \<Rightarrow> bool \<Rightarrow> call \<times> http_transport \<Rightarrow> promise_phase \<times> http_transport" where
  "promise_after env reported first x =
     (case x of
        (Returned r, t) \<Rightarrow> promise_result env reported first r t
      | (Panicked, t) \<Rightarrow> (JsSettled None, t)
      | (Waits, t) \<Rightarrow> (JsInFlight first, t))"

definition set_promise :: "nat \<Rightarrow> promise_phase \<times> http_transport \<Rightarrow> js_client \<Rightarrow> js_client" where
  "set_promise k x c = c\<lparr>jc_promises := (jc_promises c)(k \<mapsto> fst x), jc_transport := snd x\<rparr>"

definition promise_begin ::
  "hff_env \<Rightarrow> os_proxies option \<Rightarrow> u64 \<Rightarrow> nat \<Rightarrow> u64 \<Rightarrow> nat \<Rightarrow> js_client \<Rightarrow> js_client" where
  "promise_begin env reported now_ms now_us us k c =
     (case (jc_promises c k, jc_requests c k) of
        (Some (JsStarting first), Some req) \<Rightarrow>
          (case new_token (jc_transport c) of (token, t) \<Rightarrow>
             set_promise k (promise_after env reported first
               (transport_step (hfe_lib env) (Begin now_ms now_us us k 0 token req) t)) c)
      | _ \<Rightarrow> c)"

definition promise_wait :: "hff_env \<Rightarrow> os_proxies option \<Rightarrow> transport_input \<Rightarrow> nat \<Rightarrow> js_client \<Rightarrow> js_client" where
  "promise_wait env reported inp k c =
     (case jc_promises c k of
        Some (JsInFlight first) \<Rightarrow>
          if for_flight k inp
          then set_promise k (promise_after env reported first
                 (transport_step (hfe_lib env) inp (jc_transport c))) c
          else c
      | _ \<Rightarrow> c)"

subsection \<open>Streams\<close>

text \<open>
  \<open>execute_stream\<close>: the method is parsed before the task is spawned; the task's token is its own and is
  registered nowhere, and its result is thrown away.  The calls wait in the queue of the thread-safe
  function, without bound, until the JavaScript thread takes them.
\<close>

definition js_execute_stream ::
  "ffi_env \<Rightarrow> string \<Rightarrow> string \<Rightarrow> bytes option \<Rightarrow> request_options option \<Rightarrow> js_client
    \<Rightarrow> (string + unit) \<times> js_client" where
  "js_execute_stream env mth url body options c =
     (case js_parse_method env mth of
        Inl msg \<Rightarrow> (Inl msg, c)
      | Inr m \<Rightarrow>
          (Inr (), c\<lparr>jc_streams := (jc_streams c)(jc_next c \<mapsto> StreamWaiting (js_request m url body options)),
                     jc_next := Suc (jc_next c)\<rparr>))"

definition js_stream_answers ::
  "ffi_env \<Rightarrow> string \<Rightarrow> (wire_request \<Rightarrow> (client_error + raw_response) option) \<Rightarrow> stream_item list \<Rightarrow> nat
    \<Rightarrow> js_client \<Rightarrow> js_client" where
  "js_stream_answers env boundary send items k c =
     (case jc_streams c k of
        Some (StreamWaiting req) \<Rightarrow>
          c\<lparr>jc_streams := (jc_streams c)(k \<mapsto> StreamCalls (map (stream_event_to_json env)
               (fst (execute_stream boundary send (ht_config (jc_transport c)) req items))))\<rparr>
      | _ \<Rightarrow> c)"

definition js_stream_calls_back :: "nat \<Rightarrow> js_client \<Rightarrow> js_client" where
  "js_stream_calls_back k c =
     (case jc_streams c k of
        Some (StreamCalls (js # rest)) \<Rightarrow>
          c\<lparr>jc_streams := (jc_streams c)(k \<mapsto> StreamCalls rest), jc_log := jc_log c @ [(k, js)]\<rparr>
      | _ \<Rightarrow> c)"

subsection \<open>The other methods\<close>

definition js_circuit_breaker_state :: "js_client \<Rightarrow> string" where
  "js_circuit_breaker_state c =
     (case circuit_breaker_state (jc_transport c) of
        Some Open \<Rightarrow> ''open''
      | Some HalfOpen \<Rightarrow> ''half-open''
      | _ \<Rightarrow> ''closed'')"

definition js_metrics_call :: "js_client \<Rightarrow> js_metrics" where
  "js_metrics_call c = js_metrics_from (metrics_snapshot (ht_metrics (jc_transport c)))"

text \<open>\<open>i64\<close> arguments are reinterpreted as \<open>u64\<close> and \<open>usize\<close>.\<close>

definition js_set_adaptive_timeout ::
  "64 word \<Rightarrow> 64 word \<Rightarrow> f64 \<Rightarrow> 64 word \<Rightarrow> js_client \<Rightarrow> js_client exec" where
  "js_set_adaptive_timeout mn mx m window c =
     (case set_adaptive_timeout mn mx m (unat window) (jc_transport c) of
        Panic \<Rightarrow> Panic
      | Done t \<Rightarrow> Done (c\<lparr>jc_transport := t\<rparr>))"

definition js_disable_adaptive_timeout :: "js_client \<Rightarrow> js_client exec" where
  "js_disable_adaptive_timeout c =
     (case disable_adaptive_timeout (jc_transport c) of
        Panic \<Rightarrow> Panic
      | Done t \<Rightarrow> Done (c\<lparr>jc_transport := t\<rparr>))"

definition js_network_changed ::
  "hff_env \<Rightarrow> os_proxies option \<Rightarrow> js_client \<Rightarrow> ((string \<times> json) + unit) exec \<times> js_client" where
  "js_network_changed env reported c =
     (case transport_network_changed (hfe_lib env) reported (jc_transport c) of
        (r, t) \<Rightarrow>
          (case r of Panic \<Rightarrow> Panic | Done (Inl e) \<Rightarrow> Done (Inl (to_napi_error e)) | Done (Inr u) \<Rightarrow> Done (Inr u),
           c\<lparr>jc_transport := t\<rparr>))"

definition js_cancel_all :: "js_client \<Rightarrow> js_client" where
  "js_cancel_all c = c\<lparr>jc_transport := cancel_all (jc_transport c)\<rparr>"

definition js_cancel_request :: "64 word \<Rightarrow> js_client \<Rightarrow> bool \<times> js_client" where
  "js_cancel_request rid c =
     (case cancel_request rid (jc_transport c) of (found, t) \<Rightarrow> (found, c\<lparr>jc_transport := t\<rparr>))"

definition js_next_request_id :: "js_client \<Rightarrow> 64 word \<times> js_client" where
  "js_next_request_id c = (case next_request_id (jc_transport c) of (rid, t) \<Rightarrow> (rid, c\<lparr>jc_transport := t\<rparr>))"

subsection \<open>Runs\<close>

datatype js_op =
    JsExecute http_method string "bytes option" "request_options option"
  | PromiseBegin nat "os_proxies option" u64 nat u64
  | PromiseWait nat "os_proxies option" transport_input
  | JsStream string string "bytes option" "request_options option"
  | StreamAnswers nat string "wire_request \<Rightarrow> (client_error + raw_response) option" "stream_item list"
  | StreamCallsBack nat
  | JsSetAdaptive "64 word" "64 word" f64 "64 word"
  | JsDisableAdaptive
  | JsNetworkChanged "os_proxies option"
  | JsCancelAll
  | JsCancel "64 word"
  | JsNextId
  | RuntimeWork queue_step

text \<open>A call that panics leaves the client as it was; \<open>RuntimeWork\<close> is the queue at work.\<close>

definition or_unchanged :: "js_client exec \<Rightarrow> js_client \<Rightarrow> js_client" where
  "or_unchanged x c = (case x of Done c' \<Rightarrow> c' | Panic \<Rightarrow> c)"

fun js_step :: "hff_env \<Rightarrow> js_op \<Rightarrow> js_client \<Rightarrow> js_client" where
  "js_step env (JsExecute m url body options) c = snd (js_execute m url body options c)"
| "js_step env (PromiseBegin k reported now_ms now_us us) c = promise_begin env reported now_ms now_us us k c"
| "js_step env (PromiseWait k reported inp) c = promise_wait env reported inp k c"
| "js_step env (JsStream mth url body options) c =
     snd (js_execute_stream (hfe_ffi env) mth url body options c)"
| "js_step env (StreamAnswers k boundary send items) c =
     js_stream_answers (hfe_ffi env) boundary send items k c"
| "js_step env (StreamCallsBack k) c = js_stream_calls_back k c"
| "js_step env (JsSetAdaptive mn mx m w) c = or_unchanged (js_set_adaptive_timeout mn mx m w c) c"
| "js_step env JsDisableAdaptive c = or_unchanged (js_disable_adaptive_timeout c) c"
| "js_step env (JsNetworkChanged reported) c = snd (js_network_changed env reported c)"
| "js_step env JsCancelAll c = js_cancel_all c"
| "js_step env (JsCancel rid) c = snd (js_cancel_request rid c)"
| "js_step env JsNextId c = snd (js_next_request_id c)"
| "js_step env (RuntimeWork w) c =
     c\<lparr>jc_transport := snd (transport_step (hfe_lib env) (QueueWork w) (jc_transport c))\<rparr>"

definition js_run :: "hff_env \<Rightarrow> js_op list \<Rightarrow> js_client \<Rightarrow> js_client" where
  "js_run env ops c = fold (js_step env) ops c"

subsection \<open>What holds of the transport of a client\<close>

text \<open>JavaScript drives its transport by all steps but the allocation of a pending request.\<close>

locale node_steps = transport_steps P allowed
  for P :: "http_transport \<Rightarrow> bool" and allowed :: "transport_input \<Rightarrow> bool" +
  assumes allowed_all: "inp \<noteq> AllocateRequest \<Longrightarrow> allowed inp"
    and numbered: "P t \<Longrightarrow> P (snd (next_request_id t))"
begin

lemma node_stepped: "inp \<noteq> AllocateRequest \<Longrightarrow> P t \<Longrightarrow> P (snd (transport_step env inp t))"
  by (rule stepped) (auto intro: allowed_all)

lemma after_kept: "P (snd x) \<Longrightarrow> P (snd (promise_after env reported first x))"
proof -
  assume p: "P (snd x)"
  obtain c t where x: "x = (c, t)" by fastforce
  obtain r t1 where n: "transport_network_changed (hfe_lib env) reported t = (r, t1)" by fastforce
  have "P t1" using operations(4) [OF _ allowed_all, of t reported "hfe_lib env"] p by (simp add: x n)
  with p counted [OF this] show ?thesis
    by (auto simp: x n promise_after_def promise_result_def split: call.split exec.split sum.split)
qed

lemma node_step:
  assumes "P (jc_transport c)" shows "P (jc_transport (js_step env op c))"
proof (cases op)
  case (PromiseBegin k reported now_ms now_us us)
  have "P (snd (transport_step (hfe_lib env) (Begin now_ms now_us us k 0 tok req) t))"
    if "P t" for tok req t using node_stepped [OF _ that] by blast
  with assms token [OF assms] PromiseBegin show ?thesis
    by (auto simp: promise_begin_def set_promise_def case_prod_unfold simp del: transport_step.simps
        split: option.split promise_phase.split intro!: after_kept)
next
  case (PromiseWait k reported inp)
  have "P (snd (transport_step (hfe_lib env) inp (jc_transport c)))" if "for_flight k inp"
    using node_stepped [OF _ assms, of inp] that by (cases inp) (simp_all del: transport_step.simps)
  with assms PromiseWait show ?thesis
    by (auto simp: promise_wait_def set_promise_def split: option.split promise_phase.split intro!: after_kept)
next
  case (RuntimeWork w)
  with node_stepped [OF _ assms, of "QueueWork w"] show ?thesis by simp
next
  case (JsNetworkChanged reported)
  with operations(4) [OF assms allowed_all, of reported "hfe_lib env"] show ?thesis
    by (simp add: js_network_changed_def case_prod_unfold)
next
  case (JsSetAdaptive mn mx m w)
  with assms operations(5) [OF assms allowed_all] show ?thesis
    by (auto simp: js_set_adaptive_timeout_def or_unchanged_def split: exec.split)
next
  case JsDisableAdaptive
  with assms operations(6) [OF assms allowed_all] show ?thesis
    by (auto simp: js_disable_adaptive_timeout_def or_unchanged_def split: exec.split)
next
  case (JsCancel rid)
  with operations(2) [OF assms allowed_all, of rid] show ?thesis by (simp add: js_cancel_request_def case_prod_unfold)
next
  case JsCancelAll
  with operations(1) [OF assms allowed_all] show ?thesis by (simp add: js_cancel_all_def)
next
  case JsNextId
  with numbered [OF assms] show ?thesis by (simp add: js_next_request_id_def case_prod_unfold)
qed (use assms in \<open>auto simp: js_execute_def js_execute_stream_def js_stream_answers_def js_stream_calls_back_def
    split: sum.split option.split js_stream.split list.split\<close>)

lemma node_run: "P (jc_transport c) \<Longrightarrow> P (jc_transport (js_run env ops c))"
  by (induction ops arbitrary: c) (simp_all add: js_run_def node_step)

end

definition nothing_pending :: "http_transport \<Rightarrow> bool" where
  "nothing_pending t \<longleftrightarrow> ht_pending t = Map.empty"

lemma nothing_pending_step:
  assumes "nothing_pending t" and "inp \<noteq> AllocateRequest"
  shows "nothing_pending (snd (transport_step env inp t))"
proof -
  have settled: "ht_pending (snd (settle now_ms now_us f result t1)) = (ht_pending t1)(fl_id f := None)" for now_ms now_us f result t1
    by (auto simp: settle_eq Let_def cleanup_pending_request_def record_metrics_def transport_record_rtt_def
        split: sum.split option.split exec.split)
  have adapted: "ht_pending (snd (apply_adaptive req t1)) = ht_pending t1" for req t1
    by (auto simp: apply_adaptive_def split: option.split exec.split)
  have begun: "nothing_pending (snd (begin_request now_ms now_us us n rid tok req t))" for now_ms now_us us n rid tok req
    using assms(1) adapted
    by (auto simp: begin_request_def nothing_pending_def Let_def case_prod_unfold record_metrics_def
        cleanup_pending_request_def fun_eq_iff split: option.split exec.split)
  show ?thesis
    using assms begun
    by (cases inp)
      (auto simp: nothing_pending_def settled land_def finish_request_def observe_cancel_def enter_request_def Let_def
        record_metrics_def transport_network_changed_eq cancel_all_def cancel_request_def set_adaptive_timeout_def
        disable_adaptive_timeout_def fun_eq_iff split: option.split nat.split exec.split sum.split)
qed

interpretation unregistered: node_steps nothing_pending "\<lambda>inp. inp \<noteq> AllocateRequest"
  by unfold_locales
    (auto simp: nothing_pending_step simp del: transport_step.simps,
     auto simp: nothing_pending_def new_token_def next_request_id_def)

definition node_limits :: "nat \<Rightarrow> http_transport \<Rightarrow> bool" where
  "node_limits n t \<longleftrightarrow> limits_ok t \<and> limiter_limit t = n"

interpretation limited_js: node_steps "node_limits n" "\<lambda>_. True" for n
  by unfold_locales
    (auto simp: node_limits_def limits_step simp del: transport_step.simps,
     auto simp: limits_ok_def limiter_limit_def new_token_def next_request_id_def entered_def split: option.splits)

text \<open>
  C37. No identifier that JavaScript can have cancels a request: in every run of a client
  \<open>cancel_request\<close> answers \<open>false\<close> and does nothing, whatever its argument, the results of
  \<open>next_request_id\<close> included, because requests and streams of the binding are never registered.
\<close>

theorem js_cancel_never_finds:
  assumes "js_client_new env in_runtime parse config_json = Done (Inr c0)"
  shows "js_cancel_request rid (js_run env ops c0) = (False, js_run env ops c0)"
proof -
  have "nothing_pending (jc_transport c0)"
    using assms by (auto simp: js_client_new_def transport_new_def bind_exec_Ok_iff nothing_pending_def
        split: sum.splits exec.splits)
  from unregistered.node_run [OF this, of env ops] show ?thesis
    by (simp add: js_cancel_request_def cancel_request_def nothing_pending_def)
qed

definition plain_hff_env :: "http_client_config \<Rightarrow> hff_env" where
  "plain_hff_env config =
     \<lparr>hfe_ffi = plain_ffi_env, hfe_lib = permissive_env, hfe_resolver_error = (\<lambda>_. None),
      hfe_config = (\<lambda>_. Some config)\<rparr>"

lemma plain_transport_new:
  "\<exists>t. transport_new permissive_env (\<lambda>_. None) rt (default_http_client_config\<lparr>http_max_concurrency := n\<rparr>)
     = Done (Ok t) \<and> ht_flights t = Map.empty \<and> \<not> ht_poisoned t \<and> ht_breaker t = None \<and> ht_adaptive t = None \<and>
       (n = 0 \<longrightarrow> ht_queue t = None \<and> ht_semaphore t = None)"
  by (auto simp: transport_new_def build_middleware_client_def permissive_env_def permissive_tls_def
      bind_exec_def build_tls_config_def default_http_client_config_def default_tls_config_def
      pins_configured_def certificate_calls_def ca_cert_pem_calls_def ca_cert_path_calls_def
      identity_pem_calls_def identity_path_calls_def proxy_calls_def auth_calls_def Let_def)

lemma plain_js_client:
  "\<exists>c. js_client_new (plain_hff_env config) rt (\<lambda>_. Inr (default_http_client_config\<lparr>http_max_concurrency := n\<rparr>)) [] =
       Done (Inr c) \<and> ht_flights (jc_transport c) = Map.empty \<and> \<not> ht_poisoned (jc_transport c) \<and>
     ht_breaker (jc_transport c) = None \<and> ht_adaptive (jc_transport c) = None \<and> jc_next c = 0 \<and>
     (n = 0 \<longrightarrow> ht_queue (jc_transport c) = None \<and> ht_semaphore (jc_transport c) = None)"
  using plain_transport_new [of rt n] by (auto simp: js_client_new_def plain_hff_env_def)

theorem js_cancel_never_finds_witness:
  "\<exists>c. js_client_new (plain_hff_env default_http_client_config) True (\<lambda>_. Inr (default_http_client_config\<lparr>http_max_concurrency := 2\<rparr>)) [] =
       Done (Inr c) \<and>
     fst (js_cancel_request (fst (js_next_request_id c))
       (js_run (plain_hff_env default_http_client_config) [JsNextId, JsExecute GET ''/x'' None None, PromiseBegin 0 None 0 0 0] c)) = False"
proof -
  let ?env = "plain_hff_env default_http_client_config"
  obtain c where c: "js_client_new ?env True (\<lambda>_. Inr (default_http_client_config\<lparr>http_max_concurrency := 2\<rparr>)) [] =
       Done (Inr c)" using plain_js_client by metis
  from js_cancel_never_finds [OF c, of "fst (js_next_request_id c)" "[JsNextId, JsExecute GET ''/x'' None None, PromiseBegin 0 None 0 0 0]"] c
  show ?thesis by (metis fst_conv)
qed

text \<open>The limits hold on both sides, with the queue and without.\<close>

theorem js_concurrency_bounded:
  assumes "js_client_new env in_runtime parse config_json = Done (Inr c0)" and "parse config_json = Inr config"
  shows "queue_depth (jc_transport (js_run env ops c0)) = limited_running (jc_transport (js_run env ops c0)) \<and>
    queue_depth (jc_transport (js_run env ops c0)) \<le> unat (http_max_concurrency config)"
proof -
  let ?t = "jc_transport (js_run env ops c0)"
  obtain t where t: "transport_new (hfe_lib env) (hfe_resolver_error env) in_runtime config = Done (Ok t)"
    and c0: "jc_transport c0 = t"
    using assms by (auto simp: js_client_new_def split: sum.splits exec.splits)
  have "node_limits (unat (http_max_concurrency config)) (jc_transport c0)"
    using limits_new [OF t] by (simp add: node_limits_def c0)
  from limited_js.node_run [OF this, of env ops]
  have ok: "limits_ok ?t" "limiter_limit ?t = unat (http_max_concurrency config)" by (simp_all add: node_limits_def)
  have "queue_depth ?t = limiter_limit ?t - limiter_free ?t"
    by (auto simp: queue_depth_def limiter_limit_def limiter_free_def split: option.splits)
  with limits_accounted [OF ok(1)] ok(2) show ?thesis by linarith
qed

subsection \<open>A timeout configuration that ends the client\<close>

interpretation poisoned: node_steps "ht_poisoned :: http_transport \<Rightarrow> bool" "\<lambda>_. True"
proof
  fix t :: http_transport and env inp
  assume p: "ht_poisoned t"
  have settled: "ht_poisoned (snd (settle now_ms now_us f result t1))" if "ht_poisoned t1" for now_ms now_us f result t1
    using that by (auto simp: settle_eq Let_def cleanup_pending_request_def record_metrics_def transport_record_rtt_def
        split: sum.split option.split exec.split)
  have begun: "ht_poisoned (snd (begin_request now_ms now_us us n rid tok req t))" for now_ms now_us us n rid tok req
    using p by (auto simp: begin_request_def apply_adaptive_def Let_def case_prod_unfold record_metrics_def
        cleanup_pending_request_def split: option.split exec.split)
  show "ht_poisoned (snd (transport_step env inp t))"
    using p begun
    by (cases inp)
      (auto simp: settled land_def finish_request_def observe_cancel_def enter_request_def Let_def
        record_metrics_def transport_network_changed_eq cancel_all_def cancel_request_def set_adaptive_timeout_def
        disable_adaptive_timeout_def allocate_pending_request_def next_request_id_def new_token_def
        insert_pending_request_def split: option.split nat.split exec.split sum.split)
qed (auto simp: new_token_def next_request_id_def)

text \<open>
  C38. A window of no samples is accepted and then fatal: the first request that succeeds panics with the
  lock of the adaptive timeout held, its promise gets no result, and from then on, whatever is called,
  the timeout can be neither disabled nor set again and every request without a timeout of its own panics.
\<close>

theorem js_empty_window_is_fatal:
  assumes "jc_promises c k = Some (JsInFlight first)" and "ht_flights (jc_transport c) k = Some f" and "fl_entered f"
    and "\<not> ht_poisoned (jc_transport c)"
    and c1: "c1 = js_run env [JsSetAdaptive mn mx m 0, PromiseWait k reported (Complete now_ms now_us k (Inr resp))] c"
  shows "jc_promises c1 k = Some (JsSettled None) \<and>
    js_disable_adaptive_timeout (js_run env ops c1) = Panic \<and>
    js_set_adaptive_timeout mn' mx' m' w (js_run env ops c1) = Panic \<and>
    (req_timeout_ms req = None \<longrightarrow> fst (apply_adaptive req (jc_transport (js_run env ops c1))) = Panic)"
proof -
  let ?t = "(jc_transport c)\<lparr>ht_adaptive := Some (at_new mn mx m 0)\<rparr>"
  have f: "ht_flights ?t k = Some f" using assms(2) by simp
  have "settle now_ms now_us f (Inr resp) (land k f ?t) =
      (Panicked, (cleanup_pending_request (fl_id f) (land k f ?t))\<lparr>ht_poisoned := True\<rparr>)"
    using assms(4)
    by (simp add: settle_eq Let_def transport_record_rtt_def land_def cleanup_pending_request_def at_record_def at_new_def)
  then have "transport_step (hfe_lib env) (Complete now_ms now_us k (Inr resp)) ?t =
      (Panicked, (cleanup_pending_request (fl_id f) (land k f ?t))\<lparr>ht_poisoned := True\<rparr>)"
    using f assms(3) by (simp add: finish_request_def)
  with assms(1,4) have "jc_promises c1 k = Some (JsSettled None)" and p: "ht_poisoned (jc_transport c1)"
    unfolding c1
    by (simp_all add: js_run_def js_set_adaptive_timeout_def set_adaptive_timeout_def or_unchanged_def
        promise_wait_def set_promise_def promise_after_def del: transport_step.simps)
  moreover have "ht_poisoned (jc_transport (js_run env ops c1))" by (rule poisoned.node_run [OF p])
  ultimately show ?thesis
    by (simp add: js_disable_adaptive_timeout_def disable_adaptive_timeout_def js_set_adaptive_timeout_def
        set_adaptive_timeout_def apply_adaptive_def)
qed

theorem js_empty_window_is_fatal_witness:
  "\<exists>c. js_client_new (plain_hff_env default_http_client_config) False (\<lambda>_. Inr (default_http_client_config\<lparr>http_max_concurrency := 0\<rparr>)) [] =
       Done (Inr c) \<and>
     js_disable_adaptive_timeout (js_run (plain_hff_env default_http_client_config)
       [JsExecute GET ''/x'' None None, PromiseBegin 0 None 0 0 0, JsSetAdaptive 1 2 (Fin 1) 0,
        PromiseWait 0 None (Complete 0 0 0 (Inr \<lparr>resp_status = 200, resp_headers = [], resp_body = [], resp_elapsed_ms = 5\<rparr>))] c) = Panic"
proof -
  let ?env = "plain_hff_env default_http_client_config"
  let ?r = "\<lparr>resp_status = 200, resp_headers = [], resp_body = [], resp_elapsed_ms = 5\<rparr>"
  obtain c where c: "js_client_new ?env False (\<lambda>_. Inr (default_http_client_config\<lparr>http_max_concurrency := 0\<rparr>)) [] =
       Done (Inr c)"
    and t: "ht_flights (jc_transport c) = Map.empty" "\<not> ht_poisoned (jc_transport c)" "ht_breaker (jc_transport c) = None"
      "ht_adaptive (jc_transport c) = None" "ht_queue (jc_transport c) = None" "ht_semaphore (jc_transport c) = None"
      "jc_next c = 0"
    using plain_js_client [of default_http_client_config False 0] by auto
  let ?c = "js_run ?env [JsExecute GET ''/x'' None None, PromiseBegin 0 None 0 0 0] c"
  have "\<exists>f. jc_promises ?c 0 = Some (JsInFlight True) \<and> ht_flights (jc_transport ?c) 0 = Some f \<and> fl_entered f \<and>
      \<not> ht_poisoned (jc_transport ?c)"
    using t by (simp add: js_run_def js_execute_def promise_begin_def new_token_def begin_request_def apply_adaptive_def
        set_promise_def promise_after_def js_request_def default_request_def)
  then obtain f where "jc_promises ?c 0 = Some (JsInFlight True)" "ht_flights (jc_transport ?c) 0 = Some f" "fl_entered f"
      "\<not> ht_poisoned (jc_transport ?c)" by blast
  from js_empty_window_is_fatal [OF this refl, of ?env 1 2 "Fin 1" None 0 0 ?r "[]", THEN conjunct2, THEN conjunct1] c
  show ?thesis by (auto simp: js_run_def simp del: js_step.simps)
qed

subsection \<open>Streams call back in order\<close>

definition told_to :: "nat \<Rightarrow> js_client \<Rightarrow> json list" where
  "told_to k c = map snd (filter (\<lambda>x. fst x = k) (jc_log c))"

fun to_tell :: "js_stream option \<Rightarrow> json list" where
  "to_tell (Some (StreamCalls js)) = js"
| "to_tell _ = []"

text \<open>The calls of a stream that was answered: silence, a cancellation, or headers, chunks and an end.\<close>

definition well_told :: "ffi_env \<Rightarrow> json list \<Rightarrow> bool" where
  "well_told env js \<longleftrightarrow> js = [] \<or> (\<exists>msg. js = [stream_event_to_json env (StreamError msg)]) \<or>
     (\<exists>st h bs last. js = map (stream_event_to_json env) (StreamHeaders st h # map StreamChunk bs @ last) \<and>
        (last = [] \<or> last = [StreamDone] \<or> (\<exists>msg. last = [StreamError msg])))"

lemma answers_well_told: "well_told env (map (stream_event_to_json env) (fst (execute_stream boundary send config req items)))"
proof (cases "send (build_stream_request boundary config req)")
  case None
  then have "fst (execute_stream boundary send config req items) = [StreamError ''request cancelled'']"
    by (simp add: execute_stream_def)
  then show ?thesis by (auto simp: well_told_def)
next
  case (Some x)
  show ?thesis
  proof (cases x)
    case (Inl e)
    with Some show ?thesis by (simp add: execute_stream_def well_told_def)
  next
    case (Inr r)
    obtain last res where s: "stream_loop items = (map StreamChunk (stream_bytes items) @ last, res)"
      and l: "case res of None \<Rightarrow> last = [] | Some (Inr _) \<Rightarrow> last = [StreamDone] | Some (Inl _) \<Rightarrow> \<exists>msg. last = [StreamError msg]"
      using stream_loop_shape [of items] by blast
    have "fst (execute_stream boundary send config req items) =
        StreamHeaders (rr_status r) (collect_headers (rr_headers r) []) # map StreamChunk (stream_bytes items) @ last"
      using Some Inr s by (simp add: execute_stream_def)
    moreover have "last = [] \<or> last = [StreamDone] \<or> (\<exists>msg. last = [StreamError msg])"
      using l by (auto split: option.splits sum.splits)
    ultimately show ?thesis unfolding well_told_def by metis
  qed
qed

definition streams_ok :: "ffi_env \<Rightarrow> js_client \<Rightarrow> bool" where
  "streams_ok env c \<longleftrightarrow> (\<forall>k. jc_next c \<le> k \<longrightarrow> told_to k c = [] \<and> jc_streams c k = None) \<and>
     (\<forall>k. well_told env (told_to k c @ to_tell (jc_streams c k))) \<and>
     (\<forall>k req. jc_streams c k = Some (StreamWaiting req) \<longrightarrow> told_to k c = [])"

lemma streams_same:
  assumes "streams_ok env c" and "jc_streams c' = jc_streams c" and "jc_log c' = jc_log c" and "jc_next c \<le> jc_next c'"
  shows "streams_ok env c'"
  using assms by (auto simp: streams_ok_def told_to_def)

lemma streams_step:
  assumes ok: "streams_ok (hfe_ffi env) c" shows "streams_ok (hfe_ffi env) (js_step env op c)"
proof (cases op)
  case (JsStream mth url body options)
  have "well_told (hfe_ffi env) []" by (simp add: well_told_def)
  with ok JsStream show ?thesis
    by (auto simp: js_execute_stream_def streams_ok_def told_to_def split: sum.split)
next
  case (StreamAnswers k boundary send items)
  show ?thesis
  proof (cases "\<exists>req. jc_streams c k = Some (StreamWaiting req)")
    case True
    then obtain req where s: "jc_streams c k = Some (StreamWaiting req)" by blast
    with ok have "told_to k c = []" "k < jc_next c" by (auto simp: streams_ok_def not_le [symmetric])
    with ok s StreamAnswers answers_well_told show ?thesis
      by (auto simp: js_stream_answers_def streams_ok_def told_to_def)
  next
    case False
    with StreamAnswers ok show ?thesis
      by (auto simp: js_stream_answers_def split: option.split js_stream.split)
  qed
next
  case (StreamCallsBack k)
  show ?thesis
  proof (cases "\<exists>j js. jc_streams c k = Some (StreamCalls (j # js))")
    case True
    then obtain j js where s: "jc_streams c k = Some (StreamCalls (j # js))" by blast
    with ok have "well_told (hfe_ffi env) (told_to k c @ j # js)" "k < jc_next c"
      by (auto simp: streams_ok_def not_le [symmetric] dest: spec [of _ k])
    with ok s StreamCallsBack show ?thesis
      by (auto simp: js_stream_calls_back_def streams_ok_def told_to_def)
  next
    case False
    with StreamCallsBack ok show ?thesis
      by (auto simp: js_stream_calls_back_def split: option.split js_stream.split list.split)
  qed
qed (auto intro!: streams_same [OF ok] simp: js_execute_def promise_begin_def promise_wait_def set_promise_def
    case_prod_unfold js_set_adaptive_timeout_def js_disable_adaptive_timeout_def or_unchanged_def
    js_network_changed_def js_cancel_all_def js_cancel_request_def js_next_request_id_def
    split: option.split promise_phase.split exec.split)

lemma streams_run: "streams_ok (hfe_ffi env) c \<Longrightarrow> streams_ok (hfe_ffi env) (js_run env ops c)"
  by (induction ops arbitrary: c) (simp_all add: js_run_def streams_step)

text \<open>
  What the function given to \<open>executeStream\<close> is called with, in every interleaving of requests,
  streams and cancellations: together with what is still in its queue the calls are either none at all
  (the request failed before a response came), or one error, or the headers, the chunks in order and at
  most one end, \<open>Done\<close> or an error, after which nothing comes.
\<close>

theorem js_stream_calls_in_order:
  assumes "js_client_new env in_runtime parse config_json = Done (Inr c0)"
  shows "well_told (hfe_ffi env) (told_to k (js_run env ops c0) @ to_tell (jc_streams (js_run env ops c0) k))"
proof -
  have "streams_ok (hfe_ffi env) c0"
    using assms by (auto simp: js_client_new_def streams_ok_def told_to_def well_told_def split: sum.splits exec.splits)
  from streams_run [OF this] show ?thesis by (simp add: streams_ok_def)
qed

theorem js_stream_calls_in_order_witness:
  "\<exists>c. js_client_new (plain_hff_env default_http_client_config) True (\<lambda>_. Inr (default_http_client_config\<lparr>http_max_concurrency := 2\<rparr>)) [] =
       Done (Inr c) \<and>
     well_told plain_ffi_env (told_to 0 (js_run (plain_hff_env default_http_client_config)
       [JsStream ''get'' ''/x'' None None, StreamAnswers 0 '''' (\<lambda>_. None) [], StreamCallsBack 0] c))"
proof -
  let ?env = "plain_hff_env default_http_client_config"
  let ?ops = "[JsStream ''get'' ''/x'' None None, StreamAnswers 0 '''' (\<lambda>_. None) [], StreamCallsBack 0]"
  obtain c where c: "js_client_new ?env True (\<lambda>_. Inr (default_http_client_config\<lparr>http_max_concurrency := 2\<rparr>)) [] =
       Done (Inr c)" and n: "jc_next c = 0" using plain_js_client [of default_http_client_config True 2] by auto
  have "js_parse_method plain_ffi_env ''get'' = Inr GET" by code_simp
  with n have "to_tell (jc_streams (js_run ?env ?ops c) 0) = []"
    by (simp add: js_run_def js_execute_stream_def plain_hff_env_def js_stream_answers_def execute_stream_def
        js_stream_calls_back_def)
  with js_stream_calls_in_order [OF c, of 0 ?ops] c show ?thesis by (auto simp: plain_hff_env_def)
qed

end
