(* ===== verification/Node_Sse.thy ===== *)
theory Node_Sse
  imports Sse_Client Ffi_Core
begin

section \<open>The Node binding of the event streams\<close>

text \<open>
  Models \<^verbatim>\<open>catcher-napi-http/src/sse.rs\<close>: the one-shot stream and the client with reconnection.  Each has
  a task that waits for the next line and for a message of the handle's \<open>close\<close>, whichever the \<open>select!\<close>
  sees first, and queues calls of a JavaScript function.  The task's end of the channel also wakes when
  the handle, which owns the other end, is garbage collected.
\<close>

subsection \<open>Events as JSON\<close>

definition sse_line_json :: "string \<Rightarrow> json" where
  "sse_line_json line = JObj [(''type'', JStr ''Line''), (''data'', JStr line)]"

definition sse_error_json :: "string \<Rightarrow> json" where
  "sse_error_json msg = JObj [(''type'', JStr ''Error''), (''message'', JStr msg)]"

definition sse_end_json :: json where
  "sse_end_json = JObj [(''type'', JStr ''End'')]"

definition item_json :: "catcher_error + string \<Rightarrow> json" where
  "item_json x = (case x of Inr line \<Rightarrow> sse_line_json line | Inl e \<Rightarrow> sse_error_json (display e))"

subsection \<open>What the two tasks share\<close>

text \<open>A task connects, loops over a source, and is done; or it failed to connect.\<close>

datatype 'a sse_stage = JsConnecting | JsLooping 'a | JsDone 'a | JsFailed

record 'a js_sse =
  jx_stage :: "'a sse_stage"
  jx_closes :: nat
  jx_alive :: bool
  jx_queue :: "json list"
  jx_log :: "json list"

definition js_sse_start :: "'a js_sse" where
  "js_sse_start = \<lparr>jx_stage = JsConnecting, jx_closes = 0, jx_alive = True, jx_queue = [], jx_log = []\<rparr>"

definition tell :: "json \<Rightarrow> 'a js_sse \<Rightarrow> 'a js_sse" where
  "tell js c = c\<lparr>jx_queue := jx_queue c @ [js]\<rparr>"

text \<open>
  The branch of the channel: \<open>recv\<close> returns when a message waits or when the sender is gone, and in both
  cases the loop is left and the end reported.  \<open>leave\<close> is what the loop does to its source there.
\<close>

definition loop_sees_close :: "('a \<Rightarrow> 'a) \<Rightarrow> 'a js_sse \<Rightarrow> 'a js_sse" where
  "loop_sees_close leave c =
     (case jx_stage c of
        JsLooping s \<Rightarrow>
          if 0 < jx_closes c \<or> \<not> jx_alive c
          then tell sse_end_json (c\<lparr>jx_stage := JsDone (leave s)\<rparr>) else c
      | _ \<Rightarrow> c)"

text \<open>\<open>close\<close>, the collection of the handle, and a call taken by the JavaScript thread.\<close>

definition js_sse_close :: "'a js_sse \<Rightarrow> 'a js_sse" where
  "js_sse_close c = (if jx_alive c then c\<lparr>jx_closes := Suc (jx_closes c)\<rparr> else c)"

definition js_handle_collected :: "'a js_sse \<Rightarrow> 'a js_sse" where
  "js_handle_collected c = c\<lparr>jx_alive := False\<rparr>"

definition js_takes_call :: "'a js_sse \<Rightarrow> 'a js_sse" where
  "js_takes_call c =
     (case jx_queue c of [] \<Rightarrow> c | js # rest \<Rightarrow> c\<lparr>jx_queue := rest, jx_log := jx_log c @ [js]\<rparr>)"

datatype handle_op = LoopSeesClose | JsCloses | HandleCollected | JsTakesCall

fun handle_step :: "('a \<Rightarrow> 'a) \<Rightarrow> handle_op \<Rightarrow> 'a js_sse \<Rightarrow> 'a js_sse" where
  "handle_step leave LoopSeesClose c = loop_sees_close leave c"
| "handle_step leave JsCloses c = js_sse_close c"
| "handle_step leave HandleCollected c = js_handle_collected c"
| "handle_step leave JsTakesCall c = js_takes_call c"

subsection \<open>The one-shot stream\<close>

definition js_sse_stream ::
  "(string \<Rightarrow> string + sse_client_config) \<Rightarrow> string \<Rightarrow> string + (sse_client_config \<times> sse_stream js_sse)" where
  "js_sse_stream parse config_json =
     (case parse config_json of Inl msg \<Rightarrow> Inl msg | Inr config \<Rightarrow> Inr (config, js_sse_start))"

definition stream_connects :: "sse_client_config \<Rightarrow> sse_response \<Rightarrow> sse_stream js_sse \<Rightarrow> sse_stream js_sse" where
  "stream_connects config r c =
     (case jx_stage c of
        JsConnecting \<Rightarrow>
          (case stream_connect config r of
             Inl e \<Rightarrow> tell (sse_error_json (display e)) (c\<lparr>jx_stage := JsFailed\<rparr>)
           | Inr s \<Rightarrow> c\<lparr>jx_stage := JsLooping s\<rparr>)
      | _ \<Rightarrow> c)"

definition stream_polls :: "sse_stream js_sse \<Rightarrow> sse_stream js_sse" where
  "stream_polls c =
     (case jx_stage c of
        JsLooping s \<Rightarrow>
          (case poll_next s of
             (Item x, s') \<Rightarrow> tell (item_json x) (c\<lparr>jx_stage := JsLooping s'\<rparr>)
           | (PendingPoll, s') \<Rightarrow> c\<lparr>jx_stage := JsLooping s'\<rparr>
           | (EndOfStream, s') \<Rightarrow> tell sse_end_json (c\<lparr>jx_stage := JsDone s'\<rparr>))
      | _ \<Rightarrow> c)"

datatype stream_op = StreamConnects sse_response | StreamPolls | StreamHandle handle_op

fun stream_step :: "sse_client_config \<Rightarrow> stream_op \<Rightarrow> sse_stream js_sse \<Rightarrow> sse_stream js_sse" where
  "stream_step config (StreamConnects r) c = stream_connects config r c"
| "stream_step config StreamPolls c = stream_polls c"
| "stream_step config (StreamHandle op) c = handle_step id op c"

definition stream_run :: "sse_client_config \<Rightarrow> stream_op list \<Rightarrow> sse_stream js_sse \<Rightarrow> sse_stream js_sse" where
  "stream_run config ops c = fold (stream_step config) ops c"

subsection \<open>The client with reconnection\<close>

text \<open>
  The channel on which the background loop of \<open>SseClient\<close> sends lines and errors: what was sent, how much
  of it was received, whether the loop has ended, and whether it was told to.
\<close>

record line_channel =
  lc_sent :: "(catcher_error + string) list"
  lc_taken :: nat
  lc_ended :: bool
  lc_cancelled :: bool

definition js_sse_client ::
  "(string \<Rightarrow> string + sse_client_config) \<Rightarrow> string \<Rightarrow> string + (sse_client_config \<times> line_channel js_sse)" where
  "js_sse_client parse config_json =
     (case parse config_json of Inl msg \<Rightarrow> Inl msg | Inr config \<Rightarrow> Inr (config, js_sse_start))"

text \<open>
  The error of \<open>SseClient::connect\<close> is an argument: at present it returns none.  A client that cannot be
  built ends the background loop (\<open>lines_end\<close>).
\<close>

definition client_connects :: "catcher_error option \<Rightarrow> line_channel js_sse \<Rightarrow> line_channel js_sse" where
  "client_connects err c =
     (case jx_stage c of
        JsConnecting \<Rightarrow>
          (case err of
             Some e \<Rightarrow> tell (sse_error_json (display e)) (c\<lparr>jx_stage := JsFailed\<rparr>)
           | None \<Rightarrow>
               c\<lparr>jx_stage := JsLooping \<lparr>lc_sent = [], lc_taken = 0, lc_ended = False, lc_cancelled = False\<rparr>\<rparr>)
      | _ \<Rightarrow> c)"

definition client_polls :: "line_channel js_sse \<Rightarrow> line_channel js_sse" where
  "client_polls c =
     (case jx_stage c of
        JsLooping s \<Rightarrow>
          if lc_taken s < length (lc_sent s)
          then tell (item_json (lc_sent s ! lc_taken s)) (c\<lparr>jx_stage := JsLooping (s\<lparr>lc_taken := Suc (lc_taken s)\<rparr>)\<rparr>)
          else if lc_ended s then tell sse_end_json (c\<lparr>jx_stage := JsDone s\<rparr>)
          else c
      | _ \<Rightarrow> c)"

definition cancel_lines :: "line_channel \<Rightarrow> line_channel" where
  "cancel_lines s = s\<lparr>lc_cancelled := True\<rparr>"

text \<open>What the background loop of the client does.\<close>

definition lines_arrive :: "catcher_error + string \<Rightarrow> line_channel js_sse \<Rightarrow> line_channel js_sse" where
  "lines_arrive x c =
     (case jx_stage c of
        JsLooping s \<Rightarrow> if lc_ended s then c else c\<lparr>jx_stage := JsLooping (s\<lparr>lc_sent := lc_sent s @ [x]\<rparr>)\<rparr>
      | _ \<Rightarrow> c)"

definition lines_end :: "line_channel js_sse \<Rightarrow> line_channel js_sse" where
  "lines_end c =
     (case jx_stage c of JsLooping s \<Rightarrow> c\<lparr>jx_stage := JsLooping (s\<lparr>lc_ended := True\<rparr>)\<rparr> | _ \<Rightarrow> c)"

datatype client_op =
    ClientConnects "catcher_error option"
  | ClientPolls
  | LinesArrive "catcher_error + string"
  | LinesEnd
  | ClientHandle handle_op

fun client_step :: "client_op \<Rightarrow> line_channel js_sse \<Rightarrow> line_channel js_sse" where
  "client_step (ClientConnects err) c = client_connects err c"
| "client_step ClientPolls c = client_polls c"
| "client_step (LinesArrive x) c = lines_arrive x c"
| "client_step LinesEnd c = lines_end c"
| "client_step (ClientHandle op) c = handle_step cancel_lines op c"

definition client_run :: "client_op list \<Rightarrow> line_channel js_sse \<Rightarrow> line_channel js_sse" where
  "client_run ops c = fold client_step ops c"

subsection \<open>Calls of the one-shot stream\<close>

text \<open>What JavaScript was told and will be; and whether the handle was closed or collected.\<close>

definition all_told :: "'a js_sse \<Rightarrow> json list" where
  "all_told c = jx_log c @ jx_queue c"

definition cut_short :: "'a js_sse \<Rightarrow> bool" where
  "cut_short c \<longleftrightarrow> 0 < jx_closes c \<or> \<not> jx_alive c"

lemma tell_simps [simp]:
  "all_told (tell js c) = all_told c @ [js]" "jx_stage (tell js c) = jx_stage c" "cut_short (tell js c) = cut_short c"
  "all_told (c\<lparr>jx_stage := st\<rparr>) = all_told c" "cut_short (c\<lparr>jx_stage := st\<rparr>) = cut_short c"
  by (simp_all add: all_told_def tell_def cut_short_def)

text \<open>What an operation on the handle can do: nothing that matters, or leaving the loop.\<close>

lemma handle_cases:
  obtains "jx_stage (handle_step leave op c) = jx_stage c" "all_told (handle_step leave op c) = all_told c"
      "cut_short c \<longrightarrow> cut_short (handle_step leave op c)"
  | s where "jx_stage c = JsLooping s" "cut_short c" "jx_stage (handle_step leave op c) = JsDone (leave s)"
      "all_told (handle_step leave op c) = all_told c @ [sse_end_json]" "cut_short (handle_step leave op c)"
proof (cases "\<exists>s. op = LoopSeesClose \<and> jx_stage c = JsLooping s \<and> cut_short c")
  case True
  then show ?thesis using that(2) by (auto simp: loop_sees_close_def cut_short_def [of c])
next
  case False
  then show ?thesis using that(1)
    by (cases op) (auto simp: loop_sees_close_def cut_short_def all_told_def js_sse_close_def js_handle_collected_def
        js_takes_call_def split: sse_stage.splits list.splits)
qed

definition stream_ok :: "string list \<Rightarrow> sse_stream js_sse \<Rightarrow> bool" where
  "stream_ok lines c \<longleftrightarrow>
     (case jx_stage c of
        JsLooping s \<Rightarrow> list_all no_error (st_source s) \<and>
          (\<exists>ls. lines = ls @ st_pending s @ yields (to_come s) \<and> all_told c = map sse_line_json ls)
      | JsDone s \<Rightarrow> \<exists>ls rest. lines = ls @ rest \<and> all_told c = map sse_line_json ls @ [sse_end_json] \<and>
          (rest \<noteq> [] \<longrightarrow> cut_short c)
      | _ \<Rightarrow> False)"

lemma stream_ok_polls:
  assumes "stream_ok lines c" shows "stream_ok lines (stream_polls c)"
proof (cases "jx_stage c")
  case (JsLooping s)
  with assms obtain ls where src: "list_all no_error (st_source s)"
    and ls: "lines = ls @ st_pending s @ yields (to_come s)" "all_told c = map sse_line_json ls"
    by (auto simp: stream_ok_def)
  obtain r s' where p: "poll_next s = (r, s')" by fastforce
  note spec = poll_next_spec [OF src, unfolded p prod.case]
  show ?thesis
  proof (cases r)
    case (Item x)
    with spec obtain l where "x = Ok l" "list_all no_error (st_source s')"
      "st_pending s @ yields (to_come s) = l # st_pending s' @ yields (to_come s')" by auto
    with JsLooping p Item ls show ?thesis
      by (auto simp: stream_ok_def stream_polls_def item_json_def intro!: exI [of _ "ls @ [l]"])
  next
    case PendingPoll
    with spec JsLooping p ls show ?thesis by (simp add: stream_ok_def stream_polls_def)
  next
    case EndOfStream
    with spec JsLooping p ls show ?thesis by (auto simp: stream_ok_def stream_polls_def)
  qed
qed (use assms in \<open>auto simp: stream_ok_def stream_polls_def\<close>)

lemma stream_ok_handle:
  assumes "stream_ok lines c" shows "stream_ok lines (handle_step id op c)"
proof (rule handle_cases [of id op c])
  assume "jx_stage (handle_step id op c) = jx_stage c" "all_told (handle_step id op c) = all_told c"
    "cut_short c \<longrightarrow> cut_short (handle_step id op c)"
  with assms show ?thesis by (auto simp: stream_ok_def split: sse_stage.splits)
next
  fix s
  assume "jx_stage c = JsLooping s" "jx_stage (handle_step id op c) = JsDone (id s)"
    "all_told (handle_step id op c) = all_told c @ [sse_end_json]" "cut_short (handle_step id op c)"
  with assms show ?thesis by (auto simp: stream_ok_def)
qed

lemma stream_ok_step: "stream_ok lines c \<Longrightarrow> stream_ok lines (stream_step config op c)"
  by (cases op)
    (auto simp: stream_ok_polls stream_ok_handle stream_connects_def stream_ok_def [of _ c] split: sse_stage.splits)

lemma stream_ok_run: "stream_ok lines c \<Longrightarrow> stream_ok lines (stream_run config ops c)"
  by (induction ops arbitrary: c) (simp_all add: stream_run_def stream_ok_step)

text \<open>
  C39. What the function given to \<open>sseStream\<close> is called with after a response of 200, however polls, \<open>close\<close>,
  garbage collection and the JavaScript thread interleave: the content lines of the body in order, from
  the first, and \<open>End\<close> exactly once, as the last call, when the task is over; lines are missing at the end
  only when the handle was closed or collected.
\<close>

theorem js_stream_lines:
  assumes "list_all no_error src"
    and "c = stream_run config ops (stream_connects config (SseResponse 200 src) js_sse_start)"
  shows "\<exists>ls rest. yields (all_lines (source_text src)) = ls @ rest \<and>
    ((\<exists>s. jx_stage c = JsLooping s) \<and> jx_log c @ jx_queue c = map sse_line_json ls \<or>
     (\<exists>s. jx_stage c = JsDone s) \<and> jx_log c @ jx_queue c = map sse_line_json ls @ [sse_end_json] \<and>
       (rest \<noteq> [] \<longrightarrow> 0 < jx_closes c \<or> \<not> jx_alive c))"
proof -
  have "stream_ok (yields (all_lines (source_text src))) (stream_connects config (SseResponse 200 src) js_sse_start)"
    using assms(1) by (simp add: stream_connects_def js_sse_start_def stream_connect_def stream_ok_def to_come_def all_told_def)
  from stream_ok_run [OF this, of config ops] show ?thesis
    unfolding assms(2) stream_ok_def all_told_def cut_short_def by (auto split: sse_stage.splits)
qed

theorem js_stream_lines_witness:
  "\<exists>ls rest. yields (all_lines (source_text [ReadyChunk ''data: a''])) = ls @ rest \<and>
     jx_log (stream_run default_sse_client_config [StreamPolls, StreamHandle JsTakesCall]
       (stream_connects default_sse_client_config (SseResponse 200 [ReadyChunk ''data: a'']) js_sse_start)) @
     jx_queue (stream_run default_sse_client_config [StreamPolls, StreamHandle JsTakesCall]
       (stream_connects default_sse_client_config (SseResponse 200 [ReadyChunk ''data: a'']) js_sse_start))
     \<in> {map sse_line_json ls, map sse_line_json ls @ [sse_end_json]}"
  using js_stream_lines [of "[ReadyChunk ''data: a'']", OF _ refl, of default_sse_client_config
      "[StreamPolls, StreamHandle JsTakesCall]"] by auto

subsection \<open>The handle must be kept\<close>

lemma stream_over:
  assumes "jx_stage c = JsDone s"
  shows "jx_stage (stream_step config op c) = JsDone s \<and> all_told (stream_step config op c) = all_told c"
proof (cases op)
  case (StreamHandle h)
  show ?thesis
    by (rule handle_cases [of id h c]) (use assms StreamHandle in auto)
qed (use assms in \<open>auto simp: stream_connects_def stream_polls_def\<close>)

lemma stream_stays_over:
  "jx_stage c = JsDone s \<Longrightarrow>
     jx_stage (stream_run config ops c) = JsDone s \<and> all_told (stream_run config ops c) = all_told c"
  by (induction ops arbitrary: c) (simp_all add: stream_run_def stream_over)

text \<open>
  A stream lives no longer than its handle: once the handle is collected, even though \<open>close\<close> was never
  called, the task may at any moment leave its loop; it then reports \<open>End\<close> as if the server had finished, and
  nothing that the server still sends is ever delivered.
\<close>

theorem js_collected_handle_ends_stream:
  assumes "jx_stage c = JsLooping s"
    and "c' = stream_run config ([StreamHandle HandleCollected, StreamHandle LoopSeesClose] @ ops) c"
  shows "jx_log c' @ jx_queue c' = jx_log c @ jx_queue c @ [sse_end_json] \<and> (\<exists>s. jx_stage c' = JsDone s)"
proof -
  let ?c = "stream_run config [StreamHandle HandleCollected, StreamHandle LoopSeesClose] c"
  have "jx_stage ?c = JsDone s" "all_told ?c = all_told c @ [sse_end_json]"
    using assms(1) by (simp_all add: stream_run_def js_handle_collected_def loop_sees_close_def all_told_def tell_def)
  moreover have "c' = stream_run config ops ?c" by (simp add: assms(2) stream_run_def)
  ultimately show ?thesis using stream_stays_over [of ?c s config ops] by (simp add: all_told_def)
qed

theorem js_collected_handle_ends_stream_witness:
  "\<exists>c. jx_log c @ jx_queue c = [sse_end_json] \<and>
     c = stream_run default_sse_client_config [StreamHandle HandleCollected, StreamHandle LoopSeesClose, StreamPolls]
       (stream_connects default_sse_client_config (SseResponse 200 [ReadyChunk ''data: a'']) js_sse_start)"
proof -
  let ?c = "stream_connects default_sse_client_config (SseResponse 200 [ReadyChunk ''data: a'']) js_sse_start"
  obtain s where "jx_stage ?c = JsLooping s" and l: "jx_log ?c = []" "jx_queue ?c = []"
    by (simp add: stream_connects_def js_sse_start_def stream_connect_def)
  from js_collected_handle_ends_stream [OF this(1) refl, of default_sse_client_config "[StreamPolls]"] l
  show ?thesis by simp
qed

subsection \<open>Calls of the client\<close>

definition client_ok :: "line_channel js_sse \<Rightarrow> bool" where
  "client_ok c \<longleftrightarrow>
     (case jx_stage c of
        JsConnecting \<Rightarrow> all_told c = []
      | JsFailed \<Rightarrow> \<exists>e. all_told c = [sse_error_json (display e)]
      | JsLooping s \<Rightarrow> lc_taken s \<le> length (lc_sent s) \<and> all_told c = map item_json (take (lc_taken s) (lc_sent s))
      | JsDone s \<Rightarrow> all_told c = map item_json (take (lc_taken s) (lc_sent s)) @ [sse_end_json] \<and>
          (if lc_cancelled s then cut_short c else lc_ended s \<and> lc_taken s = length (lc_sent s)))"

lemma client_ok_step:
  assumes ok: "client_ok c" and fresh: "\<forall>s. jx_stage c = JsLooping s \<longrightarrow> \<not> lc_cancelled s"
  shows "client_ok (client_step op c) \<and> (\<forall>s. jx_stage (client_step op c) = JsLooping s \<longrightarrow> \<not> lc_cancelled s)"
proof (cases op)
  case (ClientHandle h)
  show ?thesis
    by (rule handle_cases [of cancel_lines h c])
      (use assms ClientHandle in \<open>auto simp: client_ok_def cancel_lines_def split: sse_stage.splits\<close>)
next
  case (ClientConnects err)
  with assms show ?thesis
    by (auto simp: client_connects_def client_ok_def split: sse_stage.splits option.splits)
next
  case ClientPolls
  with assms show ?thesis
    by (auto simp: client_polls_def client_ok_def take_Suc_conv_app_nth split: sse_stage.splits)
next
  case (LinesArrive x)
  with assms show ?thesis by (auto simp: lines_arrive_def client_ok_def split: sse_stage.splits)
next
  case LinesEnd
  with assms show ?thesis by (auto simp: lines_end_def client_ok_def split: sse_stage.splits)
qed

definition running_ok :: "line_channel js_sse \<Rightarrow> bool" where
  "running_ok c \<longleftrightarrow> client_ok c \<and> (\<forall>s. jx_stage c = JsLooping s \<longrightarrow> \<not> lc_cancelled s)"

lemma running_ok_run: "running_ok c \<Longrightarrow> running_ok (client_run ops c)"
proof (induction ops arbitrary: c)
  case (Cons op ops)
  have "running_ok (client_step op c)" using client_ok_step [of c op] Cons.prems by (simp add: running_ok_def)
  from Cons.IH [OF this] show ?case by (simp add: client_run_def)
qed (simp add: client_run_def)

text \<open>
  The client's calls, in every interleaving: the lines and errors that its background loop
  sent, in order and without gaps, then \<open>End\<close> once when the task is over; without a close or a collection
  the end comes after all of them and only when the background loop has ended.
\<close>

theorem js_client_calls:
  assumes "jx_stage (client_run ops js_sse_start) = JsDone s"
  shows "\<exists>items rest. lc_sent s = items @ rest \<and>
    jx_log (client_run ops js_sse_start) @ jx_queue (client_run ops js_sse_start) = map item_json items @ [sse_end_json] \<and>
    (\<not> lc_cancelled s \<longrightarrow> rest = [] \<and> lc_ended s)"
proof -
  have "running_ok (js_sse_start :: line_channel js_sse)"
    by (simp add: running_ok_def client_ok_def js_sse_start_def all_told_def)
  from running_ok_run [OF this] have "client_ok (client_run ops js_sse_start)" by (simp add: running_ok_def)
  with assms show ?thesis
    by (intro exI [of _ "take (lc_taken s) (lc_sent s)"] exI [of _ "drop (lc_taken s) (lc_sent s)"])
      (auto simp: client_ok_def all_told_def split: if_splits)
qed

theorem js_client_calls_witness:
  "\<exists>s. jx_stage (client_run [ClientConnects None, LinesArrive (Ok ''data: a''), ClientPolls, LinesEnd, ClientPolls]
       js_sse_start) = JsDone s \<and> lc_ended s"
proof -
  let ?ops = "[ClientConnects None, LinesArrive (Ok ''data: a''), ClientPolls, LinesEnd, ClientPolls]"
  obtain s where s: "jx_stage (client_run ?ops js_sse_start) = JsDone s" and "\<not> lc_cancelled s"
    by (simp add: client_run_def client_connects_def js_sse_start_def lines_arrive_def client_polls_def lines_end_def tell_def)
  with js_client_calls [OF s] show ?thesis by blast
qed

end
