(* ===== verification/Ws_Consumer.thy ===== *)
theory Ws_Consumer
  imports Ws_Ffi "HOL-Library.Sublist"
begin

section \<open>Consumers of the events of a connection\<close>

text \<open>
  The bindings take the events of a connection from its channel one by one, while the connection task
  goes on adding to it.  The locale \<open>event_source\<close> is the contract between the two: events are only ever
  added.  What a consumer has received is then a prefix of the events of one run.
\<close>

locale event_source =
  fixes step :: "'i \<Rightarrow> 's \<Rightarrow> 's" and events :: "'s \<Rightarrow> 'e list"
  assumes grows: "prefix (events s) (events (step i s))"
begin

text \<open>After a run from \<open>s0\<close> to \<open>s\<close> the consumer has received \<open>evs\<close>.\<close>

definition follows :: "'s \<Rightarrow> 's \<Rightarrow> 'e list \<Rightarrow> bool" where
  "follows s0 s evs \<longleftrightarrow> (\<exists>is. s = fold step is s0) \<and> prefix evs (events s)"

lemma follows_start: "follows s0 s0 []"
  by (auto simp: follows_def intro: exI [of _ "[]"])

lemma follows_step:
  assumes "follows s0 s evs" shows "follows s0 (step i s) evs"
proof -
  from assms obtain "is" where "s = fold step is s0" by (auto simp: follows_def)
  then have "step i s = fold step (is @ [i]) s0" by simp
  with assms grows [of s i] show ?thesis unfolding follows_def by (metis prefix_order.trans)
qed

lemma follows_next:
  assumes "follows s0 s evs" and "length evs < length (events s)"
  shows "follows s0 s (evs @ [events s ! length evs])"
proof -
  obtain zs where "events s = evs @ zs" using assms(1) by (auto simp: follows_def prefix_def)
  moreover from this assms(2) obtain z zs' where "zs = z # zs'" by (cases zs) auto
  ultimately show ?thesis using assms(1) by (auto simp: follows_def)
qed

end

text \<open>The steps of the connection task keep the events that it has reported.\<close>

definition keeps :: "ws_event list \<Rightarrow> ws_manager \<Rightarrow> bool" where
  "keeps es m \<longleftrightarrow> prefix es (wm_events m)"

lemma keeps_update [simp]:
  "keeps es (m\<lparr>wm_phase := p\<rparr>) = keeps es m" "keeps es (m\<lparr>wm_url := u\<rparr>) = keeps es m"
  "keeps es (m\<lparr>wm_reconnect := r\<rparr>) = keeps es m" "keeps es (m\<lparr>wm_hb := h\<rparr>) = keeps es m"
  "keeps es (m\<lparr>wm_ping_ms := i\<rparr>) = keeps es m" "keeps es (m\<lparr>wm_buffered := b\<rparr>) = keeps es m"
  "keeps es (m\<lparr>wm_race := k\<rparr>) = keeps es m" "keeps es (m\<lparr>wm_queue := q\<rparr>) = keeps es m"
  "keeps es (m\<lparr>wm_open := o'\<rparr>) = keeps es m" "keeps es (m\<lparr>wm_taken := t\<rparr>) = keeps es m"
  "keeps es (m\<lparr>wm_conn := n\<rparr>) = keeps es m" "keeps es (write_frames fs m) = keeps es m"
  by (simp_all add: keeps_def write_frames_def)

lemma keeps_emit [simp]: "keeps es m \<Longrightarrow> keeps es (emit evs m)"
  by (simp add: keeps_def emit_def)

lemma keeps_offline [simp]:
  assumes "keeps es m" shows "keeps es (next_attempt m)" "keeps es (go_offline code reason m)"
proof -
  have n: "keeps es (next_attempt m1)" if "keeps es m1" for m1
    using that by (auto simp: next_attempt_def split: option.split prod.split)
  show "keeps es (next_attempt m)" "keeps es (go_offline code reason m)"
    using n assms by (simp_all add: go_offline_def)
qed

lemma keeps_online [simp]: "keeps es m \<Longrightarrow> keeps es (go_online config url lat m)"
  by (simp add: go_online_def Let_def)

lemma keeps_drain: "drain_channel m = (n, a, m') \<Longrightarrow> keeps es m \<Longrightarrow> keeps es m'"
  using drain_channel_frame(2) by (simp add: keeps_def)

lemma keeps_rebuild: "rebuild_client env config reported m = Done m' \<Longrightarrow> keeps es m \<Longrightarrow> keeps es m'"
  by (erule rebuild_client_frame) (simp add: keeps_def)

lemma keeps_changed [simp]:
  assumes "keeps es m"
  shows "keeps es (on_network_changed env config reported m)" "keeps es (end_backoff env config reported skip m)"
  using assms
  by (auto simp: on_network_changed_def end_backoff_def Let_def keeps_rebuild
      dest: keeps_drain [of _ _ _ _ es] split: prod.split exec.split)

lemma keeps_connected [simp]: "keeps es m \<Longrightarrow> keeps es (stream_connected env config url lat sink m)"
  by (auto simp: stream_connected_def Let_def split: prod.split option.split)

lemma keeps_message [simp]:
  assumes "keeps es m"
  shows "keeps es (send_message env config out cmd m)" "keeps es (close_connection config out shutdown code reason m)"
  using assms
  by (auto simp: send_message_def close_connection_def Let_def split: option.split sum.split send_status.split)

lemma keeps_step:
  assumes "keeps es m" shows "keeps es (ws_step env config i m)"
proof (cases i)
  case (TakeCommand out shutdown reported)
  with assms show ?thesis
    by (auto simp: take_command_def online_command_def backoff_command_def split: list.split ws_command.split)
next
  case (DialEnds res order sink)
  with assms show ?thesis
    by (auto simp: redial_ends_def dial_ends_def split: ws_phase.split exec.split sum.split)
qed (use assms in \<open>auto simp: post_def ping_tick_def incoming_def Let_def
    split: option.split prod.split tick_outcome.split ws_frame.split\<close>)

interpretation connection: event_source "ws_step env config" wm_events for env config
  by unfold_locales (use keeps_step [of "wm_events s" s for s] in \<open>auto simp: keeps_def\<close>)

text \<open>What a consumer of a connection has received.\<close>

definition received :: "'v ws_env \<Rightarrow> ws_client_config \<Rightarrow> ws_manager \<Rightarrow> ws_manager \<Rightarrow> ws_event list \<Rightarrow> bool" where
  "received env config = event_source.follows (ws_step env config) wm_events"

lemmas received_start = connection.follows_start [folded received_def]
lemmas received_step = connection.follows_step [folded received_def]
lemmas received_next = connection.follows_next [folded received_def]
lemmas received_meaning = connection.follows_def [folded received_def]

lemma fold_ws_run: "fold (ws_step env config) is m = ws_run env config is m"
  by (induction "is" arbitrary: m) simp_all

text \<open>Every prefix of a run's events obeys the protocol of connections.\<close>

lemma observe_prefix:
  "observe_all v (xs @ ys) = Some u \<Longrightarrow> \<exists>w. observe_all v xs = Some w"
  by (induction xs arbitrary: v) (auto split: option.splits)

lemma follows_protocol:
  assumes "received env config (ws_start config ctx url lat) m evs"
  shows "\<exists>v. observe_all Down evs = Some v"
proof -
  from assms obtain "is" zs where "m = ws_run env config is (ws_start config ctx url lat)" "wm_events m = evs @ zs"
    by (auto simp: received_meaning fold_ws_run prefix_def)
  with view_ok_run [OF view_ok_start, of env config "is" config ctx url lat] show ?thesis
    by (auto simp: view_ok_def sees_def intro: observe_prefix)
qed

end
