(* ===== verification/Node_Ws.thy ===== *)
theory Node_Ws
  imports Ws_Consumer Msgpack_Codec
begin

section \<open>The Node binding of the WebSocket client\<close>

text \<open>
  Models \<^verbatim>\<open>catcher-napi-ws/src/lib.rs\<close>: a \<open>JsWsClient\<close> connects in a task, which stores the handle of the
  connection for the methods of the object and then forwards the events to a JavaScript function.  The
  object and the task share the handle: it is dropped when the object is collected and the task is over.
\<close>

subsection \<open>State\<close>

datatype js_ws_phase = JwConnecting | JwReceiving | JwOver

text \<open>
  \<open>jw_manager\<close> is the connection once it is made; \<open>jw_told\<close> the calls queued for JavaScript so far, of
  which it has taken the first \<open>jw_taken\<close>.
\<close>

record js_ws =
  jw_config :: ws_client_config
  jw_phase :: js_ws_phase
  jw_manager :: "ws_manager option"
  jw_received :: "ws_event list"
  jw_alive :: bool
  jw_callback :: bool
  jw_told :: "json list"
  jw_taken :: nat

definition js_ws_new ::
  "(string \<Rightarrow> string + ws_client_config) \<Rightarrow> string \<Rightarrow> bool \<Rightarrow> string + js_ws" where
  "js_ws_new parse config_json has_callback =
     (case parse config_json of
        Inl msg \<Rightarrow> Inl msg
      | Inr config \<Rightarrow>
          if ws_urls config = [] then Inl ''urls cannot be empty''
          else Inr \<lparr>jw_config = config, jw_phase = JwConnecting, jw_manager = None, jw_received = [],
                    jw_alive = True, jw_callback = has_callback, jw_told = [], jw_taken = 0\<rparr>)"

text \<open>The queue of a thread-safe function has no bound here, so \<open>Blocking\<close> calls do not wait.\<close>

definition js_call :: "json \<Rightarrow> js_ws \<Rightarrow> js_ws" where
  "js_call js c = (if jw_callback c then c\<lparr>jw_told := jw_told c @ [js]\<rparr> else c)"

text \<open>Both owners are gone: the senders of the connection's channel are dropped.\<close>

definition release_handle :: "js_ws \<Rightarrow> js_ws" where
  "release_handle c =
     (if \<not> jw_alive c \<and> jw_phase c = JwOver
      then c\<lparr>jw_manager := map_option (\<lambda>m. m\<lparr>wm_open := False\<rparr>) (jw_manager c)\<rparr> else c)"

subsection \<open>The task\<close>

definition js_connect_done ::
  "'v wsf_env \<Rightarrow> (nat \<Rightarrow> task_result) \<Rightarrow> nat list \<Rightarrow> js_ws \<Rightarrow> js_ws" where
  "js_connect_done env res order c =
     (if jw_phase c = JwConnecting
      then (case ws_connect (wse_ws env) (jw_config c) res order of
              Panic \<Rightarrow> release_handle (c\<lparr>jw_phase := JwOver\<rparr>)
            | Done (Inr m) \<Rightarrow> c\<lparr>jw_phase := JwReceiving, jw_manager := Some m\<rparr>
            | Done (Inl e) \<Rightarrow>
                release_handle (js_call (JObj [(''type'', JStr ''Error''), (''message'', JStr (display e))])
                  (c\<lparr>jw_phase := JwOver\<rparr>)))
      else c)"

definition js_receive :: "'v wsf_env \<Rightarrow> js_ws \<Rightarrow> js_ws" where
  "js_receive env c =
     (case (jw_phase c, jw_manager c) of
        (JwReceiving, Some m) \<Rightarrow>
          if length (jw_received c) < length (wm_events m)
          then let ev = wm_events m ! length (jw_received c)
               in js_call (to_ffi_json (fe_base64 (wse_ffi env)) ev) (c\<lparr>jw_received := jw_received c @ [ev]\<rparr>)
          else if task_ended m then release_handle (c\<lparr>jw_phase := JwOver\<rparr>)
          else c
      | _ \<Rightarrow> c)"

definition js_takes :: "js_ws \<Rightarrow> js_ws" where
  "js_takes c = (if jw_taken c < length (jw_told c) then c\<lparr>jw_taken := Suc (jw_taken c)\<rparr> else c)"

definition js_object_collected :: "js_ws \<Rightarrow> js_ws" where
  "js_object_collected c = release_handle (c\<lparr>jw_alive := False\<rparr>)"

subsection \<open>The methods\<close>

text \<open>A method posts a command through the stored handle; the error is a reason.\<close>

definition js_post_command :: "ws_command \<Rightarrow> js_ws \<Rightarrow> (string + unit) option \<times> js_ws" where
  "js_post_command cmd c =
     (case jw_manager c of
        None \<Rightarrow> (None, c)
      | Some m \<Rightarrow>
          (case post cmd m of
             (Inl e, _) \<Rightarrow> (Some (Inl (display e)), c)
           | (Inr _, m') \<Rightarrow> (Some (Inr ()), c\<lparr>jw_manager := Some m'\<rparr>)))"

definition not_connected :: "(string + unit) option \<times> js_ws \<Rightarrow> (string + unit) \<times> js_ws" where
  "not_connected x =
     (case x of (None, c) \<Rightarrow> (Inl ''WebSocket not connected'', c) | (Some r, c) \<Rightarrow> (r, c))"

definition js_ws_send :: "string \<Rightarrow> js_ws \<Rightarrow> (string + unit) \<times> js_ws" where
  "js_ws_send text c = not_connected (js_post_command (CmdText text) c)"

definition js_ws_send_binary :: "bytes \<Rightarrow> js_ws \<Rightarrow> (string + unit) \<times> js_ws" where
  "js_ws_send_binary b c = not_connected (js_post_command (CmdBinary b) c)"

definition js_ws_network_changed :: "js_ws \<Rightarrow> (string + unit) \<times> js_ws" where
  "js_ws_network_changed c = not_connected (js_post_command CmdNetworkChanged c)"

definition js_ws_close :: "u16 option \<Rightarrow> string option \<Rightarrow> js_ws \<Rightarrow> (string + unit) \<times> js_ws" where
  "js_ws_close code reason c =
     (case js_post_command
             (CmdClose (case code of Some x \<Rightarrow> x | None \<Rightarrow> 1000)
                (case reason of Some r \<Rightarrow> r | None \<Rightarrow> ''normal'')) c of
        (None, c) \<Rightarrow> (Inr (), c)
      | (Some r, c) \<Rightarrow> (r, c))"

text \<open>\<open>pack\<close> and \<open>unpack\<close>: the codec with its errors as reasons; the value comes from JavaScript.\<close>

definition js_pack :: "codec_env \<Rightarrow> json \<Rightarrow> string + bytes" where
  "js_pack env v = map_err display (pack env v)"

text \<open>\<open>unpack\<close> decodes with \<open>rmp_serde\<close> directly, not through \<open>rmpv\<close>.\<close>

definition codec_unpack :: "(bytes \<Rightarrow> string + json) \<Rightarrow> bytes \<Rightarrow> catcher_error + json" where
  "codec_unpack from_slice d = map_err DecodeError (from_slice d)"

definition js_unpack :: "codec_env \<Rightarrow> (bytes \<Rightarrow> string + json) \<Rightarrow> bytes \<Rightarrow> string + string" where
  "js_unpack env from_slice d = map_err display (bind_res (codec_unpack from_slice d) (\<lambda>v. Ok (ce_text env v)))"

subsection \<open>Runs\<close>

datatype js_ws_op =
    JwConnectDone "nat \<Rightarrow> task_result" "nat list"
  | JwReceive
  | JwTakes
  | JwCollected
  | JwSend string
  | JwSendBinary bytes
  | JwNetworkChanged
  | JwClose "u16 option" "string option"
  | JwManagerStep ws_input

fun js_ws_step :: "'v wsf_env \<Rightarrow> js_ws_op \<Rightarrow> js_ws \<Rightarrow> js_ws" where
  "js_ws_step env (JwConnectDone res order) c = js_connect_done env res order c"
| "js_ws_step env JwReceive c = js_receive env c"
| "js_ws_step env JwTakes c = js_takes c"
| "js_ws_step env JwCollected c = js_object_collected c"
| "js_ws_step env (JwSend text) c = (if jw_alive c then snd (js_ws_send text c) else c)"
| "js_ws_step env (JwSendBinary b) c = (if jw_alive c then snd (js_ws_send_binary b c) else c)"
| "js_ws_step env JwNetworkChanged c = (if jw_alive c then snd (js_ws_network_changed c) else c)"
| "js_ws_step env (JwClose code reason) c = (if jw_alive c then snd (js_ws_close code reason c) else c)"
| "js_ws_step env (JwManagerStep inp) c =
     (if own_input inp
      then c\<lparr>jw_manager := map_option (ws_step (wse_ws env) (jw_config c) inp) (jw_manager c)\<rparr> else c)"

definition js_ws_run :: "'v wsf_env \<Rightarrow> js_ws_op list \<Rightarrow> js_ws \<Rightarrow> js_ws" where
  "js_ws_run env ops c = fold (js_ws_step env) ops c"

subsection \<open>What JavaScript is told\<close>

definition told_events :: "'v wsf_env \<Rightarrow> js_ws \<Rightarrow> ws_event list \<Rightarrow> bool" where
  "told_events env c evs \<longleftrightarrow>
     jw_told c = (if jw_callback c then map (to_ffi_json (fe_base64 (wse_ffi env))) evs else [])"

definition on_line :: "'v wsf_env \<Rightarrow> js_ws \<Rightarrow> ws_manager \<Rightarrow> bool" where
  "on_line env c m \<longleftrightarrow>
     (\<exists>ctx url lat. received (wse_ws env) (jw_config c) (ws_start (jw_config c) ctx url lat) m (jw_received c)) \<and>
     told_events env c (jw_received c)"

fun js_ws_ok :: "'v wsf_env \<Rightarrow> js_ws \<Rightarrow> js_ws_phase \<Rightarrow> ws_manager option \<Rightarrow> bool" where
  "js_ws_ok env c JwConnecting m \<longleftrightarrow> m = None \<and> jw_received c = [] \<and> jw_told c = []"
| "js_ws_ok env c JwReceiving m \<longleftrightarrow> (\<exists>m'. m = Some m' \<and> on_line env c m' \<and> wm_open m')"
| "js_ws_ok env c JwOver None \<longleftrightarrow> (\<exists>evs. set evs \<subseteq> range EvError \<and> told_events env c evs)"
| "js_ws_ok env c JwOver (Some m) \<longleftrightarrow> on_line env c m"

definition js_ws_inv :: "'v wsf_env \<Rightarrow> js_ws \<Rightarrow> bool" where
  "js_ws_inv env c \<longleftrightarrow> js_ws_ok env c (jw_phase c) (jw_manager c)"

lemma on_line_step: "on_line env c m \<Longrightarrow> on_line env c (ws_step (wse_ws env) (jw_config c) inp m)"
  by (auto simp: on_line_def intro: received_step)

lemma on_line_start:
  "jw_received c = [] \<Longrightarrow> jw_told c = [] \<Longrightarrow> on_line env c (ws_start (jw_config c) ctx url lat)"
  unfolding on_line_def told_events_def by (auto intro!: exI received_start)

lemma on_line_next:
  assumes "on_line env c m" and "length (jw_received c) < length (wm_events m)"
  defines "ev \<equiv> wm_events m ! length (jw_received c)"
  shows "on_line env (js_call (to_ffi_json (fe_base64 (wse_ffi env)) ev) (c\<lparr>jw_received := jw_received c @ [ev]\<rparr>)) m"
proof -
  from assms(1) obtain ctx url lat where
    r: "received (wse_ws env) (jw_config c) (ws_start (jw_config c) ctx url lat) m (jw_received c)"
    and t: "told_events env c (jw_received c)" by (auto simp: on_line_def)
  show ?thesis using received_next [OF r assms(2)] t
    by (auto simp: on_line_def told_events_def js_call_def ev_def)
qed

lemma on_line_drop: "on_line env c m \<Longrightarrow> on_line env c (m\<lparr>wm_open := False\<rparr>)"
  using on_line_step [of env c m DropHandles] by simp

lemma on_line_post: "on_line env c m \<Longrightarrow> on_line env c (snd (post cmd m))"
  using on_line_step [of env c m "Post cmd"] by simp

lemma on_line_cong [simp]:
  "on_line env (c\<lparr>jw_phase := p\<rparr>) m = on_line env c m" "on_line env (c\<lparr>jw_manager := x\<rparr>) m = on_line env c m"
  "on_line env (c\<lparr>jw_alive := b\<rparr>) m = on_line env c m" "on_line env (c\<lparr>jw_taken := n\<rparr>) m = on_line env c m"
  "told_events env (c\<lparr>jw_phase := p\<rparr>) evs = told_events env c evs"
  "told_events env (c\<lparr>jw_manager := x\<rparr>) evs = told_events env c evs"
  "told_events env (c\<lparr>jw_alive := b\<rparr>) evs = told_events env c evs"
  "told_events env (c\<lparr>jw_taken := n\<rparr>) evs = told_events env c evs"
  by (simp_all add: on_line_def told_events_def)

lemma ok_cong:
  "js_ws_ok env (c\<lparr>jw_phase := p\<rparr>) q m = js_ws_ok env c q m" "js_ws_ok env (c\<lparr>jw_manager := x\<rparr>) q m = js_ws_ok env c q m"
  "js_ws_ok env (c\<lparr>jw_alive := b\<rparr>) q m = js_ws_ok env c q m" "js_ws_ok env (c\<lparr>jw_taken := n\<rparr>) q m = js_ws_ok env c q m"
  by (cases "(env, c, q, m)" rule: js_ws_ok.cases; simp)+

text \<open>Dropping the handle, a post and a step of the connection.\<close>

lemma inv_release: "js_ws_inv env c \<Longrightarrow> js_ws_inv env (release_handle c)"
  by (cases "jw_manager c") (auto simp: js_ws_inv_def release_handle_def ok_cong on_line_drop)

lemma inv_post: "js_ws_inv env c \<Longrightarrow> js_ws_inv env (snd (js_post_command cmd c))"
proof -
  assume i: "js_ws_inv env c"
  have "js_ws_inv env (c\<lparr>jw_manager := Some (snd (post cmd m))\<rparr>)" if "jw_manager c = Some m" for m
    using i that by (cases "jw_phase c") (auto simp: js_ws_inv_def ok_cong on_line_post open_post)
  with i show ?thesis
    by (auto simp: js_post_command_def split: option.split prod.split sum.split)
qed

lemma inv_connect: "js_ws_inv env c \<Longrightarrow> js_ws_inv env (js_connect_done env res order c)"
proof (cases "jw_phase c = JwConnecting")
  case True
  assume i: "js_ws_inv env c"
  with True have e: "jw_manager c = None" "jw_received c = []" "jw_told c = []" by (simp_all add: js_ws_inv_def)
  have "\<exists>ctx url lat. m = ws_start (jw_config c) ctx url lat"
    if "ws_connect (wse_ws env) (jw_config c) res order = Done (Inr m)" for m
    using that by (auto simp: ws_connect_def bind_exec_Ok_iff split: if_splits)
  moreover have "wm_open (ws_start (jw_config c) ctx url lat)" for ctx url lat
    by (simp add: ws_start_def go_online_def Let_def)
  moreover have "js_ws_inv env (js_call (to_ffi_json (fe_base64 (wse_ffi env)) (EvError msg)) (c\<lparr>jw_phase := JwOver\<rparr>))" for msg
    using e by (auto simp: js_ws_inv_def js_call_def told_events_def intro: exI [of _ "[EvError msg]"])
  moreover have "js_ws_inv env (c\<lparr>jw_phase := JwOver\<rparr>)"
    using e by (auto simp: js_ws_inv_def told_events_def intro: exI [of _ "[]"])
  ultimately show ?thesis
    using True e
    by (auto simp: js_connect_done_def inv_release js_ws_inv_def [of _ "c\<lparr>jw_phase := JwReceiving, jw_manager := m\<rparr>" for m]
        ok_cong on_line_start split: exec.split sum.split)
qed (simp add: js_connect_done_def)

lemma inv_receive: "js_ws_inv env c \<Longrightarrow> js_ws_inv env (js_receive env c)"
proof (cases "jw_phase c = JwReceiving")
  case True
  assume i: "js_ws_inv env c"
  with True obtain m where m: "jw_manager c = Some m" "on_line env c m" "wm_open m" by (auto simp: js_ws_inv_def)
  let ?ev = "wm_events m ! length (jw_received c)"
  let ?c = "js_call (to_ffi_json (fe_base64 (wse_ffi env)) ?ev) (c\<lparr>jw_received := jw_received c @ [?ev]\<rparr>)"
  have "on_line env ?c m" if "length (jw_received c) < length (wm_events m)"
    by (rule on_line_next [OF m(2) that])
  moreover have "jw_phase ?c = JwReceiving" "jw_manager ?c = Some m" using True m(1) by (simp_all add: js_call_def)
  moreover have "js_ws_inv env (c\<lparr>jw_phase := JwOver\<rparr>)" using m by (simp add: js_ws_inv_def ok_cong)
  ultimately show ?thesis using True m i
    by (auto simp: js_receive_def Let_def inv_release js_ws_inv_def [of _ ?c])
qed (simp add: js_receive_def split: js_ws_phase.split)

lemma inv_js_step: "js_ws_inv env c \<Longrightarrow> js_ws_inv env (js_ws_step env op c)"
proof -
  assume i: "js_ws_inv env c"
  have n: "snd (not_connected x) = snd x" for x by (auto simp: not_connected_def split: option.split prod.split)
  have cl: "snd (js_ws_close code reason c) = snd (js_post_command (CmdClose (case code of Some x \<Rightarrow> x | None \<Rightarrow> 1000)
      (case reason of Some r \<Rightarrow> r | None \<Rightarrow> ''normal'')) c)" for code reason
    by (simp add: js_ws_close_def split: prod.split option.split)
  have "js_ws_inv env (c\<lparr>jw_manager := map_option (ws_step (wse_ws env) (jw_config c) inp) (jw_manager c)\<rparr>)"
    if "own_input inp" for inp
    using i by (cases "jw_phase c"; cases "jw_manager c") (auto simp: js_ws_inv_def ok_cong on_line_step open_step [OF that])
  moreover have "js_ws_inv env (c\<lparr>jw_alive := False\<rparr>)" using i by (simp add: js_ws_inv_def ok_cong)
  ultimately show ?thesis using i inv_post [OF i]
    by (cases op)
      (auto simp: n cl inv_connect inv_receive js_takes_def js_object_collected_def inv_release js_ws_send_def
        js_ws_send_binary_def js_ws_network_changed_def js_ws_inv_def [of _ "c\<lparr>jw_taken := n\<rparr>" for n] ok_cong
        simp flip: js_ws_inv_def)
qed

lemma inv_js_run:
  assumes "js_ws_new parse config_json cb = Inr c0" shows "js_ws_inv env (js_ws_run env ops c0)"
proof -
  have "js_ws_inv env c0"
    using assms by (auto simp: js_ws_new_def js_ws_inv_def split: sum.splits if_splits)
  then show ?thesis by (induction ops arbitrary: c0) (simp_all add: js_ws_run_def inv_js_step)
qed


text \<open>
  What a JavaScript object is told is always the JSON of a list of events that obeys the protocol of
  connections (or of one \<open>Error\<close>, when the first connection fails): whatever the methods, the collection
  of the object and the connection do in between, the callback sees \<open>Connected\<close> before messages and
  never \<open>Reconnecting\<close> while connected.
\<close>

theorem js_ws_events_follow_protocol:
  assumes "js_ws_new parse config_json cb = Inr c0"
  shows "\<exists>evs v. jw_told (js_ws_run env ops c0) = map (to_ffi_json (fe_base64 (wse_ffi env))) evs \<and>
    observe_all Down evs = Some v"
proof -
  let ?c = "js_ws_run env ops c0"
  have t: ?thesis if "told_events env ?c evs" "observe_all Down evs = Some v" for evs v
    using that by (cases "jw_callback ?c") (auto simp: told_events_def intro: exI [of _ "[]"])
  have l: ?thesis if "on_line env ?c m" for m
    using that t follows_protocol unfolding on_line_def by blast
  have e: ?thesis if "set evs \<subseteq> range EvError" "told_events env ?c evs" for evs
    using that(1) by (intro t [OF that(2) observe_errors]) auto
  from inv_js_run [OF assms, of env ops] show ?thesis
    by (cases "jw_phase ?c"; cases "jw_manager ?c") (use l e in \<open>auto simp: js_ws_inv_def\<close>)
qed

definition parse_url_only :: "string \<Rightarrow> string + ws_client_config" where
  "parse_url_only s = Inr (default_ws_client_config\<lparr>ws_urls := [s]\<rparr>)"

lemma new_url_only:
  "js_ws_new parse_url_only ''ws://a'' cb =
     Inr \<lparr>jw_config = default_ws_client_config\<lparr>ws_urls := [''ws://a'']\<rparr>, jw_phase = JwConnecting,
       jw_manager = None, jw_received = [], jw_alive = True, jw_callback = cb, jw_told = [], jw_taken = 0\<rparr>"
  by (simp add: js_ws_new_def parse_url_only_def)

lemma connect_url_only:
  "ws_connect (wse_ws quiet_wsf_env) (default_ws_client_config\<lparr>ws_urls := [''ws://a'']\<rparr>)
     (\<lambda>_. ConnectedIn 5) [] =
   Done (Ok (ws_start (default_ws_client_config\<lparr>ws_urls := [''ws://a'']\<rparr>) native_ctx ''ws://a'' 5))"
  using plain_connect [of "''ws://a''" "\<lambda>_. ConnectedIn 5" "[]"]
  by (simp add: quiet_wsf_env_def connect_one_def bind_exec_def)

theorem js_ws_events_follow_protocol_witness:
  "\<exists>c0. js_ws_new parse_url_only ''ws://a'' True = Inr c0 \<and>
     (\<exists>evs v. jw_told (js_ws_run quiet_wsf_env [JwConnectDone (\<lambda>_. ConnectedIn 5) [], JwReceive] c0) =
        map (to_ffi_json (fe_base64 (wse_ffi quiet_wsf_env))) evs \<and> observe_all Down evs = Some v)"
  using js_ws_events_follow_protocol [OF new_url_only] new_url_only by blast

subsection \<open>Closing and collecting the object\<close>

text \<open>
  Only a \<open>close\<close> on an established connection ends it.  While the task forwards events, the handle it
  shares with the object keeps the channel of the connection open, so that collecting the JavaScript
  object closes nothing: the connection lives on with its heartbeat and its reconnections, and no method
  can reach it any more.
\<close>

theorem js_ws_stays_open:
  assumes "js_ws_new parse config_json cb = Inr c0"
    and "jw_phase (js_ws_run env (ops @ [JwCollected]) c0) = JwReceiving"
  shows "\<exists>m. jw_manager (js_ws_run env (ops @ [JwCollected]) c0) = Some m \<and> wm_open m"
  using inv_js_run [OF assms(1), of env "ops @ [JwCollected]"] assms(2) by (auto simp: js_ws_inv_def)

theorem js_ws_stays_open_witness:
  "\<exists>c0 m. js_ws_new parse_url_only ''ws://a'' True = Inr c0 \<and>
     jw_manager (js_ws_run quiet_wsf_env ([JwConnectDone (\<lambda>_. ConnectedIn 5) []] @ [JwCollected]) c0) = Some m \<and>
     wm_open m"
proof -
  from new_url_only obtain c0 where c0: "js_ws_new parse_url_only ''ws://a'' True = Inr c0" by blast
  then have "jw_phase (js_ws_run quiet_wsf_env ([JwConnectDone (\<lambda>_. ConnectedIn 5) []] @ [JwCollected]) c0) =
      JwReceiving"
    by (auto simp: new_url_only js_ws_run_def js_connect_done_def connect_url_only js_object_collected_def release_handle_def)
  from js_ws_stays_open [OF c0 this] c0 show ?thesis by blast
qed

text \<open>Calls before the connection is made: \<open>close\<close> succeeds and is forgotten, the others fail.\<close>

lemma early_calls:
  assumes "jw_manager c = None"
  shows "js_ws_close code reason c = (Inr (), c)"
    and "js_ws_send text c = (Inl ''WebSocket not connected'', c)"
    and "js_ws_send_binary b c = (Inl ''WebSocket not connected'', c)"
    and "js_ws_network_changed c = (Inl ''WebSocket not connected'', c)"
  using assms
  by (simp_all add: js_ws_close_def js_ws_send_def js_ws_send_binary_def js_ws_network_changed_def
      js_post_command_def not_connected_def)

text \<open>
  A close before the connection is made is lost: every such call succeeds, and when the connection
  attempt ends the client connects all the same, and reports \<open>Connected\<close> after the calls of \<open>close\<close>.
\<close>

theorem js_ws_early_close_is_lost:
  assumes "js_ws_new parse config_json True = Inr c0"
    and "ws_connect (wse_ws env) (jw_config c0) res order = Done (Inr m)"
    and "c = js_ws_run env (map (\<lambda>(code, reason). JwClose code reason) closes @ [JwConnectDone res order, JwReceive]) c0"
  shows "jw_manager c = Some m \<and> wm_phase m = Online \<and> wm_open m \<and>
    (\<exists>url lat. jw_told c = [to_ffi_json (fe_base64 (wse_ffi env)) (EvConnected url lat)])"
proof -
  have c0: "jw_phase c0 = JwConnecting" "jw_manager c0 = None" "jw_received c0 = []" "jw_told c0 = []"
      "jw_callback c0"
    using assms(1) by (auto simp: js_ws_new_def split: sum.splits if_splits)
  have k: "js_ws_run env (map (\<lambda>(code, reason). JwClose code reason) closes) c0 = c0"
    by (induction closes) (auto simp: js_ws_run_def early_calls(1) [OF c0(2)])
  obtain url lat es where m: "wm_events m = EvConnected url lat # es"
    using assms(2) by (auto simp: ws_connect_def bind_exec_def ws_start_def go_online_def Let_def emit_def
        split: exec.splits sum.splits if_splits)
  have "c = js_receive env (js_connect_done env res order c0)"
    using k by (simp add: assms(3) js_ws_run_def)
  then show ?thesis
    using c0 m assms(2) ws_connect_shape [OF assms(2)]
    by (auto simp: js_connect_done_def js_receive_def js_call_def Let_def)
qed

theorem js_ws_early_close_is_lost_witness:
  "\<exists>c0. js_ws_new parse_url_only ''ws://a'' True = Inr c0 \<and>
     jw_manager (js_ws_run quiet_wsf_env
       (map (\<lambda>(code, reason). JwClose code reason) [(None, None)] @ [JwConnectDone (\<lambda>_. ConnectedIn 5) [], JwReceive]) c0) =
     Some (ws_start (default_ws_client_config\<lparr>ws_urls := [''ws://a'']\<rparr>) native_ctx ''ws://a'' 5)"
proof -
  from new_url_only obtain c0 where
    c0: "js_ws_new parse_url_only ''ws://a'' True = Inr c0"
    and "jw_config c0 = default_ws_client_config\<lparr>ws_urls := [''ws://a'']\<rparr>" by fastforce
  then have "ws_connect (wse_ws quiet_wsf_env) (jw_config c0) (\<lambda>_. ConnectedIn 5) [] =
      Done (Ok (ws_start (default_ws_client_config\<lparr>ws_urls := [''ws://a'']\<rparr>) native_ctx ''ws://a'' 5))"
    by (simp add: connect_url_only)
  from js_ws_early_close_is_lost [OF c0 this refl] c0 show ?thesis by blast
qed

end
