(* ===== verification/Uniffi_Runtime.thy ===== *)
theory Uniffi_Runtime
  imports Msgpack_Codec
begin

section \<open>The auxiliary runtime of the uniffi binding\<close>

text \<open>
  Models \<open>aux_runtime\<close> and \<open>block_on_aux_thread\<close> of \<^verbatim>\<open>catcher-uniffi/src/lib.rs\<close> and the way their results
  become errors.  The runtime has one worker thread, which polls one future at a time and calls the
  observers of event streams from within such a poll; an observer of the application may call back into
  the library, which blocks until a new future of the same runtime has ended.
\<close>

subsection \<open>Results and errors\<close>

text \<open>The names \<open>Network\<close> and \<open>Config\<close> are those of \<^theory_text>\<open>Msgpack_Codec\<close>; this is their \<open>to_string\<close>.\<close>

fun uniffi_display :: "uniffi_error \<Rightarrow> string" where
  "uniffi_display (Network s) = ''Network error: '' @ s"
| "uniffi_display (Config s) = ''Config error: '' @ s"

definition uniffi_from_core :: "catcher_error \<Rightarrow> uniffi_error" where
  "uniffi_from_core e = Network (display e)"

text \<open>
  \<open>join\<close> and the two \<open>map_err\<close>: a panic of the future ends its task without a value, on which the waiting
  thread panics, which is an error of \<open>join\<close>.  \<open>show\<close> is the \<open>to_string\<close> of the future's own error type.
\<close>

definition join_aux :: "string \<Rightarrow> ('e \<Rightarrow> string) \<Rightarrow> ('e + 'a) exec \<Rightarrow> uniffi_error + 'a" where
  "join_aux what show r =
     (case r of
        Panic \<Rightarrow> Inl (Network what)
      | Done (Inl e) \<Rightarrow> Inl (Network (show e))
      | Done (Inr x) \<Rightarrow> Inr x)"

subsection \<open>The runtime\<close>

text \<open>
  Futures are numbered in the order in which \<open>block_on_aux_thread\<close> spawns them.  The worker is idle, polls a
  future, or is inside an observer that this future calls; the observer may be waiting for another.
  A future that has ended (with a value or a panic) has woken the thread that waits for it.  The step
  \<open>host_calls\<close> stands for the tasks that futures spawn on this runtime as well, such as those of the
  WebSocket connections.
\<close>

datatype aux_worker = Idle | Polls nat | InObserver nat "nat option"

record aux =
  ax_next :: nat
  ax_ready :: "nat list"
  ax_parked :: "nat set"
  ax_worker :: aux_worker
  ax_ended :: "nat set"

definition aux_start :: aux where
  "aux_start = \<lparr>ax_next = 0, ax_ready = [], ax_parked = {}, ax_worker = Idle, ax_ended = {}\<rparr>"

text \<open>\<open>rt.spawn\<close> in \<open>block_on_aux_thread\<close>: the number of the future, which its caller then waits for.\<close>

definition block_on_aux_thread :: "aux \<Rightarrow> nat \<times> aux" where
  "block_on_aux_thread s = (ax_next s, s\<lparr>ax_next := Suc (ax_next s), ax_ready := ax_ready s @ [ax_next s]\<rparr>)"

inductive aux_step :: "aux \<Rightarrow> aux \<Rightarrow> bool" where
  host_calls: "aux_step s (snd (block_on_aux_thread s))"
| takes: "ax_worker s = Idle \<Longrightarrow> ax_ready s = f # fs \<Longrightarrow>
    aux_step s (s\<lparr>ax_worker := Polls f, ax_ready := fs\<rparr>)"
| parks: "ax_worker s = Polls f \<Longrightarrow>
    aux_step s (s\<lparr>ax_worker := Idle, ax_parked := insert f (ax_parked s)\<rparr>)"
| wakes: "f \<in> ax_parked s \<Longrightarrow>
    aux_step s (s\<lparr>ax_ready := ax_ready s @ [f], ax_parked := ax_parked s - {f}\<rparr>)"
| ends: "ax_worker s = Polls f \<Longrightarrow>
    aux_step s (s\<lparr>ax_worker := Idle, ax_ended := insert f (ax_ended s)\<rparr>)"
| observer_begins: "ax_worker s = Polls f \<Longrightarrow> aux_step s (s\<lparr>ax_worker := InObserver f None\<rparr>)"
| observer_calls: "ax_worker s = InObserver f None \<Longrightarrow> block_on_aux_thread s = (g, s') \<Longrightarrow>
    aux_step s (s'\<lparr>ax_worker := InObserver f (Some g)\<rparr>)"
| call_returns: "ax_worker s = InObserver f (Some g) \<Longrightarrow> g \<in> ax_ended s \<Longrightarrow>
    aux_step s (s\<lparr>ax_worker := InObserver f None\<rparr>)"
| observer_returns: "ax_worker s = InObserver f None \<Longrightarrow> aux_step s (s\<lparr>ax_worker := Polls f\<rparr>)"

abbreviation aux_steps :: "aux \<Rightarrow> aux \<Rightarrow> bool" where
  "aux_steps \<equiv> aux_step\<^sup>*\<^sup>*"

inductive_cases aux_stepE: "aux_step s s'"

subsection \<open>Where a future is\<close>

fun polled :: "aux_worker \<Rightarrow> nat set" where
  "polled Idle = {}"
| "polled (Polls f) = {f}"
| "polled (InObserver f _) = {f}"

fun awaited :: "aux_worker \<Rightarrow> nat set" where
  "awaited (InObserver _ (Some g)) = {g}"
| "awaited _ = {}"

text \<open>Every future is somewhere, those that have ended nowhere else, and what an observer awaits is in the queue.\<close>

definition aux_inv :: "aux \<Rightarrow> bool" where
  "aux_inv s \<longleftrightarrow>
     {..<ax_next s} = ax_ended s \<union> set (ax_ready s) \<union> ax_parked s \<union> polled (ax_worker s) \<and>
     awaited (ax_worker s) \<subseteq> {..<ax_next s} - ax_ended s"

lemma aux_inv_step: "aux_step s s' \<Longrightarrow> aux_inv s \<Longrightarrow> aux_inv s'"
  by (erule aux_stepE) (auto simp: aux_inv_def block_on_aux_thread_def lessThan_Suc)

lemma aux_inv_reachable: "aux_steps aux_start s \<Longrightarrow> aux_inv s"
  by (induction rule: rtranclp_induct) (simp add: aux_inv_def aux_start_def, erule (1) aux_inv_step)

subsection \<open>Calls from an observer\<close>

lemma stuck_step:
  assumes "aux_step s s'" and "ax_worker s = InObserver f (Some g)" and "g \<notin> ax_ended s"
  shows "ax_worker s' = InObserver f (Some g) \<and> ax_ended s' = ax_ended s"
  using assms by (cases rule: aux_step.cases) (auto simp: block_on_aux_thread_def)

text \<open>
  C34. An observer of an event stream that calls back into the library ends the binding: the worker of the
  auxiliary runtime waits for a future that only this worker could poll, so the observer never returns,
  and no call of any thread that goes through this runtime ends from then on.
\<close>

theorem observer_call_deadlocks:
  assumes "aux_steps aux_start s" and "ax_worker s = InObserver f (Some g)" and "aux_steps s s'"
  shows "ax_worker s' = InObserver f (Some g) \<and> ax_ended s' = ax_ended s"
proof -
  have g: "g \<notin> ax_ended s" using aux_inv_reachable [OF assms(1)] assms(2) by (auto simp: aux_inv_def)
  from assms(3) show ?thesis
  proof (induction rule: rtranclp_induct)
    case (step s1 s2)
    with g stuck_step [OF step.hyps(2), of f g] show ?case by simp
  qed (simp add: assms(2))
qed

theorem observer_call_deadlocks_witness:
  "\<exists>s. aux_steps aux_start s \<and> ax_worker s = InObserver 0 (Some 1) \<and>
     (\<forall>s'. aux_steps s s' \<longrightarrow> ax_worker s' = InObserver 0 (Some 1) \<and> ax_ended s' = {})"
proof -
  let ?s = "\<lparr>ax_next = 2, ax_ready = [1], ax_parked = {}, ax_worker = InObserver 0 (Some 1), ax_ended = {}\<rparr> :: aux"
  let ?s1 = "snd (block_on_aux_thread aux_start)"
  let ?s2 = "?s1\<lparr>ax_worker := Polls 0, ax_ready := []\<rparr>"
  let ?s3 = "?s2\<lparr>ax_worker := InObserver 0 None\<rparr>"
  have "aux_step aux_start ?s1" by (rule host_calls)
  moreover have "aux_step ?s1 ?s2" by (rule takes) (simp_all add: block_on_aux_thread_def aux_start_def)
  moreover have "aux_step ?s2 ?s3" by (rule observer_begins) simp
  moreover have "aux_step ?s3 ?s"
    using observer_calls [of ?s3 0 1 "snd (block_on_aux_thread ?s3)"]
    by (simp add: block_on_aux_thread_def aux_start_def numeral_2_eq_2)
  ultimately have r: "aux_steps aux_start ?s" by (meson converse_rtranclp_into_rtranclp rtranclp.rtrancl_refl)
  show ?thesis
  proof (intro exI conjI allI impI)
    show "aux_steps aux_start ?s" by (rule r)
    fix s' assume "aux_steps ?s s'"
    from observer_call_deadlocks [OF r _ this, of 0 1]
    show "ax_worker s' = InObserver 0 (Some 1)" "ax_ended s' = {}" by simp_all
  qed simp
qed

subsection \<open>Calls from elsewhere\<close>

lemma worker_freed:
  assumes "awaited (ax_worker s) = {}"
  obtains s' where "aux_steps s s'" "ax_worker s' = Idle" "ax_ready s' = ax_ready s" "ax_parked s' = ax_parked s"
    "ax_ended s' = ax_ended s \<union> polled (ax_worker s)"
proof (cases "ax_worker s")
  case (Polls f)
  let ?s = "s\<lparr>ax_worker := Idle, ax_ended := insert f (ax_ended s)\<rparr>"
  from ends [OF Polls] Polls show ?thesis by (intro that [of ?s]) auto
next
  case (InObserver f w)
  with assms have w: "ax_worker s = InObserver f None" by (cases w) auto
  let ?s1 = "s\<lparr>ax_worker := Polls f\<rparr>"
  have "aux_step ?s1 (?s1\<lparr>ax_worker := Idle, ax_ended := insert f (ax_ended ?s1)\<rparr>)" by (rule ends) simp
  with observer_returns [OF w] have "aux_steps s (?s1\<lparr>ax_worker := Idle, ax_ended := insert f (ax_ended ?s1)\<rparr>)" by simp
  from that [OF this] w show ?thesis by simp
qed (auto intro: that)

lemma queue_served:
  assumes "ax_worker s = Idle" and "f \<in> set (ax_ready s)"
  shows "\<exists>s'. aux_steps s s' \<and> f \<in> ax_ended s'"
  using assms
proof (induction "ax_ready s" arbitrary: s)
  case (Cons g gs)
  let ?s1 = "s\<lparr>ax_worker := Polls g, ax_ready := gs\<rparr>"
  let ?s2 = "?s1\<lparr>ax_worker := Idle, ax_ended := insert g (ax_ended ?s1)\<rparr>"
  have "aux_step s ?s1" using Cons by (intro takes) simp_all
  moreover have "aux_step ?s1 ?s2" by (rule ends) simp
  ultimately have r: "aux_steps s ?s2" by simp
  show ?case
  proof (cases "f = g")
    case True
    with r show ?thesis by (intro exI [of _ ?s2]) simp
  next
    case False
    with Cons.prems Cons.hyps(2) have "f \<in> set gs" by (metis set_ConsD)
    with Cons.hyps(1) [of ?s2] obtain s' where "aux_steps ?s2 s'" "f \<in> ax_ended s'" by auto
    with r show ?thesis by (meson rtranclp_trans)
  qed
qed simp

text \<open>
  As long as no observer waits for the library, every call can still end: from every reachable state there
  is a way for each of its futures to end.
\<close>

theorem aux_calls_can_end:
  assumes "aux_steps aux_start s" and "awaited (ax_worker s) = {}" and "f < ax_next s"
  shows "\<exists>s'. aux_steps s s' \<and> f \<in> ax_ended s'"
proof -
  obtain s1 where s1: "aux_steps s s1" "ax_worker s1 = Idle" "ax_ready s1 = ax_ready s" "ax_parked s1 = ax_parked s"
      "ax_ended s1 = ax_ended s \<union> polled (ax_worker s)" using worker_freed [OF assms(2)] .
  have "f \<in> {..<ax_next s}" using assms(3) by simp
  then consider "f \<in> ax_ended s1" | "f \<in> set (ax_ready s1)" | "f \<in> ax_parked s1"
    using aux_inv_reachable [OF assms(1)] s1 unfolding aux_inv_def by auto
  then show ?thesis
  proof cases
    case 1
    with s1(1) show ?thesis by blast
  next
    case 2
    from queue_served [OF s1(2) this] s1(1) show ?thesis by (meson rtranclp_trans)
  next
    case 3
    let ?s2 = "s1\<lparr>ax_ready := ax_ready s1 @ [f], ax_parked := ax_parked s1 - {f}\<rparr>"
    have "aux_step s1 ?s2" by (rule wakes [OF 3])
    moreover from queue_served [of ?s2 f] s1(2) obtain s' where "aux_steps ?s2 s'" "f \<in> ax_ended s'" by auto
    ultimately show ?thesis using s1(1) by (meson rtranclp_trans converse_rtranclp_into_rtranclp)
  qed
qed

theorem aux_calls_can_end_witness:
  "\<exists>s'. aux_steps (snd (block_on_aux_thread aux_start)) s' \<and> 0 \<in> ax_ended s'"
proof (rule aux_calls_can_end)
  show "aux_steps aux_start (snd (block_on_aux_thread aux_start))" by (intro r_into_rtranclp host_calls)
qed (simp_all add: block_on_aux_thread_def aux_start_def)

end
