(* ===== verification/Uniffi_Client.thy ===== *)
theory Uniffi_Client
  imports Http_Ffi Quality_Ffi Sse_Client Uniffi_Runtime
begin

section \<open>The HTTP, event-stream and quality calls of the uniffi binding\<close>

text \<open>
  Models \<open>HttpClient\<close>, \<open>SseClientHandle\<close> and \<open>evaluate_quality\<close> of \<^verbatim>\<open>catcher-uniffi/src/lib.rs\<close>.  All block
  the calling thread on a future of the auxiliary runtime.  HTTP calls of several threads interleave over
  one transport, in atomic steps as in \<^theory_text>\<open>Http_Ffi\<close>.
\<close>

subsection \<open>Arguments and results\<close>

definition uniffi_headers_json :: "(string \<Rightarrow> header_map option) \<Rightarrow> string option \<Rightarrow> header_map" where
  "uniffi_headers_json parse headers_json =
     (case headers_json of
        Some s \<Rightarrow> if s \<noteq> [] then (case parse s of Some h \<Rightarrow> h | None \<Rightarrow> []) else []
      | None \<Rightarrow> [])"

record http_response_dto =
  dto_status :: u16
  dto_headers :: "string list"
  dto_body :: bytes
  dto_elapsed_ms :: u64

text \<open>The headers in the order in which the map is iterated.\<close>

definition http_response_to_dto :: "http_response \<Rightarrow> http_response_dto" where
  "http_response_to_dto resp =
     \<lparr>dto_status = resp_status resp, dto_headers = map (\<lambda>(k, v). k @ '': '' @ v) (resp_headers resp),
      dto_body = resp_body resp, dto_elapsed_ms = resp_elapsed_ms resp\<rparr>"

definition uniffi_outcome :: "(catcher_error + http_response) exec \<Rightarrow> uniffi_error + http_response_dto" where
  "uniffi_outcome r = bind_res (join_aux ''thread panicked'' display r) (\<lambda>resp. Inr (http_response_to_dto resp))"

subsection \<open>The HTTP client\<close>

datatype blocked_call =
    CallStarting bool
  | CallInFlight bool
  | CallReturned "uniffi_error + http_response_dto"

record uniffi_http =
  uh_transport :: http_transport
  uh_requests :: "nat \<rightharpoonup> http_request"
  uh_calls :: "nat \<rightharpoonup> blocked_call"
  uh_next :: nat

definition uniffi_http_new ::
  "hff_env \<Rightarrow> bool \<Rightarrow> (string \<Rightarrow> string + http_client_config) \<Rightarrow> string \<Rightarrow> (uniffi_error + uniffi_http) exec" where
  "uniffi_http_new env in_runtime parse config_json =
     (case parse config_json of
        Inl msg \<Rightarrow> Done (Inl (Config msg))
      | Inr config \<Rightarrow>
          (case transport_new (hfe_lib env) (hfe_resolver_error env) in_runtime config of
             Panic \<Rightarrow> Panic
           | Done (Inl e) \<Rightarrow> Done (Inl (Network (display e)))
           | Done (Inr t) \<Rightarrow>
               Done (Inr \<lparr>uh_transport = t, uh_requests = Map.empty, uh_calls = Map.empty, uh_next = 0\<rparr>)))"

definition uniffi_call :: "http_request \<Rightarrow> uniffi_http \<Rightarrow> nat \<times> uniffi_http" where
  "uniffi_call req c =
     (uh_next c,
      c\<lparr>uh_requests := (uh_requests c)(uh_next c \<mapsto> req),
        uh_calls := (uh_calls c)(uh_next c \<mapsto> CallStarting True), uh_next := Suc (uh_next c)\<rparr>)"

definition uniffi_get ::
  "ffi_env \<Rightarrow> string \<Rightarrow> string option \<Rightarrow> u32 option \<Rightarrow> uniffi_http \<Rightarrow> nat \<times> uniffi_http" where
  "uniffi_get env url headers_json timeout_ms = uniffi_call
     (default_request\<lparr>req_method := GET, req_url := url,
        req_headers := uniffi_headers_json (fe_headers env) headers_json, req_body := None,
        req_content_type := None, req_timeout_ms := map_option ucast timeout_ms\<rparr>)"

definition uniffi_post_request ::
  "ffi_env \<Rightarrow> string \<Rightarrow> bytes \<Rightarrow> string option \<Rightarrow> string option \<Rightarrow> u32 option \<Rightarrow> uniffi_http
    \<Rightarrow> nat \<times> uniffi_http" where
  "uniffi_post_request env url body content_type headers_json timeout_ms = uniffi_call
     (default_request\<lparr>req_method := POST, req_url := url,
        req_headers := uniffi_headers_json (fe_headers env) headers_json, req_body := Some body,
        req_content_type := content_type, req_timeout_ms := map_option ucast timeout_ms\<rparr>)"

definition uniffi_put ::
  "ffi_env \<Rightarrow> string \<Rightarrow> bytes \<Rightarrow> string option \<Rightarrow> string option \<Rightarrow> u32 option \<Rightarrow> uniffi_http
    \<Rightarrow> nat \<times> uniffi_http" where
  "uniffi_put env url body content_type headers_json timeout_ms = uniffi_call
     (default_request\<lparr>req_method := PUT, req_url := url,
        req_headers := uniffi_headers_json (fe_headers env) headers_json, req_body := Some body,
        req_content_type := content_type, req_timeout_ms := map_option ucast timeout_ms\<rparr>)"

definition uniffi_delete ::
  "ffi_env \<Rightarrow> string \<Rightarrow> string option \<Rightarrow> u32 option \<Rightarrow> uniffi_http \<Rightarrow> nat \<times> uniffi_http" where
  "uniffi_delete env url headers_json timeout_ms = uniffi_call
     (default_request\<lparr>req_method := DELETE, req_url := url,
        req_headers := uniffi_headers_json (fe_headers env) headers_json, req_body := None,
        req_content_type := None, req_timeout_ms := map_option ucast timeout_ms\<rparr>)"

definition uniffi_patch ::
  "ffi_env \<Rightarrow> string \<Rightarrow> bytes \<Rightarrow> string option \<Rightarrow> string option \<Rightarrow> u32 option \<Rightarrow> uniffi_http
    \<Rightarrow> nat \<times> uniffi_http" where
  "uniffi_patch env url body content_type headers_json timeout_ms = uniffi_call
     (default_request\<lparr>req_method := PATCH, req_url := url,
        req_headers := uniffi_headers_json (fe_headers env) headers_json, req_body := Some body,
        req_content_type := content_type, req_timeout_ms := map_option ucast timeout_ms\<rparr>)"

text \<open>\<open>HttpTransport::execute\<close> in the future of a call, with its one repetition after a 421.\<close>

definition uniffi_result ::
  "hff_env \<Rightarrow> os_proxies option \<Rightarrow> bool \<Rightarrow> catcher_error + http_response \<Rightarrow> http_transport
    \<Rightarrow> blocked_call \<times> http_transport" where
  "uniffi_result env os first r t =
     (if first \<and> misdirected r
      then (case transport_network_changed (hfe_lib env) os t of
              (Panic, t1) \<Rightarrow> (CallReturned (uniffi_outcome Panic), t1)
            | (Done (Inl e), t1) \<Rightarrow> (CallReturned (uniffi_outcome (Done (Inl e))), t1)
            | (Done (Inr _), t1) \<Rightarrow>
                (CallStarting False, t1\<lparr>ht_metrics := increment_http_retries (ht_metrics t1)\<rparr>))
      else (CallReturned (uniffi_outcome (Done r)), t))"

definition uniffi_after ::
  "hff_env \<Rightarrow> os_proxies option \<Rightarrow> bool \<Rightarrow> call \<times> http_transport \<Rightarrow> blocked_call \<times> http_transport" where
  "uniffi_after env os first x =
     (case x of
        (Returned r, t) \<Rightarrow> uniffi_result env os first r t
      | (Panicked, t) \<Rightarrow> (CallReturned (uniffi_outcome Panic), t)
      | (Waits, t) \<Rightarrow> (CallInFlight first, t))"

definition set_blocked :: "nat \<Rightarrow> blocked_call \<times> http_transport \<Rightarrow> uniffi_http \<Rightarrow> uniffi_http" where
  "set_blocked k x c = c\<lparr>uh_calls := (uh_calls c)(k \<mapsto> fst x), uh_transport := snd x\<rparr>"

definition uniffi_begin ::
  "hff_env \<Rightarrow> os_proxies option \<Rightarrow> u64 \<Rightarrow> nat \<Rightarrow> u64 \<Rightarrow> nat \<Rightarrow> uniffi_http \<Rightarrow> uniffi_http" where
  "uniffi_begin env os now_ms now_us us k c =
     (case (uh_calls c k, uh_requests c k) of
        (Some (CallStarting first), Some req) \<Rightarrow>
          (case new_token (uh_transport c) of (token, t) \<Rightarrow>
             set_blocked k (uniffi_after env os first
               (transport_step (hfe_lib env) (Begin now_ms now_us us k 0 token req) t)) c)
      | _ \<Rightarrow> c)"

definition uniffi_wait :: "hff_env \<Rightarrow> os_proxies option \<Rightarrow> transport_input \<Rightarrow> nat \<Rightarrow> uniffi_http \<Rightarrow> uniffi_http" where
  "uniffi_wait env os inp k c =
     (case uh_calls c k of
        Some (CallInFlight first) \<Rightarrow>
          if for_flight k inp
          then set_blocked k (uniffi_after env os first
                 (transport_step (hfe_lib env) inp (uh_transport c))) c
          else c
      | _ \<Rightarrow> c)"

definition uniffi_network_changed ::
  "hff_env \<Rightarrow> os_proxies option \<Rightarrow> uniffi_http \<Rightarrow> (uniffi_error + unit) exec \<times> uniffi_http" where
  "uniffi_network_changed env os c =
     (case transport_network_changed (hfe_lib env) os (uh_transport c) of
        (r, t) \<Rightarrow>
          (case r of Panic \<Rightarrow> Panic | Done x \<Rightarrow> Done (map_err uniffi_from_core x), c\<lparr>uh_transport := t\<rparr>))"

definition uniffi_circuit_breaker_state :: "ffi_env \<Rightarrow> uniffi_http \<Rightarrow> string" where
  "uniffi_circuit_breaker_state env c =
     fe_text env
       (case circuit_breaker_state (uh_transport c) of
          Some st \<Rightarrow> JStr (cb_state_name st)
        | None \<Rightarrow> JObj [(''state'', JStr ''disabled'')])"

definition uniffi_metrics :: "ffi_env \<Rightarrow> uniffi_http \<Rightarrow> string" where
  "uniffi_metrics env c = fe_text env (metrics_json (metrics_snapshot (ht_metrics (uh_transport c))))"

datatype uniffi_http_op =
    UhCall http_request
  | UhBegin nat "os_proxies option" u64 nat u64
  | UhWait nat "os_proxies option" transport_input
  | UhNetworkChanged "os_proxies option"
  | UhQueueWork queue_step

fun uniffi_http_step :: "hff_env \<Rightarrow> uniffi_http_op \<Rightarrow> uniffi_http \<Rightarrow> uniffi_http" where
  "uniffi_http_step env (UhCall req) c = snd (uniffi_call req c)"
| "uniffi_http_step env (UhBegin k os now_ms now_us us) c = uniffi_begin env os now_ms now_us us k c"
| "uniffi_http_step env (UhWait k os inp) c = uniffi_wait env os inp k c"
| "uniffi_http_step env (UhNetworkChanged os) c = snd (uniffi_network_changed env os c)"
| "uniffi_http_step env (UhQueueWork w) c =
     c\<lparr>uh_transport := snd (transport_step (hfe_lib env) (QueueWork w) (uh_transport c))\<rparr>"

definition uniffi_http_run :: "hff_env \<Rightarrow> uniffi_http_op list \<Rightarrow> uniffi_http \<Rightarrow> uniffi_http" where
  "uniffi_http_run env ops c = fold (uniffi_http_step env) ops c"

subsection \<open>The one-shot event stream\<close>

definition uniffi_stream_config ::
  "ffi_env \<Rightarrow> string \<Rightarrow> string \<Rightarrow> bytes option \<Rightarrow> string option \<Rightarrow> sse_client_config" where
  "uniffi_stream_config env mth url body headers_json =
     \<lparr>sse_url = url, sse_method = (if fe_upper env mth = ''GET'' then SseGet else SsePost),
      sse_headers = uniffi_headers_json (fe_headers env) headers_json,
      sse_body = map_option (from_utf8_lossy \<circ> of_bytes) body, sse_reconnect = None, sse_timeout_ms = 30000,
      sse_circuit_breaker = None\<rparr>"

definition stream_line_text :: "ffi_env \<Rightarrow> catcher_error + string \<Rightarrow> string" where
  "stream_line_text env x =
     fe_text env
       (case x of
          Inr line \<Rightarrow> JObj [(''type'', JStr ''data''), (''data'', JStr line)]
        | Inl e \<Rightarrow> JObj [(''type'', JStr ''error''), (''data'', JStr (display e))])"

text \<open>
  \<open>sse_stream\<close>: the stream is read to its end, in at most \<open>n\<close> polls here; an error of \<open>connect\<close> becomes the
  binding's error inside the future and once more outside.
\<close>

definition uniffi_sse_stream ::
  "ffi_env \<Rightarrow> nat \<Rightarrow> sse_response \<Rightarrow> string \<Rightarrow> string \<Rightarrow> bytes option \<Rightarrow> string option
    \<Rightarrow> (uniffi_error + string list) option" where
  "uniffi_sse_stream env n r mth url body headers_json =
     map_option (\<lambda>x. join_aux ''thread panicked'' uniffi_display (Done x))
       (case stream_connect (uniffi_stream_config env mth url body headers_json) r of
          Inl e \<Rightarrow> Some (Inl (uniffi_from_core e))
        | Inr s \<Rightarrow> map_option (\<lambda>(xs, t). Inr (map (stream_line_text env) xs)) (stream_collect n s))"

subsection \<open>The client with reconnection\<close>

datatype sse_event_dto = SseDtoOpen | SseDtoData string | SseDtoError string | SseDtoClose

definition sse_event_of :: "catcher_error + string \<Rightarrow> sse_event_dto" where
  "sse_event_of x = (case x of Inr line \<Rightarrow> SseDtoData line | Inl e \<Rightarrow> SseDtoError (display e))"

text \<open>
  \<open>SseClientHandle::connect\<close>: what the observer is called with, and the result; \<open>None\<close> when the constructor
  has not returned after the rounds of the background loop that are given.  \<open>SseClient::connect\<close> returns no
  error; if the HTTP client cannot be built the background loop panics, which ends the channel at once.
  Nobody else holds the client, so the loop is never cancelled: the rounds are taken without their
  cancellations.
\<close>

definition uncancelled :: "sse_round \<Rightarrow> sse_round" where
  "uncancelled r = r\<lparr>cancel_before := False, cancel_after := False, cancel_asleep := False\<rparr>"

definition sse_handle_connect ::
  "(string \<Rightarrow> string + sse_client_config) \<Rightarrow> string \<Rightarrow> bool \<Rightarrow> sse_round list
    \<Rightarrow> (sse_event_dto list \<times> (uniffi_error + unit)) option" where
  "sse_handle_connect parse config_json built rounds =
     (case parse config_json of
        Inl msg \<Rightarrow> Some ([], Inl (Config msg))
      | Inr config \<Rightarrow>
          if \<not> built then Some ([SseDtoOpen, SseDtoClose], Inr ())
          else (case sse_loop config (map uncancelled rounds) 0 (client_new None) of
                  (reqs, c, ended) \<Rightarrow>
                    if ended
                    then Some (SseDtoOpen # map sse_event_of (cl_sent c) @ [SseDtoClose], Inr ())
                    else None))"

subsection \<open>Network quality\<close>

text \<open>\<open>evaluate_quality\<close> under the lock of the shared evaluator, which a panic does not poison.\<close>

definition uniffi_evaluate_quality ::
  "ffi_env \<Rightarrow> string \<Rightarrow> head_result \<Rightarrow> evaluator \<Rightarrow> (uniffi_error + string) \<times> evaluator" where
  "uniffi_evaluate_quality env h r e =
     (case measure_http_rtt h ''/'' r e of
        Panic \<Rightarrow> (Inl (Network ''quality thread panicked''), e)
      | Done (m, e1) \<Rightarrow> (case evaluate e1 of (q, e2) \<Rightarrow> (Inr (fe_text env (quality_json m q)), e2)))"

fun uniffi_evaluations ::
  "ffi_env \<Rightarrow> (string \<times> head_result) list \<Rightarrow> evaluator \<Rightarrow> (uniffi_error + string) list \<times> evaluator" where
  "uniffi_evaluations env [] e = ([], e)"
| "uniffi_evaluations env ((h, r) # calls) e =
     (case uniffi_evaluate_quality env h r e of (x, e1) \<Rightarrow>
        (case uniffi_evaluations env calls e1 of (xs, e2) \<Rightarrow> (x # xs, e2)))"

subsection \<open>Streams and their observers\<close>

text \<open>
  \<open>sse_stream\<close> returns the content lines of the whole body, however it is cut into chunks, and it
  reports a failure to connect with the prefix of its error type twice.
\<close>

theorem uniffi_sse_stream_results:
  shows "(list_all no_error src \<longrightarrow>
      (\<exists>n. uniffi_sse_stream env n (SseResponse 200 src) mth url body headers_json =
         Some (Inr (map (\<lambda>l. fe_text env (JObj [(''type'', JStr ''data''), (''data'', JStr l)]))
           (yields (all_lines (source_text src))))))) \<and>
    (st \<noteq> 200 \<longrightarrow>
      (\<exists>e. uniffi_sse_stream env n (SseResponse st src) mth url body headers_json = Some (Inl e) \<and>
         uniffi_display e = ''Network error: Network error: '' @ display (HttpError st [])))"
proof (intro conjI impI)
  assume src: "list_all no_error src"
  obtain s where s: "stream_connect (uniffi_stream_config env mth url body headers_json) (SseResponse 200 src) = Ok s"
    by (simp add: stream_connect_def)
  from stream_yields_content [OF s src] obtain n t where
    "stream_collect n s = Some (map Ok (yields (all_lines (source_text src))), t)" by blast
  with s show "\<exists>n. uniffi_sse_stream env n (SseResponse 200 src) mth url body headers_json =
         Some (Inr (map (\<lambda>l. fe_text env (JObj [(''type'', JStr ''data''), (''data'', JStr l)]))
           (yields (all_lines (source_text src)))))"
    by (intro exI [of _ n]) (simp add: uniffi_sse_stream_def join_aux_def stream_line_text_def)
next
  assume "st \<noteq> 200"
  then show "\<exists>e. uniffi_sse_stream env n (SseResponse st src) mth url body headers_json = Some (Inl e) \<and>
         uniffi_display e = ''Network error: Network error: '' @ display (HttpError st [])"
    by (simp add: uniffi_sse_stream_def stream_connect_def join_aux_def uniffi_from_core_def)
qed

text \<open>The line arrives in two chunks; a 503 is reported.\<close>

theorem uniffi_sse_stream_results_witness:
  "(\<exists>n. uniffi_sse_stream plain_ffi_env n (SseResponse 200 [ReadyChunk ''data'', NotReady, ReadyChunk '': a''])
       ''POST'' ''http://a'' None None =
     Some (Inr [fe_text plain_ffi_env (JObj [(''type'', JStr ''data''), (''data'', JStr ''data: a'')])])) \<and>
   (\<exists>e. uniffi_sse_stream plain_ffi_env 0 (SseResponse 503 []) ''POST'' ''http://a'' None None = Some (Inl e) \<and>
      uniffi_display e = ''Network error: Network error: '' @ display (HttpError 503 []))"
proof -
  let ?src = "[ReadyChunk ''data'', NotReady, ReadyChunk '': a'']"
  have v: "utf8_valid ''data''" "utf8_valid '': a''" by (rule ascii_valid, simp add: byte_def)+
  have "all_lines (source_text ?src) = [''data: a'']"
    by (simp add: v lossy_valid) (simp add: all_lines_def text_lines_def text_rest_def trim_end_matches_def)
  moreover have "route_line ''data: a'' = Yield ''data: a''" by (simp add: route_line_def strip_prefix_def)
  ultimately have y: "yields (all_lines (source_text ?src)) = [''data: a'']" by simp
  have "list_all no_error ?src" by simp
  with uniffi_sse_stream_results [of ?src plain_ffi_env "''POST''" "''http://a''" None None 200 0]
    uniffi_sse_stream_results [of "[]" plain_ffi_env "''POST''" "''http://a''" None None 503 0] y
  show ?thesis by (simp del: source_text.simps)
qed

text \<open>
  What the observer is to be told of one response, from the response alone: the content lines of the
  decoded text, up to a read error and then that error, or why there was no stream; nothing of a 204.
\<close>

fun told_of_body :: "body_poll list \<Rightarrow> string \<Rightarrow> sse_event_dto list" where
  "told_of_body [] t = map SseDtoData (yields (all_lines t))"
| "told_of_body (NotReady # src) t = told_of_body src t"
| "told_of_body (ReadyChunk b # src) t = told_of_body src (t @ from_utf8_lossy b)"
| "told_of_body (ReadyError m # src) t =
     map SseDtoData (yields (text_lines t)) @ [SseDtoError (display (Internal (''SSE read: '' @ m)))]"

definition told_of :: "sse_client_config \<Rightarrow> sse_response \<Rightarrow> sse_event_dto list" where
  "told_of cfg r =
     (case r of
        SendFailed e \<Rightarrow> [SseDtoError (display (sse_send_error (sse_timeout_ms cfg) e))]
      | SseResponse st body \<Rightarrow>
          if st = 204 then []
          else if st \<noteq> 200 then [SseDtoError (display (HttpError st []))]
          else told_of_body body [])"

definition events_of :: "sse_client \<Rightarrow> sse_event_dto list" where
  "events_of c = map sse_event_of (cl_sent c)"

lemma events_of_simps [simp]:
  "events_of (c\<lparr>cl_ready_state := st\<rparr>) = events_of c"
  "cl_receiver c = None \<Longrightarrow> events_of (snd (client_send x c)) = events_of c @ [sse_event_of x]"
  "cl_receiver c = None \<Longrightarrow> cl_receiver (snd (client_send x c)) = None"
  by (simp_all add: events_of_def client_send_def)

text \<open>The result of an attempt, with the error that the loop passes on.\<close>

definition passed_on :: "(catcher_error + unit) \<times> sse_client \<Rightarrow> sse_client" where
  "passed_on x = (case x of (Inl e, c) \<Rightarrow> snd (client_send (Err e) c) | (Inr _, c) \<Rightarrow> c)"

definition lines_told :: "string list \<Rightarrow> sse_client \<Rightarrow> sse_client \<Rightarrow> bool" where
  "lines_told ls c c' \<longleftrightarrow> cl_receiver c' = None \<and>
     events_of c' = events_of c @ map SseDtoData (yields ls)"

lemma lines_told_fold: "cl_receiver c = None \<Longrightarrow> lines_told ls c (fold client_last ls c)"
proof -
  assume c: "cl_receiver c = None"
  then have "cl_receiver (fold client_last ls c) = None"
    by (induction ls arbitrary: c) (simp_all add: client_line_open)
  with fold_client_last [OF c, of ls] show ?thesis
    by (simp add: lines_told_def events_of_def sse_event_of_def)
qed

lemma read_body_told:
  assumes "cl_receiver c = None"
  shows "cl_receiver (passed_on (read_body src (text_rest t) (fold client_last (text_lines t) c))) = None \<and>
    events_of (passed_on (read_body src (text_rest t) (fold client_last (text_lines t) c))) =
      events_of c @ told_of_body src t"
proof (induction src t rule: told_of_body.induct)
  case (1 t)
  have "snd (read_body [] (text_rest t) (fold client_last (text_lines t) c)) = fold client_last (all_lines t) c"
    by (simp add: all_lines_def)
  then have "passed_on (read_body [] (text_rest t) (fold client_last (text_lines t) c)) =
      fold client_last (all_lines t) c" by (simp add: passed_on_def)
  with lines_told_fold [OF assms, of "all_lines t"] show ?case by (simp add: lines_told_def)
next
  case (3 b src t)
  let ?c = "fold client_last (text_lines t) c" and ?t = "text_rest t @ from_utf8_lossy b"
  have "cl_receiver ?c = None" using lines_told_fold [OF assms, of "text_lines t"] by (simp add: lines_told_def)
  then have "drain_lines client_line ?t ?c = (text_rest ?t, fold client_last (text_lines ?t) ?c, True)"
    using drain_lines_spec [of client_line ?t ?c] by (auto simp: run_client_lines)
  then have "read_body (ReadyChunk b # src) (text_rest t) ?c =
      read_body src (text_rest (t @ from_utf8_lossy b)) (fold client_last (text_lines (t @ from_utf8_lossy b)) c)"
    by (simp add: text_append [of t "from_utf8_lossy b"])
  with 3 show ?case by simp
next
  case (4 m src t)
  with lines_told_fold [OF assms, of "text_lines t"] show ?case
    by (simp add: passed_on_def lines_told_def sse_event_of_def)
qed simp

lemma connect_told:
  assumes "cl_receiver c = None"
  shows "cl_receiver (passed_on (connect_once cfg r c)) = None \<and>
    events_of (passed_on (connect_once cfg r c)) = events_of c @ told_of cfg r"
proof (cases r)
  case (SseResponse st body)
  from read_body_told [of "c\<lparr>cl_ready_state := SseOpen\<rparr>" body "[]"] assms
  have "cl_receiver (passed_on (read_body body [] (c\<lparr>cl_ready_state := SseOpen\<rparr>))) = None \<and>
    events_of (passed_on (read_body body [] (c\<lparr>cl_ready_state := SseOpen\<rparr>))) = events_of c @ told_of_body body []"
    by (simp add: text_lines_def text_rest_def)
  with SseResponse assms show ?thesis
    by (simp add: connect_once_def told_of_def passed_on_def sse_event_of_def)
qed (use assms in \<open>simp add: connect_once_def told_of_def passed_on_def sse_event_of_def\<close>)

lemma loop_told:
  assumes "unat (sse_retry_budget cfg) = unat attempt + d" and "unat (sse_retry_budget cfg) < 2 ^ 32 - 1"
    and "cl_receiver c = None"
  shows "case sse_loop cfg (map uncancelled rounds) attempt c of
    (reqs, c', ended) \<Rightarrow> (ended \<longleftrightarrow> d < length rounds) \<and>
      events_of c' = events_of c @ concat (map (told_of cfg \<circ> response) (take (Suc d) rounds))"
  using assms(1,3)
proof (induction rounds arbitrary: attempt c d)
  case (Cons r rounds)
  let ?c = "c\<lparr>cl_ready_state := SseConnecting\<rparr>"
  obtain result c1 where k: "connect_once cfg (response r) ?c = (result, c1)" by fastforce
  define c2 where "c2 = (case result of Inl e \<Rightarrow> snd (client_send (Err e) c1) | Inr _ \<Rightarrow> c1)"
  have "passed_on (connect_once cfg (response r) ?c) = c2" by (simp add: passed_on_def c2_def k split: sum.split)
  with connect_told [of ?c cfg "response r"] Cons.prems(2) have c2: "cl_receiver c2 = None"
    "events_of c2 = events_of c @ told_of cfg (response r)" by simp_all
  have a1: "unat (attempt + 1) = Suc (unat attempt)"
    using Cons.prems(1) assms(2) by (intro unat_plus_one) simp
  have guard: "sse_retry_budget cfg < attempt + 1 \<longleftrightarrow> d = 0"
    using Cons.prems(1) by (auto simp: word_less_nat_alt a1)
  have step: "sse_loop cfg (map uncancelled (r # rounds)) attempt c =
    (if d = 0 then ([sse_request cfg (cl_last_event_id c)], c2\<lparr>cl_ready_state := SseClosed\<rparr>, True)
     else case sse_loop cfg (map uncancelled rounds) (attempt + 1) c2 of
            (reqs, c3, ended) \<Rightarrow> (sse_request cfg (cl_last_event_id c) # reqs, c3, ended))"
    using guard by (simp add: uncancelled_def k c2_def Let_def)
  show ?case
  proof (cases d)
    case 0
    with step c2 show ?thesis by simp
  next
    case (Suc d')
    with Cons.prems(1) have "unat (sse_retry_budget cfg) = unat (attempt + 1) + d'" by (simp add: a1)
    from Cons.IH [OF this c2(1)] Suc c2(2) show ?thesis
      unfolding step by (simp add: case_prod_unfold)
  qed
qed simp

text \<open>
  C36. The constructor of the event client is a blocking call for the life of the stream: it returns after
  exactly \<open>max_retries + 1\<close> connections have come and gone, not before, and never with an error.  By then
  the observer has been told everything and nothing else: \<open>Open\<close> before any connection, then for each of
  these connections in turn its content lines in order and its error if it had one, and \<open>Close\<close>; the
  object that the application gets has nothing left to do.  (The configuration parses, the HTTP client of
  the stream can be built, and \<open>max_retries\<close> is below the largest 32-bit value.)
\<close>

theorem sse_constructor_blocks:
  assumes "parse config_json = Inr config" and "unat (sse_retry_budget config) < 2 ^ 32 - 1"
  shows "sse_handle_connect parse config_json True rounds =
    (if length rounds \<le> unat (sse_retry_budget config) then None
     else Some (SseDtoOpen #
            concat (map (told_of config \<circ> response) (take (Suc (unat (sse_retry_budget config))) rounds)) @
            [SseDtoClose], Inr ()))"
proof -
  obtain reqs c ended where l: "sse_loop config (map uncancelled rounds) 0 (client_new None) = (reqs, c, ended)"
    using prod_cases3 by blast
  with loop_told [of config 0 "unat (sse_retry_budget config)" "client_new None" rounds] assms
  show ?thesis by (auto simp: sse_handle_connect_def events_of_def client_new_def)
qed

text \<open>One reconnection: a stream with a line and a comment, then a 503; the third round is not reached.\<close>

theorem sse_constructor_blocks_witness:
  "sse_handle_connect (\<lambda>_. Inr (default_sse_client_config\<lparr>sse_reconnect :=
        Some (default_sse_reconnect_config\<lparr>sse_max_retries := 1\<rparr>)\<rparr>)) [] True
      [\<lparr>cancel_before = False, response = SseResponse 200 [ReadyChunk ''data: a'', NotReady, ReadyChunk [newline, CHR '':'']],
         cancel_after = False, jitter_ns = 0, cancel_asleep = False\<rparr>,
       \<lparr>cancel_before = False, response = SseResponse 503 [], cancel_after = False, jitter_ns = 0, cancel_asleep = False\<rparr>,
       \<lparr>cancel_before = False, response = SseResponse 204 [], cancel_after = False, jitter_ns = 0, cancel_asleep = False\<rparr>] =
    Some ([SseDtoOpen, SseDtoData ''data: a'', SseDtoError (display (HttpError 503 [])), SseDtoClose], Inr ())"
proof -
  define cfg where "cfg = default_sse_client_config\<lparr>sse_reconnect :=
      Some (default_sse_reconnect_config\<lparr>sse_max_retries := 1\<rparr>)\<rparr>"
  have b: "unat (sse_retry_budget cfg) = 1" by (simp add: sse_retry_budget_def cfg_def)
  have v: "utf8_valid ''data: a''" "utf8_valid [newline, CHR '':'']" by (rule ascii_valid, simp add: byte_def)+
  have t: "told_of cfg (SseResponse 200 [ReadyChunk ''data: a'', NotReady, ReadyChunk [newline, CHR '':'']]) =
      [SseDtoData ''data: a'']"
    by (simp add: told_of_def v lossy_valid)
      (simp add: all_lines_def text_lines_def text_rest_def trim_end_matches_def route_line_def strip_prefix_def)
  show ?thesis
    unfolding cfg_def [symmetric]
    using sse_constructor_blocks [of "\<lambda>_. Inr cfg" "[]" cfg] b t
    by (simp add: told_of_def)
qed

subsection \<open>Evaluations\<close>

lemma evaluation_window:
  assumes "window_is xs e"
  shows "\<exists>e'. uniffi_evaluate_quality env h r e =
      (Inr (fe_text env (quality_json (measured h r) (quality_of (last_n 50 (xs @ reached r))))), e') \<and>
    window_is (xs @ reached r) e'"
proof -
  obtain e1 where m: "measure_http_rtt h ''/'' r e = Done (measured h r, e1)" "window_is (xs @ reached r) e1"
    using measure_window [OF assms] by blast
  obtain e2 where "evaluate e1 = (quality_of (last_n 50 (xs @ reached r)), e2)" "window_is (xs @ reached r) e2"
    using evaluate_window [OF m(2)] by blast
  with m show ?thesis by (simp add: uniffi_evaluate_quality_def)
qed

lemma evaluations_window:
  assumes "window_is xs e" and "k < length calls"
  shows "fst (uniffi_evaluations env calls e) ! k =
    Inr (fe_text env (quality_json (measured (fst (calls ! k)) (snd (calls ! k)))
      (quality_of (last_n 50 (xs @ concat (map (reached \<circ> snd) (take (Suc k) calls)))))))"
  using assms
proof (induction calls arbitrary: xs e k)
  case (Cons call calls)
  obtain h r where hr: "call = (h, r)" by fastforce
  obtain e1 where e1: "uniffi_evaluate_quality env h r e =
      (Inr (fe_text env (quality_json (measured h r) (quality_of (last_n 50 (xs @ reached r))))), e1)"
    "window_is (xs @ reached r) e1" using evaluation_window [OF Cons.prems(1)] by blast
  show ?case
  proof (cases k)
    case (Suc j)
    with Cons.IH [OF e1(2), of j] Cons.prems(2) e1(1) hr show ?thesis by (simp add: case_prod_unfold)
  qed (simp add: e1(1) hr case_prod_unfold)
qed simp

text \<open>
  \<open>evaluate_quality\<close> never fails: the answer of the \<open>k\<close>-th call of the process is the quality of the last
  50 round trips that all calls so far, to whatever hosts, have measured, with the error of this call when it
  did not measure one.
\<close>

theorem uniffi_quality_window:
  assumes "k < length calls"
  shows "fst (uniffi_evaluations env calls (nq_new 50)) ! k =
    Inr (fe_text env (quality_json (measured (fst (calls ! k)) (snd (calls ! k)))
      (quality_of (last_n 50 (concat (map (reached \<circ> snd) (take (Suc k) calls)))))))"
proof -
  have "window_is [] (nq_new 50)"
    by (simp add: window_is_def nq_new_def nq_inv_def last_n_def)
  from evaluations_window [OF this assms] show ?thesis by simp
qed

theorem uniffi_quality_window_witness:
  "fst (uniffi_evaluations plain_ffi_env [(''a'', Responded 200 10), (''b'', Responded 404 30)] (nq_new 50)) ! 1 =
    Inr (fe_text plain_ffi_env (quality_json (Inr 30) (quality_of [10, 30])))"
  using uniffi_quality_window [of 1 "[(''a'', Responded 200 10), (''b'', Responded 404 30)]" plain_ffi_env]
  by (simp add: measured_def reached_def is_success_status_def last_n_def)

subsection \<open>Limits and errors of calls\<close>

text \<open>What holds of the transport of a client, and what its calls have returned.\<close>

locale blocking_steps = transport_steps P "\<lambda>_. True" for P :: "http_transport \<Rightarrow> bool"
begin

lemma uniffi_after_kept: "P (snd x) \<Longrightarrow> P (snd (uniffi_after env os first x))"
proof -
  assume p: "P (snd x)"
  obtain c t where x: "x = (c, t)" by fastforce
  obtain r t1 where n: "transport_network_changed (hfe_lib env) os t = (r, t1)" by fastforce
  have "P t1" using operations(4) [OF _ TrueI, of t "hfe_lib env" os] p by (simp add: x n)
  with p counted [OF this] show ?thesis
    by (auto simp: x n uniffi_after_def uniffi_result_def split: call.split exec.split sum.split)
qed

lemma uniffi_step_kept:
  assumes "P (uh_transport c)" shows "P (uh_transport (uniffi_http_step env op c))"
proof (cases op)
  case (UhBegin k os now_ms now_us us)
  with assms stepped [OF TrueI token [OF assms], of "hfe_lib env"] show ?thesis
    by (auto simp: uniffi_begin_def set_blocked_def case_prod_unfold simp del: transport_step.simps
        split: option.split blocked_call.split intro!: uniffi_after_kept)
next
  case (UhWait k os inp)
  with assms stepped [OF TrueI assms, of "hfe_lib env" inp] show ?thesis
    by (auto simp: uniffi_wait_def set_blocked_def simp del: transport_step.simps
        split: option.split blocked_call.split intro!: uniffi_after_kept)
next
  case (UhNetworkChanged os)
  with operations(4) [OF assms TrueI, of "hfe_lib env" os] show ?thesis
    by (simp add: uniffi_network_changed_def case_prod_unfold)
next
  case (UhQueueWork w)
  with stepped [OF TrueI assms, of "hfe_lib env" "QueueWork w"] show ?thesis by simp
qed (use assms in \<open>simp add: uniffi_call_def\<close>)

lemma uniffi_run_kept: "P (uh_transport c) \<Longrightarrow> P (uh_transport (uniffi_http_run env ops c))"
  by (induction ops arbitrary: c) (simp_all add: uniffi_http_run_def uniffi_step_kept)

end

definition uniffi_limits :: "nat \<Rightarrow> http_transport \<Rightarrow> bool" where
  "uniffi_limits n t \<longleftrightarrow> limits_ok t \<and> limiter_limit t = n"

interpretation uniffi_limited: blocking_steps "uniffi_limits n" for n
  by unfold_locales
    (auto simp: uniffi_limits_def limits_step simp del: transport_step.simps,
     auto simp: limits_ok_def limiter_limit_def new_token_def entered_def split: option.splits)

definition network_errors :: "uniffi_http \<Rightarrow> bool" where
  "network_errors c \<longleftrightarrow> (\<forall>k e. uh_calls c k = Some (CallReturned (Inl e)) \<longrightarrow>
     e = Network ''thread panicked'' \<or> (\<exists>e'. e = uniffi_from_core e'))"

lemma outcome_errors:
  "uniffi_outcome r = Inl e \<Longrightarrow> e = Network ''thread panicked'' \<or> (\<exists>e'. e = uniffi_from_core e')"
  by (auto simp: uniffi_outcome_def join_aux_def uniffi_from_core_def split: exec.splits sum.splits)

lemma after_errors:
  "fst (uniffi_after env os first x) = CallReturned (Inl e) \<Longrightarrow>
     e = Network ''thread panicked'' \<or> (\<exists>e'. e = uniffi_from_core e')"
  using outcome_errors
  by (fastforce simp: uniffi_after_def uniffi_result_def split: prod.splits call.splits exec.splits sum.splits if_splits)

lemma network_errors_step: "network_errors c \<Longrightarrow> network_errors (uniffi_http_step env op c)"
  by (cases op)
    (auto simp: network_errors_def uniffi_call_def uniffi_begin_def uniffi_wait_def set_blocked_def
      uniffi_network_changed_def case_prod_unfold dest!: after_errors simp del: transport_step.simps
      split: option.splits blocked_call.splits)

lemma network_errors_run: "network_errors c \<Longrightarrow> network_errors (uniffi_http_run env ops c)"
  by (induction ops arbitrary: c) (simp_all add: uniffi_http_run_def network_errors_step)

text \<open>
  The blocked calls of all threads together hold at most \<open>max_concurrency\<close> slots, \<open>queue_depth\<close> is
  exactly the number of slots that are held, and a call that fails returns a \<open>Network\<close> error, that of the
  request or, when the future panicked, \<open>thread panicked\<close>: no panic of a request reaches the host.
\<close>

theorem uniffi_calls_bounded:
  assumes "uniffi_http_new env in_runtime parse config_json = Done (Inr c0)" and "parse config_json = Inr config"
  shows "queue_depth (uh_transport (uniffi_http_run env ops c0)) = limited_running (uh_transport (uniffi_http_run env ops c0)) \<and>
    queue_depth (uh_transport (uniffi_http_run env ops c0)) \<le> unat (http_max_concurrency config) \<and>
    (\<forall>k e. uh_calls (uniffi_http_run env ops c0) k = Some (CallReturned (Inl e)) \<longrightarrow>
       e = Network ''thread panicked'' \<or> (\<exists>e'. e = uniffi_from_core e'))"
proof -
  let ?t = "uh_transport (uniffi_http_run env ops c0)"
  obtain t where t: "transport_new (hfe_lib env) (hfe_resolver_error env) in_runtime config = Done (Ok t)"
    and c0: "uh_transport c0 = t" "uh_calls c0 = Map.empty"
    using assms by (auto simp: uniffi_http_new_def split: sum.splits exec.splits)
  have "uniffi_limits (unat (http_max_concurrency config)) (uh_transport c0)"
    using limits_new [OF t] by (simp add: uniffi_limits_def c0)
  from uniffi_limited.uniffi_run_kept [OF this, of env ops]
  have ok: "limits_ok ?t" "limiter_limit ?t = unat (http_max_concurrency config)" by (simp_all add: uniffi_limits_def)
  have "queue_depth ?t = limiter_limit ?t - limiter_free ?t"
    by (auto simp: queue_depth_def limiter_limit_def limiter_free_def split: option.splits)
  with limits_accounted [OF ok(1)] ok(2)
  have "queue_depth ?t = limited_running ?t" "queue_depth ?t \<le> unat (http_max_concurrency config)" by linarith+
  moreover have "network_errors (uniffi_http_run env ops c0)"
    by (rule network_errors_run) (simp add: network_errors_def c0)
  ultimately show ?thesis unfolding network_errors_def by blast
qed

theorem uniffi_calls_bounded_witness:
  "\<exists>env c. uniffi_http_new env False (\<lambda>_. Inr (default_http_client_config\<lparr>http_max_concurrency := 2\<rparr>)) [] = Done (Inr c) \<and>
     queue_depth (uh_transport (uniffi_http_run env
       [UhCall (get_request ''/x''), UhCall (get_request ''/y''), UhBegin 0 None 0 0 0, UhBegin 1 None 0 0 0] c)) \<le> 2"
proof -
  let ?config = "default_http_client_config\<lparr>http_max_concurrency := 2\<rparr>"
  define env where "env = \<lparr>hfe_ffi = plain_ffi_env, hfe_lib = permissive_env, hfe_resolver_error = (\<lambda>_. None),
      hfe_config = (\<lambda>_. None)\<rparr>"
  obtain t where "transport_new permissive_env (\<lambda>_. None) False ?config = Done (Ok t)"
    by (auto simp: transport_new_def build_middleware_client_def permissive_env_def permissive_tls_def
      bind_exec_def build_tls_config_def default_http_client_config_def default_tls_config_def
      pins_configured_def certificate_calls_def ca_cert_pem_calls_def ca_cert_path_calls_def
      identity_pem_calls_def identity_path_calls_def proxy_calls_def auth_calls_def Let_def)
  then obtain c where c: "uniffi_http_new env False (\<lambda>_. Inr ?config) [] = Done (Inr c)"
    by (auto simp: uniffi_http_new_def env_def)
  from uniffi_calls_bounded [OF c refl, of "[UhCall (get_request ''/x''), UhCall (get_request ''/y''),
      UhBegin 0 None 0 0 0, UhBegin 1 None 0 0 0]"] c
  show ?thesis by (intro exI [of _ env] exI [of _ c]) simp
qed

end
