(* ===== verification/Uniffi_Ws.thy ===== *)
theory Uniffi_Ws
  imports Ws_Consumer Uniffi_Runtime
begin

section \<open>The WebSocket client of the uniffi binding\<close>

text \<open>
  Models \<open>WsClient\<close> of \<^verbatim>\<open>catcher-uniffi/src/lib.rs\<close>: the constructor connects and starts a task that calls
  the observer with the events of the connection; dropping the object closes the connection and aborts the
  task.  An abort takes effect only where the task yields to its runtime, between two polls.
\<close>

subsection \<open>Events\<close>

datatype ws_event_dto =
    DtoConnected string u64
  | DtoDisconnected u16 string
  | DtoReconnecting u32 u64
  | DtoMessage bytes bool
  | DtoError string
  | DtoHeartbeatRtt u64

fun ws_event_dto_from :: "ws_event \<Rightarrow> ws_event_dto" where
  "ws_event_dto_from (EvConnected url lat) = DtoConnected url lat"
| "ws_event_dto_from (EvDisconnected code reason) = DtoDisconnected code reason"
| "ws_event_dto_from (EvReconnecting n ms) = DtoReconnecting n ms"
| "ws_event_dto_from (EvMessage d b) = DtoMessage d b"
| "ws_event_dto_from (EvError msg) = DtoError msg"
| "ws_event_dto_from (EvHeartbeatRtt ms) = DtoHeartbeatRtt ms"

subsection \<open>State\<close>

text \<open>
  The task is parked between polls, in a poll, in a call of the observer during a poll, or over;
  \<open>uw_aborted\<close> is an abort that it has yet to notice.  The log holds the calls of the observer as they begin
  and the drop of the object.
\<close>

datatype forward_phase = Parked | Polling | Observing | ForwardOver

datatype observed = Observed ws_event_dto | ObjectDropped

record uniffi_ws =
  uw_config :: ws_client_config
  uw_manager :: ws_manager
  uw_received :: "ws_event list"
  uw_phase :: forward_phase
  uw_aborted :: bool
  uw_alive :: bool
  uw_log :: "observed list"

definition uniffi_ws_new ::
  "'v ws_env \<Rightarrow> (string \<Rightarrow> string + ws_client_config) \<Rightarrow> string \<Rightarrow> (nat \<Rightarrow> task_result) \<Rightarrow> nat list
    \<Rightarrow> uniffi_error + uniffi_ws" where
  "uniffi_ws_new env parse config_json res order =
     (case parse config_json of
        Inl msg \<Rightarrow> Inl (Config msg)
      | Inr config \<Rightarrow>
          if ws_urls config = [] then Inl (Config ''urls cannot be empty'')
          else bind_res (join_aux ''connect thread panicked'' display (ws_connect env config res order)) (\<lambda>m.
                 Inr \<lparr>uw_config = config, uw_manager = m, uw_received = [], uw_phase = Parked,
                      uw_aborted = False, uw_alive = True, uw_log = []\<rparr>))"

subsection \<open>The forwarding task\<close>

definition task_polled :: "uniffi_ws \<Rightarrow> uniffi_ws" where
  "task_polled c = (if uw_phase c = Parked then c\<lparr>uw_phase := Polling\<rparr> else c)"

text \<open>The task yields: it is parked, or over when it was aborted meanwhile.\<close>

definition task_yields :: "uniffi_ws \<Rightarrow> uniffi_ws" where
  "task_yields c =
     (if uw_phase c = Polling then c\<lparr>uw_phase := (if uw_aborted c then ForwardOver else Parked)\<rparr> else c)"

text \<open>
  \<open>rx.recv().await\<close> in a poll: an event that waits is handed over at once, the end of the channel ends the
  task, and otherwise the task yields.  The runtime can make it yield with an event waiting as well.
\<close>

definition task_receives :: "uniffi_ws \<Rightarrow> uniffi_ws" where
  "task_receives c =
     (if uw_phase c = Polling
      then if length (uw_received c) < length (wm_events (uw_manager c))
           then let ev = wm_events (uw_manager c) ! length (uw_received c)
                in c\<lparr>uw_received := uw_received c @ [ev], uw_phase := Observing,
                     uw_log := uw_log c @ [Observed (ws_event_dto_from ev)]\<rparr>
           else if task_ended (uw_manager c) then c\<lparr>uw_phase := ForwardOver\<rparr>
           else task_yields c
      else c)"

definition observer_done :: "uniffi_ws \<Rightarrow> uniffi_ws" where
  "observer_done c = (if uw_phase c = Observing then c\<lparr>uw_phase := Polling\<rparr> else c)"

subsection \<open>The methods\<close>

definition uniffi_post :: "ws_command \<Rightarrow> uniffi_ws \<Rightarrow> (uniffi_error + unit) \<times> uniffi_ws" where
  "uniffi_post cmd c =
     (case post cmd (uw_manager c) of
        (r, m) \<Rightarrow> (map_err uniffi_from_core r, c\<lparr>uw_manager := m\<rparr>))"

definition uniffi_send_text :: "string \<Rightarrow> uniffi_ws \<Rightarrow> (uniffi_error + unit) \<times> uniffi_ws" where
  "uniffi_send_text text = uniffi_post (CmdText text)"

definition uniffi_send_binary :: "bytes \<Rightarrow> uniffi_ws \<Rightarrow> (uniffi_error + unit) \<times> uniffi_ws" where
  "uniffi_send_binary d = uniffi_post (CmdBinary d)"

definition uniffi_ws_network_changed :: "uniffi_ws \<Rightarrow> (uniffi_error + unit) \<times> uniffi_ws" where
  "uniffi_ws_network_changed = uniffi_post CmdNetworkChanged"

definition uniffi_ws_close :: "u16 \<Rightarrow> string \<Rightarrow> uniffi_ws \<Rightarrow> (uniffi_error + unit) \<times> uniffi_ws" where
  "uniffi_ws_close code reason = uniffi_post (CmdClose code reason)"

text \<open>
  \<open>drop\<close>: the close, whose result is ignored, and the abort; then the object's handle goes, which was the
  only one.
\<close>

definition uniffi_ws_drop :: "uniffi_ws \<Rightarrow> uniffi_ws" where
  "uniffi_ws_drop c =
     (let c1 = snd (uniffi_ws_close 1000 ''client dropped'' c)
      in c1\<lparr>uw_manager := (uw_manager c1)\<lparr>wm_open := False\<rparr>,
            uw_phase := (if uw_phase c = Parked then ForwardOver else uw_phase c), uw_aborted := True,
            uw_alive := False, uw_log := uw_log c @ [ObjectDropped]\<rparr>)"

subsection \<open>Runs\<close>

datatype uniffi_ws_op =
    TaskPolled
  | TaskReceives
  | TaskYields
  | ObserverDone
  | UwSendText string
  | UwSendBinary bytes
  | UwNetworkChanged
  | UwClose u16 string
  | UwDrop
  | UwManagerStep ws_input

fun uniffi_ws_step :: "'v ws_env \<Rightarrow> uniffi_ws_op \<Rightarrow> uniffi_ws \<Rightarrow> uniffi_ws" where
  "uniffi_ws_step env TaskPolled c = task_polled c"
| "uniffi_ws_step env TaskReceives c = task_receives c"
| "uniffi_ws_step env TaskYields c = task_yields c"
| "uniffi_ws_step env ObserverDone c = observer_done c"
| "uniffi_ws_step env (UwSendText text) c = (if uw_alive c then snd (uniffi_send_text text c) else c)"
| "uniffi_ws_step env (UwSendBinary d) c = (if uw_alive c then snd (uniffi_send_binary d c) else c)"
| "uniffi_ws_step env UwNetworkChanged c = (if uw_alive c then snd (uniffi_ws_network_changed c) else c)"
| "uniffi_ws_step env (UwClose code reason) c = (if uw_alive c then snd (uniffi_ws_close code reason c) else c)"
| "uniffi_ws_step env UwDrop c = (if uw_alive c then uniffi_ws_drop c else c)"
| "uniffi_ws_step env (UwManagerStep inp) c =
     (if own_input inp then c\<lparr>uw_manager := ws_step env (uw_config c) inp (uw_manager c)\<rparr> else c)"

definition uniffi_ws_run :: "'v ws_env \<Rightarrow> uniffi_ws_op list \<Rightarrow> uniffi_ws \<Rightarrow> uniffi_ws" where
  "uniffi_ws_run env ops c = fold (uniffi_ws_step env) ops c"

lemma uniffi_ws_run_append [simp]:
  "uniffi_ws_run env (ops @ ops') c = uniffi_ws_run env ops' (uniffi_ws_run env ops c)"
  by (simp add: uniffi_ws_run_def)

subsection \<open>What the observer sees\<close>

definition observed_events :: "observed list \<Rightarrow> ws_event_dto list" where
  "observed_events l = concat (map (\<lambda>x. case x of Observed e \<Rightarrow> [e] | ObjectDropped \<Rightarrow> []) l)"

lemma observed_simps [simp]:
  "observed_events [] = []" "observed_events (l @ l') = observed_events l @ observed_events l'"
  "observed_events (Observed e # l) = e # observed_events l"
  "observed_events (ObjectDropped # l) = observed_events l"
  by (simp_all add: observed_events_def)

definition forwards :: "'v ws_env \<Rightarrow> uniffi_ws \<Rightarrow> bool" where
  "forwards env c \<longleftrightarrow>
     (\<exists>ctx url lat. received env (uw_config c) (ws_start (uw_config c) ctx url lat) (uw_manager c) (uw_received c)) \<and>
     observed_events (uw_log c) = map ws_event_dto_from (uw_received c)"

lemma forwards_manager:
  "forwards env c \<Longrightarrow> forwards env (c\<lparr>uw_manager := ws_step env (uw_config c) inp (uw_manager c)\<rparr>)"
  by (auto simp: forwards_def intro: received_step)

lemma forwards_post: "forwards env c \<Longrightarrow> forwards env (c\<lparr>uw_manager := snd (post cmd (uw_manager c))\<rparr>)"
  using forwards_manager [of env c "Post cmd"] by simp

lemma forwards_close:
  "forwards env c \<Longrightarrow> forwards env (c\<lparr>uw_manager := (snd (post cmd (uw_manager c)))\<lparr>wm_open := False\<rparr>\<rparr>)"
  using forwards_manager [OF forwards_post, of env c cmd DropHandles] by simp

lemma forwards_cong [simp]:
  "forwards env (c\<lparr>uw_phase := p\<rparr>) = forwards env c" "forwards env (c\<lparr>uw_aborted := b\<rparr>) = forwards env c"
  "forwards env (c\<lparr>uw_alive := b\<rparr>) = forwards env c"
  "forwards env (c\<lparr>uw_log := uw_log c @ [ObjectDropped]\<rparr>) = forwards env c"
  by (simp_all add: forwards_def)

lemma forwards_receives:
  assumes "forwards env c" shows "forwards env (task_receives c)"
proof -
  from assms obtain ctx url lat where
    r: "received env (uw_config c) (ws_start (uw_config c) ctx url lat) (uw_manager c) (uw_received c)"
    and l: "observed_events (uw_log c) = map ws_event_dto_from (uw_received c)" by (auto simp: forwards_def)
  have "forwards env (task_receives c)" if n: "length (uw_received c) < length (wm_events (uw_manager c))"
    using received_next [OF r n] l assms n by (auto simp: task_receives_def Let_def forwards_def)
  with assms show ?thesis by (auto simp: task_receives_def task_yields_def)
qed

lemma snd_uniffi_post: "snd (uniffi_post cmd c) = c\<lparr>uw_manager := snd (post cmd (uw_manager c))\<rparr>"
  by (simp add: uniffi_post_def case_prod_unfold)

lemmas uniffi_method_defs = uniffi_send_text_def uniffi_send_binary_def uniffi_ws_network_changed_def uniffi_ws_close_def

lemma forwards_drop: "forwards env c \<Longrightarrow> forwards env (uniffi_ws_drop c)"
  using forwards_close [of env c "CmdClose 1000 ''client dropped''"]
  by (simp add: uniffi_ws_drop_def uniffi_ws_close_def snd_uniffi_post Let_def forwards_def)

lemma forwards_step: "forwards env c \<Longrightarrow> forwards env (uniffi_ws_step env op c)"
  by (cases op)
    (auto simp: forwards_receives forwards_manager forwards_drop uniffi_method_defs snd_uniffi_post forwards_post
      task_polled_def task_yields_def observer_done_def)

lemma forwards_run: "forwards env c \<Longrightarrow> forwards env (uniffi_ws_run env ops c)"
  by (induction ops arbitrary: c) (simp_all add: uniffi_ws_run_def forwards_step)

lemma forwards_new:
  assumes "uniffi_ws_new env parse config_json res order = Inr c0" shows "forwards env c0"
proof -
  from assms obtain config m where c: "ws_connect env config res order = Done (Inr m)"
    and c0: "uw_config c0 = config" "uw_manager c0 = m" "uw_received c0 = []" "uw_log c0 = []"
    by (auto simp: uniffi_ws_new_def join_aux_def split: sum.splits if_splits exec.splits)
  from c obtain ctx url lat where "m = ws_start config ctx url lat"
    by (auto simp: ws_connect_def bind_exec_Ok_iff split: if_splits)
  with c0 show ?thesis by (auto simp: forwards_def intro!: exI received_start)
qed

text \<open>
  The observer of the uniffi client is called with the events of the connection in order, none left out
  or doubled, and these obey the protocol of connections, whatever happens to the object meanwhile.
\<close>

theorem uniffi_ws_events_follow_protocol:
  assumes "uniffi_ws_new env parse config_json res order = Inr c0"
  shows "\<exists>evs v. observed_events (uw_log (uniffi_ws_run env ops c0)) = map ws_event_dto_from evs \<and>
    observe_all Down evs = Some v"
  using forwards_run [OF forwards_new [OF assms], of ops] follows_protocol unfolding forwards_def by blast


definition simple_client :: uniffi_ws where
  "simple_client =
     \<lparr>uw_config = default_ws_client_config\<lparr>ws_urls := [''ws://a'']\<rparr>,
      uw_manager = ws_start (default_ws_client_config\<lparr>ws_urls := [''ws://a'']\<rparr>) native_ctx ''ws://a'' 5,
      uw_received = [], uw_phase = Parked, uw_aborted = False, uw_alive = True, uw_log = []\<rparr>"

lemma simple_client_connects:
  "uniffi_ws_new copying_env (\<lambda>s. Inr (default_ws_client_config\<lparr>ws_urls := [s]\<rparr>)) ''ws://a''
     (\<lambda>_. ConnectedIn 5) [] = Inr simple_client"
proof -
  have "ws_connect copying_env (default_ws_client_config\<lparr>ws_urls := [''ws://a'']\<rparr>) (\<lambda>_. ConnectedIn 5) [] =
      Done (Ok (ws_start (default_ws_client_config\<lparr>ws_urls := [''ws://a'']\<rparr>) native_ctx ''ws://a'' 5))"
    using plain_connect [of "''ws://a''" "\<lambda>_. ConnectedIn 5" "[]"] by (simp add: connect_one_def bind_exec_def)
  then show ?thesis by (simp add: uniffi_ws_new_def join_aux_def simple_client_def)
qed

theorem uniffi_ws_events_follow_protocol_witness:
  "\<exists>c0. uniffi_ws_new copying_env (\<lambda>s. Inr (default_ws_client_config\<lparr>ws_urls := [s]\<rparr>)) ''ws://a''
       (\<lambda>_. ConnectedIn 5) [] = Inr c0 \<and>
     (\<exists>evs v. observed_events (uw_log (uniffi_ws_run copying_env [TaskPolled, TaskReceives, UwDrop] c0)) =
        map ws_event_dto_from evs \<and> observe_all Down evs = Some v)"
  using uniffi_ws_events_follow_protocol [OF simple_client_connects] simple_client_connects by blast

subsection \<open>Dropping the object\<close>

text \<open>What the observer is called with after the drop.\<close>

definition calls_after_drop :: "observed list \<Rightarrow> ws_event_dto list" where
  "calls_after_drop l = observed_events (dropWhile (\<lambda>x. x \<noteq> ObjectDropped) l)"

lemma calls_after_drop_append [simp]:
  "ObjectDropped \<in> set l \<Longrightarrow> calls_after_drop (l @ l') = calls_after_drop l @ observed_events l'"
  "ObjectDropped \<notin> set l \<Longrightarrow> calls_after_drop (l @ l') = calls_after_drop l'"
  "calls_after_drop (ObjectDropped # l) = observed_events l"
  by (auto simp: calls_after_drop_def dropWhile_append3 takeWhile_dropWhile_id observed_events_def
      split: if_splits) (induction l; auto)+

text \<open>The log tells whether the object lives, and the first drop is the only one.\<close>

definition drop_ok :: "uniffi_ws \<Rightarrow> bool" where
  "drop_ok c \<longleftrightarrow> (uw_alive c \<longleftrightarrow> ObjectDropped \<notin> set (uw_log c)) \<and> (uw_aborted c \<longleftrightarrow> \<not> uw_alive c) \<and>
     (uw_aborted c \<longrightarrow> uw_phase c \<noteq> Parked)"

lemma drop_ok_step: "drop_ok c \<Longrightarrow> drop_ok (uniffi_ws_step env op c)"
  by (cases op)
    (auto simp: drop_ok_def task_polled_def task_receives_def task_yields_def observer_done_def uniffi_method_defs
      snd_uniffi_post uniffi_ws_drop_def Let_def)

lemma drop_ok_run: "drop_ok c \<Longrightarrow> drop_ok (uniffi_ws_run env ops c)"
  by (induction ops arbitrary: c) (simp_all add: uniffi_ws_run_def drop_ok_step)

lemma drop_ok_new: "uniffi_ws_new env parse config_json res order = Inr c0 \<Longrightarrow> drop_ok c0"
  by (auto simp: uniffi_ws_new_def drop_ok_def join_aux_def split: sum.splits if_splits exec.splits)

lemma log_grows_step: "\<exists>l. uw_log (uniffi_ws_step env op c) = uw_log c @ l"
  by (cases op)
    (auto simp: task_polled_def task_receives_def task_yields_def observer_done_def uniffi_method_defs
      snd_uniffi_post uniffi_ws_drop_def Let_def)

lemma log_grows_run: "\<exists>l. uw_log (uniffi_ws_run env ops c) = uw_log c @ l"
proof (induction ops arbitrary: c)
  case (Cons op ops)
  from log_grows_step [of env op c] Cons [of "uniffi_ws_step env op c"] show ?case
    by (auto simp: uniffi_ws_run_def)
qed (simp add: uniffi_ws_run_def)

text \<open>A task that is over stays so and calls nobody.\<close>

lemma over_step:
  "uw_phase c = ForwardOver \<Longrightarrow> uw_phase (uniffi_ws_step env op c) = ForwardOver \<and>
     observed_events (uw_log (uniffi_ws_step env op c)) = observed_events (uw_log c)"
  by (cases op)
    (auto simp: task_polled_def task_receives_def task_yields_def observer_done_def uniffi_method_defs
      snd_uniffi_post uniffi_ws_drop_def Let_def)

lemma over_run:
  "uw_phase c = ForwardOver \<Longrightarrow> observed_events (uw_log (uniffi_ws_run env ops c)) = observed_events (uw_log c)"
  by (induction ops arbitrary: c) (simp_all add: uniffi_ws_run_def over_step)

lemma events_post [simp]: "wm_events (snd (post cmd m)) = wm_events m"
  by (simp add: post_def)

lemma late_call:
  assumes "uw_alive c" and "uw_phase c = Observing" and "length (uw_received c) < length (wm_events (uw_manager c))"
  shows "uw_log (uniffi_ws_run env [UwDrop, ObserverDone, TaskReceives] c) =
    uw_log c @ [ObjectDropped, Observed (ws_event_dto_from (wm_events (uw_manager c) ! length (uw_received c)))]"
  using assms
  by (simp add: uniffi_ws_run_def uniffi_ws_drop_def uniffi_method_defs snd_uniffi_post observer_done_def
      task_receives_def Let_def)

text \<open>
  C35. The drop stops the observer only between two polls of the task.  Dropped there, the object's observer is
  never called again.  Dropped during a call of the observer, with a further event waiting, the observer is
  called again after the drop has returned; such calls end when the task next yields to its runtime.
\<close>

theorem uniffi_drop_is_no_barrier:
  assumes "uniffi_ws_new env parse config_json res order = Inr c0" and "uw_alive (uniffi_ws_run env ops c0)"
  shows "(uw_phase (uniffi_ws_run env ops c0) = Parked \<longrightarrow>
      calls_after_drop (uw_log (uniffi_ws_run env (ops @ UwDrop # later) c0)) = []) \<and>
    (uw_phase (uniffi_ws_run env ops c0) = Observing \<and>
       length (uw_received (uniffi_ws_run env ops c0)) < length (wm_events (uw_manager (uniffi_ws_run env ops c0))) \<longrightarrow>
      calls_after_drop (uw_log (uniffi_ws_run env (ops @ [UwDrop, ObserverDone, TaskReceives]) c0)) =
        [ws_event_dto_from (wm_events (uw_manager (uniffi_ws_run env ops c0)) !
           length (uw_received (uniffi_ws_run env ops c0)))]) \<and>
    (uw_phase (uniffi_ws_run env (ops @ UwDrop # later) c0) = Polling \<longrightarrow>
      calls_after_drop (uw_log (uniffi_ws_run env (ops @ UwDrop # later @ TaskYields # others) c0)) =
        calls_after_drop (uw_log (uniffi_ws_run env (ops @ UwDrop # later) c0)))"
proof (intro conjI impI)
  let ?c = "uniffi_ws_run env ops c0"
  have ok: "drop_ok ?c" by (rule drop_ok_run [OF drop_ok_new [OF assms(1)]])
  with assms(2) have live: "ObjectDropped \<notin> set (uw_log ?c)" by (simp add: drop_ok_def)
  let ?d = "uniffi_ws_drop ?c"
  have run: "uniffi_ws_run env (ops @ UwDrop # l) c0 = uniffi_ws_run env l ?d" for l
    using assms(2) by (simp add: uniffi_ws_run_def)
  have d: "uw_log ?d = uw_log ?c @ [ObjectDropped]" "uw_phase ?c = Parked \<Longrightarrow> uw_phase ?d = ForwardOver"
    by (simp_all add: uniffi_ws_drop_def uniffi_method_defs snd_uniffi_post Let_def)
  obtain l1 where l1: "uw_log (uniffi_ws_run env l ?d) = uw_log ?d @ l1 l" for l
    using log_grows_run [of env _ ?d] by metis
  {
    assume p: "uw_phase ?c = Parked"
    have "observed_events (uw_log (uniffi_ws_run env later ?d)) = observed_events (uw_log ?d)"
      by (rule over_run [OF d(2) [OF p]])
    then show "calls_after_drop (uw_log (uniffi_ws_run env (ops @ UwDrop # later) c0)) = []"
      using live unfolding run l1 d by simp
  next
    assume "uw_phase ?c = Observing \<and> length (uw_received ?c) < length (wm_events (uw_manager ?c))"
    with late_call [OF assms(2), of env] live
    show "calls_after_drop (uw_log (uniffi_ws_run env (ops @ [UwDrop, ObserverDone, TaskReceives]) c0)) =
        [ws_event_dto_from (wm_events (uw_manager ?c) ! length (uw_received ?c))]" by simp
  next
    let ?e = "uniffi_ws_run env later ?d"
    assume p: "uw_phase (uniffi_ws_run env (ops @ UwDrop # later) c0) = Polling"
    have "drop_ok ?e" "\<not> uw_alive ?e"
      using drop_ok_run [OF ok, of env "UwDrop # later"] l1 [of later] run [of later] d
      by (auto simp: drop_ok_def)
    then have "uw_phase (task_yields ?e) = ForwardOver" "uw_log (task_yields ?e) = uw_log ?e"
      using p unfolding run by (auto simp: task_yields_def drop_ok_def)
    moreover have "uniffi_ws_run env (later @ TaskYields # others) ?d = uniffi_ws_run env others (task_yields ?e)"
      by (simp add: uniffi_ws_run_def)
    ultimately have "observed_events (uw_log (uniffi_ws_run env (later @ TaskYields # others) ?d)) =
        observed_events (uw_log ?e)" using over_run by metis
    then show "calls_after_drop (uw_log (uniffi_ws_run env (ops @ UwDrop # later @ TaskYields # others) c0)) =
        calls_after_drop (uw_log (uniffi_ws_run env (ops @ UwDrop # later) c0))"
      using live unfolding run l1 d by simp
  }
qed

text \<open>The connection is lost while the observer is told that it was made.\<close>

theorem uniffi_drop_is_no_barrier_witness:
  "\<exists>c0. uniffi_ws_new copying_env (\<lambda>s. Inr (default_ws_client_config\<lparr>ws_urls := [s]\<rparr>)) ''ws://a''
       (\<lambda>_. ConnectedIn 5) [] = Inr c0 \<and>
     calls_after_drop (uw_log (uniffi_ws_run copying_env ([TaskPolled, TaskReceives,
       UwManagerStep (Incoming None 0 SinkHangs)] @ [UwDrop, ObserverDone, TaskReceives]) c0)) =
       [DtoDisconnected 1006 ''stream ended'']"
proof -
  let ?ops = "[TaskPolled, TaskReceives, UwManagerStep (Incoming None 0 SinkHangs)]"
  let ?m = "ws_start (default_ws_client_config\<lparr>ws_urls := [''ws://a'']\<rparr>) native_ctx ''ws://a'' 5"
  let ?c = "uniffi_ws_run copying_env ?ops simple_client"
  have "wm_events ?m = [EvConnected ''ws://a'' 5]" "wm_phase ?m = Online" "wm_queue ?m = []" "wm_open ?m"
    by (simp_all add: ws_start_def go_online_def emit_def Let_def)
  moreover have "prefix [EvConnected ''ws://a'' 5, EvDisconnected 1006 ''stream ended'']
      (wm_events (go_offline 1006 ''stream ended'' ?m))"
    using keeps_offline(1) [of "[EvConnected ''ws://a'' 5, EvDisconnected 1006 ''stream ended'']"] calculation(1)
    by (auto simp: go_offline_def keeps_def emit_def)
  ultimately have c: "uw_alive ?c" "uw_phase ?c = Observing" "uw_received ?c = [EvConnected ''ws://a'' 5]"
    "prefix [EvConnected ''ws://a'' 5, EvDisconnected 1006 ''stream ended''] (wm_events (uw_manager ?c))"
    by (simp_all add: simple_client_def uniffi_ws_run_def task_polled_def task_receives_def incoming_def Let_def)
  then obtain es where "wm_events (uw_manager ?c) =
      EvConnected ''ws://a'' 5 # EvDisconnected 1006 ''stream ended'' # es" by (auto simp: prefix_def)
  with uniffi_drop_is_no_barrier [OF simple_client_connects c(1)] c simple_client_connects show ?thesis by fastforce
qed

end
