(* ===== verification/Ws_Dial.thy ===== *)
theory Ws_Dial
  imports Ws_Connection
begin

section \<open>Dialling an endpoint\<close>

text \<open>
  Models \<open>connect_stream_with_context\<close> and the two back ends of \<^verbatim>\<open>catcher-ws/src/transport/ws_client.rs\<close>
  and \<^verbatim>\<open>catcher-ws/src/ws/compression.rs\<close>.  The network's answer to the handshake is an argument; what
  Ws_Connection takes as the outcome of a dial is the result here.
\<close>

subsection \<open>Options and answers\<close>

text \<open>The settings of \<open>yawc\<close> that the code makes.\<close>

record yawc_options =
  yo_max_payload :: nat
  yo_max_buffer :: nat
  yo_utf8 :: bool
  yo_no_delay :: bool
  yo_compression :: "nat option"

definition build_ws_config :: "ws_client_config \<Rightarrow> yawc_options" where
  "build_ws_config config =
     \<lparr>yo_max_payload = unat (max_payload_bytes config), yo_max_buffer = unat (max_payload_bytes config),
      yo_utf8 = True, yo_no_delay = True,
      yo_compression = (if per_message_deflate config then Some 6 else None)\<rparr>"

text \<open>After so many milliseconds the handshake succeeds or fails with a text; or nothing is ever heard.\<close>

datatype handshake = AnsweredAfter nat "string option" | NeverAnswered

text \<open>The wait with \<open>handshake_timeout_ms\<close>, where 0 is no limit; \<open>None\<close> if it never ends.\<close>

definition await_handshake :: "ws_client_config \<Rightarrow> handshake \<Rightarrow> (catcher_error + u64) option" where
  "await_handshake config h =
     (let limit = handshake_timeout_ms config;
          timed_out = Some (Err (WsHandshakeTimeout limit))
      in case h of
           NeverAnswered \<Rightarrow> if 0 < limit then timed_out else None
         | AnsweredAfter ms err \<Rightarrow>
             if 0 < limit \<and> unat limit < ms then timed_out
             else Some (case err of
                          Some e \<Rightarrow> Err (Internal (''ws handshake failed: '' @ e))
                        | None \<Rightarrow> Ok (of_nat ms)))"

subsection \<open>The back ends\<close>

text \<open>
  What is sent: the headers that the code puts on the request itself, the calls from which the client was
  built that sends it, and the options; \<open>di_latency\<close> is the latency that is reported.
\<close>

record 'u dial =
  di_url :: 'u
  di_headers :: header_map
  di_client :: "builder_call list option"
  di_options :: yawc_options
  di_latency :: u64

definition build_request_builder :: "lib_env \<Rightarrow> ws_client_config \<Rightarrow> catcher_error + header_map" where
  "build_request_builder env config =
     build_handshake_headers (header_name_error env) (header_value_error env) config"

definition connect_with_yawc ::
  "lib_env \<Rightarrow> 'u \<Rightarrow> ws_client_config \<Rightarrow> yawc_options \<Rightarrow> handshake \<Rightarrow> (catcher_error + 'u dial) option" where
  "connect_with_yawc env url config opts h =
     (case build_request_builder env config of
        Inl e \<Rightarrow> Some (Err e)
      | Inr headers \<Rightarrow>
          map_option (\<lambda>r. bind_res r (\<lambda>ms.
              Ok \<lparr>di_url = url, di_headers = headers, di_client = None, di_options = opts, di_latency = ms\<rparr>))
            (await_handshake config h))"

definition connect_with_reqwest ::
  "'u \<Rightarrow> ws_client_config \<Rightarrow> yawc_options \<Rightarrow> builder_call list \<Rightarrow> handshake
    \<Rightarrow> (catcher_error + 'u dial) option" where
  "connect_with_reqwest url config opts client h =
     map_option (\<lambda>r. bind_res r (\<lambda>ms.
         Ok \<lparr>di_url = url, di_headers = [], di_client = Some client, di_options = opts, di_latency = ms\<rparr>))
       (await_handshake config h)"

definition connect_stream_with_context ::
  "lib_env \<Rightarrow> (string \<Rightarrow> string + (string \<times> 'u)) \<Rightarrow> string \<Rightarrow> ws_client_config \<Rightarrow> ws_connect_context
    \<Rightarrow> handshake \<Rightarrow> (catcher_error + 'u dial) option" where
  "connect_stream_with_context env parse url config ctx h =
     (case parse_ws_url parse url of
        Inl e \<Rightarrow> Some (Err e)
      | Inr u \<Rightarrow>
          (let opts = build_ws_config config
           in case wc_backend ctx of
                NativeBackend \<Rightarrow> connect_with_yawc env u config opts h
              | ReqwestBackend \<Rightarrow>
                  (case wc_reqwest_client ctx of
                     None \<Rightarrow> Some (Err (Internal ''missing reqwest client for WS reqwest backend''))
                   | Some client \<Rightarrow> connect_with_reqwest u config opts client h)))"

text \<open>The headers that reach the server: those of the request and the default headers of the client.\<close>

definition default_headers :: "builder_call list \<Rightarrow> header_map" where
  "default_headers calls = concat (map (\<lambda>c. case c of DefaultHeaders h \<Rightarrow> h | _ \<Rightarrow> []) calls)"

definition handshake_headers :: "'u dial \<Rightarrow> header_map" where
  "handshake_headers d = di_headers d @ (case di_client d of Some calls \<Rightarrow> default_headers calls | None \<Rightarrow> [])"

subsection \<open>Contexts\<close>

text \<open>A context that fits its configuration.\<close>

definition ctx_ok :: "lib_env \<Rightarrow> ws_client_config \<Rightarrow> ws_connect_context \<Rightarrow> bool" where
  "ctx_ok env config ctx \<longleftrightarrow>
     (case wc_backend ctx of
        NativeBackend \<Rightarrow> wc_reqwest_client ctx = None
      | ReqwestBackend \<Rightarrow>
          \<exists>calls h. wc_reqwest_client ctx = Some calls \<and> default_headers calls = h \<and>
            build_handshake_headers (header_name_error env) (header_value_error env) config = Ok h)"

lemma default_headers_simps [simp]:
  "default_headers [] = []" "default_headers (a @ b) = default_headers a @ default_headers b"
  "default_headers (DefaultHeaders h # cs) = h @ default_headers cs"
  "default_headers (ConnectTimeout ms # cs) = default_headers cs"
  "default_headers (SetDnsResolver d # cs) = default_headers cs"
  "default_headers (AcceptInvalidCerts # cs) = default_headers cs"
  "default_headers (MinTlsVersion v # cs) = default_headers cs"
  "default_headers (MaxTlsVersion v # cs) = default_headers cs"
  by (simp_all add: default_headers_def)

lemma no_headers_in_proxy: "proxy_calls err msg p = Done (Ok calls) \<Longrightarrow> default_headers calls = []"
  by (auto simp: proxy_calls_def default_headers_def split: option.splits if_splits exec.splits)

lemma no_headers_in_certificates:
  "ca_cert_pem_calls env w t = Ok calls \<Longrightarrow> default_headers calls = []"
  "ca_cert_path_calls env w t = Ok calls \<Longrightarrow> default_headers calls = []"
  "identity_pem_calls env w t = Ok calls \<Longrightarrow> default_headers calls = []"
  "identity_path_calls env w t = Ok calls \<Longrightarrow> default_headers calls = []"
  by (auto simp: ca_cert_pem_calls_def ca_cert_path_calls_def identity_pem_calls_def identity_path_calls_def
      default_headers_def bind_res_Ok_iff split: option.splits)

lemma no_headers_in_tls:
  assumes "build_reqwest_tls_config env t = Ok calls" shows "default_headers calls = []"
proof -
  from assms obtain cs where cs: "certificate_calls env ''WS '' t = Ok cs" "calls = cs @ tls_version_calls t"
    by (auto simp: build_reqwest_tls_config_def bind_res_Ok_iff split: if_splits)
  have "default_headers cs = []"
    using cs(1) by (auto simp: certificate_calls_def bind_res_Ok_iff dest!: no_headers_in_certificates)
  with cs(2) show ?thesis by (simp add: tls_version_calls_def split: option.split)
qed

lemma client_headers:
  assumes "build_reqwest_client env re config = Done (Ok calls)"
  shows "build_handshake_headers (header_name_error env) (header_value_error env) config = Ok (default_headers calls)"
proof -
  let ?pre = "if 0 < handshake_timeout_ms config then [ConnectTimeout (handshake_timeout_ms config)] else []"
  from assms obtain tls dns proxy headers where
    p: "build_reqwest_tls_config (le_tls env) (ws_tls config) = Ok tls"
      "proxy_calls (proxy_url_error env) ''invalid WS proxy URL: '' (ws_proxy config) = Done (Ok proxy)"
    and h: "build_handshake_headers (header_name_error env) (header_value_error env) config = Ok headers"
    and d: "(case ws_dns config of
          Some d \<Rightarrow> if use_catcher_resolver d then (case re d of Some e \<Rightarrow> Err e | None \<Rightarrow> Ok [SetDnsResolver d]) else Ok []
        | None \<Rightarrow> Ok []) = (Ok dns :: catcher_error + builder_call list)"
    and c: "(case build_error env (?pre @ tls @ dns @ proxy @ (if headers = [] then [] else [DefaultHeaders headers])) of
          Some e \<Rightarrow> Err (Internal (''WS reqwest build error: '' @ e))
        | None \<Rightarrow> Ok (?pre @ tls @ dns @ proxy @ (if headers = [] then [] else [DefaultHeaders headers]))) = Ok calls"
    unfolding build_reqwest_client_def bind_exec_Ok_iff Let_def exec.inject by blast
  have "default_headers dns = []" using d by (auto split: option.splits if_splits)
  moreover have "calls = ?pre @ tls @ dns @ proxy @ (if headers = [] then [] else [DefaultHeaders headers])"
    using c by (auto split: option.splits)
  ultimately show ?thesis using no_headers_in_tls [OF p(1)] no_headers_in_proxy [OF p(2)] h by simp
qed

lemma ctx_ok_built: "build_connect_context env re config = Done (Ok ctx) \<Longrightarrow> ctx_ok env config ctx"
  using client_headers by (fastforce simp: build_connect_context_def ctx_ok_def bind_exec_Ok_iff split: if_splits)

lemma ctx_ok_rebuilt:
  assumes "rebuild_after_network_change env re reported config ctx = Done (ctx', evs)" and "ctx_ok env config ctx"
  shows "ctx_ok env config ctx'"
proof -
  have "build_handshake_headers bn bv (config\<lparr>ws_proxy := p\<rparr>) = build_handshake_headers bn bv config" for bn bv p
    by (simp add: build_handshake_headers_def cong: if_cong option.case_cong bool.case_cong)
  with assms client_headers [of env re "config\<lparr>ws_proxy := redetect_proxy reported (ws_proxy config)\<rparr>"]
  show ?thesis
    by (auto simp: rebuild_after_network_change_def build_reqwest_client_for_network_change_def ctx_ok_def
        split: if_splits exec.splits sum.splits ws_backend.splits)
qed

subsection \<open>Along a connection\<close>

text \<open>
  What holds of the context of a connection: the contract is that rebuilding after a network change keeps
  it, and every step of the task then does.
\<close>

definition fits :: "(ws_connect_context \<Rightarrow> bool) \<Rightarrow> ws_manager \<Rightarrow> bool" where
  "fits P m \<longleftrightarrow> P (wm_ctx m)"

lemma fits_update [simp]:
  "fits P (m\<lparr>wm_phase := p\<rparr>) = fits P m" "fits P (m\<lparr>wm_url := u\<rparr>) = fits P m"
  "fits P (m\<lparr>wm_reconnect := r\<rparr>) = fits P m" "fits P (m\<lparr>wm_hb := h\<rparr>) = fits P m"
  "fits P (m\<lparr>wm_ping_ms := i\<rparr>) = fits P m" "fits P (m\<lparr>wm_buffered := b\<rparr>) = fits P m"
  "fits P (m\<lparr>wm_race := k\<rparr>) = fits P m" "fits P (m\<lparr>wm_queue := q\<rparr>) = fits P m"
  "fits P (m\<lparr>wm_open := o'\<rparr>) = fits P m" "fits P (m\<lparr>wm_taken := t\<rparr>) = fits P m"
  "fits P (m\<lparr>wm_conn := n\<rparr>) = fits P m" "fits P (write_frames fs m) = fits P m"
  "fits P (emit evs m) = fits P m"
  by (simp_all add: fits_def write_frames_def emit_def)

lemma fits_offline [simp]:
  "fits P (next_attempt m) = fits P m" "fits P (go_offline code reason m) = fits P m"
proof -
  have n: "fits P (next_attempt m1) = fits P m1" for m1
    by (auto simp: next_attempt_def split: option.split prod.split)
  show "fits P (next_attempt m) = fits P m" "fits P (go_offline code reason m) = fits P m"
    by (simp_all add: go_offline_def n)
qed

lemma fits_online [simp]: "fits P (go_online config url lat m) = fits P m"
  by (simp add: go_online_def Let_def)

lemma fits_drain: "drain_channel m = (n, a, m') \<Longrightarrow> fits P m' = fits P m"
  by (auto simp: drain_channel_def fits_def Let_def split: prod.splits)

lemma fits_connected [simp]: "fits P (stream_connected env' config url lat sink m) = fits P m"
  by (auto simp: stream_connected_def Let_def split: prod.split option.split)

lemma fits_message [simp]:
  "fits P (send_message env' config out cmd m) = fits P m"
  "fits P (close_connection config out shutdown code reason m) = fits P m"
  by (auto simp: send_message_def close_connection_def Let_def split: option.split sum.split send_status.split)

locale dial_context =
  fixes env :: "'v ws_env" and config :: ws_client_config and P :: "ws_connect_context \<Rightarrow> bool"
  assumes rebuilt: "rebuild_after_network_change (we_lib env) (we_resolver_error env) reported config ctx =
    Done (ctx', evs) \<Longrightarrow> P ctx \<Longrightarrow> P ctx'"
begin

lemma fits_rebuild: "rebuild_client env config reported m = Done m' \<Longrightarrow> fits P m \<Longrightarrow> fits P m'"
  using rebuilt by (fastforce simp: rebuild_client_def fits_def emit_def split: exec.splits prod.splits)

lemma fits_changed [simp]:
  assumes "fits P m"
  shows "fits P (on_network_changed env config reported m)" "fits P (end_backoff env config reported skip m)"
  using assms
  by (auto simp: on_network_changed_def end_backoff_def Let_def fits_rebuild
      dest: fits_drain [of _ _ _ _ P] split: prod.split exec.split)

lemma fits_step: "fits P m \<Longrightarrow> fits P (ws_step env config i m)"
proof (cases i)
  case (TakeCommand out shutdown reported)
  assume "fits P m"
  with TakeCommand show ?thesis
    by (auto simp: take_command_def online_command_def backoff_command_def split: list.split ws_command.split)
next
  case (DialEnds res order sink)
  assume "fits P m"
  with DialEnds show ?thesis
    by (auto simp: redial_ends_def dial_ends_def split: ws_phase.split exec.split sum.split)
qed (auto simp: post_def ping_tick_def incoming_def Let_def
    split: option.split prod.split tick_outcome.split ws_frame.split)

lemma fits_run: "fits P m \<Longrightarrow> fits P (ws_run env config is m)"
  by (induction "is" arbitrary: m) (simp_all add: fits_step)

end

interpretation fitting: dial_context env config "ctx_ok (we_lib env) config" for env config
  by unfold_locales (rule ctx_ok_rebuilt)

interpretation native: dial_context env config "\<lambda>ctx. ctx = native_ctx" for env config
  by unfold_locales (simp add: rebuild_after_network_change_def native_ctx_def)

lemma fits_start: "ws_connect env config res order = Done (Ok m) \<Longrightarrow> fits (ctx_ok (we_lib env) config) m"
  using ctx_ok_built by (fastforce simp: ws_connect_def bind_exec_Ok_iff ws_start_def fits_def go_online_def emit_def
      Let_def split: if_splits)

text \<open>
  C40. Every dial of a connection, the first one and every reconnection, after network changes and failed
  rebuilds of the client too, on either back end, carries exactly the headers of the configuration (the
  user's, the negotiation of the compression and the subprotocols) and its options, and a dial never
  lacks the client that it needs.
\<close>

theorem every_dial_carries_headers:
  assumes "ws_connect env config res order = Done (Ok m)"
    and "ctx = wm_ctx (ws_run env config is m)"
  shows "(wc_backend ctx = ReqwestBackend \<longrightarrow> wc_reqwest_client ctx \<noteq> None) \<and>
    (connect_stream_with_context (we_lib env) parse url config ctx h = Some (Ok d) \<longrightarrow>
       build_handshake_headers (header_name_error (we_lib env)) (header_value_error (we_lib env)) config =
         Ok (handshake_headers d) \<and>
       di_options d = build_ws_config config)"
proof -
  have "ctx_ok (we_lib env) config ctx"
    using fitting.fits_run [OF fits_start [OF assms(1)], of "is"] by (simp add: fits_def assms(2))
  then show ?thesis
    by (auto simp: ctx_ok_def connect_stream_with_context_def connect_with_yawc_def connect_with_reqwest_def
        build_request_builder_def handshake_headers_def bind_res_Ok_iff Let_def
        split: sum.splits ws_backend.splits option.splits)
qed

text \<open>The subprotocol is in the handshake that follows a network change.\<close>

theorem every_dial_carries_headers_witness:
  "\<exists>m d. ws_connect copying_env (default_ws_client_config\<lparr>ws_urls := [''ws://a''], ws_protocols := [''chat'']\<rparr>)
       (\<lambda>_. ConnectedIn 5) [] = Done (Ok m) \<and>
     connect_stream_with_context permissive_env (\<lambda>s. Inr (''ws'', s)) ''ws://a''
       (default_ws_client_config\<lparr>ws_urls := [''ws://a''], ws_protocols := [''chat'']\<rparr>)
       (wm_ctx (ws_run copying_env (default_ws_client_config\<lparr>ws_urls := [''ws://a''], ws_protocols := [''chat'']\<rparr>)
          [Post CmdNetworkChanged, TakeCommand SinkHangs SinkHangs None] m)) (AnsweredAfter 7 None) = Some (Ok d) \<and>
     build_handshake_headers (\<lambda>_. None) (\<lambda>_. None)
       (default_ws_client_config\<lparr>ws_urls := [''ws://a''], ws_protocols := [''chat'']\<rparr>) = Ok (handshake_headers d)"
proof -
  let ?config = "default_ws_client_config\<lparr>ws_urls := [''ws://a''], ws_protocols := [''chat'']\<rparr>"
  let ?is = "[Post CmdNetworkChanged, TakeCommand SinkHangs SinkHangs None]"
  have ctx: "build_connect_context permissive_env (\<lambda>_. None) ?config = Done (Ok native_ctx)"
    by (simp add: build_connect_context_def needs_reqwest_backend_def has_advanced_tls_def native_ctx_def
        default_ws_client_config_def default_tls_config_def)
  then obtain m where m: "ws_connect copying_env ?config (\<lambda>_. ConnectedIn 5) [] = Done (Ok m)"
    and "wm_ctx m = native_ctx"
    by (auto simp: ws_connect_def copying_env_def connect_one_def bind_exec_def ws_start_def go_online_def Let_def
        emit_def default_ws_client_config_def)
  have n: "wm_ctx (ws_run copying_env ?config ?is m) = native_ctx"
    using native.fits_run [of m copying_env ?config ?is] \<open>wm_ctx m = native_ctx\<close> unfolding fits_def by blast
  have e: "we_lib copying_env = permissive_env" by (simp add: copying_env_def)
  obtain d where d: "connect_stream_with_context permissive_env (\<lambda>s. Inr (''ws'', s)) ''ws://a'' ?config native_ctx
      (AnsweredAfter 7 None) = Some (Ok d)"
    by (simp add: connect_stream_with_context_def parse_ws_url_def native_ctx_def connect_with_yawc_def
        build_request_builder_def build_handshake_headers_def permissive_env_def default_ws_client_config_def
        await_handshake_def checked_insert_def Let_def)
  have r: "connect_stream_with_context (we_lib copying_env) (\<lambda>s. Inr (''ws'', s)) ''ws://a'' ?config
      (wm_ctx (ws_run copying_env ?config ?is m)) (AnsweredAfter 7 None) = Some (Ok d)" unfolding n e by (rule d)
  have v: "header_name_error permissive_env = (\<lambda>_. None)" "header_value_error permissive_env = (\<lambda>_. None)"
    by (simp_all add: permissive_env_def)
  from every_dial_carries_headers [OF m refl] r m show ?thesis unfolding e v by blast
qed

text \<open>
  With a handshake timeout every dial ends: with an answer that came in time, and then the latency that
  is reported is no more than the timeout, or with an error.  Without one a dial that is never answered
  never ends.
\<close>

theorem dial_ends_in_time:
  shows "(handshake_timeout_ms config \<noteq> 0 \<longrightarrow>
      (\<exists>r. connect_stream_with_context env parse url config ctx h = Some r \<and>
         (\<forall>d. r = Ok d \<longrightarrow> di_latency d \<le> handshake_timeout_ms config))) \<and>
    (handshake_timeout_ms config = 0 \<and> parse_ws_url parse url = Ok u \<and> wc_backend ctx = ReqwestBackend \<and>
       wc_reqwest_client ctx = Some calls \<longrightarrow>
       connect_stream_with_context env parse url config ctx NeverAnswered = None)"
proof (intro conjI impI)
  assume t: "handshake_timeout_ms config \<noteq> 0"
  have a: "\<exists>r. await_handshake config h = Some r \<and> (\<forall>ms. r = Ok ms \<longrightarrow> ms \<le> handshake_timeout_ms config)"
  proof (cases h)
    case (AnsweredAfter ms err)
    have "of_nat ms \<le> handshake_timeout_ms config" if "ms \<le> unat (handshake_timeout_ms config)"
      using that by (auto simp: word_le_nat_alt unat_of_nat intro: order_trans [OF mod_less_eq_dividend])
    with t AnsweredAfter show ?thesis by (auto simp: await_handshake_def Let_def word_neq_0_conv split: option.split)
  qed (use t in \<open>simp add: await_handshake_def Let_def word_neq_0_conv\<close>)
  then show "\<exists>r. connect_stream_with_context env parse url config ctx h = Some r \<and>
      (\<forall>d. r = Ok d \<longrightarrow> di_latency d \<le> handshake_timeout_ms config)"
    by (auto simp: connect_stream_with_context_def connect_with_yawc_def connect_with_reqwest_def Let_def
        bind_res_Ok_iff split: sum.split ws_backend.split option.split)
next
  assume "handshake_timeout_ms config = 0 \<and> parse_ws_url parse url = Ok u \<and> wc_backend ctx = ReqwestBackend \<and>
      wc_reqwest_client ctx = Some calls"
  then show "connect_stream_with_context env parse url config ctx NeverAnswered = None"
    by (simp add: connect_stream_with_context_def connect_with_reqwest_def await_handshake_def Let_def)
qed

theorem dial_ends_in_time_witness:
  "(\<exists>r. connect_stream_with_context permissive_env (\<lambda>s. Inr (''ws'', s)) ''ws://a'' default_ws_client_config native_ctx
      NeverAnswered = Some r) \<and>
   connect_stream_with_context permissive_env (\<lambda>s. Inr (''ws'', s)) ''ws://a''
     (default_ws_client_config\<lparr>handshake_timeout_ms := 0\<rparr>)
     \<lparr>wc_backend = ReqwestBackend, wc_reqwest_client = Some []\<rparr> NeverAnswered = None"
  using dial_ends_in_time [of default_ws_client_config permissive_env "\<lambda>s. Inr (''ws'', s)" "''ws://a''" native_ctx
      NeverAnswered "''ws://a''" "[]"]
    dial_ends_in_time [of "default_ws_client_config\<lparr>handshake_timeout_ms := 0\<rparr>" permissive_env "\<lambda>s. Inr (''ws'', s)"
      "''ws://a''" "\<lparr>wc_backend = ReqwestBackend, wc_reqwest_client = Some []\<rparr>" NeverAnswered "''ws://a''" "[]"]
  by (auto simp: default_ws_client_config_def parse_ws_url_def)

end
