(* ===== verification/Dns_Adapter.thy ===== *)
theory Dns_Adapter
  imports Dns
begin

section \<open>The public resolver and its adapter for HTTP clients\<close>

text \<open>
  Models \<open>DnsResolver\<close> of \<^verbatim>\<open>catcher-dns/src/lib.rs\<close>, which chooses between the caching back end and the
  system's lookups, and \<open>ReqwestDnsResolver\<close>, through which the HTTP clients use it.
\<close>

subsection \<open>The resolver\<close>

record 'c dns_resolver =
  dr_config :: dns_config
  dr_backend :: "'c dns_backend"
  dr_state :: dns_state

definition public_new ::
  "(string \<Rightarrow> ip_addr option) \<Rightarrow> (string \<Rightarrow> string + sock_addr) \<Rightarrow> (string + 'c) \<Rightarrow> dns_config \<Rightarrow>
   catcher_error + 'c dns_resolver" where
  "public_new parse_ip parse system_conf cfg =
     bind_res (dns_resolver_new parse_ip parse system_conf cfg)
       (\<lambda>b. Ok \<lparr>dr_config = cfg, dr_backend = b, dr_state = dns_init\<rparr>)"

text \<open>\<open>resolve_socket_addrs\<close> up to its first wait: the answer, unless the lookup has to be awaited.\<close>

definition public_resolve ::
  "(string \<Rightarrow> u16 \<Rightarrow> string + sock_addr list) \<Rightarrow> string \<Rightarrow> u16 \<Rightarrow> 'c dns_resolver \<Rightarrow>
   (catcher_error + sock_addr list) option \<times> 'c dns_resolver" where
  "public_resolve lookup_host h p r =
     (case dr_backend r of
        Hickory inner m \<Rightarrow>
          (case resolve_zero_port (dr_config r) m h (dr_state r) of
             (a, s) \<Rightarrow> (map_option (\<lambda>as. resolve_socket_addrs h p (Inr as)) a, r\<lparr>dr_state := s\<rparr>))
      | Native m \<Rightarrow> (Some (resolve_native lookup_host m h p), r))"

definition public_clear_cache :: "'c dns_resolver \<Rightarrow> 'c dns_resolver" where
  "public_clear_cache r =
     (case dr_backend r of Hickory _ _ \<Rightarrow> r\<lparr>dr_state := clear_cache (dr_state r)\<rparr> | Native _ \<Rightarrow> r)"

definition public_network_changed ::
  "(catcher_error + 'c inner_resolver) \<Rightarrow> 'c dns_resolver \<Rightarrow> (catcher_error + unit) \<times> 'c dns_resolver" where
  "public_network_changed built r =
     (case dr_backend r of
        Hickory inner m \<Rightarrow>
          (case network_changed built inner (dr_state r) of
             (res, inner', s) \<Rightarrow> (res, r\<lparr>dr_backend := Hickory inner' m, dr_state := s\<rparr>))
      | Native _ \<Rightarrow> (Ok (), r))"

subsection \<open>The adapter\<close>

definition build_reqwest_resolver ::
  "(string \<Rightarrow> ip_addr option) \<Rightarrow> (string \<Rightarrow> string + sock_addr) \<Rightarrow> (string + 'c) \<Rightarrow> dns_config \<Rightarrow>
   catcher_error + 'c dns_resolver" where
  "build_reqwest_resolver = public_new"

definition adapter_resolve ::
  "(string \<Rightarrow> u16 \<Rightarrow> string + sock_addr list) \<Rightarrow> string \<Rightarrow> 'c dns_resolver \<Rightarrow>
   (catcher_error + sock_addr list) option \<times> 'c dns_resolver" where
  "adapter_resolve lookup_host name = public_resolve lookup_host name 0"

definition adapter_network_changed ::
  "(catcher_error + 'c inner_resolver) \<Rightarrow> 'c dns_resolver \<Rightarrow> (catcher_error + unit) \<times> 'c dns_resolver" where
  "adapter_network_changed = public_network_changed"

subsection \<open>Runs\<close>

text \<open>\<open>Background\<close> is a step of the caching back end.\<close>

datatype 'c resolver_op =
    Resolve string u16
  | AdapterResolve string
  | PublicClear
  | PublicNetworkChange "catcher_error + 'c inner_resolver"
  | Background dns_op

fun resolver_step ::
  "(string \<Rightarrow> u16 \<Rightarrow> string + sock_addr list) \<Rightarrow> 'c resolver_op \<Rightarrow> 'c dns_resolver \<Rightarrow> 'c dns_resolver" where
  "resolver_step lookup_host (Resolve h p) r = snd (public_resolve lookup_host h p r)"
| "resolver_step lookup_host (AdapterResolve h) r = snd (adapter_resolve lookup_host h r)"
| "resolver_step lookup_host PublicClear r = public_clear_cache r"
| "resolver_step lookup_host (PublicNetworkChange built) r = snd (public_network_changed built r)"
| "resolver_step lookup_host (Background op) r =
     (case dr_backend r of
        Hickory inner m \<Rightarrow>
          (case dns_step (dr_config r) m op (dr_state r) of
             None \<Rightarrow> r | Some (a, s) \<Rightarrow> r\<lparr>dr_state := s\<rparr>)
      | Native _ \<Rightarrow> r)"

definition resolver_run ::
  "(string \<Rightarrow> u16 \<Rightarrow> string + sock_addr list) \<Rightarrow> 'c resolver_op list \<Rightarrow> 'c dns_resolver \<Rightarrow> 'c dns_resolver" where
  "resolver_run lookup_host ops r = fold (resolver_step lookup_host) ops r"

subsection \<open>Mapped hosts\<close>

fun backend_mapping :: "'c dns_backend \<Rightarrow> (string \<times> sock_addr list) list" where
  "backend_mapping (Hickory inner m) = m"
| "backend_mapping (Native m) = m"

lemma mapping_step: "backend_mapping (dr_backend (resolver_step lh op r)) = backend_mapping (dr_backend r)"
  by (cases op)
    (auto simp: public_resolve_def adapter_resolve_def public_clear_cache_def public_network_changed_def
      split: dns_backend.split prod.split option.split)

lemma mapping_run: "backend_mapping (dr_backend (resolver_run lh ops r)) = backend_mapping (dr_backend r)"
  by (induction ops arbitrary: r) (simp_all add: resolver_run_def mapping_step)

lemma mapped_answer:
  "map_of (backend_mapping (dr_backend r)) h = Some as \<Longrightarrow>
     public_resolve lh h p r = (Some (Ok (with_port as p)), r)"
  by (cases "dr_backend r") (simp_all add: public_resolve_def resolve_zero_port_def resolve_socket_addrs_def resolve_native_def)

lemma mapping_new:
  assumes "public_new parse_ip parse system_conf cfg = Ok r"
  shows "parse_host_mapping parse_ip (host_mapping cfg) = Ok (backend_mapping (dr_backend r))"
  using assms
  by (cases "parse_host_mapping parse_ip (host_mapping cfg)"; cases "build_inner_resolver parse system_conf cfg")
    (auto simp: public_new_def dns_resolver_new_def split: if_splits)

lemma parsed_mapping:
  "parse_host_mapping parse_ip m = Ok r \<Longrightarrow> map_of m h = Some s \<Longrightarrow>
     \<exists>ip. parse_ip s = Some ip \<and> map_of r h = Some [\<lparr>sa_ip = ip, sa_port = 0\<rparr>]"
proof (induction m arbitrary: r)
  case (Cons x m)
  obtain h' s' where x: "x = (h', s')" by fastforce
  with Cons.prems(1) obtain ip r' where
    "parse_ip s' = Some ip" "parse_host_mapping parse_ip m = Ok r'" "r = (h', [\<lparr>sa_ip = ip, sa_port = 0\<rparr>]) # r'"
    by (cases "parse_host_mapping parse_ip m") (auto split: option.splits)
  with Cons x show ?case by (auto split: if_splits)
qed simp

text \<open>
  A host of the configuration's map is static: on either back end, after any lookups, clearings, network
  changes and background work, it resolves at once to its configured address with the port that was asked
  for (0 for the HTTP clients), without a lookup and without touching the cache.
\<close>

theorem mapped_host_is_static:
  assumes "public_new parse_ip parse system_conf cfg = Ok r0" and "map_of (host_mapping cfg) h = Some s"
    and "r = resolver_run lh ops r0"
  shows "\<exists>ip. parse_ip s = Some ip \<and> public_resolve lh h p r = (Some (Ok [\<lparr>sa_ip = ip, sa_port = p\<rparr>]), r) \<and>
    adapter_resolve lh h r = (Some (Ok [\<lparr>sa_ip = ip, sa_port = 0\<rparr>]), r)"
proof -
  obtain ip where ip: "parse_ip s = Some ip"
    and m: "map_of (backend_mapping (dr_backend r0)) h = Some [\<lparr>sa_ip = ip, sa_port = 0\<rparr>]"
    using parsed_mapping [OF mapping_new [OF assms(1)] assms(2)] by blast
  have "map_of (backend_mapping (dr_backend r)) h = Some [\<lparr>sa_ip = ip, sa_port = 0\<rparr>]"
    using m by (simp add: assms(3) mapping_run)
  from mapped_answer [OF this, of lh] ip show ?thesis by (simp add: adapter_resolve_def with_port_def)
qed

theorem mapped_host_is_static_witness:
  "\<exists>r0. public_new (\<lambda>_. Some (IPv4 7)) (\<lambda>_. Inl '''') (Inr ())
      (default_dns_config\<lparr>host_mapping := [(''api.test'', ''7'')]\<rparr>) = Ok r0 \<and>
    fst (adapter_resolve (\<lambda>_ _. Inl '''') ''api.test'' (resolver_run (\<lambda>_ _. Inl '''')
      [Resolve ''b'' 1, PublicNetworkChange (Err CircuitBreakerOpen), PublicClear] r0)) =
      Some (Ok [\<lparr>sa_ip = IPv4 7, sa_port = 0\<rparr>])"
proof -
  let ?cfg = "default_dns_config\<lparr>host_mapping := [(''api.test'', ''7'')]\<rparr>"
  obtain r0 where r0: "public_new (\<lambda>_. Some (IPv4 7)) (\<lambda>_. Inl '''') (Inr ()) ?cfg = Ok r0"
    by (simp add: public_new_def dns_resolver_new_def build_inner_resolver_def default_dns_config_def)
  from mapped_host_is_static [OF r0 _ refl, where h = "''api.test''" and s = "''7''" and lh = "\<lambda>_ _. Inl ''''"
      and ops = "[Resolve ''b'' 1, PublicNetworkChange (Err CircuitBreakerOpen), PublicClear]"] r0
  show ?thesis by auto
qed

end
