(* ===== verification/Spec2Isabelle.thy ===== *)
theory Spec2Isabelle
  imports Circuit_Breaker Adaptive_Timeout Network_Quality Retry Metrics Handle_Registry Sse_Client Dns
    Client_Builder Ws_Connection Transport_Limits Transport_Races Msgpack_Codec Ws_Ffi Sse_Ffi Http_Ffi Quality_Ffi
    Node_Http Node_Sse Node_Ws Uniffi_Client Uniffi_Ws Ws_Dial Dns_Adapter
begin

text \<open>
  A verification library for the Rust core of \<^verbatim>\<open>catcher\<close>, a network client library: an HTTP
  client, a server-sent events client and a WebSocket client, with the resilience layer they
  share, offered to other languages over foreign-function interfaces.

  \<^bold>\<open>The program's parts and the theories that model them\<close>
  (paths under \<^verbatim>\<open>src/packages/\<close>; a theory's definitions keep the names of the code)

  \<^item> Prelude, Rust_Float, Rust_Text, Utf8: what the code uses of the language. Machine integers are
    words and wrap as the release profile makes them; \<open>f64\<close> values are exact rationals with
    rounding to 53 bits, infinities and NaN; \<open>String\<close>s are lists of bytes.
  \<^item> Core_Error, Core_Types: \<^verbatim>\<open>catcher-core/src/error.rs\<close>, \<^verbatim>\<open>catcher-core/src/types/\<close>,
    \<^verbatim>\<open>catcher-http/src/types/http.rs\<close>, \<^verbatim>\<open>catcher-ws/src/types/ws.rs\<close>,
    \<^verbatim>\<open>catcher-napi-http/src/error.rs\<close>: errors with their categories and texts, configurations with
    their defaults, requests, responses, events.
  \<^item> Circuit_Breaker, Rtt_Window, Adaptive_Timeout, Network_Quality, Metrics, Retry:
    \<^verbatim>\<open>catcher-http/src/resilience/\<close>, \<^verbatim>\<open>catcher-http/src/observability/\<close> and
    \<^verbatim>\<open>catcher-http/src/transport/retry_middleware.rs\<close>. Each is a record of the code's fields and one
    function per method; the time is an argument. Rtt_Window states the contract of the windows of
    round trips as the locale \<open>cached_window\<close>, which the timeout, the heartbeat and the network
    quality interpret.
  \<^item> Handle_Registry: \<^verbatim>\<open>catcher-core/src/handle_registry.rs\<close>, behind the locale \<open>handle_store\<close>.
  \<^item> Sse_Lines, Sse_Stream, Sse_Client: \<^verbatim>\<open>catcher-http/src/sse/\<close>. Line framing is shared by the
    stream and the client through the locale \<open>line_handler\<close>. A response body is the list of chunks
    that the HTTP library yields.
  \<^item> Dns: \<^verbatim>\<open>catcher-dns/src/lib.rs\<close>, the caching resolver, as a step relation over the atomic steps of
    lookups, background refreshes and cache clearing, so that every interleaving is covered.
  \<^item> Heartbeat, Reconnect: \<^verbatim>\<open>catcher-ws/src/ws/heartbeat.rs\<close> and \<^verbatim>\<open>reconnect.rs\<close>.
  \<^item> App_Compression, Ws_Messages: \<^verbatim>\<open>catcher-ws/src/ws/application_compression.rs\<close> and the message
    layer of \<^verbatim>\<open>catcher-ws/src/transport/ws_client.rs\<close>.
  \<^item> Client_Builder: \<^verbatim>\<open>catcher-http/src/transport/tls.rs\<close>, \<^verbatim>\<open>tls_pinning.rs\<close>,
    \<^verbatim>\<open>catcher-dns/src/proxy.rs\<close> and the construction of the HTTP and WebSocket clients. A builder is the
    list of the calls made on it.
  \<^item> Ws_Connection: \<^verbatim>\<open>catcher-ws/src/ws/multi_endpoint.rs\<close> and the connection task of
    \<^verbatim>\<open>ws_client.rs\<close> (\<open>WsHandle\<close>, \<open>WsTransport::connect\<close>, \<open>connection_manager\<close>), which ties together the
    client builder, the messages, the heartbeat and the reconnection. \<open>ws_manager\<close> holds the variables of
    the task, its channel and a log of the events and of the frames per connection; \<open>ws_phase\<close> is the
    \<open>await\<close> it is suspended at, and \<open>ws_step\<close> runs it to the next one on an input that says which
    future completed and with what.
  \<^item> Ws_Dial: the dial of one endpoint on either back end (\<open>connect_stream_with_context\<close> and
    \<^verbatim>\<open>catcher-ws/src/ws/compression.rs\<close>), whose result Ws_Connection takes as an input. The locale
    \<open>dial_context\<close> carries what holds of the context through every step of the connection task.
  \<^item> Dns_Adapter: the public \<open>DnsResolver\<close>, which chooses the back end, and the adapter through which the
    HTTP clients use it.
  \<^item> Http_Request: \<^verbatim>\<open>catcher-http/src/transport/multipart.rs\<close> and the functions of
    \<^verbatim>\<open>http_client.rs\<close> without state: the request on the wire, the response, errors, streams.
  \<^item> Request_Queue: \<^verbatim>\<open>catcher-http/src/scheduler/priority_queue.rs\<close>, with the worker, the tasks and the
    semaphore as steps that a scheduler interleaves.
  \<^item> Http_Transport: \<open>HttpTransport\<close> of \<^verbatim>\<open>http_client.rs\<close>, which owns a client, a breaker, an adaptive
    timeout, the metrics, the cancellation tokens and the queue or a semaphore. Requests in flight are
    records; \<open>execute_with_token\<close> is cut at its \<open>await\<close>s into \<open>begin_request\<close>, \<open>enter_request\<close> and
    \<open>finish_request\<close> or \<open>observe_cancel\<close>, so that runs interleave any number of requests with network
    changes, cancellations and the queue.

  \<^item> Transport_Limits: how many requests \<open>HttpTransport\<close> admits and runs, over every run of
    Http_Transport.
  \<^item> Transport_Races: the steps that Http_Transport takes as one and the code does not. The end of a
    failed request is cut at its comparison of the generations, a network change into its increment,
    the four stores of the breaker's reset and the rebuilding of the client; \<open>race_step\<close> interleaves them with
    everything else, and the undivided steps are shown to be the runs in which nothing comes between.
  \<^item> Msgpack_Codec: \<^verbatim>\<open>catcher-ws/src/codec.rs\<close> and the pack and unpack operations of
    \<^verbatim>\<open>catcher-ffi/src/lib.rs\<close> and \<^verbatim>\<open>catcher-uniffi/src/lib.rs\<close>, on the two value types of the libraries.
  \<^item> Ffi_Core: \<^verbatim>\<open>catcher-core/src/ffi_types.rs\<close> and what the C interfaces share: an allocator
    that detects bad frees, strings and byte blocks owned by the host, and the reading of logs of
    callbacks.
  \<^item> Ws_Ffi, Sse_Ffi, Http_Ffi: \<^verbatim>\<open>catcher-ws/src/ffi/ws_ffi.rs\<close>, \<^verbatim>\<open>catcher-http/src/ffi/sse_ffi.rs\<close> and
    \<^verbatim>\<open>http_ffi.rs\<close>. A state holds the registry of handles, the set of cancelled handles, the tasks
    and the log of calls into the host; the host's threads and the tasks interleave at their locks,
    sends and \<open>await\<close>s.
  \<^item> Quality_Ffi: \<^verbatim>\<open>catcher-http/src/ffi/quality_ffi.rs\<close> and the subscription of
    \<^verbatim>\<open>network_quality.rs\<close>: evaluations that share one evaluator under a lock, subscriptions as boxes
    whose addresses the host passes back.
  \<^item> Node_Http, Node_Sse, Node_Ws: \<^verbatim>\<open>catcher-napi-http/src/client.rs\<close>, \<^verbatim>\<open>helpers.rs\<close>, \<^verbatim>\<open>sse.rs\<close> and
    \<^verbatim>\<open>catcher-napi-ws/src/lib.rs\<close>. Promises and tasks are phases in the state of an object; calls of
    JavaScript functions wait in a queue that the JavaScript thread empties; an object may be
    collected at any step.
  \<^item> Ws_Consumer: what the bindings know of the events of a connection that still runs, as the locale
    \<open>event_source\<close>, interpreted on Ws_Connection.
  \<^item> Uniffi_Runtime, Uniffi_Client, Uniffi_Ws: \<^verbatim>\<open>catcher-uniffi/src/lib.rs\<close>. The auxiliary runtime is
    an inductive step relation of its one worker; blocking calls interleave over one transport; the
    forwarding task of a WebSocket client runs in polls, between which alone an abort stops it.

  \<^bold>\<open>What the lemmas show\<close>

  The breaker trips exactly on a streak of failures, rejects while open, admits its probe budget;
  the adaptive timeout, the heartbeat interval and the network snapshot are those of the last
  window of samples whatever the order of reads; retries, reconnections and event-stream connections
  stay within their budgets and delays; the event stream delivers exactly the content lines of the
  body for every cut into chunks of whole characters; the resolver's cache is current after a network
  change except in one race, which is exhibited, and mapped hosts are static; what arrives of
  a message that goes through compression and MessagePack; a configured proxy is never bypassed; what
  pinning accepts. The retry middleware is described attempt by attempt.

  The events of the connection task spell a run of a two-state connection (a refinement); on every
  connection messages keep the order of posting; a network change reconnects at once and replays what was in the
  channel, what is posted while it dials waits there;
  with a send time limit no dead socket holds the task up; every dial carries the headers that were
  configured. Once a network change has incremented the generation, the failure of an earlier request reaches the
  breaker only if that request had already compared the generations; the metrics count the calls that
  returned; no schedule of the queue exceeds its concurrency. Where the code departs from what it means to do, the departure
  is a theorem: what is lost on a failed send, probes that block the breaker when cancelled, requests
  sent after their cancellation, priorities that a full queue does not honour.

  On the C interface, destroying a WebSocket handle waits for running callbacks and no callback
  begins after it; for event streams and HTTP requests at most one call per task begins late. Calls of
  one stream keep the order of its lines and end with one terminal call; an idle stream holds its host
  up; with the handle of a destroyed client no call reaches a transport or starts a task (an unsupported
  method is called back all the same), while the entry of a finished streamed request stays with its
  transport; streams take no permit of the limiter. What is packed is unpacked as the same value, but
  for the listed exceptions. A theory's properties are stated over every interleaving. Quality
  evaluations of all threads behave as if run one after the other, a subscription calls its host with
  exactly the changes of level over what it measured, and no sequence of unsubscriptions frees a box
  twice.

  The bindings for Node tell JavaScript a prefix of what the streams and connections report, in order;
  their cancellation finds no request, and a window of no samples ends a client. Of uniffi: an observer
  of an event stream that calls back blocks the auxiliary runtime for ever, and without such a call
  every future can still end; the constructor of the event client returns exactly when its budget of
  connections is used up, and what its observer is told by then is given line by line; the drop of a WebSocket client silences its observer from the next yield of
  the task on, not before.

  \<^bold>\<open>Bounds and fuel\<close>

  Loops of the code are structural recursion on the answers of the environment (chunks, attempts,
  events); \<open>execute_with_retry\<close> is a partial function with a theorem that it returns. No definition
  uses fuel without a theorem that the given amount suffices.

  \<^bold>\<open>Not modelled\<close>

  The sockets, TLS, HTTP and WebSocket protocols are those of \<open>reqwest\<close>, \<open>rustls\<close>, \<open>yawc\<close> and \<open>hickory\<close>:
  what they return is an argument of the step or function that waits for it, and so are clocks, the
  scheduler's choices and the codecs of \<open>serde\<close>, gzip and zstd. \<open>WsStream\<close> forwards to these libraries.
  Atomic operations are sequentially consistent. Between two awaits a request is one step but for
  what Transport_Races cuts; a subscription's box enters its table in the step that makes it; a waiter
  of tokio's mutex is handed the permit when it runs, not when the holder leaves.
  Conversions that \<open>napi\<close> and \<open>uniffi\<close> generate, tests and test support are left out. Of the crates'
  features the default ones are modelled.
\<close>

end
